(* ===== verification/Wgt_Prelude.thy ===== *)
theory Wgt_Prelude
  imports Main "HOL-Library.Word" "HOL-Library.Signed_Division"
begin

text \<open>
  Shared vocabulary of the development: Go's machine types, Go's error values, results of
  fallible code, Go's integer division, and the generic list and arithmetic lemmas that the
  component theories use. Nothing here models a file of the repository.
\<close>

section \<open>Machine types\<close>

type_synonym byte = "8 word"
type_synonym bytes = "byte list"
type_synonym u16 = "16 word"
type_synonym u32 = "32 word"
type_synonym u64 = "64 word"
type_synonym i64 = int \<comment> \<open>a Go int or int64; the wrap-around is written out where it matters\<close>
type_synonym duration = int \<comment> \<open>Go's time.Duration: nanoseconds\<close>
type_synonym instant = int \<comment> \<open>Go's time.Time: nanoseconds since the Unix epoch\<close>

text \<open>Reduction of an integer to the range of a signed 64-bit integer, as Go's \<open>int64\<close>
  arithmetic does it.\<close>

definition int64_wrap :: "int \<Rightarrow> int" where
  "int64_wrap i = (i + 2 ^ 63) mod 2 ^ 64 - 2 ^ 63"

definition int64_ok :: "int \<Rightarrow> bool" where
  "int64_ok i \<longleftrightarrow> - (2 ^ 63) \<le> i \<and> i < 2 ^ 63"

text \<open>Go truncates integer division towards zero and gives the remainder the sign of the
  dividend; division by zero panics and is never modelled by these two functions.\<close>

definition go_div :: "int \<Rightarrow> int \<Rightarrow> int" where
  "go_div a b = a sdiv b"

definition go_mod :: "int \<Rightarrow> int \<Rightarrow> int" where
  "go_mod a b = a smod b"

definition second :: duration where "second = 1000000000"
definition minute :: duration where "minute = 60 * second"

text \<open>The zero value of \<open>time.Time\<close>: 1 January of the year 1.\<close>

definition zero_time :: instant where
  "zero_time = - 62135596800 * second"

text \<open>\<open>t.Unix()\<close>: whole seconds, rounded towards minus infinity.\<close>

definition unix_seconds :: "instant \<Rightarrow> int" where
  "unix_seconds t = t div second"

section \<open>Errors\<close>

text \<open>
  A Go error is its text and the list of sentinel values that \<open>errors.Is\<close> finds in its
  chain of wrapped errors. \<open>fmt.Errorf\<close> with a \<open>%w\<close> verb puts text around the wrapped
  error's text and keeps its chain.
\<close>

datatype sentinel =
    ErrInvalidConfig | ErrAlreadyStarted | ErrNotStarted | ErrStartTimeout
  | ErrAuthFailure | ErrCaptchaRequired
  | ErrSrvInvalidConfig | ErrSrvAlreadyStarted | ErrSrvNotStarted
  | ErrCanceled | ErrDeadlineExceeded | ErrNetClosed | ErrOsClosed
  | ErrEOF | ErrUnexpectedEOF
  | ErrPeerExists | ErrPeerNotFound | ErrSubnetExhausted
  | ErrInvalidURL | ErrCaptchaChallenge | ErrHostSetupUnsupported
  | ErrVkInvalidLink | ErrYandexInvalidLink | ErrProcessDone

datatype go_error = GoError (err_text: string) (err_chain: "sentinel list")

type_synonym 'a res = "go_error + 'a"

definition errors_New :: "string \<Rightarrow> go_error" where
  "errors_New msg = GoError msg []"

definition wrapf :: "string \<Rightarrow> go_error \<Rightarrow> go_error" where
  "wrapf pre e = GoError (pre @ err_text e) (err_chain e)"

definition errors_Is :: "go_error \<Rightarrow> sentinel \<Rightarrow> bool" where
  "errors_Is e s \<longleftrightarrow> s \<in> set (err_chain e)"

definition is_err :: "'a res \<Rightarrow> bool" where
  "is_err r = (case r of Inl _ \<Rightarrow> True | Inr _ \<Rightarrow> False)"

text \<open>Sequencing of fallible calls: the early return on an error.\<close>

definition bind_res :: "'a res \<Rightarrow> ('a \<Rightarrow> 'b res) \<Rightarrow> 'b res" where
  "bind_res r f = (case r of Inl e \<Rightarrow> Inl e | Inr x \<Rightarrow> f x)"

named_theorems go_defs \<open>definitions of Go's library operations, to unfold on closed terms\<close>
named_theorems wgt_inv \<open>preservation of the components' invariants\<close>
named_theorems wgt_frame \<open>what an operation leaves unchanged\<close>

lemma bind_res_simps [simp]:
  "bind_res (Inl e) f = Inl e"
  "bind_res (Inr x) f = f x"
  by (simp_all add: bind_res_def)

lemma bind_res_Inr_iff:
  "bind_res r f = Inr y \<longleftrightarrow> (\<exists>x. r = Inr x \<and> f x = Inr y)"
  by (cases r) auto

lemma bind_res_Inl_iff:
  "bind_res r f = Inl e \<longleftrightarrow> r = Inl e \<or> (\<exists>x. r = Inr x \<and> f x = Inl e)"
  by (cases r) auto

lemma is_err_simps [simp]: "is_err (Inl e)" "\<not> is_err (Inr x)"
  by (simp_all add: is_err_def)

lemma wrapf_simps [simp]:
  "err_text (wrapf p e) = p @ err_text e"
  "err_chain (wrapf p e) = err_chain e"
  by (simp_all add: wrapf_def)

lemma errors_Is_wrapf [simp]: "errors_Is (wrapf p e) s = errors_Is e s"
  by (simp add: errors_Is_def)

lemma errors_New_simps [simp]:
  "err_text (errors_New m) = m" "err_chain (errors_New m) = []" "\<not> errors_Is (errors_New m) s"
  by (simp_all add: errors_New_def errors_Is_def)

section \<open>Arithmetic\<close>

lemma int64_wrap_id: "int64_ok i \<Longrightarrow> int64_wrap i = i"
  by (simp add: int64_ok_def int64_wrap_def)

lemma int64_wrap_ok: "int64_ok (int64_wrap i)"
proof -
  have "0 \<le> (i + 2 ^ 63) mod 2 ^ 64" and "(i + 2 ^ 63) mod 2 ^ 64 < (2::int) ^ 64"
    by simp_all
  then show ?thesis
    by (simp add: int64_ok_def int64_wrap_def)
qed

lemma go_div_nonneg: "0 \<le> a \<Longrightarrow> 0 < b \<Longrightarrow> go_div a b = a div b"
  by (simp add: go_div_def signed_divide_int_def sgn_if)

lemma go_mod_nonneg: "0 \<le> a \<Longrightarrow> 0 < b \<Longrightarrow> go_mod a b = a mod b"
  by (cases "a = 0") (simp_all add: go_mod_def signed_modulo_int_def)

lemma second_pos [simp]: "0 < second" by (simp add: second_def)

lemma second_nonzero [simp]: "second \<noteq> 0" by (simp add: second_def)

lemma unix_seconds_mult [simp]: "unix_seconds (n * second) = n" by (simp add: unix_seconds_def)

lemma zero_time_le [simp]: "0 \<le> t \<Longrightarrow> zero_time \<le> t" by (simp add: zero_time_def second_def)

lemma minute_pos [simp]: "0 < minute" by (simp add: minute_def)

section \<open>Lists\<close>

text \<open>Go's \<open>for i, e := range xs\<close> that stops at the first match: the index of the first
  element that satisfies a predicate.\<close>

fun find_index :: "('a \<Rightarrow> bool) \<Rightarrow> 'a list \<Rightarrow> nat option" where
  "find_index P [] = None"
| "find_index P (x # xs) = (if P x then Some 0 else map_option Suc (find_index P xs))"

lemma find_index_None [simp]: "find_index P xs = None \<longleftrightarrow> (\<forall>x \<in> set xs. \<not> P x)"
  by (induction xs) auto

lemma find_index_Some:
  "find_index P xs = Some i \<Longrightarrow> i < length xs \<and> P (xs ! i) \<and> (\<forall>j < i. \<not> P (xs ! j))"
proof (induction xs arbitrary: i)
  case Nil
  then show ?case by simp
next
  case (Cons x xs)
  show ?case
  proof (cases "P x")
    case True
    with Cons.prems show ?thesis by auto
  next
    case False
    with Cons.prems obtain k where k: "find_index P xs = Some k" "i = Suc k" by auto
    from Cons.IH [OF k(1)] k(2) False show ?thesis
      by (auto simp: nth_Cons split: nat.splits)
  qed
qed

lemma find_index_split:
  assumes "find_index P xs = Some i"
  shows "xs = take i xs @ xs ! i # drop (Suc i) xs"
  using find_index_Some [OF assms] by (simp add: id_take_nth_drop)

text \<open>Order-preserving delete: \<open>append(xs[:i], xs[i+1:]...)\<close>.\<close>

definition delete_at :: "nat \<Rightarrow> 'a list \<Rightarrow> 'a list" where
  "delete_at i xs = take i xs @ drop (Suc i) xs"

lemma set_delete_at_subset: "set (delete_at i xs) \<subseteq> set xs"
  by (auto simp: delete_at_def dest: in_set_takeD in_set_dropD)

lemma map_delete_at: "map f (delete_at i xs) = delete_at i (map f xs)"
  by (simp add: delete_at_def take_map drop_map)

lemma distinct_delete_at: "distinct xs \<Longrightarrow> distinct (delete_at i xs)"
  using set_take_disj_set_drop_if_distinct [of xs i "Suc i"]
  by (auto simp: delete_at_def)

lemma delete_at_nth_notin:
  assumes "distinct xs" and "i < length xs"
  shows "xs ! i \<notin> set (delete_at i xs)"
proof -
  have "xs = take i xs @ xs ! i # drop (Suc i) xs"
    using assms(2) by (simp add: id_take_nth_drop)
  then have "distinct (take i xs @ xs ! i # drop (Suc i) xs)"
    using assms(1) by metis
  then show ?thesis by (simp add: delete_at_def)
qed

lemma set_delete_at:
  assumes "distinct xs" and "i < length xs"
  shows "set (delete_at i xs) = set xs - {xs ! i}"
proof -
  have split: "xs = take i xs @ xs ! i # drop (Suc i) xs"
    using assms(2) by (simp add: id_take_nth_drop)
  have "set xs = insert (xs ! i) (set (delete_at i xs))"
    by (subst split) (auto simp: delete_at_def)
  with delete_at_nth_notin [OF assms] show ?thesis by auto
qed

lemma length_delete_at: "i < length xs \<Longrightarrow> length (delete_at i xs) = length xs - 1"
  by (auto simp: delete_at_def)

lemma map_list_update_same:
  assumes "f y = f (xs ! i)"
  shows "map f (xs[i := y]) = map f xs"
  using assms by (metis list_update_id map_update)

lemma nth_upd: "j < length xs \<Longrightarrow> xs[i := x] ! j = (if i = j then x else xs ! j)"
  by (simp add: nth_list_update)

end
