(* ===== verification/Lossy_Fifo.thy ===== *)
theory Lossy_Fifo
  imports Main "HOL-Library.Sublist"
begin

text \<open>
  The contract of the packet queues of the program: bounded channels with a drop on overflow
  between a producer and a consumer (the streams' transmit queues of \<open>internal/proxy\<close>, both
  directions of \<open>kernelBind\<close> in \<open>pkg/wgturnsrv\<close>). A component's steps are a function from an
  event and a state to the packets it delivered and the next state. The law of one step is that
  what was delivered and what is left is a subsequence of what was there and what was offered;
  the lemmas lift it to whole runs.
\<close>

text \<open>The final state of a run and the concatenation of its outputs.\<close>

fun run_state :: "('e \<Rightarrow> 's \<Rightarrow> 'o list \<times> 's) \<Rightarrow> 'e list \<Rightarrow> 's \<Rightarrow> 's" where
  "run_state f [] s = s"
| "run_state f (e # es) s = run_state f es (snd (f e s))"

fun run_outs :: "('e \<Rightarrow> 's \<Rightarrow> 'o list \<times> 's) \<Rightarrow> 'e list \<Rightarrow> 's \<Rightarrow> 'o list" where
  "run_outs f [] s = []"
| "run_outs f (e # es) s = fst (f e s) @ run_outs f es (snd (f e s))"

section \<open>A bounded, lossy, order-preserving queue\<close>

locale lossy_fifo =
  fixes step :: "'e \<Rightarrow> 's \<Rightarrow> 'p list \<times> 's"
    and offered :: "'e \<Rightarrow> 'p list"
    and contents :: "'s \<Rightarrow> 'p list"
    and cap :: nat
  assumes step_order: "subseq (fst (step e s) @ contents (snd (step e s))) (contents s @ offered e)"
    and step_cap: "length (contents s) \<le> cap \<Longrightarrow> length (contents (snd (step e s))) \<le> cap"
begin

lemma run_order:
  "subseq (run_outs step es s @ contents (run_state step es s)) (contents s @ concat (map offered es))"
proof (induction es arbitrary: s)
  case Nil
  then show ?case by simp
next
  case (Cons e es)
  let ?s1 = "snd (step e s)"
  have "subseq (run_outs step (e # es) s @ contents (run_state step (e # es) s))
      (fst (step e s) @ contents ?s1 @ concat (map offered es))"
    using Cons.IH [of ?s1] by (simp add: list_emb_append_mono)
  also have "subseq (fst (step e s) @ contents ?s1 @ concat (map offered es))
      (contents s @ offered e @ concat (map offered es))"
    using list_emb_append_mono [OF step_order [of e s], of "concat (map offered es)" "concat (map offered es)"]
    by simp
  finally show ?case by simp
qed

lemma run_delivers_subsequence:
  "contents s = [] \<Longrightarrow> subseq (run_outs step es s) (concat (map offered es))"
  using run_order [of es s] by (auto intro: subseq_order.trans prefix_imp_subseq)

lemma run_cap: "length (contents s) \<le> cap \<Longrightarrow> length (contents (run_state step es s)) \<le> cap"
  by (induction es arbitrary: s) (simp_all add: step_cap)

end

end
