(* ===== verification/Kernel_Bind.thy ===== *)
theory Kernel_Bind
  imports Wgt_Prelude Lossy_Fifo
begin

text \<open>
  The in-process backend, \<open>pkg/wgturnsrv/backend_kernel.go\<close>: \<open>WGKernelBackend\<close> with its single
  active session, the \<open>net.Conn\<close> it hands to the server, and \<open>kernelBind\<close> with its two bounded
  queues and its open generations. Channels are lists with the capacity written out; a Go
  \<open>select\<close> is the list of its ready cases, from which the argument \<open>ch\<close> picks one (no ready case
  means that the operation blocks and takes no step). Both directions meet the contract
  \<open>lossy_fifo\<close>; \<open>to_kernel\<close> and \<open>from_kernel\<close> are the interpretations.
\<close>

section \<open>Definitions\<close>

definition kernelBindQueueDepth :: nat where "kernelBindQueueDepth = 256"

definition errNetClosed :: go_error where
  "errNetClosed = GoError ''use of closed network connection'' [ErrNetClosed]"

definition errBindDeadline :: go_error where
  "errBindDeadline = GoError ''wgturnsrv: bind deadline exceeded'' []"

text \<open>\<open>openGen\<close> is the current generation, a pointer to a channel; \<open>genClosed\<close> are the generations
  whose channel is closed. A deadline is the stored time, \<open>None\<close> before the first store.\<close>

record kernel_bind =
  toKernel :: "bytes list"
  fromKernel :: "bytes list"
  openGen :: "nat option"
  genNext :: nat
  genClosed :: "nat set"
  readDdl :: "instant option"
  writeDdl :: "instant option"

definition newKernelBind :: kernel_bind where
  "newKernelBind = \<lparr>toKernel = [], fromKernel = [], openGen = None, genNext = 0, genClosed = {},
                    readDdl = None, writeDdl = None\<rparr>"

definition bind_Open :: "u16 \<Rightarrow> kernel_bind \<Rightarrow> (nat \<times> u16) \<times> kernel_bind" where
  "bind_Open port b =
     (let closed = (case openGen b of None \<Rightarrow> genClosed b | Some g \<Rightarrow> insert g (genClosed b));
          gen = genNext b
      in ((gen, if port = 0 then 1 else port),
          b\<lparr>openGen := Some gen, genNext := Suc gen, genClosed := closed\<rparr>))"

definition bind_Close :: "kernel_bind \<Rightarrow> kernel_bind" where
  "bind_Close b =
     (let gen = openGen b; b1 = b\<lparr>openGen := None\<rparr>
      in case gen of None \<Rightarrow> b1 | Some g \<Rightarrow> b1\<lparr>genClosed := insert g (genClosed b1)\<rparr>)"

text \<open>The \<open>ReceiveFunc\<close> of generation \<open>gen\<close>, with a buffer of \<open>bufLen\<close> bytes.\<close>

definition bind_recv_ready :: "nat \<Rightarrow> nat \<Rightarrow> kernel_bind \<Rightarrow> (bytes res \<times> kernel_bind) list" where
  "bind_recv_ready gen bufLen b =
     (if gen \<in> genClosed b then [(Inl errNetClosed, b)] else []) @
     (case toKernel b of [] \<Rightarrow> []
      | pkt # rest \<Rightarrow> [(Inr (take bufLen pkt), b\<lparr>toKernel := rest\<rparr>)])"

definition chan_push :: "bytes \<Rightarrow> bytes list \<Rightarrow> bytes list option" where
  "chan_push p q = (if length q < kernelBindQueueDepth then Some (q @ [p]) else None)"

fun bind_Send :: "bytes list \<Rightarrow> kernel_bind \<Rightarrow> kernel_bind" where
  "bind_Send [] b = b"
| "bind_Send (p # bufs) b =
     bind_Send bufs
       (if length p = 0 then b
        else case chan_push p (fromKernel b) of None \<Rightarrow> b | Some q \<Rightarrow> b\<lparr>fromKernel := q\<rparr>)"

definition deadline_fired :: "instant option \<Rightarrow> instant \<Rightarrow> bool" where
  "deadline_fired d now = (case d of None \<Rightarrow> False | Some t \<Rightarrow> t \<noteq> zero_time \<and> t \<le> now)"

text \<open>\<open>sendToKernel\<close>: the default case drops the packet and reports success.\<close>

definition sendToKernel_ready ::
  "bytes \<Rightarrow> bool \<Rightarrow> instant \<Rightarrow> kernel_bind \<Rightarrow> (go_error option \<times> kernel_bind) list" where
  "sendToKernel_ready p connClosed now b =
     (case chan_push p (toKernel b) of None \<Rightarrow> [] | Some q \<Rightarrow> [(None, b\<lparr>toKernel := q\<rparr>)]) @
     (if connClosed then [(Some errNetClosed, b)] else []) @
     (if deadline_fired (writeDdl b) now then [(Some errBindDeadline, b)] else [])"

definition sendToKernel ::
  "nat \<Rightarrow> bytes \<Rightarrow> bool \<Rightarrow> instant \<Rightarrow> kernel_bind \<Rightarrow> go_error option \<times> kernel_bind" where
  "sendToKernel ch p connClosed now b =
     (let ready = sendToKernel_ready p connClosed now b
      in if ready = [] then (None, b) else ready ! (ch mod length ready))"

definition recvFromKernel_ready :: "bool \<Rightarrow> instant \<Rightarrow> kernel_bind \<Rightarrow> (bytes res \<times> kernel_bind) list" where
  "recvFromKernel_ready connClosed now b =
     (if connClosed then [(Inl errNetClosed, b)] else []) @
     (case fromKernel b of [] \<Rightarrow> [] | pkt # rest \<Rightarrow> [(Inr pkt, b\<lparr>fromKernel := rest\<rparr>)]) @
     (if deadline_fired (readDdl b) now then [(Inl errBindDeadline, b)] else [])"

definition pick :: "nat \<Rightarrow> 'a list \<Rightarrow> 'a option" where
  "pick ch xs = (if xs = [] then None else Some (xs ! (ch mod length xs)))"

text \<open>A connection of the backend: open; its compare-and-swap done and \<open>release\<close> still to come;
  released. \<open>closed\<close> is set, and \<open>closeC\<close> closed, in the last two.\<close>

datatype kconn = KOpen | KClosing | KReleased

record kernel_backend =
  kb_bind :: kernel_bind
  kb_opened :: bool
  kb_conns :: "kconn list"

definition newWGKernelBackend :: kernel_backend where
  "newWGKernelBackend = \<lparr>kb_bind = newKernelBind, kb_opened = False, kb_conns = []\<rparr>"

definition backend_Open :: "kernel_backend \<Rightarrow> nat res \<times> kernel_backend" where
  "backend_Open k =
     (if kb_opened k
      then (Inl (errors_New ''wgturnsrv: WGKernelBackend already has an active session''), k)
      else (Inr (length (kb_conns k)), k\<lparr>kb_opened := True, kb_conns := kb_conns k @ [KOpen]\<rparr>))"

definition conn_Close :: "nat \<Rightarrow> kernel_backend \<Rightarrow> kernel_backend" where
  "conn_Close i k =
     (if kb_conns k ! i = KOpen then k\<lparr>kb_conns := (kb_conns k)[i := KClosing]\<rparr> else k)"

definition conn_release :: "nat \<Rightarrow> kernel_backend \<Rightarrow> kernel_backend" where
  "conn_release i k =
     (if kb_conns k ! i = KClosing
      then k\<lparr>kb_opened := False, kb_conns := (kb_conns k)[i := KReleased]\<rparr> else k)"

definition conn_closed :: "nat \<Rightarrow> kernel_backend \<Rightarrow> bool" where
  "conn_closed i k \<longleftrightarrow> kb_conns k ! i \<noteq> KOpen"

text \<open>\<open>Read\<close> into a buffer of \<open>bufLen\<close> bytes, \<open>None\<close> when it blocks. \<open>closed0\<close> is what the load of
  \<open>closed\<close> on entry returned; the connection may be closed by the time the select runs.\<close>

definition conn_Read ::
  "nat \<Rightarrow> bool \<Rightarrow> nat \<Rightarrow> nat \<Rightarrow> instant \<Rightarrow> kernel_backend \<Rightarrow> (bytes res \<times> kernel_backend) option" where
  "conn_Read ch closed0 i bufLen now k =
     (if closed0 then Some (Inl errNetClosed, k)
      else case pick ch (recvFromKernel_ready (conn_closed i k) now (kb_bind k)) of
             None \<Rightarrow> None
           | Some (Inl err, b) \<Rightarrow> Some (Inl err, k\<lparr>kb_bind := b\<rparr>)
           | Some (Inr pkt, b) \<Rightarrow> Some (Inr (take bufLen pkt), k\<lparr>kb_bind := b\<rparr>))"

definition conn_Write ::
  "nat \<Rightarrow> bool \<Rightarrow> nat \<Rightarrow> bytes \<Rightarrow> instant \<Rightarrow> kernel_backend \<Rightarrow> nat res \<times> kernel_backend" where
  "conn_Write ch closed0 i p now k =
     (if closed0 then (Inl errNetClosed, k)
      else case sendToKernel ch p (conn_closed i k) now (kb_bind k) of
             (Some err, b) \<Rightarrow> (Inl err, k\<lparr>kb_bind := b\<rparr>)
           | (None, b) \<Rightarrow> (Inr (length p), k\<lparr>kb_bind := b\<rparr>))"

definition set_deadlines :: "instant option \<Rightarrow> instant option \<Rightarrow> kernel_bind \<Rightarrow> kernel_bind" where
  "set_deadlines r w b =
     b\<lparr>readDdl := (case r of None \<Rightarrow> readDdl b | Some t \<Rightarrow> Some t),
       writeDdl := (case w of None \<Rightarrow> writeDdl b | Some t \<Rightarrow> Some t)\<rparr>"

text \<open>A history of the backend: the server's calls on its connections and the kernel's calls on
  the bind, in any order. \<open>nk\<close> and \<open>ns\<close> are the sizes of the kernel's and the server's read
  buffers; each event yields the packets it delivered to the kernel and to the server.\<close>

datatype kevent =
    KBackendOpen | KConnClose nat | KConnRelease nat
  | KRead nat bool nat instant | KWrite nat bool nat bytes instant
  | KDeadline "instant option" "instant option"
  | KBindOpen u16 | KBindClose | KSend "bytes list" | KRecv nat nat

definition got :: "bytes res \<Rightarrow> bytes list" where
  "got r = (case r of Inl _ \<Rightarrow> [] | Inr pkt \<Rightarrow> [pkt])"

fun kb_exec :: "nat \<Rightarrow> nat \<Rightarrow> kevent \<Rightarrow> kernel_backend \<Rightarrow> (bytes list \<times> bytes list) \<times> kernel_backend" where
  "kb_exec nk ns KBackendOpen k = (([], []), snd (backend_Open k))"
| "kb_exec nk ns (KConnClose i) k = (([], []), if i < length (kb_conns k) then conn_Close i k else k)"
| "kb_exec nk ns (KConnRelease i) k = (([], []), if i < length (kb_conns k) then conn_release i k else k)"
| "kb_exec nk ns (KRead ch c0 i now) k =
     (case conn_Read ch c0 i ns now k of
        None \<Rightarrow> (([], []), k)
      | Some (r, k') \<Rightarrow> (([], got r), k'))"
| "kb_exec nk ns (KWrite ch c0 i p now) k = (([], []), snd (conn_Write ch c0 i p now k))"
| "kb_exec nk ns (KDeadline r w) k = (([], []), k\<lparr>kb_bind := set_deadlines r w (kb_bind k)\<rparr>)"
| "kb_exec nk ns (KBindOpen port) k = (([], []), k\<lparr>kb_bind := snd (bind_Open port (kb_bind k))\<rparr>)"
| "kb_exec nk ns KBindClose k = (([], []), k\<lparr>kb_bind := bind_Close (kb_bind k)\<rparr>)"
| "kb_exec nk ns (KSend bufs) k = (([], []), k\<lparr>kb_bind := bind_Send bufs (kb_bind k)\<rparr>)"
| "kb_exec nk ns (KRecv ch gen) k =
     (case pick ch (bind_recv_ready gen nk (kb_bind k)) of
        None \<Rightarrow> (([], []), k)
      | Some (r, b) \<Rightarrow> ((got r, []), k\<lparr>kb_bind := b\<rparr>))"

text \<open>The packets a history offers to each direction.\<close>

fun kwrites :: "kevent \<Rightarrow> bytes list" where
  "kwrites (KWrite ch c0 i p now) = [p]"
| "kwrites _ = []"

fun ksends :: "kevent \<Rightarrow> bytes list" where
  "ksends (KSend bufs) = bufs"
| "ksends _ = []"

definition kernel_side :: "nat \<Rightarrow> nat \<Rightarrow> kevent \<Rightarrow> kernel_backend \<Rightarrow> bytes list \<times> kernel_backend" where
  "kernel_side nk ns e k = (fst (fst (kb_exec nk ns e k)), snd (kb_exec nk ns e k))"

definition server_side :: "nat \<Rightarrow> nat \<Rightarrow> kevent \<Rightarrow> kernel_backend \<Rightarrow> bytes list \<times> kernel_backend" where
  "server_side nk ns e k = (snd (fst (kb_exec nk ns e k)), snd (kb_exec nk ns e k))"

section \<open>The two directions\<close>

lemma chan_push_Some: "chan_push p q = Some q' \<longleftrightarrow> length q < kernelBindQueueDepth \<and> q' = q @ [p]"
  by (auto simp: chan_push_def)

lemma bind_Send_from:
  "subseq (fromKernel (bind_Send bufs b)) (fromKernel b @ bufs) \<and>
   toKernel (bind_Send bufs b) = toKernel b \<and>
   (length (fromKernel b) \<le> kernelBindQueueDepth \<longrightarrow>
      length (fromKernel (bind_Send bufs b)) \<le> kernelBindQueueDepth)"
proof (induction bufs arbitrary: b)
  case Nil
  then show ?case by simp
next
  case (Cons p bufs)
  let ?b1 = "if length p = 0 then b else case chan_push p (fromKernel b) of None \<Rightarrow> b
             | Some q \<Rightarrow> b\<lparr>fromKernel := q\<rparr>"
  have "subseq (fromKernel ?b1) (fromKernel b @ [p])"
    by (auto simp: chan_push_def)
  then have "subseq (fromKernel ?b1 @ bufs) (fromKernel b @ p # bufs)"
    using list_emb_append_mono [of "(=)" "fromKernel ?b1" "fromKernel b @ [p]" bufs bufs] by simp
  moreover have "toKernel ?b1 = toKernel b" by (simp split: option.splits)
  moreover have "length (fromKernel b) \<le> kernelBindQueueDepth \<Longrightarrow>
      length (fromKernel ?b1) \<le> kernelBindQueueDepth"
    by (auto simp: chan_push_def)
  ultimately show ?case
    using Cons.IH [of ?b1] by (auto intro: subseq_order.trans)
qed

lemma bind_lifecycle_queues [simp]:
  "toKernel (snd (bind_Open port b)) = toKernel b" "fromKernel (snd (bind_Open port b)) = fromKernel b"
  "toKernel (bind_Close b) = toKernel b" "fromKernel (bind_Close b) = fromKernel b"
  "toKernel (set_deadlines r w b) = toKernel b" "fromKernel (set_deadlines r w b) = fromKernel b"
  by (simp_all add: bind_Open_def bind_Close_def set_deadlines_def Let_def split: option.splits)

lemma conn_lifecycle_bind [simp]:
  "kb_bind (snd (backend_Open k)) = kb_bind k" "kb_bind (conn_Close i k) = kb_bind k"
  "kb_bind (conn_release i k) = kb_bind k"
  by (simp_all add: backend_Open_def conn_Close_def conn_release_def)

lemma pick_in: "pick ch xs = Some x \<Longrightarrow> x \<in> set xs"
  by (auto simp: pick_def split: if_splits)

lemma sendToKernel_ready_in:
  "x \<in> set (sendToKernel_ready p c now b) \<Longrightarrow>
   snd x = b \<or> length (toKernel b) < kernelBindQueueDepth \<and> snd x = b\<lparr>toKernel := toKernel b @ [p]\<rparr>"
  by (auto simp: sendToKernel_ready_def chan_push_def split: if_splits)

lemma sendToKernel_bind:
  "snd (sendToKernel ch p c now b) = b \<or>
   length (toKernel b) < kernelBindQueueDepth \<and>
   snd (sendToKernel ch p c now b) = b\<lparr>toKernel := toKernel b @ [p]\<rparr>"
proof (cases "sendToKernel_ready p c now b = []")
  case True
  then show ?thesis by (simp add: sendToKernel_def)
next
  case False
  then have "sendToKernel ch p c now b \<in> set (sendToKernel_ready p c now b)"
    by (simp add: sendToKernel_def Let_def)
  then show ?thesis by (rule sendToKernel_ready_in)
qed

lemma conn_Write_bind:
  "kb_bind (snd (conn_Write ch c0 i p now k)) = kb_bind k \<or>
   length (toKernel (kb_bind k)) < kernelBindQueueDepth \<and>
   kb_bind (snd (conn_Write ch c0 i p now k)) = (kb_bind k)\<lparr>toKernel := toKernel (kb_bind k) @ [p]\<rparr>"
proof (cases "sendToKernel ch p (conn_closed i k) now (kb_bind k)")
  case (Pair e b)
  then have "c0 \<or> kb_bind (snd (conn_Write ch c0 i p now k)) = b"
    by (auto simp: conn_Write_def split: option.splits)
  with sendToKernel_bind [of ch p "conn_closed i k" now "kb_bind k"] Pair show ?thesis
    by (auto simp: conn_Write_def)
qed

lemma conn_Read_bind:
  assumes "conn_Read ch c0 i n now k = Some (r, k')"
  shows "toKernel (kb_bind k') = toKernel (kb_bind k) \<and>
    map (take n) (fromKernel (kb_bind k)) = got r @ map (take n) (fromKernel (kb_bind k'))"
  using assms
  by (auto simp: conn_Read_def recvFromKernel_ready_def got_def
      split: if_splits option.splits prod.splits sum.splits list.splits dest!: pick_in)

lemma bind_recv_bind:
  assumes "pick ch (bind_recv_ready gen n b) = Some (r, b')"
  shows "fromKernel b' = fromKernel b \<and>
    map (take n) (toKernel b) = got r @ map (take n) (toKernel b')"
  using pick_in [OF assms]
  by (cases "toKernel b") (auto simp: bind_recv_ready_def got_def split: if_splits)

interpretation to_kernel: lossy_fifo "kernel_side nk ns" "\<lambda>e. map (take nk) (kwrites e)"
  "\<lambda>k. map (take nk) (toKernel (kb_bind k))" kernelBindQueueDepth for nk ns
proof
  fix e and k
  show "subseq (fst (kernel_side nk ns e k) @ map (take nk) (toKernel (kb_bind (snd (kernel_side nk ns e k)))))
      (map (take nk) (toKernel (kb_bind k)) @ map (take nk) (kwrites e))"
  proof (cases e)
    case (KWrite ch c0 i p now)
    show ?thesis
      using conn_Write_bind [of ch c0 i p now k] by (auto simp: KWrite kernel_side_def)
  next
    case (KRead ch c0 i now)
    then show ?thesis
      by (auto simp: kernel_side_def split: option.splits dest: conn_Read_bind)
  next
    case (KRecv ch gen)
    then show ?thesis
      by (auto simp: kernel_side_def split: option.splits dest: bind_recv_bind)
  qed (auto simp: kernel_side_def bind_Send_from)
  show "length (map (take nk) (toKernel (kb_bind k))) \<le> kernelBindQueueDepth \<Longrightarrow>
      length (map (take nk) (toKernel (kb_bind (snd (kernel_side nk ns e k))))) \<le> kernelBindQueueDepth"
  proof (cases e)
    case (KWrite ch c0 i p now)
    assume "length (map (take nk) (toKernel (kb_bind k))) \<le> kernelBindQueueDepth"
    then show ?thesis
      using conn_Write_bind [of ch c0 i p now k] by (auto simp: KWrite kernel_side_def)
  next
    case (KRead ch c0 i now)
    assume "length (map (take nk) (toKernel (kb_bind k))) \<le> kernelBindQueueDepth"
    with KRead show ?thesis
      by (auto simp: kernel_side_def split: option.splits dest: conn_Read_bind)
  next
    case (KRecv ch gen)
    assume "length (map (take nk) (toKernel (kb_bind k))) \<le> kernelBindQueueDepth"
    with KRecv show ?thesis
      by (auto simp: kernel_side_def split: option.splits dest!: bind_recv_bind dest: arg_cong [where f = length])
  qed (auto simp: kernel_side_def bind_Send_from)
qed

interpretation from_kernel: lossy_fifo "server_side nk ns" "\<lambda>e. map (take ns) (ksends e)"
  "\<lambda>k. map (take ns) (fromKernel (kb_bind k))" kernelBindQueueDepth for nk ns
proof
  fix e and k
  show "subseq (fst (server_side nk ns e k) @ map (take ns) (fromKernel (kb_bind (snd (server_side nk ns e k)))))
      (map (take ns) (fromKernel (kb_bind k)) @ map (take ns) (ksends e))"
  proof (cases e)
    case (KWrite ch c0 i p now)
    show ?thesis
      using conn_Write_bind [of ch c0 i p now k] by (auto simp: KWrite server_side_def)
  next
    case (KRead ch c0 i now)
    then show ?thesis
      by (auto simp: server_side_def split: option.splits dest: conn_Read_bind)
  next
    case (KRecv ch gen)
    then show ?thesis
      by (auto simp: server_side_def split: option.splits dest: bind_recv_bind)
  next
    case (KSend bufs)
    then show ?thesis
      using subseq_map [of "fromKernel (bind_Send bufs (kb_bind k))" "fromKernel (kb_bind k) @ bufs" "take ns"]
        bind_Send_from [of bufs "kb_bind k"]
      by (simp add: server_side_def)
  qed (auto simp: server_side_def)
  show "length (map (take ns) (fromKernel (kb_bind k))) \<le> kernelBindQueueDepth \<Longrightarrow>
      length (map (take ns) (fromKernel (kb_bind (snd (server_side nk ns e k))))) \<le> kernelBindQueueDepth"
  proof (cases e)
    case (KWrite ch c0 i p now)
    assume "length (map (take ns) (fromKernel (kb_bind k))) \<le> kernelBindQueueDepth"
    then show ?thesis
      using conn_Write_bind [of ch c0 i p now k] by (auto simp: KWrite server_side_def)
  next
    case (KRead ch c0 i now)
    assume "length (map (take ns) (fromKernel (kb_bind k))) \<le> kernelBindQueueDepth"
    with KRead show ?thesis
      by (auto simp: server_side_def split: option.splits dest!: conn_Read_bind dest: arg_cong [where f = length])
  next
    case (KRecv ch gen)
    assume "length (map (take ns) (fromKernel (kb_bind k))) \<le> kernelBindQueueDepth"
    with KRecv show ?thesis
      by (auto simp: server_side_def split: option.splits dest: bind_recv_bind)
  qed (auto simp: server_side_def bind_Send_from)
qed

text \<open>C15: Both directions of the in-process bridge are order-preserving, lossy and bounded. Over
  any history that starts with a fresh backend, the packets the kernel receives are a
  subsequence of the packets the server wrote, and the packets the server reads are a
  subsequence of those the kernel sent, each cut to the reader's buffer: nothing is reordered,
  duplicated or made up; and neither queue ever holds more than 256 packets.\<close>

theorem kernel_bridge_fifo:
  "subseq (run_outs (kernel_side nk ns) es newWGKernelBackend) (map (take nk) (concat (map kwrites es))) \<and>
   subseq (run_outs (server_side nk ns) es newWGKernelBackend) (map (take ns) (concat (map ksends es))) \<and>
   length (toKernel (kb_bind (run_state (kernel_side nk ns) es newWGKernelBackend))) \<le> kernelBindQueueDepth \<and>
   length (fromKernel (kb_bind (run_state (server_side nk ns) es newWGKernelBackend))) \<le> kernelBindQueueDepth"
  using to_kernel.run_delivers_subsequence [where s = newWGKernelBackend and nk = nk and ns = ns and es = es]
    from_kernel.run_delivers_subsequence [where s = newWGKernelBackend and nk = nk and ns = ns and es = es]
    to_kernel.run_cap [where s = newWGKernelBackend and nk = nk and ns = ns and es = es]
    from_kernel.run_cap [where s = newWGKernelBackend and nk = nk and ns = ns and es = es]
  by (simp add: newWGKernelBackend_def newKernelBind_def map_concat comp_def)

section \<open>One active session\<close>

definition one_session :: "kernel_backend \<Rightarrow> bool" where
  "one_session k \<longleftrightarrow>
     (kb_opened k \<longleftrightarrow> (\<exists>c \<in> set (kb_conns k). c \<noteq> KReleased)) \<and>
     length (filter (\<lambda>c. c \<noteq> KReleased) (kb_conns k)) \<le> 1"

lemma one_session_update:
  assumes "i < length cs" and "cs ! i \<noteq> KReleased" and "length (filter (\<lambda>c. c \<noteq> KReleased) cs) \<le> 1"
  shows "filter (\<lambda>c. c \<noteq> KReleased) (cs[i := x]) = filter (\<lambda>c. c \<noteq> KReleased) [x]"
proof -
  have cs: "cs = take i cs @ cs ! i # drop (Suc i) cs" using assms(1) by (simp add: id_take_nth_drop)
  have "length (filter (\<lambda>c. c \<noteq> KReleased) (take i cs @ cs ! i # drop (Suc i) cs)) \<le> 1"
    using assms(3) cs by simp
  then have "filter (\<lambda>c. c \<noteq> KReleased) (take i cs) = []" "filter (\<lambda>c. c \<noteq> KReleased) (drop (Suc i) cs) = []"
    using assms(2) by auto
  then show ?thesis using assms(1) by (simp add: upd_conv_take_nth_drop)
qed

lemma filter_released_ex: "(\<exists>c \<in> set cs. c \<noteq> KReleased) \<longleftrightarrow> filter (\<lambda>c. c \<noteq> KReleased) cs \<noteq> []"
  by (auto simp: filter_empty_conv)

lemma one_session_bind [simp]: "one_session (k\<lparr>kb_bind := b\<rparr>) = one_session k"
  by (simp add: one_session_def)

lemma one_session_exec: "one_session k \<Longrightarrow> one_session (snd (kb_exec nk ns e k))"
proof (cases e)
  case KBackendOpen
  assume "one_session k"
  with KBackendOpen show ?thesis
    by (auto simp: one_session_def backend_Open_def filter_released_ex)
next
  case (KConnClose i)
  assume "one_session k"
  with KConnClose one_session_update [of i "kb_conns k" KClosing] show ?thesis
    by (auto simp: one_session_def conn_Close_def filter_released_ex) (metis (mono_tags) filter_empty_conv kconn.distinct(3) nth_mem)
next
  case (KConnRelease i)
  assume "one_session k"
  with KConnRelease one_session_update [of i "kb_conns k" KReleased] show ?thesis
    by (auto simp: one_session_def conn_release_def filter_released_ex)
qed (auto simp: conn_Read_def conn_Write_def split: if_splits option.splits prod.splits sum.splits)

text \<open>One session at a time. After any history at most one connection of the backend is not
  released; \<open>Open\<close> succeeds exactly when every earlier connection has been closed and released,
  and otherwise fails without changing anything, so a late \<open>release\<close> never re-arms the backend
  under a running session.\<close>

theorem kernel_backend_single_session:
  "let k = run_state (kernel_side nk ns) es newWGKernelBackend
   in length (filter (\<lambda>c. c \<noteq> KReleased) (kb_conns k)) \<le> 1 \<and>
      (\<not> is_err (fst (backend_Open k)) \<longleftrightarrow> list_all (\<lambda>c. c = KReleased) (kb_conns k)) \<and>
      (is_err (fst (backend_Open k)) \<longleftrightarrow> snd (backend_Open k) = k)"
proof -
  have "one_session k \<Longrightarrow> one_session (run_state (kernel_side nk ns) es k)" for k
    by (induction es arbitrary: k) (simp_all add: kernel_side_def one_session_exec)
  then have "one_session (run_state (kernel_side nk ns) es newWGKernelBackend)"
    by (simp add: one_session_def newWGKernelBackend_def)
  moreover have "k\<lparr>kb_opened := True, kb_conns := kb_conns k @ [KOpen]\<rparr> \<noteq> k" for k :: kernel_backend
    by (metis append_self_conv list.distinct(1) kernel_backend.select_convs(3) kernel_backend.surjective kernel_backend.update_convs(3))
  ultimately show ?thesis
    by (auto simp: Let_def one_session_def backend_Open_def list_all_iff)
qed

end
