(* ===== verification/Go_Strings.thy ===== *)
theory Go_Strings
  imports Wgt_Prelude "HOL-Library.Sublist"
begin

text \<open>
  What the repository uses of Go's \<open>strings\<close>, \<open>strconv\<close>, \<open>bufio\<close> and \<open>net\<close>
  packages, on strings of ASCII bytes: white space and case are those of ASCII, so Unicode
  white space and Unicode case folding are outside the model. The lemmas are the facts the
  parsers' proofs share: trimming, prefixes, splitting, and that \<open>strconv.Atoi\<close> reads back
  what \<open>%d\<close> prints.
\<close>

section \<open>Definitions\<close>

subsection \<open>Package strings\<close>

definition is_space :: "char \<Rightarrow> bool" where
  "is_space c \<longleftrightarrow> c \<in> {CHR '' '', CHR 0x09, CHR 0x0A, CHR 0x0B, CHR 0x0C, CHR 0x0D}"

definition trim_space :: "string \<Rightarrow> string" where
  "trim_space s = rev (dropWhile is_space (rev (dropWhile is_space s)))"

definition char_lower :: "char \<Rightarrow> char" where
  "char_lower c =
     (let n = (of_char c :: nat) in if 65 \<le> n \<and> n \<le> 90 then char_of (n + 32) else c)"

definition to_lower :: "string \<Rightarrow> string" where
  "to_lower s = map char_lower s"

definition equal_fold :: "string \<Rightarrow> string \<Rightarrow> bool" where
  "equal_fold a b \<longleftrightarrow> to_lower a = to_lower b"

definition has_prefix :: "string \<Rightarrow> string \<Rightarrow> bool" where
  "has_prefix s p \<longleftrightarrow> take (length p) s = p"

definition has_suffix :: "string \<Rightarrow> string \<Rightarrow> bool" where
  "has_suffix s p \<longleftrightarrow> length p \<le> length s \<and> drop (length s - length p) s = p"

definition trim_prefix :: "string \<Rightarrow> string \<Rightarrow> string" where
  "trim_prefix s p = (if has_prefix s p then drop (length p) s else s)"

definition cut_prefix :: "string \<Rightarrow> string \<Rightarrow> string option" where
  "cut_prefix s p = (if has_prefix s p then Some (drop (length p) s) else None)"

fun str_contains :: "string \<Rightarrow> string \<Rightarrow> bool" where
  "str_contains [] sub = (sub = [])"
| "str_contains (c # s) sub = (has_prefix (c # s) sub \<or> str_contains s sub)"

definition index_byte :: "string \<Rightarrow> char \<Rightarrow> nat option" where
  "index_byte s c = find_index (\<lambda>x. x = c) s"

definition last_index_byte :: "string \<Rightarrow> char \<Rightarrow> nat option" where
  "last_index_byte s c = map_option (\<lambda>i. length s - 1 - i) (find_index (\<lambda>x. x = c) (rev s))"

text \<open>\<open>strings.FieldsFunc\<close>: the maximal runs of characters that do not satisfy the
  predicate. The accumulator is the run being read.\<close>

fun fields_acc :: "(char \<Rightarrow> bool) \<Rightarrow> string \<Rightarrow> string \<Rightarrow> string list" where
  "fields_acc P acc [] = (if acc = [] then [] else [acc])"
| "fields_acc P acc (c # s) =
     (if P c then (if acc = [] then fields_acc P [] s else acc # fields_acc P [] s)
      else fields_acc P (acc @ [c]) s)"

definition fields_func :: "(char \<Rightarrow> bool) \<Rightarrow> string \<Rightarrow> string list" where
  "fields_func P s = fields_acc P [] s"

text \<open>\<open>strings.Split\<close> at a one-byte separator and \<open>strings.Join\<close>.\<close>

fun split_acc :: "char \<Rightarrow> string \<Rightarrow> string \<Rightarrow> string list" where
  "split_acc d acc [] = [acc]"
| "split_acc d acc (c # s) = (if c = d then acc # split_acc d [] s else split_acc d (acc @ [c]) s)"

definition str_split :: "char \<Rightarrow> string \<Rightarrow> string list" where
  "str_split d s = split_acc d [] s"

fun str_join :: "string \<Rightarrow> string list \<Rightarrow> string" where
  "str_join sep [] = []"
| "str_join sep [x] = x"
| "str_join sep (x # y # ys) = x @ sep @ str_join sep (y # ys)"

subsection \<open>Package bufio: the line scanner\<close>

definition newline :: char where "newline = CHR 0x0A"

text \<open>\<open>bufio.ScanLines\<close> drops one trailing carriage return of a line; a last line
  without a newline is returned when it is not empty.\<close>

definition drop_cr :: "string \<Rightarrow> string" where
  "drop_cr l = (if l \<noteq> [] \<and> last l = CHR 0x0D then butlast l else l)"

definition scan_lines :: "string \<Rightarrow> string list" where
  "scan_lines s =
     (let ls = str_split newline s in map drop_cr (if last ls = [] then butlast ls else ls))"

text \<open>A scanner with a buffer limit: the lines before the first one that does not fit, and whether
  there is such a line (\<open>bufio.ErrTooLong\<close>).\<close>

definition scan_max :: "nat \<Rightarrow> string \<Rightarrow> string list \<times> bool" where
  "scan_max n s =
     (let ls = str_split newline s; ls1 = (if last ls = [] then butlast ls else ls);
          ok = takeWhile (\<lambda>l. length l < n) ls1
      in (map drop_cr ok, length ok < length ls1))"

definition errTooLong :: go_error where
  "errTooLong = errors_New ''bufio.Scanner: token too long''"

subsection \<open>Package strconv and the verb d of package fmt\<close>

definition digit_val :: "char \<Rightarrow> nat option" where
  "digit_val c = (let n = (of_char c :: nat) in if 48 \<le> n \<and> n \<le> 57 then Some (n - 48) else None)"

fun digits_acc :: "nat \<Rightarrow> string \<Rightarrow> nat option" where
  "digits_acc acc [] = Some acc"
| "digits_acc acc (c # s) =
     (case digit_val c of None \<Rightarrow> None | Some d \<Rightarrow> digits_acc (acc * 10 + d) s)"

definition parse_digits :: "string \<Rightarrow> nat option" where
  "parse_digits s = (if s = [] then None else digits_acc 0 s)"

text \<open>\<open>strconv.Atoi\<close> on a 64-bit platform: an optional sign, decimal digits, and the
  range of \<open>int64\<close>.\<close>

definition atoi :: "string \<Rightarrow> int option" where
  "atoi s =
     (let (neg, ds) =
        (case s of [] \<Rightarrow> (False, [])
         | c # t \<Rightarrow> if c = CHR ''-'' then (True, t) else if c = CHR ''+'' then (False, t)
                  else (False, s))
      in case parse_digits ds of
           None \<Rightarrow> None
         | Some n \<Rightarrow> (let i = (if neg then - int n else int n)
                     in if int64_ok i then Some i else None))"

text \<open>\<open>strconv.ParseUint\<close> in base 10 with a bit size: no sign is accepted.\<close>

definition parse_uint :: "nat \<Rightarrow> string \<Rightarrow> nat option" where
  "parse_uint w s =
     (case parse_digits s of None \<Rightarrow> None | Some n \<Rightarrow> if n < 2 ^ w then Some n else None)"

definition digit_char :: "nat \<Rightarrow> char" where
  "digit_char d = char_of (48 + d)"

fun show_nat :: "nat \<Rightarrow> string" where
  "show_nat n = (if n < 10 then [digit_char n] else show_nat (n div 10) @ [digit_char (n mod 10)])"

declare show_nat.simps [simp del]

definition show_int :: "int \<Rightarrow> string" where
  "show_int i = (if i < 0 then CHR ''-'' # show_nat (nat (- i)) else show_nat (nat i))"

text \<open>\<open>fmt\<close>'s \<open>%q\<close> on ASCII text: double quotes, with the escapes of \<open>strconv.Quote\<close>.\<close>

definition quote_char :: "char \<Rightarrow> string" where
  "quote_char c =
     (let n = of_char c :: nat; hex = (\<lambda>d. ''0123456789abcdef'' ! d) in
      if n = 34 then [CHR 0x5C, CHR 0x22] else if n = 92 then [CHR 0x5C, CHR 0x5C]
      else if n = 7 then [CHR 0x5C, CHR ''a''] else if n = 8 then [CHR 0x5C, CHR ''b'']
      else if n = 9 then [CHR 0x5C, CHR ''t''] else if n = 10 then [CHR 0x5C, CHR ''n'']
      else if n = 11 then [CHR 0x5C, CHR ''v''] else if n = 12 then [CHR 0x5C, CHR ''f'']
      else if n = 13 then [CHR 0x5C, CHR ''r'']
      else if n < 32 \<or> n = 127 then [CHR 0x5C, CHR ''x'', hex (n div 16), hex (n mod 16)]
      else [c])"

definition quoted :: "string \<Rightarrow> string" where
  "quoted s = CHR 0x22 # concat (map quote_char s) @ [CHR 0x22]"

subsection \<open>Package net: host and port\<close>

text \<open>\<open>net.SplitHostPort\<close>. The port follows the last colon; a host that contains a colon
  must be in square brackets; no other bracket may occur. Every failure is one error here.\<close>

definition split_host_port :: "string \<Rightarrow> (string \<times> string) option" where
  "split_host_port hp =
     (case last_index_byte hp (CHR '':'') of
        None \<Rightarrow> None
      | Some i \<Rightarrow>
          (if has_prefix hp ''['' then
             (case index_byte hp (CHR '']'') of
                None \<Rightarrow> None
              | Some e \<Rightarrow>
                  (if e + 1 = length hp \<or> e + 1 \<noteq> i then None
                   else (let host = take (e - 1) (drop 1 hp); port = drop (i + 1) hp in
                         if CHR ''['' \<in> set (drop 1 hp) \<or> CHR '']'' \<in> set (drop (e + 1) hp)
                         then None else Some (host, port))))
           else
             (let host = take i hp; port = drop (i + 1) hp in
              if CHR '':'' \<in> set host then None
              else if CHR ''['' \<in> set hp \<or> CHR '']'' \<in> set hp then None
              else Some (host, port))))"

definition join_host_port :: "string \<Rightarrow> string \<Rightarrow> string" where
  "join_host_port host port =
     (if CHR '':'' \<in> set host then ''['' @ host @ '']:'' @ port else host @ '':'' @ port)"

section \<open>Lemmas\<close>

subsection \<open>Trimming and prefixes\<close>

lemma dropWhile_eq_self: "dropWhile P xs = xs \<longleftrightarrow> xs = [] \<or> \<not> P (hd xs)"
  by (cases xs) (auto simp: dropWhile_eq_Cons_conv dest: arg_cong [where f = length])

lemma trim_space_Nil [simp]: "trim_space [] = []"
  by (simp add: trim_space_def)

lemma trim_space_id:
  assumes "s = [] \<or> \<not> is_space (hd s) \<and> \<not> is_space (last s)"
  shows "trim_space s = s"
proof (cases "s = []")
  case True
  then show ?thesis by simp
next
  case False
  with assms have "dropWhile is_space s = s" and "dropWhile is_space (rev s) = rev s"
    by (simp_all add: dropWhile_eq_self hd_rev)
  then show ?thesis by (simp add: trim_space_def)
qed

lemma trim_space_ends:
  "trim_space s \<noteq> [] \<Longrightarrow> \<not> is_space (hd (trim_space s)) \<and> \<not> is_space (last (trim_space s))"
proof -
  assume ne: "trim_space s \<noteq> []"
  define t where "t = dropWhile is_space s"
  define r where "r = dropWhile is_space (rev t)"
  have ts: "trim_space s = rev r" by (simp add: trim_space_def t_def r_def)
  with ne have rne: "r \<noteq> []" by simp
  then have hr: "\<not> is_space (hd r)" unfolding r_def by (rule hd_dropWhile)
  have "\<exists>zs. rev t = zs @ r"
    unfolding r_def using takeWhile_dropWhile_id [of is_space "rev t"] by metis
  then obtain zs where "rev t = zs @ r" by blast
  then have t: "t = rev r @ rev zs" by (metis rev_append rev_rev_ident)
  with rne have "t \<noteq> []" by simp
  then have "\<not> is_space (hd t)" unfolding t_def by (rule hd_dropWhile)
  with t rne have "\<not> is_space (hd (rev r))" by (simp add: hd_append)
  with hr ts rne show ?thesis by (simp add: last_rev)
qed

lemma trim_space_idem [simp]: "trim_space (trim_space s) = trim_space s"
  using trim_space_ends [of s] by (intro trim_space_id) blast

lemma set_trim_space: "set (trim_space s) \<subseteq> set s"
  by (auto simp: trim_space_def dest!: set_dropWhileD)

lemma length_trim_space: "length (trim_space s) \<le> length s"
  unfolding trim_space_def
  by (metis length_dropWhile_le length_rev order_trans)

lemma dropWhile_prepend_all: "\<forall>x \<in> set xs. P x \<Longrightarrow> dropWhile P (xs @ ys) = dropWhile P ys"
  by (induction xs) auto

lemma trim_space_prepend: "is_space c \<Longrightarrow> trim_space (c # s) = trim_space s"
  by (simp add: trim_space_def)

lemma has_prefix_append [simp]: "has_prefix (p @ s) p"
  by (simp add: has_prefix_def)

lemma has_prefix_iff: "has_prefix s p \<longleftrightarrow> (\<exists>t. s = p @ t)"
  unfolding has_prefix_def by (metis append_eq_conv_conj append_take_drop_id)

lemma has_prefix_Cons [simp]: "has_prefix (c # s) (d # p) \<longleftrightarrow> c = d \<and> has_prefix s p"
  by (auto simp: has_prefix_def)

lemma has_prefix_Nil [simp]: "has_prefix s []" "has_prefix [] (d # p) = False"
  by (simp_all add: has_prefix_def)

lemma cut_prefix_append [simp]: "cut_prefix (p @ s) p = Some s"
  by (simp add: cut_prefix_def)

lemma str_contains_iff: "str_contains s sub \<longleftrightarrow> (\<exists>a b. s = a @ sub @ b)"
proof (induction s)
  case Nil
  then show ?case by auto
next
  case (Cons c s)
  show ?case
  proof
    assume "str_contains (c # s) sub"
    then consider "has_prefix (c # s) sub" | "str_contains s sub" by auto
    then show "\<exists>a b. c # s = a @ sub @ b"
    proof cases
      case 1
      then obtain t where "c # s = [] @ sub @ t" by (auto simp: has_prefix_iff)
      then show ?thesis by blast
    next
      case 2
      then obtain a b where "s = a @ sub @ b" using Cons.IH by blast
      then have "c # s = (c # a) @ sub @ b" by simp
      then show ?thesis by blast
    qed
  next
    assume "\<exists>a b. c # s = a @ sub @ b"
    then obtain a b where ab: "c # s = a @ sub @ b" by blast
    show "str_contains (c # s) sub"
    proof (cases a)
      case Nil
      with ab have "has_prefix (c # s) sub" by (auto simp: has_prefix_iff)
      then show ?thesis by simp
    next
      case (Cons x xs)
      with ab have "s = xs @ sub @ b" by simp
      then have "str_contains s sub" using Cons.IH by blast
      then show ?thesis by simp
    qed
  qed
qed

lemma to_lower_append [simp]: "to_lower (a @ b) = to_lower a @ to_lower b"
  by (simp add: to_lower_def)

lemma length_to_lower [simp]: "length (to_lower s) = length s"
  by (simp add: to_lower_def)

lemma char_lower_idem [simp]: "char_lower (char_lower c) = char_lower c"
proof (cases "65 \<le> (of_char c :: nat) \<and> (of_char c :: nat) \<le> 90")
  case True
  then have "(of_char (char_lower c) :: nat) = of_char c + 32"
    by (simp add: char_lower_def Let_def)
  with True show ?thesis by (simp add: char_lower_def Let_def)
next
  case False
  then have "char_lower c = c" by (auto simp: char_lower_def Let_def)
  then show ?thesis by simp
qed

lemma to_lower_idem [simp]: "to_lower (to_lower s) = to_lower s"
  by (simp add: to_lower_def)

subsection \<open>Splitting\<close>

lemma index_byte_None [simp]: "index_byte s c = None \<longleftrightarrow> c \<notin> set s"
  by (auto simp: index_byte_def)

lemma index_byte_append:
  "c \<notin> set a \<Longrightarrow> index_byte (a @ c # b) c = Some (length a)"
  by (induction a) (auto simp: index_byte_def)

lemma split_acc_no_sep: "d \<notin> set s \<Longrightarrow> split_acc d acc s = [acc @ s]"
  by (induction s arbitrary: acc) auto

lemma split_acc_sep: "d \<notin> set a \<Longrightarrow> split_acc d acc (a @ d # b) = (acc @ a) # split_acc d [] b"
  by (induction a arbitrary: acc) auto

lemma str_split_sep: "d \<notin> set a \<Longrightarrow> str_split d (a @ d # b) = a # str_split d b"
  by (simp add: str_split_def split_acc_sep)

lemma split_acc_not_Nil [simp]: "split_acc d acc s \<noteq> []"
  by (induction s arbitrary: acc) auto

lemma str_split_not_Nil [simp]: "str_split d s \<noteq> []"
  by (simp add: str_split_def)

lemma fields_acc_ne: "x \<in> set (fields_acc P acc s) \<Longrightarrow> x \<noteq> []"
  by (induction P acc s rule: fields_acc.induct) (auto split: if_splits)

lemma fields_func_ne: "x \<in> set (fields_func P s) \<Longrightarrow> x \<noteq> []"
  unfolding fields_func_def by (rule fields_acc_ne)

lemma fields_acc_sep_free:
  "x \<in> set (fields_acc P acc s) \<Longrightarrow> \<forall>c \<in> set acc. \<not> P c \<Longrightarrow> \<forall>c \<in> set x. \<not> P c"
proof (induction s arbitrary: acc)
  case Nil
  then show ?case by (auto split: if_splits)
next
  case (Cons d s)
  show ?case
  proof (cases "P d")
    case True
    with Cons.prems have "x = acc \<or> x \<in> set (fields_acc P [] s)" by (auto split: if_splits)
    with Cons.IH [of "[]"] Cons.prems(2) show ?thesis by auto
  next
    case False
    with Cons.IH [of "acc @ [d]"] Cons.prems show ?thesis by auto
  qed
qed

lemma fields_func_sep_free: "x \<in> set (fields_func P s) \<Longrightarrow> c \<in> set x \<Longrightarrow> \<not> P c"
  unfolding fields_func_def using fields_acc_sep_free [of x P "[]" s] by auto

text \<open>Reading lines back: printing each line with a newline and scanning gives the lines,
  when none contains a newline or ends in a carriage return.\<close>

definition line_ok :: "string \<Rightarrow> bool" where
  "line_ok l \<longleftrightarrow> newline \<notin> set l \<and> (l = [] \<or> last l \<noteq> CHR 0x0D)"

definition unlines :: "string list \<Rightarrow> string" where
  "unlines ls = concat (map (\<lambda>l. l @ [newline]) ls)"

lemma drop_cr_line_ok: "line_ok l \<Longrightarrow> drop_cr l = l"
  by (auto simp: line_ok_def drop_cr_def)

lemma str_split_unlines:
  "\<forall>l \<in> set ls. newline \<notin> set l \<Longrightarrow> str_split newline (unlines ls) = ls @ [[]]"
proof (induction ls)
  case Nil
  then show ?case by (simp add: unlines_def str_split_def)
next
  case (Cons l ls)
  have "unlines (l # ls) = l @ newline # unlines ls" by (simp add: unlines_def)
  with Cons show ?case by (simp add: str_split_sep)
qed

lemma scan_lines_unlines: "\<forall>l \<in> set ls. line_ok l \<Longrightarrow> scan_lines (unlines ls) = ls"
  by (simp add: scan_lines_def str_split_unlines line_ok_def drop_cr_line_ok map_idI)

lemma scan_max_unlines:
  assumes "\<forall>l \<in> set ls. line_ok l \<and> length l < n"
  shows "scan_max n (unlines ls) = (ls, False)"
proof -
  have tw: "takeWhile (\<lambda>l. length l < n) ls = ls" using assms by (simp add: takeWhile_eq_all_conv)
  have "\<forall>l \<in> set ls. newline \<notin> set l" using assms by (simp add: line_ok_def)
  moreover have "map drop_cr ls = ls" using assms by (simp add: map_idI drop_cr_line_ok)
  ultimately show ?thesis by (simp add: scan_max_def str_split_unlines tw)
qed

lemma split_acc_parts:
  "x \<in> set (split_acc d acc s) \<Longrightarrow> d \<notin> set acc \<Longrightarrow> set x \<subseteq> set acc \<union> set s \<and> d \<notin> set x"
proof (induction s arbitrary: acc)
  case (Cons c s)
  show ?case
  proof (cases "c = d")
    case True
    then have "x = acc \<or> x \<in> set (split_acc d [] s)" using Cons.prems(1) by simp
    with Cons.IH [of "[]"] Cons.prems(2) show ?thesis by auto
  next
    case False
    with Cons.IH [of "acc @ [c]"] Cons.prems show ?thesis by auto
  qed
qed simp

lemma str_split_parts: "x \<in> set (str_split d s) \<Longrightarrow> set x \<subseteq> set s \<and> d \<notin> set x"
  using split_acc_parts [of x d "[]" s] by (simp add: str_split_def)

text \<open>The lines a scanner reads from a text without carriage returns.\<close>

lemma scan_max_lines:
  assumes "scan_max n s = (ls, t)" and "CHR 0x0D \<notin> set s" and "l \<in> set ls"
  shows "line_ok l \<and> length l < n \<and> CHR 0x0D \<notin> set l"
proof -
  define ls1 where "ls1 = (if last (str_split newline s) = [] then butlast (str_split newline s) else str_split newline s)"
  obtain l0 where l0: "l0 \<in> set (takeWhile (\<lambda>l. length l < n) ls1)" "l = drop_cr l0"
    using assms(1,3) by (auto simp: scan_max_def ls1_def Let_def)
  then have "length l0 < n" "l0 \<in> set ls1" by (auto dest: set_takeWhileD)
  then have "l0 \<in> set (str_split newline s)"
    by (auto simp: ls1_def dest: in_set_butlastD split: if_splits)
  then have "set l0 \<subseteq> set s" "newline \<notin> set l0" using str_split_parts by blast+
  moreover from this have "CHR 0x0D \<notin> set l0" using assms(2) by blast
  ultimately have "line_ok l0" by (metis last_in_set line_ok_def)
  with \<open>length l0 < n\<close> \<open>CHR 0x0D \<notin> set l0\<close> l0(2) show ?thesis by (simp add: drop_cr_line_ok)
qed

subsection \<open>Numbers\<close>

lemma digit_val_char: "d < 10 \<Longrightarrow> digit_val (digit_char d) = Some d"
  by (simp add: digit_val_def digit_char_def Let_def)

lemma digits_acc_append:
  "digits_acc acc (s @ t) = (case digits_acc acc s of None \<Rightarrow> None | Some n \<Rightarrow> digits_acc n t)"
  by (induction s arbitrary: acc) (auto split: option.splits)

lemma show_nat_not_Nil [simp]: "show_nat n \<noteq> []"
  by (subst show_nat.simps) simp

lemma digits_acc_show_nat: "digits_acc 0 (show_nat n) = Some n"
proof (induction n rule: show_nat.induct)
  case (1 n)
  show ?case
  proof (cases "n < 10")
    case True
    then show ?thesis by (simp add: show_nat.simps [of n] digit_val_char)
  next
    case False
    with "1.IH" show ?thesis
      by (simp add: show_nat.simps [of n] digits_acc_append digit_val_char)
  qed
qed

lemma hd_show_nat: "0 < n \<Longrightarrow> hd (show_nat n) \<noteq> CHR ''0''"
proof (induction n rule: show_nat.induct)
  case (1 n)
  show ?case
  proof (cases "n < 10")
    case True
    have "digit_val (digit_char n) = Some n" using True by (simp add: digit_val_char)
    with 1(2) True show ?thesis by (subst show_nat.simps) (auto simp: digit_val_def)
  next
    case False
    then have "hd (show_nat n) = hd (show_nat (n div 10))"
      by (subst show_nat.simps) (simp add: hd_append)
    with 1(1) [OF False] False show ?thesis by simp
  qed
qed

lemma show_nat_0: "show_nat 0 = ''0''"
  by code_simp

lemma parse_digits_show_nat [simp]: "parse_digits (show_nat n) = Some n"
  by (simp add: parse_digits_def digits_acc_show_nat)

lemma digits_acc_chars: "digits_acc acc s = Some n \<Longrightarrow> c \<in> set s \<Longrightarrow> digit_val c \<noteq> None"
  by (induction s arbitrary: acc) (auto split: option.splits)

lemma show_nat_chars: "c \<in> set (show_nat n) \<Longrightarrow> digit_val c \<noteq> None"
  using digits_acc_chars [OF digits_acc_show_nat] .

lemma show_nat_no_char: "digit_val c = None \<Longrightarrow> c \<notin> set (show_nat n)"
  using show_nat_chars by blast

lemma digit_val_specials [simp]:
  "digit_val CHR ''-'' = None" "digit_val CHR ''+'' = None" "digit_val CHR ''.'' = None"
  "digit_val CHR ''/'' = None" "digit_val CHR '':'' = None" "digit_val CHR '' '' = None"
  "digit_val CHR '','' = None" "digit_val CHR '';'' = None" "digit_val CHR ''='' = None"
  "digit_val CHR ''['' = None" "digit_val CHR '']'' = None" "digit_val newline = None"
  by (simp_all add: digit_val_def newline_def)

lemma atoi_show_int:
  assumes "int64_ok i"
  shows "atoi (show_int i) = Some i"
proof (cases "i < 0")
  case True
  then show ?thesis using assms by (simp add: atoi_def show_int_def)
next
  case False
  obtain c t where ct: "show_nat (nat i) = c # t" by (metis show_nat_not_Nil neq_Nil_conv)
  then have "digit_val c \<noteq> None" using show_nat_chars [of c "nat i"] by simp
  then have "c \<noteq> CHR ''-''" and "c \<noteq> CHR ''+''" by auto
  moreover have "parse_digits (c # t) = Some (nat i)" using ct [symmetric] by simp
  ultimately show ?thesis using False assms ct by (simp add: atoi_def show_int_def)
qed

lemma atoi_range: "atoi s = Some i \<Longrightarrow> int64_ok i"
  by (auto simp: atoi_def Let_def split: prod.splits option.splits if_splits)

subsection \<open>Host and port\<close>

lemma last_index_byte_append:
  assumes "c \<notin> set b"
  shows "last_index_byte (a @ c # b) c = Some (length a)"
proof -
  have "find_index (\<lambda>x. x = c) (rev b @ c # rev a) = Some (length b)"
    using index_byte_append [of c "rev b" "rev a"] assms by (simp add: index_byte_def)
  then show ?thesis by (simp add: last_index_byte_def)
qed

lemma split_host_port_plain:
  assumes "CHR '':'' \<notin> set h" "CHR ''['' \<notin> set h" "CHR '']'' \<notin> set h"
    and "CHR '':'' \<notin> set p" "CHR ''['' \<notin> set p" "CHR '']'' \<notin> set p"
  shows "split_host_port (h @ '':'' @ p) = Some (h, p)"
proof -
  have "last_index_byte (h @ '':'' @ p) (CHR '':'') = Some (length h)"
    using last_index_byte_append [of "CHR '':''" p h] assms(4) by simp
  moreover have "\<not> has_prefix (h @ '':'' @ p) ''[''"
    using assms(2) by (cases h) auto
  ultimately show ?thesis
    using assms by (simp add: split_host_port_def Let_def)
qed

end
