(* ===== verification/Go_Hex.thy ===== *)
theory Go_Hex
  imports Go_Strings
begin

text \<open>
  Go's \<open>encoding/hex\<close>: \<open>EncodeToString\<close>, used for session ids and for the keys in the WireGuard
  device's configuration, and \<open>DecodeString\<close>, used for keys. Nothing here models a file of the
  repository. The lemmas say that decoding reads encoded bytes back, so that the encoding is
  injective, and which characters it consists of.
\<close>

section \<open>Definitions\<close>

definition hex_digits :: string where "hex_digits = ''0123456789abcdef''"

definition hex_encode :: "bytes \<Rightarrow> string" where
  "hex_encode bs =
     concat (map (\<lambda>b. [hex_digits ! (unat b div 16), hex_digits ! (unat b mod 16)]) bs)"

definition hex_val :: "char \<Rightarrow> nat option" where
  "hex_val c =
     (let n = (of_char c :: nat) in
      if 48 \<le> n \<and> n \<le> 57 then Some (n - 48)
      else if 97 \<le> n \<and> n \<le> 102 then Some (n - 87)
      else if 65 \<le> n \<and> n \<le> 70 then Some (n - 55) else None)"

text \<open>The verb \<open>%#U\<close> of the rune of an ASCII byte, and the two errors. Bytes are read in pairs; an
  odd last byte is an invalid byte if it is one, and else the length is the error.\<close>

definition show_rune :: "char \<Rightarrow> string" where
  "show_rune c =
     (let n = of_char c :: nat; d = (\<lambda>i. ''0123456789ABCDEF'' ! i) in
      ''U+00'' @ [d (n div 16), d (n mod 16)] @
      (if 32 \<le> n \<and> n < 127 then [CHR '' '', CHR 0x27, c, CHR 0x27] else []))"

definition invalid_byte :: "char \<Rightarrow> go_error" where
  "invalid_byte c = errors_New (''encoding/hex: invalid byte: '' @ show_rune c)"

definition errHexLength :: go_error where
  "errHexLength = errors_New ''encoding/hex: odd length hex string''"

fun hex_decode :: "string \<Rightarrow> bytes res" where
  "hex_decode [] = Inr []"
| "hex_decode [c] = Inl (if hex_val c = None then invalid_byte c else errHexLength)"
| "hex_decode (c # d # s) =
     (case hex_val c of
        None \<Rightarrow> Inl (invalid_byte c)
      | Some h \<Rightarrow>
          (case hex_val d of
             None \<Rightarrow> Inl (invalid_byte d)
           | Some l \<Rightarrow> bind_res (hex_decode s) (\<lambda>bs. Inr (of_nat (h * 16 + l) # bs))))"

section \<open>Lemmas\<close>

lemma hex_val_digit: "n < 16 \<Longrightarrow> hex_val (hex_digits ! n) = Some n"
proof -
  have "\<forall>n \<in> set [0..<16]. hex_val (hex_digits ! n) = Some n" by code_simp
  then show "n < 16 \<Longrightarrow> ?thesis" by simp
qed

lemma unat_byte_less: "unat (b :: byte) < 256"
  using unsigned_less [of b, where 'a = nat] by simp

lemma hex_decode_encode [simp]: "hex_decode (hex_encode bs) = Inr bs"
proof (induction bs)
  case (Cons b bs)
  have "unat b div 16 < 16" using unat_byte_less [of b] by (simp add: less_mult_imp_div_less)
  moreover have "unat b div 16 * 16 + unat b mod 16 = unat b" by (rule div_mult_mod_eq)
  ultimately show ?case using Cons by (simp add: hex_encode_def hex_val_digit del: of_nat_add of_nat_mult)
qed (simp add: hex_encode_def)

lemma hex_encode_inject [simp]: "hex_encode a = hex_encode b \<longleftrightarrow> a = b"
  by (metis hex_decode_encode sum.inject(2))

lemma length_hex_encode [simp]: "length (hex_encode bs) = 2 * length bs"
  by (induction bs) (simp_all add: hex_encode_def)

lemma hex_digits_set: "n < 16 \<Longrightarrow> hex_digits ! n \<in> set hex_digits"
proof -
  have "length hex_digits = 16" by code_simp
  then show "n < 16 \<Longrightarrow> ?thesis" by simp
qed

lemma hex_encode_chars: "c \<in> set (hex_encode bs) \<Longrightarrow> c \<in> set hex_digits"
proof -
  have "hex_digits ! (unat b div 16) \<in> set hex_digits" "hex_digits ! (unat b mod 16) \<in> set hex_digits" for b :: byte
    using unat_byte_less [of b] by (simp_all add: hex_digits_set less_mult_imp_div_less)
  then show "c \<in> set (hex_encode bs) \<Longrightarrow> ?thesis" by (auto simp: hex_encode_def)
qed

lemma hex_decode_length: "hex_decode s = Inr bs \<Longrightarrow> length s = 2 * length bs"
  by (induction s arbitrary: bs rule: hex_decode.induct) (auto simp: bind_res_Inr_iff split: option.splits)

end
