(* ===== verification/Netip.thy ===== *)
theory Netip
  imports Go_Hex "HOL-Library.Char_ord"
begin

unbundle bit_operations_syntax

text \<open>
  Go's \<open>net/netip\<close> as far as the repository uses it: addresses and prefixes, their parsers, their
  printed form, masking, membership and the successor of an address. The zero \<open>Addr\<close> is
  \<open>AddrZero\<close>; an IPv6 address has a zone, empty for none. A prefix has the invalid length -1
  when it is not valid. The parsers return \<open>None\<close> where Go returns an error. Nothing here models a
  file of the repository; the lemmas are the facts about IPv4 that the allocator and the
  configuration files rely on.
\<close>

section \<open>Definitions\<close>

datatype addr = AddrZero | V4 "32 word" | V6 "128 word" string

definition addr_valid :: "addr \<Rightarrow> bool" where "addr_valid a \<longleftrightarrow> a \<noteq> AddrZero"

fun is4 :: "addr \<Rightarrow> bool" where "is4 (V4 _) = True" | "is4 _ = False"
fun is6 :: "addr \<Rightarrow> bool" where "is6 (V6 _ _) = True" | "is6 _ = False"

fun bit_len :: "addr \<Rightarrow> int" where
  "bit_len AddrZero = 0" | "bit_len (V4 _) = 32" | "bit_len (V6 _ _) = 128"

fun without_zone :: "addr \<Rightarrow> addr" where
  "without_zone (V6 w z) = V6 w []" | "without_zone a = a"

fun has_zone :: "addr \<Rightarrow> bool" where
  "has_zone (V6 w z) = (z \<noteq> [])" | "has_zone _ = False"

fun addr_next :: "addr \<Rightarrow> addr" where
  "addr_next (V4 w) = (if w + 1 = 0 then AddrZero else V4 (w + 1))"
| "addr_next (V6 w z) = (if w + 1 = 0 then AddrZero else V6 (w + 1) z)"
| "addr_next AddrZero = AddrZero"

record prefix =
  pfx_addr :: addr
  pfx_bits :: int

definition prefix_from :: "addr \<Rightarrow> int \<Rightarrow> prefix" where
  "prefix_from a bits =
     (if a \<noteq> AddrZero \<and> 0 \<le> bits \<and> bits \<le> bit_len a then \<lparr>pfx_addr = without_zone a, pfx_bits = bits\<rparr>
      else \<lparr>pfx_addr = without_zone a, pfx_bits = - 1\<rparr>)"

definition prefix_valid :: "prefix \<Rightarrow> bool" where "prefix_valid p \<longleftrightarrow> 0 \<le> pfx_bits p"

definition is_single_ip :: "prefix \<Rightarrow> bool" where
  "is_single_ip p \<longleftrightarrow> prefix_valid p \<and> pfx_bits p = bit_len (pfx_addr p)"

definition net_mask :: "int \<Rightarrow> 'a::len word" where
  "net_mask bits = NOT (mask (LENGTH('a) - nat bits))"

fun mask_addr :: "int \<Rightarrow> addr \<Rightarrow> addr" where
  "mask_addr bits (V4 w) = V4 (w AND net_mask bits)"
| "mask_addr bits (V6 w z) = V6 (w AND net_mask bits) []"
| "mask_addr bits AddrZero = AddrZero"

definition masked :: "prefix \<Rightarrow> prefix" where
  "masked p = (if prefix_valid p then prefix_from (mask_addr (pfx_bits p) (pfx_addr p)) (pfx_bits p)
               else \<lparr>pfx_addr = AddrZero, pfx_bits = - 1\<rparr>)"

definition pfx_contains :: "prefix \<Rightarrow> addr \<Rightarrow> bool" where
  "pfx_contains p a \<longleftrightarrow> prefix_valid p \<and> \<not> has_zone a \<and>
     (case (pfx_addr p, a) of
        (V4 n, V4 w) \<Rightarrow> drop_bit (32 - nat (pfx_bits p)) (w XOR n) = 0
      | (V6 n _, V6 w _) \<Rightarrow> (w XOR n) AND net_mask (pfx_bits p) = 0
      | _ \<Rightarrow> False)"

subsection \<open>Printing\<close>

definition octet :: "nat \<Rightarrow> 32 word \<Rightarrow> nat" where
  "octet i w = unat w div 256 ^ (3 - i) mod 256"

definition show4 :: "32 word \<Rightarrow> string" where
  "show4 w = show_nat (octet 0 w) @ ''.'' @ show_nat (octet 1 w) @ ''.'' @ show_nat (octet 2 w) @ ''.'' @
     show_nat (octet 3 w)"

fun show_hex :: "nat \<Rightarrow> string" where
  "show_hex n = (if n < 16 then [''0123456789abcdef'' ! n]
                 else show_hex (n div 16) @ [''0123456789abcdef'' ! (n mod 16)])"

declare show_hex.simps [simp del]

definition group16 :: "nat \<Rightarrow> 128 word \<Rightarrow> nat" where
  "group16 i w = unat w div 65536 ^ (7 - i) mod 65536"

definition groups16 :: "128 word \<Rightarrow> nat list" where
  "groups16 w = map (\<lambda>i. group16 i w) [0..<8]"

text \<open>The first longest run of at least two zero groups: start and end.\<close>

definition zero_run :: "nat list \<Rightarrow> nat \<Rightarrow> nat" where
  "zero_run gs i = i + length (takeWhile (\<lambda>g. g = 0) (drop i gs))"

fun best_run :: "nat list \<Rightarrow> nat list \<Rightarrow> nat \<times> nat \<Rightarrow> nat \<times> nat" where
  "best_run gs [] best = best"
| "best_run gs (i # is) best =
     (let j = zero_run gs i in
      best_run gs is (if 2 \<le> j - i \<and> snd best - fst best < j - i then (i, j) else best))"

definition show6 :: "128 word \<Rightarrow> string" where
  "show6 w =
     (let gs = groups16 w; (zs, ze) = best_run gs [0..<8] (255, 255);
          sh = (\<lambda>xs. str_join '':'' (map show_hex xs))
      in if zs < 8 then sh (take zs gs) @ ''::'' @ sh (drop ze gs) else sh gs)"

definition is4in6 :: "128 word \<Rightarrow> bool" where
  "is4in6 w \<longleftrightarrow> unat w div 2 ^ 32 = 65535"

fun show_addr :: "addr \<Rightarrow> string" where
  "show_addr AddrZero = ''invalid IP''"
| "show_addr (V4 w) = show4 w"
| "show_addr (V6 w z) =
     (if is4in6 w then ''::ffff:'' @ show4 (ucast w) else show6 w) @ (if z = [] then [] else ''%'' @ z)"

definition show_prefix :: "prefix \<Rightarrow> string" where
  "show_prefix p = (if prefix_valid p then show_addr (pfx_addr p) @ ''/'' @ show_int (pfx_bits p)
                    else ''invalid Prefix'')"

subsection \<open>Parsing\<close>

text \<open>An IPv4 octet: digits, at most 255, no leading zero.\<close>

definition parse_octet :: "string \<Rightarrow> nat option" where
  "parse_octet s =
     (case parse_digits s of
        None \<Rightarrow> None
      | Some n \<Rightarrow> if n > 255 \<or> length s > 1 \<and> hd s = CHR ''0'' then None else Some n)"

definition word4 :: "nat \<Rightarrow> nat \<Rightarrow> nat \<Rightarrow> nat \<Rightarrow> 32 word" where
  "word4 a b c d = of_nat (((a * 256 + b) * 256 + c) * 256 + d)"

definition parse_v4 :: "string \<Rightarrow> 32 word option" where
  "parse_v4 s =
     (case map parse_octet (str_split (CHR ''.'') s) of
        [Some a, Some b, Some c, Some d] \<Rightarrow> Some (word4 a b c d)
      | _ \<Rightarrow> None)"

fun hex_run :: "string \<Rightarrow> nat list \<times> string" where
  "hex_run [] = ([], [])"
| "hex_run (c # s) =
     (case hex_val c of None \<Rightarrow> ([], c # s) | Some d \<Rightarrow> (let (ds, r) = hex_run s in (d # ds, r)))"

lemma hex_run_length: "length (snd (hex_run s)) \<le> length s"
  by (induction s) (auto simp: Let_def split: option.splits prod.splits)

lemma hex_run_shorter: "hex_run s = (d # ds, r) \<Longrightarrow> length r < length s"
  using hex_run_length by (cases s) (auto simp: Let_def less_Suc_eq_le split: option.splits prod.splits, metis snd_conv)

text \<open>The loop over the 16-bit groups. \<open>gs\<close> are the groups read so far, \<open>ell\<close> the position of the
  double colon. A dotted tail counts as two groups.\<close>

function parse6_loop :: "string \<Rightarrow> nat list \<Rightarrow> nat option \<Rightarrow> (nat list \<times> nat option) option" where
  "parse6_loop s gs ell =
     (if length gs \<ge> 8 then (if s = [] then Some (gs, ell) else None)
      else case hex_run s of
        ([], _) \<Rightarrow> None
      | (d # ds, r) \<Rightarrow>
          if length (d # ds) > 4 then None
          else if r \<noteq> [] \<and> hd r = CHR ''.'' then
            (if ell = None \<and> length gs \<noteq> 6 then None
             else if length gs > 6 then None
             else case parse_v4 s of
                    None \<Rightarrow> None
                  | Some w \<Rightarrow> Some (gs @ [unat w div 65536, unat w mod 65536], ell))
          else
            (let gs1 = gs @ [foldl (\<lambda>a x. a * 16 + x) 0 (d # ds)] in
             case r of
               [] \<Rightarrow> Some (gs1, ell)
             | c # t \<Rightarrow>
                 if c \<noteq> CHR '':'' \<or> t = [] then None
                 else if hd t = CHR '':'' then
                   (if ell \<noteq> None then None
                    else if tl t = [] then Some (gs1, Some (length gs1))
                    else parse6_loop (tl t) gs1 (Some (length gs1)))
                 else parse6_loop t gs1 ell))"
  by pat_completeness auto
termination
  by (relation "measure (\<lambda>(s, gs, ell). length s)")
    (auto dest!: hex_run_shorter [OF sym])

declare parse6_loop.simps [simp del]

definition groups_word :: "nat list \<Rightarrow> 128 word" where
  "groups_word gs = of_nat (foldl (\<lambda>a x. a * 65536 + x) 0 gs)"

definition parse_v6 :: "string \<Rightarrow> addr option" where
  "parse_v6 inp =
     (let (s, zone) = (case index_byte inp (CHR ''%'') of None \<Rightarrow> (inp, None)
                       | Some i \<Rightarrow> (take i inp, Some (drop (i + 1) inp))) in
      if zone = Some [] then None
      else (let z = (case zone of None \<Rightarrow> [] | Some z \<Rightarrow> z);
                (s1, ell0) = (if has_prefix s ''::'' then (drop 2 s, Some 0) else (s, None))
            in if ell0 = Some 0 \<and> s1 = [] then Some (V6 0 z)
               else case parse6_loop s1 [] ell0 of
                 None \<Rightarrow> None
               | Some (gs, ell) \<Rightarrow>
                   (if length gs < 8 then
                      (case ell of None \<Rightarrow> None
                       | Some e \<Rightarrow> Some (V6 (groups_word (take e gs @ replicate (8 - length gs) 0 @ drop e gs)) z))
                    else if ell \<noteq> None then None else Some (V6 (groups_word gs) z))))"

text \<open>\<open>ParseAddr\<close>: the first of dot, colon and percent sign decides.\<close>

definition parse_addr :: "string \<Rightarrow> addr option" where
  "parse_addr s =
     (case find (\<lambda>c. c = CHR ''.'' \<or> c = CHR '':'' \<or> c = CHR ''%'') s of
        None \<Rightarrow> None
      | Some c \<Rightarrow>
          if c = CHR ''.'' then map_option V4 (parse_v4 s)
          else if c = CHR '':'' then parse_v6 s else None)"

definition parse_prefix :: "string \<Rightarrow> prefix option" where
  "parse_prefix s =
     (case last_index_byte s (CHR ''/'') of
        None \<Rightarrow> None
      | Some i \<Rightarrow>
          (case parse_addr (take i s) of
             None \<Rightarrow> None
           | Some ip \<Rightarrow>
               if has_zone ip then None
               else (let bitsStr = drop (i + 1) s in
                     if length bitsStr > 1 \<and> \<not> (CHR ''1'' \<le> hd bitsStr \<and> hd bitsStr \<le> CHR ''9'') then None
                     else case atoi bitsStr of
                       None \<Rightarrow> None
                     | Some bits \<Rightarrow> if bits < 0 \<or> bits > bit_len ip then None else Some (prefix_from ip bits))))"

text \<open>What \<open>netip\<close> guarantees of its prefixes: a valid prefix has an address without a zone and a
  length that fits it.\<close>

definition prefix_ok :: "prefix \<Rightarrow> bool" where
  "prefix_ok p \<longleftrightarrow> prefix_valid p \<and> pfx_bits p \<le> bit_len (pfx_addr p) \<and> pfx_addr p \<noteq> AddrZero \<and>
     \<not> has_zone (pfx_addr p)"

section \<open>IPv4 addresses\<close>

lemma octet_less [simp]: "octet i w < 256"
  by (simp add: octet_def)

lemma word4_octets: "word4 (octet 0 w) (octet 1 w) (octet 2 w) (octet 3 w) = w"
proof -
  let ?n = "unat w"
  have n: "?n < 2 ^ 32" by (rule order.strict_trans2 [OF unsigned_less]) simp
  have "?n div 16777216 mod 256 = ?n div 16777216" using n by (simp add: less_mult_imp_div_less)
  moreover have "?n = ?n div 256 * 256 + ?n mod 256" "?n div 256 = ?n div 65536 * 256 + ?n div 256 mod 256"
    "?n div 65536 = ?n div 16777216 * 256 + ?n div 65536 mod 256"
    using div_mult2_eq [of ?n 256 256] div_mult2_eq [of ?n 65536 256] by simp_all
  ultimately have "((octet 0 w * 256 + octet 1 w) * 256 + octet 2 w) * 256 + octet 3 w = ?n"
    unfolding octet_def by simp
  then show ?thesis by (simp add: word4_def)
qed

lemma parse_octet_show:
  assumes "n < 256"
  shows "parse_octet (show_nat n) = Some n"
proof (cases "n = 0")
  case True
  have "parse_octet ''0'' = Some 0" by code_simp
  with True show ?thesis by (simp add: show_nat_0)
next
  case False
  with hd_show_nat [of n] assms show ?thesis by (simp add: parse_octet_def)
qed

lemma length_show_octet:
  assumes "n < 256"
  shows "length (show_nat n) \<le> 3"
proof -
  have 1: "length (show_nat m) \<le> 1" if "m < 10" for m using that by (subst show_nat.simps) simp
  have 2: "length (show_nat m) \<le> 2" if "m < 100" for m
    using 1 [of "m div 10"] that by (subst show_nat.simps) simp
  show ?thesis using 2 [of "n div 10"] assms by (subst show_nat.simps) simp
qed

lemma parse_v4_show4: "parse_v4 (show4 w) = Some w"
proof -
  have nd: "CHR ''.'' \<notin> set (show_nat n)" for n by (rule show_nat_no_char) simp
  have "str_split (CHR ''.'') (show4 w) =
      [show_nat (octet 0 w), show_nat (octet 1 w), show_nat (octet 2 w), show_nat (octet 3 w)]"
    using nd by (simp add: show4_def str_split_sep) (simp add: str_split_def split_acc_no_sep)
  then show ?thesis by (simp add: parse_v4_def parse_octet_show word4_octets [unfolded One_nat_def])
qed

lemma show4_chars: "c \<in> set (show4 w) \<Longrightarrow> digit_val c \<noteq> None \<or> c = CHR ''.''"
  using show_nat_chars by (auto simp: show4_def)

lemma find_skip: "\<forall>c \<in> set a. \<not> P c \<Longrightarrow> P d \<Longrightarrow> find P (a @ d # b) = Some d"
  by (induction a) auto

lemma parse_addr_show4 [simp]: "parse_addr (show4 w) = Some (V4 w)"
proof -
  let ?P = "\<lambda>c. c = CHR ''.'' \<or> c = CHR '':'' \<or> c = CHR ''%''"
  have "digit_val (CHR ''%'') = None" by code_simp
  then have "\<forall>c \<in> set (show_nat (octet 0 w)). \<not> ?P c"
    using show_nat_chars [of _ "octet 0 w"] digit_val_specials by metis
  from find_skip [where P = ?P, OF this] have "find ?P (show4 w) = Some (CHR ''.'')"
    by (simp add: show4_def)
  then show ?thesis by (simp add: parse_addr_def parse_v4_show4)
qed

lemma show32: "show_int 32 = ''32''"
  by code_simp

lemma parse_prefix_host4: "parse_prefix (show_prefix (prefix_from (V4 w) 32)) = Some (prefix_from (V4 w) 32)"
proof -
  have s: "show_prefix (prefix_from (V4 w) 32) = show4 w @ CHR ''/'' # ''32''"
    using show32 by (simp add: show_prefix_def prefix_from_def prefix_valid_def)
  have "last_index_byte (show4 w @ CHR ''/'' # ''32'') (CHR ''/'') = Some (length (show4 w))"
    by (rule last_index_byte_append) simp
  moreover have "atoi ''32'' = Some 32"
    by (simp add: atoi_def parse_digits_def digit_val_def int64_ok_def)
  ultimately show ?thesis by (simp add: s parse_prefix_def)
qed

lemma show_prefix_host4_chars:
  "c \<in> set (show_prefix (prefix_from (V4 w) 32)) \<Longrightarrow> digit_val c \<noteq> None \<or> c = CHR ''.'' \<or> c = CHR ''/''"
  using show4_chars [of c w]
  by (auto simp: show_prefix_def prefix_from_def prefix_valid_def show_int_def dest: show_nat_chars)

end
