(* ===== verification/Netip_Text.thy ===== *)
theory Netip_Text
  imports Netip
begin

text \<open>
  The text form of addresses and prefixes reads back: \<open>netip.ParseAddr\<close> undoes \<open>Addr.String\<close> and
  \<open>netip.ParsePrefix\<close> undoes \<open>Prefix.String\<close>, for IPv4, for IPv6 with its double colon for the
  longest run of zero groups, and for the mapped form with a dotted tail. Share URLs and the
  WireGuard device's configuration carry addresses in this form.
\<close>

section \<open>Prefix lengths\<close>

lemma digit_nonzero_range:
  assumes "digit_val c \<noteq> None" and "c \<noteq> CHR ''0''"
  shows "CHR ''1'' \<le> c \<and> c \<le> CHR ''9''"
proof -
  have r: "48 \<le> (of_char c :: nat)" "(of_char c :: nat) \<le> 57"
    using assms(1) by (auto simp: digit_val_def Let_def split: if_splits)
  have "(of_char c :: nat) \<noteq> 48"
  proof
    assume "(of_char c :: nat) = 48"
    then have "c = char_of (48 :: nat)" by (metis char_of_char)
    moreover have "char_of (48 :: nat) = CHR ''0''" by code_simp
    ultimately show False using assms(2) by simp
  qed
  with r show ?thesis by (simp add: less_eq_char_def)
qed

lemma bits_text:
  assumes "0 \<le> b"
  shows "\<not> (1 < length (show_int b) \<and> \<not> (CHR ''1'' \<le> hd (show_int b) \<and> hd (show_int b) \<le> CHR ''9''))"
proof (cases "b = 0")
  case True
  then show ?thesis by (simp add: show_int_def show_nat_0)
next
  case False
  have "hd (show_nat (nat b)) \<in> set (show_nat (nat b))" by (simp add: hd_in_set)
  from digit_nonzero_range [OF show_nat_chars [OF this]] hd_show_nat [of "nat b"] False assms show ?thesis
    by (simp add: show_int_def)
qed

lemma show_int_no_slash: "CHR ''/'' \<notin> set (show_int b)"
  using show_nat_no_char [of "CHR ''/''"] by (simp add: show_int_def)

lemma parse_prefix_show:
  assumes "parse_addr (show_addr (pfx_addr p)) = Some (pfx_addr p)" and "\<not> has_zone (pfx_addr p)"
    and "pfx_addr p \<noteq> AddrZero" and "0 \<le> pfx_bits p" and "pfx_bits p \<le> bit_len (pfx_addr p)"
  shows "parse_prefix (show_prefix p) = Some p"
proof -
  have s: "show_prefix p = show_addr (pfx_addr p) @ CHR ''/'' # show_int (pfx_bits p)"
    using assms(4) by (simp add: show_prefix_def prefix_valid_def)
  have "bit_len (pfx_addr p) \<le> 128" by (cases "pfx_addr p") simp_all
  then have "atoi (show_int (pfx_bits p)) = Some (pfx_bits p)"
    using assms(4,5) by (intro atoi_show_int) (simp add: int64_ok_def)
  moreover have "prefix_from (pfx_addr p) (pfx_bits p) = p"
    using assms(2-5) by (cases p; cases "pfx_addr p") (auto simp: prefix_from_def)
  ultimately show ?thesis
    using assms bits_text [OF assms(4)]
    by (auto simp: s parse_prefix_def last_index_byte_append [OF show_int_no_slash])
qed

section \<open>Hexadecimal groups\<close>

lemma hexd_eq: "''0123456789abcdef'' = hex_digits"
  by (simp add: hex_digits_def)

lemma hex_val_colon [simp]: "hex_val (CHR '':'') = None" "hex_val (CHR ''.'') = None"
  by (simp_all add: hex_val_def)

lemma show_hex_not_Nil [simp]: "show_hex n \<noteq> []"
  by (subst show_hex.simps) simp

lemma show_hex_set: "c \<in> set (show_hex n) \<Longrightarrow> c \<in> set hex_digits"
proof (induction n rule: show_hex.induct)
  case (1 n)
  then show ?case
    by (subst (asm) show_hex.simps) (auto simp: hexd_eq hex_digits_set split: if_splits)
qed

lemma hex_run_append:
  "hex_run s = (ds, []) \<Longrightarrow> r = [] \<or> hex_val (hd r) = None \<Longrightarrow> hex_run (s @ r) = (ds, r)"
proof (induction s arbitrary: ds)
  case Nil
  then show ?case by (cases r) auto
next
  case (Cons c s)
  obtain es t where h: "hex_run s = (es, t)" by fastforce
  from Cons.prems(1) obtain d where d: "hex_val c = Some d" "t = []" "ds = d # es"
    using h by (auto split: option.splits)
  from Cons.IH [of es] Cons.prems(2) h d show ?case by simp
qed

lemma hex_run_digits: "\<forall>c \<in> set s. hex_val c \<noteq> None \<Longrightarrow> hex_run s = (map (\<lambda>c. the (hex_val c)) s, [])"
  by (induction s) (auto split: option.splits)

definition hex_value :: "nat list \<Rightarrow> nat" where
  "hex_value ds = foldl (\<lambda>a x. a * 16 + x) 0 ds"

lemma hex_digits_val: "c \<in> set hex_digits \<Longrightarrow> hex_val c \<noteq> None"
proof -
  have "list_all (\<lambda>c. hex_val c \<noteq> None) hex_digits" by code_simp
  then show "c \<in> set hex_digits \<Longrightarrow> ?thesis" by (simp add: list_all_iff)
qed

lemma hex_run_show:
  "\<exists>ds. hex_run (show_hex n) = (ds, []) \<and> ds \<noteq> [] \<and> hex_value ds = n \<and> (\<forall>k. n < 16 ^ Suc k \<longrightarrow> length ds \<le> Suc k)"
proof (induction n rule: show_hex.induct)
  case (1 n)
  show ?case
  proof (cases "n < 16")
    case True
    then show ?thesis by (subst show_hex.simps) (simp add: hexd_eq hex_val_digit hex_value_def)
  next
    case False
    with 1 obtain ds where ds: "hex_run (show_hex (n div 16)) = (ds, [])" "ds \<noteq> []" "hex_value ds = n div 16"
      "\<forall>k. n div 16 < 16 ^ Suc k \<longrightarrow> length ds \<le> Suc k" by blast
    have s: "show_hex n = show_hex (n div 16) @ [hex_digits ! (n mod 16)]"
      using False by (subst show_hex.simps) (simp add: hexd_eq)
    have v: "\<forall>c \<in> set (show_hex m). hex_val c \<noteq> None" for m
      using show_hex_set hex_digits_val by blast
    from hex_run_digits [OF v [of "n div 16"]] ds(1)
    have dm: "ds = map (\<lambda>c. the (hex_val c)) (show_hex (n div 16))" by simp
    have "hex_run (show_hex n) = (ds @ [n mod 16], [])"
      using hex_run_digits [OF v [of n]] by (simp add: s dm hex_val_digit)
    moreover have "hex_value (ds @ [n mod 16]) = n" using ds(3) by (simp add: hex_value_def)
    moreover have "length (ds @ [n mod 16]) \<le> Suc k" if "n < 16 ^ Suc k" for k
    proof (cases k)
      case 0
      with that False show ?thesis by simp
    next
      case (Suc j)
      with that have "n div 16 < 16 ^ Suc j" by (simp add: less_mult_imp_div_less mult.commute)
      with ds(4) Suc show ?thesis by simp
    qed
    ultimately show ?thesis by blast
  qed
qed

lemma hex_run_group:
  assumes "n < 65536" and "r = [] \<or> hex_val (hd r) = None"
  obtains d ds where "hex_run (show_hex n @ r) = (d # ds, r)" "length (d # ds) \<le> 4"
    "foldl (\<lambda>a x. a * 16 + x) 0 (d # ds) = n"
proof -
  obtain ds where ds: "hex_run (show_hex n) = (ds, [])" "ds \<noteq> []" "hex_value ds = n"
    "n < 16 ^ Suc 3 \<longrightarrow> length ds \<le> Suc 3"
    using hex_run_show [of n] by blast
  from hex_run_append [OF ds(1) assms(2)] have "hex_run (show_hex n @ r) = (ds, r)" .
  with ds assms(1) that show ?thesis by (cases ds) (auto simp: hex_value_def)
qed

section \<open>The loop over the groups\<close>

lemma parse6_last:
  assumes "n < 65536" and "length gs < 8"
  shows "parse6_loop (show_hex n) gs ell = Some (gs @ [n], ell)"
proof -
  obtain d ds where "hex_run (show_hex n @ []) = (d # ds, [])" "length (d # ds) \<le> 4"
    "foldl (\<lambda>a x. a * 16 + x) 0 (d # ds) = n"
    by (rule hex_run_group [OF assms(1), of "[]"]) simp
  with assms(2) show ?thesis by (subst parse6_loop.simps) simp
qed

lemma parse6_colon:
  assumes "n < 65536" and "length gs < 8" and "t \<noteq> []" and "hd t \<noteq> CHR '':''"
  shows "parse6_loop (show_hex n @ '':'' @ t) gs ell = parse6_loop t (gs @ [n]) ell"
proof -
  obtain d ds where "hex_run (show_hex n @ '':'' @ t) = (d # ds, '':'' @ t)" "length (d # ds) \<le> 4"
    "foldl (\<lambda>a x. a * 16 + x) 0 (d # ds) = n"
    by (rule hex_run_group [OF assms(1), of "'':'' @ t"]) simp
  with assms(2-4) show ?thesis by (subst parse6_loop.simps) simp
qed

lemma parse6_ellipsis:
  assumes "n < 65536" and "length gs < 8"
  shows "parse6_loop (show_hex n @ ''::'' @ t) gs None =
    (if t = [] then Some (gs @ [n], Some (Suc (length gs))) else parse6_loop t (gs @ [n]) (Some (Suc (length gs))))"
proof -
  obtain d ds where "hex_run (show_hex n @ ''::'' @ t) = (d # ds, ''::'' @ t)" "length (d # ds) \<le> 4"
    "foldl (\<lambda>a x. a * 16 + x) 0 (d # ds) = n"
    by (rule hex_run_group [OF assms(1), of "''::'' @ t"]) simp
  with assms(2) show ?thesis by (subst parse6_loop.simps) simp
qed

definition show_groups :: "nat list \<Rightarrow> string" where
  "show_groups xs = str_join '':'' (map show_hex xs)"

lemma show_groups_simps [simp]:
  "show_groups [] = []" "show_groups [x] = show_hex x"
  "show_groups (x # y # ys) = show_hex x @ '':'' @ show_groups (y # ys)"
  by (simp_all add: show_groups_def)

lemma show_groups_hd:
  assumes "xs \<noteq> []"
  shows "show_groups xs \<noteq> []" "hd (show_groups xs) \<in> set hex_digits"
proof -
  obtain x ys where xs: "xs = x # ys" using assms by (cases xs) auto
  have "\<exists>t. show_groups xs = show_hex x @ t" by (cases ys) (auto simp: xs)
  moreover have "hd (show_hex x) \<in> set hex_digits" by (rule show_hex_set [OF hd_in_set]) simp
  ultimately show "show_groups xs \<noteq> []" "hd (show_groups xs) \<in> set hex_digits" by (auto simp: hd_append)
qed

lemma hex_digit_not_colon: "c \<in> set hex_digits \<Longrightarrow> c \<noteq> CHR '':'' \<and> c \<noteq> CHR ''.'' \<and> c \<noteq> CHR ''%'' \<and> c \<noteq> newline"
  by (auto simp: hex_digits_def newline_def)

lemma parse6_groups:
  assumes "xs \<noteq> []" and "\<forall>x \<in> set xs. x < 65536" and "length gs + length xs \<le> 8"
  shows "parse6_loop (show_groups xs) gs ell = Some (gs @ xs, ell)"
  using assms
proof (induction xs arbitrary: gs)
  case (Cons x xs)
  show ?case
  proof (cases xs)
    case Nil
    with Cons.prems show ?thesis by (simp add: parse6_last)
  next
    case (Cons y ys)
    note h = show_groups_hd [of xs]
    have "parse6_loop (show_hex x @ '':'' @ show_groups xs) gs ell = parse6_loop (show_groups xs) (gs @ [x]) ell"
      using Cons.prems h hex_digit_not_colon Cons by (intro parse6_colon) auto
    with Cons.IH [of "gs @ [x]"] Cons.prems show ?thesis using Cons by simp
  qed
qed simp

lemma parse6_double_colon:
  assumes "xs \<noteq> []" and "\<forall>x \<in> set (xs @ ys). x < 65536" and "length gs + length xs + length ys \<le> 8"
  shows "parse6_loop (show_groups xs @ ''::'' @ show_groups ys) gs None =
    Some (gs @ xs @ ys, Some (length gs + length xs))"
  using assms
proof (induction xs arbitrary: gs)
  case (Cons x xs)
  show ?case
  proof (cases xs)
    case Nil
    with Cons.prems parse6_groups [of ys "gs @ [x]" "Some (Suc (length gs))"] show_groups_hd [of ys]
      parse6_ellipsis [of x gs "show_groups ys"]
    show ?thesis by (cases ys) (simp_all del: append.simps)
  next
    case (Cons y zs)
    note h = show_groups_hd [of xs]
    have "parse6_loop (show_hex x @ '':'' @ (show_groups xs @ ''::'' @ show_groups ys)) gs None =
        parse6_loop (show_groups xs @ ''::'' @ show_groups ys) (gs @ [x]) None"
      using Cons.prems h hex_digit_not_colon Cons by (intro parse6_colon) (auto simp: hd_append)
    with Cons.IH [of "gs @ [x]"] Cons.prems show ?thesis using Cons by simp
  qed
qed simp

section \<open>The groups of an IPv6 address\<close>

lemma foldl_digits:
  "foldl (\<lambda>a x. a * B + x) 0 (map (\<lambda>i. n div B ^ (k - Suc i) mod B) [0..<k]) = n mod B ^ k" for n B :: nat
proof (induction k arbitrary: n)
  case (Suc k)
  have m: "map (\<lambda>i. n div B ^ (Suc k - Suc i) mod B) [0..<k] = map (\<lambda>i. n div B div B ^ (k - Suc i) mod B) [0..<k]"
  proof (rule map_cong [OF refl])
    fix i assume "i \<in> set [0..<k]"
    then have "Suc k - Suc i = Suc (k - Suc i)" by simp
    then show "n div B ^ (Suc k - Suc i) mod B = n div B div B ^ (k - Suc i) mod B"
      by (simp add: div_mult2_eq)
  qed
  have "map (\<lambda>i. n div B ^ (Suc k - Suc i) mod B) [0..<Suc k] =
      map (\<lambda>i. n div B div B ^ (k - Suc i) mod B) [0..<k] @ [n mod B]"
    using m by simp
  then have "foldl (\<lambda>a x. a * B + x) 0 (map (\<lambda>i. n div B ^ (Suc k - Suc i) mod B) [0..<Suc k]) =
      n div B mod B ^ k * B + n mod B"
    using Suc [of "n div B"] by (simp only: foldl_append) simp
  then show ?case using mod_mult2_eq [of n B "B ^ k"] by (simp add: mult.commute add.commute)
qed simp

lemma foldl_zeros: "foldl (\<lambda>a x. a * B + x) 0 (replicate k 0) = (0 :: nat)"
  by (induction k) simp_all

lemma unat_word_less: "unat (w :: 'a::len word) < 2 ^ LENGTH('a)"
  by (rule unsigned_less)

lemma groups_word_groups16: "groups_word (groups16 w) = w"
proof -
  have "groups16 w = map (\<lambda>i. unat w div 65536 ^ (8 - Suc i) mod 65536) [0..<8]"
    by (simp add: groups16_def group16_def)
  then have "groups_word (groups16 w) = of_nat (unat w mod 65536 ^ 8)"
    by (simp only: groups_word_def foldl_digits)
  moreover have "unat w < 65536 ^ 8" using unat_word_less [of w] by simp
  ultimately show ?thesis by simp
qed

lemma groups16_props [simp]: "length (groups16 w) = 8" "\<forall>g \<in> set (groups16 w). g < 65536"
  by (auto simp: groups16_def group16_def)

definition zero_gap :: "nat list \<Rightarrow> nat \<times> nat \<Rightarrow> bool" where
  "zero_gap gs r \<longleftrightarrow> fst r + 2 \<le> snd r \<and> snd r \<le> length gs \<and>
     gs = take (fst r) gs @ replicate (snd r - fst r) 0 @ drop (snd r) gs"

lemma zero_run_gap:
  assumes "i \<le> length gs" and "i + 2 \<le> zero_run gs i"
  shows "zero_gap gs (i, zero_run gs i)"
proof -
  let ?t = "takeWhile (\<lambda>g. g = 0) (drop i gs)"
  have t: "?t = replicate (length ?t) 0" by (metis (full_types) replicate_eqI set_takeWhileD)
  have "gs = take i gs @ ?t @ drop (length ?t) (drop i gs)"
    by (metis append_take_drop_id dropWhile_eq_drop takeWhile_dropWhile_id)
  moreover have "i + length ?t \<le> length gs" using assms(1) length_takeWhile_le [of _ "drop i gs"]
    by (metis add.commute le_diff_conv2 length_drop)
  ultimately show ?thesis using assms t by (auto simp: zero_gap_def zero_run_def add.commute)
qed

lemma best_run_gap:
  "\<forall>i \<in> set is. i \<le> length gs \<Longrightarrow> best = (255, 255) \<or> zero_gap gs best \<Longrightarrow>
   best_run gs is best = (255, 255) \<or> zero_gap gs (best_run gs is best)"
proof (induction "is" arbitrary: best)
  case (Cons i "is")
  let ?r = "if 2 \<le> zero_run gs i - i \<and> snd best - fst best < zero_run gs i - i then (i, zero_run gs i) else best"
  have "?r = (255, 255) \<or> zero_gap gs ?r"
  proof (cases "2 \<le> zero_run gs i - i \<and> snd best - fst best < zero_run gs i - i")
    case True
    then have "i + 2 \<le> zero_run gs i" by linarith
    with True Cons.prems(1) zero_run_gap [of i gs] show ?thesis by simp
  next
    case False
    then show ?thesis using Cons.prems(2) by (simp only: if_False)
  qed
  from Cons.IH [OF _ this] Cons.prems(1) show ?case by (simp only: best_run.simps Let_def) simp
qed simp

lemma show6_cases:
  obtains (plain) "show6 w = show_groups (groups16 w)"
  | (gap) zs ze where "show6 w = show_groups (take zs (groups16 w)) @ ''::'' @ show_groups (drop ze (groups16 w))"
      "zs + 2 \<le> ze" "ze \<le> 8"
      "take zs (groups16 w) @ replicate (ze - zs) 0 @ drop ze (groups16 w) = groups16 w"
proof -
  obtain zs ze where b: "best_run (groups16 w) [0..<8] (255, 255) = (zs, ze)" by fastforce
  with best_run_gap [of "[0..<8]" "groups16 w" "(255, 255)"]
  consider "(zs, ze) = (255, 255)" | "zero_gap (groups16 w) (zs, ze)" by (auto simp del: upt_Suc)
  then show ?thesis
  proof cases
    case 1
    with b plain show ?thesis by (simp add: show6_def show_groups_def Let_def)
  next
    case 2
    with b gap [of zs ze] show ?thesis by (simp add: show6_def show_groups_def zero_gap_def Let_def)
  qed
qed

section \<open>Addresses and prefixes read back\<close>

text \<open>The part of \<open>parse_v6\<close> behind the zone.\<close>

definition parse6_body :: "string \<Rightarrow> string \<Rightarrow> addr option" where
  "parse6_body s z =
     (let (s1, ell0) = (if has_prefix s ''::'' then (drop 2 s, Some 0) else (s, None))
      in if ell0 = Some 0 \<and> s1 = [] then Some (V6 0 z)
         else case parse6_loop s1 [] ell0 of
           None \<Rightarrow> None
         | Some (gs, ell) \<Rightarrow>
             (if length gs < 8 then
                (case ell of None \<Rightarrow> None
                 | Some e \<Rightarrow> Some (V6 (groups_word (take e gs @ replicate (8 - length gs) 0 @ drop e gs)) z))
              else if ell \<noteq> None then None else Some (V6 (groups_word gs) z)))"

lemma parse_v6_zone:
  assumes "CHR ''%'' \<notin> set s"
  shows "parse_v6 (s @ (if z = [] then [] else ''%'' @ z)) = parse6_body s z"
proof -
  have "index_byte (s @ ''%'' @ z) (CHR ''%'') = Some (length s)"
    using index_byte_append [of "CHR ''%''" s z] assms by simp
  moreover have "index_byte s (CHR ''%'') = None" using assms by (auto simp: index_byte_def)
  ultimately show ?thesis
    by (cases "z = []") (simp_all add: parse_v6_def parse6_body_def del: index_byte_None)
qed

lemma show_groups_chars: "c \<in> set (show_groups xs) \<Longrightarrow> c \<in> set hex_digits \<or> c = CHR '':''"
proof (induction xs)
  case (Cons x xs)
  then show ?case using show_hex_set [of c x] by (cases xs) auto
qed simp

lemma show6_chars: "c \<in> set (show6 w) \<Longrightarrow> c \<in> set hex_digits \<or> c = CHR '':''"
  by (cases rule: show6_cases [of w]) (auto dest: show_groups_chars)

lemma has_prefix_hex: "s \<noteq> [] \<Longrightarrow> hd s \<in> set hex_digits \<Longrightarrow> \<not> has_prefix (s @ t) ''::''"
  using hex_digit_not_colon [of "hd s"] by (cases s) auto

lemma parse6_body_show6: "parse6_body (show6 w) z = Some (V6 w z)"
proof (cases rule: show6_cases [of w])
  case plain
  have "groups16 w \<noteq> []" using groups16_props(1) [of w] by (metis list.size(3) zero_neq_numeral)
  with plain has_prefix_hex [of "show6 w" "[]"] show_groups_hd [of "groups16 w"]
    parse6_groups [of "groups16 w" "[]" None]
  show ?thesis by (simp add: parse6_body_def groups_word_groups16)
next
  case (gap zs ze)
  let ?a = "take zs (groups16 w)" and ?b = "drop ze (groups16 w)"
  have r: "\<forall>x \<in> set (?a @ ?b). x < 65536" using groups16_props(2) [of w] by (auto dest: in_set_takeD in_set_dropD)
  have n: "length ?a = zs" "length ?b = 8 - ze" using gap by simp_all
  have gs: "take zs (?a @ ?b) @ replicate (8 - length (?a @ ?b)) 0 @ drop zs (?a @ ?b) = groups16 w"
    using gap(2-4) by simp
  show ?thesis
  proof (cases "zs = 0")
    case False
    then have a: "?a \<noteq> []" using n(1) by (metis list.size(3))
    have "\<not> has_prefix (show6 w) ''::''"
      unfolding gap(1) using has_prefix_hex [OF show_groups_hd [OF a]] .
    with parse6_double_colon [OF a r, of "[]"] gap(2,3) gs n show ?thesis
      by (simp add: parse6_body_def gap(1) groups_word_groups16)
  next
    case True
    show ?thesis
    proof (cases "?b = []")
      case b: True
      with gs True have "groups16 w = replicate 8 0" by simp
      then have "groups_word (replicate 8 0) = w" using groups_word_groups16 [of w] by simp
      moreover have "groups_word (replicate 8 0) = 0" by (simp add: groups_word_def foldl_zeros)
      ultimately have "w = 0" by simp
      have "show6 w = ''::''" using gap(1) b True by simp
      then have "parse6_body (show6 w) z = Some (V6 0 z)" by (simp add: parse6_body_def)
      with \<open>w = 0\<close> show ?thesis by simp
    next
      case False
      with parse6_groups [of ?b "[]" "Some 0"] show_groups_hd [OF False] r gap(2,3) gs n True show ?thesis
        by (simp add: parse6_body_def gap(1) groups_word_groups16)
    qed
  qed
qed

text \<open>The mapped form: a dotted tail behind the group \<open>ffff\<close>.\<close>

lemma digit_hex: "digit_val c \<noteq> None \<Longrightarrow> hex_val c \<noteq> None"
  by (auto simp: digit_val_def hex_val_def Let_def split: if_splits)

lemma parse6_dotted:
  assumes "length gs \<le> 6"
  shows "parse6_loop (show4 v) gs (Some e) = Some (gs @ [unat v div 65536, unat v mod 65536], Some e)"
proof -
  let ?o = "show_nat (octet 0 v)"
  obtain r where s: "show4 v = ?o @ ''.'' @ r" by (simp add: show4_def)
  have "\<forall>c \<in> set ?o. hex_val c \<noteq> None" using show_nat_chars digit_hex by blast
  from hex_run_append [OF hex_run_digits [OF this], of "''.'' @ r"]
  obtain ds where ds: "hex_run (show4 v) = (ds, ''.'' @ r)" "length ds = length ?o" by (simp add: s)
  moreover have "length ?o \<le> 4" "ds \<noteq> []" using length_show_octet [of "octet 0 v"] ds(2) by auto
  ultimately show ?thesis
    using assms parse_v4_show4 [of v] by (subst parse6_loop.simps) (auto split: list.splits)
qed

lemma unat_ucast32: "unat (ucast (w :: 128 word) :: 32 word) = unat w mod 2 ^ 32"
  by (simp add: unsigned_ucast_eq unsigned_take_bit_eq take_bit_eq_mod)

lemma groups_word_mapped:
  assumes "is4in6 w"
  shows "groups_word (replicate 5 0 @ [65535, unat (ucast w :: 32 word) div 65536, unat (ucast w :: 32 word) mod 65536]) = w"
proof -
  let ?v = "unat (ucast w :: 32 word)"
  have lin: "(65535 * 65536 + q) * 65536 + r = 65535 * 4294967296 + v" if "q * 65536 + r = v" for q r v :: nat
    using that by simp
  have "(65535 * 65536 + ?v div 65536) * 65536 + ?v mod 65536 = 65535 * 4294967296 + ?v"
    by (rule lin [OF div_mult_mod_eq])
  also have "\<dots> = unat w"
    using assms div_mult_mod_eq [of "unat w" "2 ^ 32"] by (simp add: is4in6_def unat_ucast32)
  finally have "foldl (\<lambda>a x. a * 65536 + x) 0 (replicate 5 0 @ [65535, ?v div 65536, ?v mod 65536]) = unat w"
    by (simp add: foldl_zeros)
  then show ?thesis by (simp only: groups_word_def) simp
qed

lemma parse6_body_mapped:
  assumes "is4in6 w"
  shows "parse6_body (''::ffff:'' @ show4 (ucast w)) z = Some (V6 w z)"
proof -
  have f: "''ffff:'' @ show4 v = show_hex 65535 @ '':'' @ show4 v" for v by (simp add: show_hex.simps)
  have ne: "show4 v \<noteq> []" for v by (simp add: show4_def)
  then have "hd (show4 v) \<noteq> CHR '':''" for v
    using show4_chars [OF hd_in_set [OF ne [of v]]] by auto
  with ne have "parse6_loop (''ffff:'' @ show4 (ucast w)) [] (Some 0) =
      Some ([65535, unat (ucast w :: 32 word) div 65536, unat (ucast w :: 32 word) mod 65536], Some 0)"
    unfolding f using parse6_colon [of 65535 "[]" "show4 (ucast w)" "Some 0"] parse6_dotted [of "[65535]"] by simp
  with groups_word_mapped [OF assms] show ?thesis by (simp add: parse6_body_def)
qed

lemma parse_addr_colon:
  assumes "\<forall>c \<in> set a. c \<noteq> CHR ''.'' \<and> c \<noteq> CHR '':'' \<and> c \<noteq> CHR ''%''"
  shows "parse_addr (a @ '':'' @ t) = parse_v6 (a @ '':'' @ t)"
proof -
  let ?P = "\<lambda>c. c = CHR ''.'' \<or> c = CHR '':'' \<or> c = CHR ''%''"
  have "find ?P (a @ CHR '':'' # t) = Some (CHR '':'')"
    using assms by (intro find_skip) auto
  then show ?thesis by (simp add: parse_addr_def)
qed

lemma show6_starts:
  obtains a t where "show6 w = a @ '':'' @ t" "\<forall>c \<in> set a. c \<in> set hex_digits"
proof -
  have "CHR '':'' \<in> set (show6 w)"
  proof (cases rule: show6_cases [of w])
    case plain
    obtain x y ys where "groups16 w = x # y # ys"
      using groups16_props(1) [of w] by (metis (no_types) length_Suc_conv numeral_eq_Suc pred_numeral_simps)
    with plain show ?thesis by simp
  qed simp
  from split_list_first [OF this] obtain a t where s: "show6 w = a @ CHR '':'' # t" "CHR '':'' \<notin> set a" by blast
  with show6_chars [of _ w] have "\<forall>c \<in> set a. c \<in> set hex_digits" by auto
  with s that show ?thesis by simp
qed

theorem parse_addr_show_addr:
  assumes "a \<noteq> AddrZero"
  shows "parse_addr (show_addr a) = Some a"
proof (cases a)
  case (V6 w z)
  let ?z = "if z = [] then [] else ''%'' @ z"
  show ?thesis
  proof (cases "is4in6 w")
    case True
    have "CHR ''%'' \<notin> set (''::ffff:'' @ show4 (ucast w))"
      using show4_chars [of "CHR ''%''"] by (auto simp: digit_val_def)
    note p = parse_v6_zone [OF this, of z] parse6_body_mapped [OF True, of z]
    show ?thesis using parse_addr_colon [of "[]" "'':ffff:'' @ show4 (ucast w) @ ?z"] p V6 True by simp
  next
    case False
    obtain b t where s: "show6 w = b @ '':'' @ t" "\<forall>c \<in> set b. c \<in> set hex_digits" by (rule show6_starts)
    have "CHR ''%'' \<notin> set (show6 w)" using show6_chars [of _ w] hex_digit_not_colon by auto
    note p = parse_v6_zone [OF this, of z] parse6_body_show6 [of w z]
    have "parse_addr (show6 w @ ?z) = parse_v6 (show6 w @ ?z)"
      using parse_addr_colon [of b "t @ ?z"] s hex_digit_not_colon by auto
    with p V6 False show ?thesis by simp
  qed
qed (use assms in simp_all)

theorem parse_prefix_show_prefix: "prefix_ok p \<Longrightarrow> parse_prefix (show_prefix p) = Some p"
  using parse_prefix_show [of p] parse_addr_show_addr by (simp add: prefix_ok_def prefix_valid_def)

lemma show_prefix_chars:
  assumes "prefix_ok p" and "c \<in> set (show_prefix p)"
  shows "c \<in> set hex_digits \<or> digit_val c \<noteq> None \<or> c = CHR '':'' \<or> c = CHR ''.'' \<or> c = CHR ''/''"
proof -
  have i: "c \<in> set (show_int (pfx_bits p)) \<Longrightarrow> digit_val c \<noteq> None"
    using assms(1) show_nat_chars [of c] by (auto simp: prefix_ok_def prefix_valid_def show_int_def)
  from assms i show ?thesis
    by (cases "pfx_addr p")
      (auto simp: prefix_ok_def show_prefix_def hex_digits_def dest!: show4_chars show6_chars split: if_splits)
qed

end
