(* ===== verification/Go_Base64.thy ===== *)
theory Go_Base64
  imports Go_Strings
begin

text \<open>
  Go's \<open>encoding/base64\<close> as the repository uses it: the standard alphabet with padding
  (\<open>StdEncoding\<close>, the form of WireGuard keys) and the URL alphabet without padding
  (\<open>RawURLEncoding\<close>, the payload of share URLs). \<open>DecodeString\<close> skips carriage returns and newlines
  and does not look at the unused low bits of a last short group; every failure is \<open>None\<close>. Nothing
  here models a file of the repository. The lemmas say that decoding reads encoded bytes back and
  which characters an encoding consists of.
\<close>

section \<open>Definitions\<close>

definition b64_std :: string where
  "b64_std = ''ABCDEFGHIJKLMNOPQRSTUVWXYZabcdefghijklmnopqrstuvwxyz0123456789+/''"

definition b64_url :: string where
  "b64_url = ''ABCDEFGHIJKLMNOPQRSTUVWXYZabcdefghijklmnopqrstuvwxyz0123456789-_''"

record b64_encoding =
  be_alphabet :: string
  be_pad :: bool

definition StdEncoding :: b64_encoding where "StdEncoding = \<lparr>be_alphabet = b64_std, be_pad = True\<rparr>"
definition RawURLEncoding :: b64_encoding where "RawURLEncoding = \<lparr>be_alphabet = b64_url, be_pad = False\<rparr>"

text \<open>The 24 bits of three bytes, and the four characters of 24 bits.\<close>

definition bits24 :: "byte \<Rightarrow> byte \<Rightarrow> byte \<Rightarrow> nat" where
  "bits24 a b c = unat a * 65536 + unat b * 256 + unat c"

definition b64_chars :: "b64_encoding \<Rightarrow> nat \<Rightarrow> string" where
  "b64_chars e v = map (\<lambda>i. be_alphabet e ! i)
     [v div 262144 mod 64, v div 4096 mod 64, v div 64 mod 64, v mod 64]"

definition b64_padding :: "b64_encoding \<Rightarrow> nat \<Rightarrow> string" where
  "b64_padding e n = (if be_pad e then replicate n (CHR ''='') else [])"

fun b64_encode :: "b64_encoding \<Rightarrow> bytes \<Rightarrow> string" where
  "b64_encode e [] = []"
| "b64_encode e [a] = take 2 (b64_chars e (bits24 a 0 0)) @ b64_padding e 2"
| "b64_encode e [a, b] = take 3 (b64_chars e (bits24 a b 0)) @ b64_padding e 1"
| "b64_encode e (a # b # c # bs) = b64_chars e (bits24 a b c) @ b64_encode e bs"

definition b64_val :: "b64_encoding \<Rightarrow> char \<Rightarrow> nat option" where
  "b64_val e c = index_byte (be_alphabet e) c"

definition bytes24 :: "nat \<Rightarrow> bytes" where
  "bytes24 v = [of_nat (v div 65536), of_nat (v div 256), of_nat v]"

definition quantum :: "b64_encoding \<Rightarrow> char \<Rightarrow> char \<Rightarrow> char \<Rightarrow> char \<Rightarrow> nat option" where
  "quantum e c0 c1 c2 c3 =
     (case (b64_val e c0, b64_val e c1, b64_val e c2, b64_val e c3) of
        (Some d0, Some d1, Some d2, Some d3) \<Rightarrow> Some (d0 * 262144 + d1 * 4096 + d2 * 64 + d3)
      | _ \<Rightarrow> None)"

text \<open>A short last group of two or three characters is completed by the character of value 0.\<close>

definition short2 :: "b64_encoding \<Rightarrow> char \<Rightarrow> char \<Rightarrow> bytes option" where
  "short2 e c0 c1 = (let z = be_alphabet e ! 0 in map_option (\<lambda>v. take 1 (bytes24 v)) (quantum e c0 c1 z z))"

definition short3 :: "b64_encoding \<Rightarrow> char \<Rightarrow> char \<Rightarrow> char \<Rightarrow> bytes option" where
  "short3 e c0 c1 c2 = (let z = be_alphabet e ! 0 in map_option (\<lambda>v. take 2 (bytes24 v)) (quantum e c0 c1 c2 z))"

fun b64_groups :: "b64_encoding \<Rightarrow> string \<Rightarrow> bytes option" where
  "b64_groups e [] = Some []"
| "b64_groups e (c0 # c1 # c2 # c3 # s) =
     (if be_pad e \<and> c3 = CHR ''='' then
        (if s \<noteq> [] then None
         else if c2 = CHR ''='' then short2 e c0 c1 else short3 e c0 c1 c2)
      else case quantum e c0 c1 c2 c3 of
        None \<Rightarrow> None
      | Some v \<Rightarrow> map_option (\<lambda>bs. bytes24 v @ bs) (b64_groups e s))"
| "b64_groups e [c0, c1] = (if be_pad e then None else short2 e c0 c1)"
| "b64_groups e [c0, c1, c2] = (if be_pad e then None else short3 e c0 c1 c2)"
| "b64_groups e [c0] = None"

definition b64_decode :: "b64_encoding \<Rightarrow> string \<Rightarrow> bytes option" where
  "b64_decode e s = b64_groups e (filter (\<lambda>c. c \<noteq> CHR 0x0A \<and> c \<noteq> CHR 0x0D) s)"

section \<open>The two alphabets\<close>

definition b64_ok :: "b64_encoding \<Rightarrow> bool" where
  "b64_ok e \<longleftrightarrow> length (be_alphabet e) = 64 \<and> distinct (be_alphabet e) \<and> CHR ''='' \<notin> set (be_alphabet e) \<and>
     CHR 0x0A \<notin> set (be_alphabet e) \<and> CHR 0x0D \<notin> set (be_alphabet e)"

lemma b64_ok_encodings [simp]: "b64_ok StdEncoding" "b64_ok RawURLEncoding"
  by (simp_all add: b64_ok_def StdEncoding_def RawURLEncoding_def b64_std_def b64_url_def)

lemma index_byte_nth: "distinct s \<Longrightarrow> i < length s \<Longrightarrow> index_byte s (s ! i) = Some i"
proof (induction s arbitrary: i)
  case (Cons c s)
  then show ?case by (cases i) (auto simp: index_byte_def)
qed simp

lemma b64_val_nth [simp]: "b64_ok e \<Longrightarrow> i < 64 \<Longrightarrow> b64_val e (be_alphabet e ! i) = Some i"
  by (simp add: b64_val_def b64_ok_def index_byte_nth)

lemma alphabet_nth:
  assumes "b64_ok e" and "i < 64"
  shows "be_alphabet e ! i \<in> set (be_alphabet e)" "be_alphabet e ! i \<noteq> CHR ''=''"
proof -
  show "be_alphabet e ! i \<in> set (be_alphabet e)" using assms by (simp add: b64_ok_def)
  with assms(1) show "be_alphabet e ! i \<noteq> CHR ''=''" by (auto simp: b64_ok_def)
qed

lemma b64_chars_set: "b64_ok e \<Longrightarrow> set (b64_chars e v) \<subseteq> set (be_alphabet e)"
  by (auto simp: b64_chars_def alphabet_nth)

lemma b64_encode_chars:
  "b64_ok e \<Longrightarrow> c \<in> set (b64_encode e bs) \<Longrightarrow> c \<in> set (be_alphabet e) \<or> be_pad e \<and> c = CHR ''=''"
  using b64_chars_set [of e]
  by (induction e bs rule: b64_encode.induct)
    (auto simp: b64_padding_def dest!: in_set_takeD)

section \<open>Decoding reads back\<close>

lemma digits64: "v < 16777216 \<Longrightarrow>
    v div 262144 mod 64 * 262144 + v div 4096 mod 64 * 4096 + v div 64 mod 64 * 64 + v mod 64 = (v :: nat)"
proof -
  assume "v < 16777216"
  then have c: "v div 262144 mod 64 = v div 262144" by (simp add: less_mult_imp_div_less)
  have "v div 4096 = v div 64 div 64" "v div 262144 = v div 64 div 64 div 64" by (simp_all add: div_mult2_eq [symmetric])
  note d = this
  have lin: "c * 262144 + r2 * 4096 + r1 * 64 + r0 = x"
    if "x = a * 64 + r0" "a = b * 64 + r1" "b = c * 64 + r2" for x a b c r0 r1 r2 :: nat
    using that by simp
  show ?thesis unfolding c
    using lin [of v "v div 64" "v mod 64" "v div 64 div 64" "v div 64 mod 64" "v div 64 div 64 div 64" "v div 64 div 64 mod 64"]
    unfolding d by (simp only: div_mult_mod_eq)
qed

lemma quantum_chars:
  assumes "b64_ok e" and "v < 16777216"
  shows "quantum e (be_alphabet e ! (v div 262144 mod 64)) (be_alphabet e ! (v div 4096 mod 64))
     (be_alphabet e ! (v div 64 mod 64)) (be_alphabet e ! (v mod 64)) = Some v"
  using assms digits64 [OF assms(2)] by (simp add: quantum_def)

lemma byte_less: "unat (b :: byte) < 256"
  using unsigned_less [of b, where 'a = nat] by simp

lemma bits24_less: "bits24 a b c < 16777216"
  using byte_less [of a] byte_less [of b] byte_less [of c] by (simp add: bits24_def)

lemma bytes24_bits24: "bytes24 (bits24 a b c) = [a, b, c]"
proof -
  have d: "bits24 a b c div 65536 = unat a" "bits24 a b c div 256 = unat a * 256 + unat b"
    using byte_less [of b] byte_less [of c] by (simp_all add: bits24_def)
  have "(of_nat (x * 256 + unat w) :: byte) = w" for x w
  proof -
    have "(of_nat 256 :: byte) = 0" by (simp only: word_of_nat_eq_0_iff) simp
    then show ?thesis by (simp only: of_nat_add of_nat_mult mult_zero_right add_0) simp
  qed
  from this [of "unat a" b] this [of "unat a * 256 + unat b" c] show ?thesis
    by (simp add: bytes24_def d) (simp add: bits24_def algebra_simps)
qed

lemma bits24_low: "bits24 a 0 0 mod 64 = 0" "bits24 a 0 0 div 64 mod 64 = 0" "bits24 a b 0 mod 64 = 0"
proof -
  have "bits24 a 0 0 = unat a * 1024 * 64" by (simp add: bits24_def)
  then show "bits24 a 0 0 mod 64 = 0" "bits24 a 0 0 div 64 mod 64 = 0" by simp_all
  have "bits24 a b 0 = (unat a * 1024 + unat b * 4) * 64" by (simp add: bits24_def)
  then show "bits24 a b 0 mod 64 = 0" by simp
qed

lemma b64_groups_encode: "b64_ok e \<Longrightarrow> b64_groups e (b64_encode e bs) = Some bs"
proof (induction e bs rule: b64_encode.induct)
  case (2 e a)
  note q = quantum_chars [OF 2 bits24_less [of a 0 0], unfolded bits24_low]
  have "short2 e (be_alphabet e ! (bits24 a 0 0 div 262144 mod 64)) (be_alphabet e ! (bits24 a 0 0 div 4096 mod 64)) = Some [a]"
    by (simp add: short2_def q bytes24_bits24)
  then show ?case by (simp add: b64_chars_def b64_padding_def numeral_2_eq_2)
next
  case (3 e a b)
  note q = quantum_chars [OF 3 bits24_less [of a b 0], unfolded bits24_low]
  have "short3 e (be_alphabet e ! (bits24 a b 0 div 262144 mod 64)) (be_alphabet e ! (bits24 a b 0 div 4096 mod 64))
      (be_alphabet e ! (bits24 a b 0 div 64 mod 64)) = Some [a, b]"
    by (simp add: short3_def q bytes24_bits24)
  moreover have "be_alphabet e ! (bits24 a b 0 div 64 mod 64) \<noteq> CHR ''=''" using 3 by (simp add: alphabet_nth)
  ultimately show ?case by (simp add: b64_chars_def b64_padding_def numeral_3_eq_3)
next
  case (4 e a b c bs)
  have "be_alphabet e ! (bits24 a b c mod 64) \<noteq> CHR ''=''" using 4 by (simp add: alphabet_nth)
  with 4 quantum_chars [OF 4(2) bits24_less [of a b c]] show ?case
    by (simp add: b64_chars_def bytes24_bits24)
qed simp

lemma b64_decode_encode: "b64_ok e \<Longrightarrow> b64_decode e (b64_encode e bs) = Some bs"
proof -
  assume ok: "b64_ok e"
  have "filter (\<lambda>c. c \<noteq> CHR 0x0A \<and> c \<noteq> CHR 0x0D) (b64_encode e bs) = b64_encode e bs"
    using b64_encode_chars [OF ok, of _ bs] ok by (intro filter_True) (auto simp: b64_ok_def)
  then show ?thesis by (simp add: b64_decode_def b64_groups_encode ok)
qed

lemma b64_encode_eq_Nil [simp]: "b64_encode e bs = [] \<longleftrightarrow> bs = []"
  by (induction e bs rule: b64_encode.induct) (auto simp: b64_chars_def)

lemma length_b64_chars [simp]: "length (b64_chars e v) = 4"
  by (simp add: b64_chars_def)

lemma length_b64_encode: "be_pad e \<Longrightarrow> length (b64_encode e bs) = 4 * ((length bs + 2) div 3)"
proof (induction e bs rule: b64_encode.induct)
  case (4 e a b c bs)
  moreover have "(n + 3 + 2) div 3 = Suc ((n + 2) div 3)" for n :: nat by linarith
  ultimately show ?case by simp
qed (simp_all add: b64_padding_def)

lemma StdEncoding_pad [simp]: "be_pad StdEncoding"
  by (simp add: StdEncoding_def)

lemma b64_not_space: "c \<in> set (b64_encode StdEncoding bs) \<Longrightarrow> \<not> is_space c"
  using b64_encode_chars [OF b64_ok_encodings(1), of c bs]
  by (auto simp: StdEncoding_def [THEN arg_cong [where f = be_alphabet]] b64_std_def is_space_def)

end
