(* ===== verification/Go_Time.thy ===== *)
theory Go_Time
  imports Go_Strings
begin

text \<open>
  \<open>time.ParseDuration\<close> of Go's library, with its \<open>uint64\<close> arithmetic. Go computes the fraction of a
  unit in floating point; that computation is the parameter \<open>frac\<close> (digits after the point, unit,
  power of ten). The unit names are the ASCII ones. Nothing here models a file of the
  repository.
\<close>

definition is_digit :: "char \<Rightarrow> bool" where "is_digit c \<longleftrightarrow> digit_val c \<noteq> None"

definition span_while :: "(char \<Rightarrow> bool) \<Rightarrow> string \<Rightarrow> string \<times> string" where
  "span_while P s = (takeWhile P s, dropWhile P s)"

definition digits_value :: "string \<Rightarrow> nat" where
  "digits_value s = (case digits_acc 0 s of None \<Rightarrow> 0 | Some n \<Rightarrow> n)"

text \<open>\<open>leadingFraction\<close>: digits beyond the precision are skipped.\<close>

fun frac_acc :: "nat \<Rightarrow> nat \<Rightarrow> string \<Rightarrow> nat \<times> nat" where
  "frac_acc x scale [] = (x, scale)"
| "frac_acc x scale (c # s) =
     (if x > (2 ^ 63 - 1) div 10 then (x, scale)
      else (let y = x * 10 + digits_value [c] in
            if y > 2 ^ 63 then (x, scale) else frac_acc y (scale * 10) s))"

definition unit_map :: "string \<Rightarrow> nat option" where
  "unit_map u = map_of [(''ns'', 1), (''us'', 1000), (''ms'', 1000000), (''s'', 1000000000),
     (''m'', 60000000000), (''h'', 3600000000000)] u"

definition fraction_part :: "string \<Rightarrow> (nat \<times> nat) \<times> bool \<times> string" where
  "fraction_part s =
     (case s of
        c # t \<Rightarrow> (if c = CHR ''.''
                  then (let (fs, r) = span_while is_digit t in (frac_acc 0 1 fs, fs \<noteq> [], r))
                  else ((0, 1), False, s))
      | [] \<Rightarrow> ((0, 1), False, []))"

lemma length_fraction_part: "length (snd (snd (fraction_part s))) \<le> length s"
  using length_dropWhile_le [of is_digit]
  by (cases s) (auto simp: fraction_part_def span_while_def Let_def le_SucI)

function dur_loop :: "(nat \<Rightarrow> nat \<Rightarrow> nat \<Rightarrow> nat) \<Rightarrow> nat \<Rightarrow> string \<Rightarrow> nat option" where
  "dur_loop frac d s =
     (if s = [] then Some d
      else if \<not> (hd s = CHR ''.'' \<or> is_digit (hd s)) then None
      else
        (let vs = takeWhile is_digit s; v = digits_value vs;
             fp = fraction_part (dropWhile is_digit s); f = fst (fst fp); scale = snd (fst fp);
             post = fst (snd fp); s2 = snd (snd fp);
             u = takeWhile (\<lambda>c. \<not> (c = CHR ''.'' \<or> is_digit c)) s2
         in if v > 2 ^ 63 \<or> vs = [] \<and> \<not> post \<or> u = [] then None
            else case unit_map u of
              None \<Rightarrow> None
            | Some unit \<Rightarrow>
                if v > 2 ^ 63 div unit then None
                else (let v2 = v * unit + (if f > 0 then frac f unit scale else 0);
                          d2 = (d + v2) mod 2 ^ 64
                      in if f > 0 \<and> v2 > 2 ^ 63 \<or> d2 > 2 ^ 63 then None
                         else dur_loop frac d2 (dropWhile (\<lambda>c. \<not> (c = CHR ''.'' \<or> is_digit c)) s2))))"
  by pat_completeness auto
termination
proof (relation "measure (\<lambda>(frac, d, s). length s)", goal_cases)
  case 1
  then show ?case by simp
next
  case (2 frac d s vs v fp f scale post s2 u unit v2 d2)
  have "s2 \<noteq> []" using 2(10,11) by auto
  let ?P = "\<lambda>c. \<not> (c = CHR ''.'' \<or> is_digit c)"
  have "takeWhile ?P s2 \<noteq> []" using 2(10,11) by auto
  then have "length (dropWhile ?P s2) < length s2"
    using takeWhile_dropWhile_id [of ?P s2] by (metis append_Nil length_append length_greater_0_conv less_add_same_cancel2)
  also have "length s2 \<le> length (dropWhile is_digit s)"
    using length_fraction_part 2(5,9) by blast
  also have "\<dots> \<le> length s" by (rule length_dropWhile_le)
  finally show ?case by simp
qed

declare dur_loop.simps [simp del]

definition parse_duration :: "(nat \<Rightarrow> nat \<Rightarrow> nat \<Rightarrow> nat) \<Rightarrow> string \<Rightarrow> int option" where
  "parse_duration frac s0 =
     (let (neg, s) =
        (case s0 of [] \<Rightarrow> (False, [])
         | c # t \<Rightarrow> if c = CHR ''-'' then (True, t) else if c = CHR ''+'' then (False, t) else (False, s0))
      in if s = ''0'' then Some 0
         else if s = [] then None
         else case dur_loop frac 0 s of
           None \<Rightarrow> None
         | Some d \<Rightarrow>
             if neg then Some (int64_wrap (- int d))
             else if d > 2 ^ 63 - 1 then None else Some (int d))"

text \<open>Bare digits have no unit and are no duration, except zero.\<close>

lemma dur_loop_digits:
  assumes "ds \<noteq> []" and "\<forall>c \<in> set ds. is_digit c"
  shows "dur_loop frac d ds = None"
proof -
  have dw: "dropWhile is_digit ds = []" using assms by (auto simp: dropWhile_eq_Nil_conv)
  have fp: "fraction_part [] = ((0, 1), False, [])" by (simp add: fraction_part_def)
  show ?thesis using assms(1) by (subst dur_loop.simps) (simp add: dw fp)
qed

lemma parse_duration_digits:
  assumes "ds \<noteq> []" and "\<forall>c \<in> set ds. is_digit c" and "ds \<noteq> ''0''"
  shows "parse_duration frac ds = None"
proof -
  have "hd ds \<noteq> CHR ''-''" "hd ds \<noteq> CHR ''+''"
    using assms(1,2) by (auto simp: is_digit_def dest!: bspec [OF _ hd_in_set])
  with assms show ?thesis
    by (cases ds) (auto simp: parse_duration_def dur_loop_digits Let_def)
qed

end
