(* ===== verification/Go_Float.thy ===== *)
theory Go_Float
  imports Go_Strings
begin

text \<open>
  What the repository uses of 64-bit floating point numbers: rounding to 53 significant bits, to
  even on a tie, \<open>strconv.ParseFloat\<close> on decimal numbers, comparison with integers and truncation.
  A finite number is a pair \<open>(m, q)\<close> of integers that stands for \<open>m * 2 ^ (- q)\<close>. Nothing here models
  a file of the repository.
\<close>

section \<open>Rounding\<close>

text \<open>\<open>round_even n d\<close> is the integer next to \<open>n / d\<close>; \<open>norm_steps\<close> is the number of doublings that
  bring \<open>n / d\<close> up to 1; \<open>bit_size\<close> is the number of binary digits.\<close>

definition round_even :: "nat \<Rightarrow> nat \<Rightarrow> nat" where
  "round_even n d =
     (let q = n div d; r = n mod d in if d < 2 * r \<or> d = 2 * r \<and> odd q then q + 1 else q)"

function norm_steps :: "nat \<Rightarrow> nat \<Rightarrow> nat" where
  "norm_steps n d = (if n = 0 \<or> d \<le> n then 0 else Suc (norm_steps (2 * n) d))"
  by pat_completeness auto
termination
  by (relation "measure (\<lambda>(n, d). d - n)") auto

declare norm_steps.simps [simp del]

function bit_size :: "nat \<Rightarrow> nat" where
  "bit_size n = (if n = 0 then 0 else Suc (bit_size (n div 2)))"
  by pat_completeness auto
termination
  by (relation "measure id") auto

declare bit_size.simps [simp del]

section \<open>Decimal numbers\<close>

type_synonym f64 = "int \<times> int"

text \<open>The number of binary digits of a positive integer, and the floor of the binary logarithm of
  \<open>n / d\<close> for positive \<open>n\<close> and \<open>d\<close>.\<close>

function int_bits :: "int \<Rightarrow> int" where
  "int_bits n = (if n \<le> 0 then 0 else 1 + int_bits (n div 2))"
  by pat_completeness auto
termination
  by (relation "measure nat") auto

declare int_bits.simps [simp del]

definition ratio_log :: "int \<Rightarrow> int \<Rightarrow> int" where
  "ratio_log n d =
     (let k = int_bits n - int_bits d in
      if d * 2 ^ nat k \<le> n * 2 ^ nat (- k) then k else k - 1)"

text \<open>The integer next to \<open>n / d\<close>, the even one on a tie.\<close>

definition int_round :: "int \<Rightarrow> int \<Rightarrow> int" where
  "int_round n d =
     (let q = n div d; r = n mod d in if d < 2 * r \<or> d = 2 * r \<and> odd q then q + 1 else q)"

text \<open>The float next to \<open>n / d\<close>, or \<open>None\<close> from \<open>2 ^ 1024\<close> on. A number of the normal range has 53
  significant bits; below that range neighbours stay \<open>2 ^ (- 1074)\<close> apart.\<close>

definition f64_of_ratio :: "bool \<Rightarrow> int \<Rightarrow> int \<Rightarrow> f64 option" where
  "f64_of_ratio neg n d =
     (if n = 0 then Some (0, 0)
      else (let q = min 1074 (52 - ratio_log n d);
                m = int_round (n * 2 ^ nat q) (d * 2 ^ nat (- q))
            in if q < - 971 \<or> (q = - 971 \<and> m \<ge> 2 ^ 53) then None
               else Some (if neg then - m else m, q)))"

text \<open>A decimal number of the grammar of JSON: sign, digits, fraction, exponent.\<close>

definition dec_digit :: "char \<Rightarrow> bool" where
  "dec_digit c \<longleftrightarrow> digit_val c \<noteq> None"

definition dec_int :: "string \<Rightarrow> int" where
  "dec_int s = foldl (\<lambda>a c. a * 10 + (of_char c - 48)) 0 s"

definition dec_exp :: "string \<Rightarrow> int" where
  "dec_exp s =
     (case s of
        [] \<Rightarrow> 0
      | _ # t \<Rightarrow>
          (case t of
             [] \<Rightarrow> 0
           | d # u \<Rightarrow>
               if d = CHR ''-'' then - dec_int u else if d = CHR ''+'' then dec_int u else dec_int t))"

definition ParseFloat :: "string \<Rightarrow> f64 option" where
  "ParseFloat s =
     (let neg = has_prefix s ''-''; s1 = trim_prefix s ''-'';
          i = takeWhile dec_digit s1; s2 = dropWhile dec_digit s1;
          s3 = trim_prefix s2 ''.''; f = (if has_prefix s2 ''.'' then takeWhile dec_digit s3 else []);
          e = (if has_prefix s2 ''.'' then dropWhile dec_digit s3 else s2);
          y = dec_exp e - int (length f)
      in f64_of_ratio neg (dec_int (i @ f) * 10 ^ nat y) (10 ^ nat (- y)))"

section \<open>Comparison and conversion\<close>

definition f64_eq :: "f64 \<Rightarrow> int \<Rightarrow> bool" where
  "f64_eq v n = (case v of (m, q) \<Rightarrow> m * 2 ^ nat (- q) = n * 2 ^ nat q)"

definition f64_trunc :: "f64 \<Rightarrow> int" where
  "f64_trunc v = (case v of (m, q) \<Rightarrow> go_div (m * 2 ^ nat (- q)) (2 ^ nat q))"

definition f64_zero :: f64 where "f64_zero = (0, 0)"

text \<open>\<open>int(v)\<close>. The language leaves the result open when the truncated value does not fit; \<open>far\<close> is
  what the machine gives then.\<close>

definition f64_int :: "(f64 \<Rightarrow> int) \<Rightarrow> f64 \<Rightarrow> int" where
  "f64_int far v = (if int64_ok (f64_trunc v) then f64_trunc v else far v)"

lemma f64_int_eq:
  assumes "f64_eq v n" and "int64_ok n"
  shows "f64_int far v = n"
proof -
  obtain m q where v: "v = (m, q)" by (cases v)
  have "go_div (n * 2 ^ k) (2 ^ k) = n" for k :: nat
    by (simp add: go_div_def signed_divide_int_def abs_mult sgn_mult power_abs)
       (metis abs_sgn mult.commute sgn_mult_abs)
  with assms v show ?thesis by (simp add: f64_int_def f64_trunc_def f64_eq_def)
qed

end
