(* ===== verification/Kernel_Config.thy ===== *)
theory Kernel_Config
  imports Netip_Text Go_Base64 Go_Time Go_Float
begin

text \<open>
  The configuration of the embedded WireGuard kernel, \<open>pkg/wgkernel/config.go\<close>: keys, validation,
  defaults and the text that configures a WireGuard device. \<open>ipc_read\<close> is the device's reading of
  that text; the main lemma, \<open>IPC_denotes\<close>, says that a validated configuration has a text and
  that the text means that configuration.
\<close>

section \<open>Definitions\<close>

subsection \<open>Floating point seconds\<close>

text \<open>\<open>int(d.Seconds())\<close> for a positive duration. \<open>Seconds\<close> adds the whole seconds and the rest
  divided by \<open>1e9\<close> as 64-bit floating point numbers; both operations round to 53 significant
  bits, to even on a tie, and the conversion truncates. \<open>norm_steps\<close> is the number of doublings
  that bring \<open>n / d\<close> up to 1; the rest has \<open>52 + norm_steps\<close> bits behind the point.\<close>

definition seconds_int :: "duration \<Rightarrow> nat" where
  "seconds_int d =
     (let sec = nat (d div second); nsec = nat (d mod second) in
      if nsec = 0 then sec
      else (let q = 52 + norm_steps nsec (nat second);
                m = round_even (nsec * 2 ^ q) (nat second);
                N = sec * 2 ^ q + m;
                drop = bit_size N - 53
            in round_even N (2 ^ drop) * 2 ^ drop div 2 ^ q))"

subsection \<open>Configuration\<close>

definition DefaultMTU :: int where "DefaultMTU = 1280"
definition MaxMTU :: int where "MaxMTU = 1380"

definition clampMTU :: "int \<Rightarrow> int" where
  "clampMTU mtu = (if mtu \<le> 0 then DefaultMTU else if mtu > MaxMTU then MaxMTU else mtu)"

record peer_config =
  pc_PublicKey :: string
  pc_PresharedKey :: string
  pc_Endpoint :: string
  pc_AllowedIPs :: "prefix list"
  pc_PersistentKeepalive :: duration

record kernel_config =
  kc_PrivateKey :: string
  kc_Address :: "prefix list"
  kc_ListenPort :: u16
  kc_MTU :: int
  kc_DNS :: "addr list"
  kc_Peers :: "peer_config list"

text \<open>The text of a base64 error names the position of the bad input; it is a parameter.\<close>

definition decodeWGKey :: "(string \<Rightarrow> go_error) \<Rightarrow> string \<Rightarrow> bytes res" where
  "decodeWGKey b64Err s0 =
     (let s = trim_space s0 in
      if s = [] then Inl (errors_New ''empty key'')
      else if length s = 64 then
        bind_res (case hex_decode s of Inl err \<Rightarrow> Inl (wrapf ''hex decode: '' err) | Inr k \<Rightarrow> Inr k) (\<lambda>k.
          if length k \<noteq> 32 then Inl (errors_New (''hex key wrong length: '' @ show_nat (length k))) else Inr k)
      else if length s = 44 then
        (case b64_decode StdEncoding s of
           None \<Rightarrow> Inl (wrapf ''base64 decode: '' (b64Err s))
         | Some k \<Rightarrow>
             if length k \<noteq> 32 then Inl (errors_New (''base64 key wrong length: '' @ show_nat (length k))) else Inr k)
      else Inl (errors_New (''key must be 64-char hex or 44-char base64, got '' @ show_nat (length s) @ '' chars'')))"

definition encodeWGKeyBase64 :: "bytes \<Rightarrow> string" where
  "encodeWGKeyBase64 raw = b64_encode StdEncoding raw"

text \<open>The checks of one peer, and the loop over the peers: the first failure is returned.\<close>

definition key_err :: "(string \<Rightarrow> go_error) \<Rightarrow> string \<Rightarrow> string \<Rightarrow> go_error option" where
  "key_err b64Err what s = (case decodeWGKey b64Err s of Inl err \<Rightarrow> Some (wrapf what err) | Inr _ \<Rightarrow> None)"

definition peer_err :: "nat \<Rightarrow> string" where
  "peer_err i = ''peer '' @ show_nat i @ '' ''"

definition validate_peer :: "(string \<Rightarrow> go_error) \<Rightarrow> nat \<Rightarrow> peer_config \<Rightarrow> go_error option" where
  "validate_peer b64Err i p =
     (case key_err b64Err (peer_err i @ ''PublicKey: '') (pc_PublicKey p) of
        Some err \<Rightarrow> Some err
      | None \<Rightarrow>
          (case (if pc_PresharedKey p \<noteq> [] then key_err b64Err (peer_err i @ ''PresharedKey: '') (pc_PresharedKey p)
                 else None) of
             Some err \<Rightarrow> Some err
           | None \<Rightarrow>
               (case find_index (\<lambda>a. \<not> prefix_valid a) (pc_AllowedIPs p) of
                  Some j \<Rightarrow> Some (errors_New (peer_err i @ ''AllowedIPs['' @ show_nat j @ ''] invalid''))
                | None \<Rightarrow>
                    if pc_PersistentKeepalive p < 0
                    then Some (errors_New (peer_err i @ ''PersistentKeepalive must be >= 0'')) else None)))"

fun validate_peers :: "(string \<Rightarrow> go_error) \<Rightarrow> nat \<Rightarrow> peer_config list \<Rightarrow> go_error option" where
  "validate_peers b64Err i [] = None"
| "validate_peers b64Err i (p # ps) =
     (case validate_peer b64Err i p of Some err \<Rightarrow> Some err | None \<Rightarrow> validate_peers b64Err (Suc i) ps)"

definition kc_Validate :: "(string \<Rightarrow> go_error) \<Rightarrow> kernel_config \<Rightarrow> go_error option" where
  "kc_Validate b64Err c =
     (case key_err b64Err ''PrivateKey: '' (kc_PrivateKey c) of
        Some err \<Rightarrow> Some err
      | None \<Rightarrow>
          if kc_MTU c < 0
          then Some (errors_New (''MTU must be >= 0 (zero defaults to '' @ show_int DefaultMTU @ '')''))
          else validate_peers b64Err 0 (kc_Peers c))"

definition kc_withDefaults :: "kernel_config \<Rightarrow> kernel_config" where
  "kc_withDefaults c = (if kc_MTU c = 0 then c\<lparr>kc_MTU := DefaultMTU\<rparr> else c)"

subsection \<open>The configuration text of the device\<close>

definition kv_line :: "string \<Rightarrow> string \<Rightarrow> string" where
  "kv_line k v = k @ ''='' @ v @ [newline]"

definition decode_as :: "(string \<Rightarrow> go_error) \<Rightarrow> string \<Rightarrow> string \<Rightarrow> bytes res" where
  "decode_as b64Err what s = (case decodeWGKey b64Err s of Inl err \<Rightarrow> Inl (wrapf what err) | Inr k \<Rightarrow> Inr k)"

definition ipc_peer :: "(string \<Rightarrow> go_error) \<Rightarrow> nat \<Rightarrow> peer_config \<Rightarrow> string res" where
  "ipc_peer b64Err i p =
     bind_res (decode_as b64Err (peer_err i @ ''PublicKey: '') (pc_PublicKey p)) (\<lambda>pub.
     bind_res (if pc_PresharedKey p \<noteq> []
               then bind_res (decode_as b64Err (peer_err i @ ''PresharedKey: '') (pc_PresharedKey p))
                      (\<lambda>psk. Inr (kv_line ''preshared_key'' (hex_encode psk)))
               else Inr []) (\<lambda>psk_line.
       Inr (kv_line ''public_key'' (hex_encode pub) @ psk_line @
         (if pc_Endpoint p \<noteq> [] then kv_line ''endpoint'' (pc_Endpoint p) else []) @
         (if pc_PersistentKeepalive p > 0
          then kv_line ''persistent_keepalive_interval'' (show_nat (seconds_int (pc_PersistentKeepalive p))) else []) @
         (if length (pc_AllowedIPs p) > 0
          then kv_line ''replace_allowed_ips'' ''true'' @
               concat (map (\<lambda>a. kv_line ''allowed_ip'' (show_prefix a)) (pc_AllowedIPs p))
          else []))))"

fun ipc_peers :: "(string \<Rightarrow> go_error) \<Rightarrow> nat \<Rightarrow> peer_config list \<Rightarrow> string \<Rightarrow> string res" where
  "ipc_peers b64Err i [] b = Inr b"
| "ipc_peers b64Err i (p # ps) b =
     bind_res (ipc_peer b64Err i p) (\<lambda>t. ipc_peers b64Err (Suc i) ps (b @ t))"

definition IPC :: "(string \<Rightarrow> go_error) \<Rightarrow> kernel_config \<Rightarrow> string res" where
  "IPC b64Err c =
     bind_res (decode_as b64Err ''PrivateKey: '' (kc_PrivateKey c)) (\<lambda>priv.
       ipc_peers b64Err 0 (kc_Peers c)
         (kv_line ''private_key'' (hex_encode priv) @ kv_line ''listen_port'' (show_nat (unat (kc_ListenPort c))) @
          kv_line ''replace_peers'' ''true''))"

section \<open>What a configuration text means\<close>

text \<open>
  A reader of the configuration protocol of WireGuard devices, as its documentation describes it:
  lines \<open>key=value\<close>, keys in hexadecimal; \<open>public_key\<close> opens a peer and the keys behind it belong
  to that peer. This is the specification that \<open>IPC\<close> is measured against, not code of the
  repository.
\<close>

record dev_peer =
  dp_public :: bytes
  dp_psk :: "bytes option"
  dp_endpoint :: "string option"
  dp_keepalive :: "nat option"
  dp_allowed :: "prefix list"

record dev_conf =
  dv_private :: bytes
  dv_port :: nat
  dv_peers :: "dev_peer list"

definition new_dev_peer :: "bytes \<Rightarrow> dev_peer" where
  "new_dev_peer k = \<lparr>dp_public = k, dp_psk = None, dp_endpoint = None, dp_keepalive = None, dp_allowed = []\<rparr>"

definition empty_dev_conf :: dev_conf where
  "empty_dev_conf = \<lparr>dv_private = [], dv_port = 0, dv_peers = []\<rparr>"

definition res_opt :: "'a res \<Rightarrow> 'a option" where
  "res_opt r = (case r of Inl _ \<Rightarrow> None | Inr x \<Rightarrow> Some x)"

definition on_last :: "dev_conf \<Rightarrow> (dev_peer \<Rightarrow> dev_peer) option \<Rightarrow> dev_conf option" where
  "on_last v f =
     (if dv_peers v = [] then None
      else map_option (\<lambda>g. v\<lparr>dv_peers := butlast (dv_peers v) @ [g (last (dv_peers v))]\<rparr>) f)"

definition ipc_set :: "string \<Rightarrow> string \<Rightarrow> dev_conf \<Rightarrow> dev_conf option" where
  "ipc_set k x v =
     (if k = ''private_key'' then map_option (\<lambda>b. v\<lparr>dv_private := b\<rparr>) (res_opt (hex_decode x))
      else if k = ''listen_port'' then map_option (\<lambda>n. v\<lparr>dv_port := n\<rparr>) (parse_uint 16 x)
      else if k = ''replace_peers'' then (if x = ''true'' then Some (v\<lparr>dv_peers := []\<rparr>) else None)
      else if k = ''public_key''
      then map_option (\<lambda>b. v\<lparr>dv_peers := dv_peers v @ [new_dev_peer b]\<rparr>) (res_opt (hex_decode x))
      else if k = ''preshared_key'' then on_last v (map_option (\<lambda>b p. p\<lparr>dp_psk := Some b\<rparr>) (res_opt (hex_decode x)))
      else if k = ''endpoint'' then on_last v (Some (\<lambda>p. p\<lparr>dp_endpoint := Some x\<rparr>))
      else if k = ''persistent_keepalive_interval''
      then on_last v (map_option (\<lambda>n p. p\<lparr>dp_keepalive := Some n\<rparr>) (parse_digits x))
      else if k = ''replace_allowed_ips''
      then on_last v (if x = ''true'' then Some (\<lambda>p. p\<lparr>dp_allowed := []\<rparr>) else None)
      else if k = ''allowed_ip''
      then on_last v (map_option (\<lambda>a p. p\<lparr>dp_allowed := dp_allowed p @ [a]\<rparr>) (parse_prefix x))
      else None)"

fun ipc_run :: "(string \<times> string) list \<Rightarrow> dev_conf \<Rightarrow> dev_conf option" where
  "ipc_run [] v = Some v"
| "ipc_run ((k, x) # kvs) v = (case ipc_set k x v of None \<Rightarrow> None | Some v' \<Rightarrow> ipc_run kvs v')"

definition cut_eq :: "string \<Rightarrow> string \<times> string" where
  "cut_eq l = (case index_byte l (CHR ''='') of None \<Rightarrow> (l, []) | Some i \<Rightarrow> (take i l, drop (i + 1) l))"

definition ipc_read :: "string \<Rightarrow> dev_conf option" where
  "ipc_read s = ipc_run (map cut_eq (scan_lines s)) empty_dev_conf"

text \<open>When a peer of the device is the peer of the configuration, and the same for the whole.\<close>

definition peer_denotes :: "(string \<Rightarrow> go_error) \<Rightarrow> peer_config \<Rightarrow> dev_peer \<Rightarrow> bool" where
  "peer_denotes b64Err p d \<longleftrightarrow>
     decodeWGKey b64Err (pc_PublicKey p) = Inr (dp_public d) \<and>
     (case dp_psk d of None \<Rightarrow> pc_PresharedKey p = []
      | Some k \<Rightarrow> pc_PresharedKey p \<noteq> [] \<and> decodeWGKey b64Err (pc_PresharedKey p) = Inr k) \<and>
     dp_endpoint d = (if pc_Endpoint p = [] then None else Some (pc_Endpoint p)) \<and>
     dp_keepalive d = (if pc_PersistentKeepalive p = 0 then None else Some (seconds_int (pc_PersistentKeepalive p))) \<and>
     dp_allowed d = pc_AllowedIPs p"

definition conf_denotes :: "(string \<Rightarrow> go_error) \<Rightarrow> kernel_config \<Rightarrow> dev_conf \<Rightarrow> bool" where
  "conf_denotes b64Err c v \<longleftrightarrow>
     decodeWGKey b64Err (kc_PrivateKey c) = Inr (dv_private v) \<and> dv_port v = unat (kc_ListenPort c) \<and>
     list_all2 (peer_denotes b64Err) (kc_Peers c) (dv_peers v)"

section \<open>Keys\<close>

lemma decodeWGKey_length: "decodeWGKey b64Err s = Inr k \<Longrightarrow> length k = 32"
  by (auto simp: decodeWGKey_def Let_def bind_res_Inr_iff split: if_splits sum.splits option.splits)

lemma not_space_trim:
  assumes "\<forall>c \<in> set s. \<not> is_space c"
  shows "trim_space s = s"
  using assms by (intro trim_space_id) (cases "s = []", auto)

lemma hex_not_space: "c \<in> set (hex_encode bs) \<Longrightarrow> \<not> is_space c"
  using hex_encode_chars [of c bs] by (auto simp: hex_digits_def is_space_def)

lemma decodeWGKey_encode:
  assumes "length k = 32"
  shows "decodeWGKey b64Err (encodeWGKeyBase64 k) = Inr k" "decodeWGKey b64Err (hex_encode k) = Inr k"
proof -
  have "trim_space (b64_encode StdEncoding k) = b64_encode StdEncoding k" "trim_space (hex_encode k) = hex_encode k"
    using b64_not_space hex_not_space by (auto intro: not_space_trim)
  moreover have "length (b64_encode StdEncoding k) = 44" "length (hex_encode k) = 64"
    using assms by (simp_all add: length_b64_encode)
  moreover from this have "b64_encode StdEncoding k \<noteq> []" "hex_encode k \<noteq> []"
    by (metis list.size(3) zero_neq_numeral)+
  ultimately show "decodeWGKey b64Err (encodeWGKeyBase64 k) = Inr k" "decodeWGKey b64Err (hex_encode k) = Inr k"
    using assms by (simp_all add: decodeWGKey_def encodeWGKeyBase64_def Let_def b64_decode_encode)
qed

section \<open>The text denotes the configuration\<close>

definition ipc_text :: "(string \<times> string) list \<Rightarrow> string" where
  "ipc_text kvs = concat (map (\<lambda>(k, x). kv_line k x) kvs)"

definition ipc_pair_ok :: "string \<times> string \<Rightarrow> bool" where
  "ipc_pair_ok kx \<longleftrightarrow> CHR ''='' \<notin> set (fst kx) \<and> newline \<notin> set (fst kx) \<and> snd kx \<noteq> [] \<and> line_ok (snd kx)"

lemma ipc_text_simps [simp]:
  "ipc_text [] = []" "ipc_text ((k, x) # kvs) = kv_line k x @ ipc_text kvs" "ipc_text (a @ b) = ipc_text a @ ipc_text b"
  by (simp_all add: ipc_text_def)

lemma cut_eq_pair: "ipc_pair_ok (k, x) \<Longrightarrow> cut_eq (k @ ''='' @ x) = (k, x)"
  using index_byte_append [of "CHR ''=''" k x] by (simp add: cut_eq_def ipc_pair_ok_def del: index_byte_None)

lemma ipc_read_text:
  assumes "\<forall>kx \<in> set kvs. ipc_pair_ok kx"
  shows "ipc_read (ipc_text kvs) = ipc_run kvs empty_dev_conf"
proof -
  let ?ls = "map (\<lambda>(k, x). k @ ''='' @ x) kvs"
  have "\<forall>l \<in> set ?ls. line_ok l"
    using assms by (auto simp: ipc_pair_ok_def line_ok_def newline_def)
  then have "scan_lines (unlines ?ls) = ?ls" by (rule scan_lines_unlines)
  moreover have "ipc_text kvs = unlines ?ls"
    by (simp add: ipc_text_def unlines_def kv_line_def comp_def case_prod_unfold)
  moreover have "cut_eq (fst kx @ ''='' @ snd kx) = kx" if "kx \<in> set kvs" for kx
    using assms that cut_eq_pair [of "fst kx" "snd kx"] by simp
  then have "map cut_eq ?ls = kvs" by (simp add: map_idI case_prod_unfold)
  ultimately show ?thesis by (simp add: ipc_read_def)
qed

lemma ipc_run_append: "ipc_run (a @ b) v = (case ipc_run a v of None \<Rightarrow> None | Some v' \<Rightarrow> ipc_run b v')"
  by (induction a v rule: ipc_run.induct) (auto split: option.splits)

lemmas ipc_set_simps = ipc_set_def on_last_def res_opt_def new_dev_peer_def

lemma ipc_run_allowed:
  assumes "\<forall>a \<in> set as. prefix_ok a"
  shows "ipc_run (map (\<lambda>a. (''allowed_ip'', show_prefix a)) as) (v\<lparr>dv_peers := ps @ [d]\<rparr>) =
    Some (v\<lparr>dv_peers := ps @ [d\<lparr>dp_allowed := dp_allowed d @ as\<rparr>]\<rparr>)"
  using assms
proof (induction as arbitrary: d)
  case (Cons a as)
  from Cons.IH [of "d\<lparr>dp_allowed := dp_allowed d @ [a]\<rparr>"] Cons.prems show ?case
    by (simp add: ipc_set_simps parse_prefix_show_prefix)
qed simp

text \<open>The pairs of one peer.\<close>

definition peer_pairs :: "peer_config \<Rightarrow> bytes \<Rightarrow> bytes option \<Rightarrow> (string \<times> string) list" where
  "peer_pairs p pub psk =
     [(''public_key'', hex_encode pub)] @
     (case psk of None \<Rightarrow> [] | Some k \<Rightarrow> [(''preshared_key'', hex_encode k)]) @
     (if pc_Endpoint p \<noteq> [] then [(''endpoint'', pc_Endpoint p)] else []) @
     (if pc_PersistentKeepalive p > 0
      then [(''persistent_keepalive_interval'', show_nat (seconds_int (pc_PersistentKeepalive p)))] else []) @
     (if pc_AllowedIPs p \<noteq> []
      then (''replace_allowed_ips'', ''true'') # map (\<lambda>a. (''allowed_ip'', show_prefix a)) (pc_AllowedIPs p) else [])"

definition dev_peer_of :: "peer_config \<Rightarrow> bytes \<Rightarrow> bytes option \<Rightarrow> dev_peer" where
  "dev_peer_of p pub psk =
     \<lparr>dp_public = pub, dp_psk = psk,
      dp_endpoint = (if pc_Endpoint p = [] then None else Some (pc_Endpoint p)),
      dp_keepalive = (if pc_PersistentKeepalive p > 0 then Some (seconds_int (pc_PersistentKeepalive p)) else None),
      dp_allowed = pc_AllowedIPs p\<rparr>"

lemma ipc_run_peer:
  assumes "\<forall>a \<in> set (pc_AllowedIPs p). prefix_ok a"
  shows "ipc_run (peer_pairs p pub psk) v = Some (v\<lparr>dv_peers := dv_peers v @ [dev_peer_of p pub psk]\<rparr>)"
proof -
  let ?d = "dev_peer_of p pub psk"
  let ?a = "if pc_AllowedIPs p \<noteq> []
      then (''replace_allowed_ips'', ''true'') # map (\<lambda>a. (''allowed_ip'', show_prefix a)) (pc_AllowedIPs p) else []"
  have a: "ipc_run ?a (v\<lparr>dv_peers := dv_peers v @ [?d\<lparr>dp_allowed := []\<rparr>]\<rparr>) = Some (v\<lparr>dv_peers := dv_peers v @ [?d]\<rparr>)"
    using ipc_run_allowed [OF assms, where v = v and ps = "dv_peers v" and d = "?d\<lparr>dp_allowed := []\<rparr>"]
    by (auto simp: ipc_set_simps dev_peer_of_def)
  have "ipc_run (peer_pairs p pub psk) v = ipc_run ?a (v\<lparr>dv_peers := dv_peers v @ [?d\<lparr>dp_allowed := []\<rparr>]\<rparr>)"
    unfolding peer_pairs_def append_assoc [symmetric]
    by (subst ipc_run_append) (auto simp: ipc_run_append ipc_set_simps dev_peer_of_def split: option.splits)
  with a show ?thesis by simp
qed

text \<open>What validation establishes of a peer.\<close>

definition peer_valid :: "(string \<Rightarrow> go_error) \<Rightarrow> peer_config \<Rightarrow> bool" where
  "peer_valid b64Err p \<longleftrightarrow>
     \<not> is_err (decodeWGKey b64Err (pc_PublicKey p)) \<and>
     (pc_PresharedKey p \<noteq> [] \<longrightarrow> \<not> is_err (decodeWGKey b64Err (pc_PresharedKey p))) \<and>
     (\<forall>a \<in> set (pc_AllowedIPs p). prefix_valid a) \<and> 0 \<le> pc_PersistentKeepalive p"

lemma first_err_None: "(case x of None \<Rightarrow> y | Some e \<Rightarrow> Some e) = None \<longleftrightarrow> x = None \<and> y = None"
  by (cases x) simp_all

lemma key_err_None [simp]: "key_err b64Err w s = None \<longleftrightarrow> \<not> is_err (decodeWGKey b64Err s)"
  by (simp add: key_err_def is_err_def split: sum.splits)

lemma validate_peer_None: "validate_peer b64Err i p = None \<longleftrightarrow> peer_valid b64Err p"
proof -
  have j: "(case find_index P xs of None \<Rightarrow> y | Some j \<Rightarrow> Some (f j)) = None \<longleftrightarrow> (\<forall>x \<in> set xs. \<not> P x) \<and> y = None"
    for P :: "prefix \<Rightarrow> bool" and xs and y :: "go_error option" and f
    using find_index_None [of P xs] by (cases "find_index P xs") (auto simp del: find_index_None)
  show ?thesis by (auto simp: validate_peer_def peer_valid_def first_err_None j)
qed

lemma validate_peers_None: "validate_peers b64Err i ps = None \<longleftrightarrow> (\<forall>p \<in> set ps. peer_valid b64Err p)"
  by (induction ps arbitrary: i) (simp_all add: first_err_None validate_peer_None)

lemma kc_Validate_None:
  "kc_Validate b64Err c = None \<longleftrightarrow>
   \<not> is_err (decodeWGKey b64Err (kc_PrivateKey c)) \<and> 0 \<le> kc_MTU c \<and> (\<forall>p \<in> set (kc_Peers c). peer_valid b64Err p)"
  by (auto simp: kc_Validate_def validate_peers_None first_err_None)

lemma not_is_err_iff: "\<not> is_err r \<longleftrightarrow> (\<exists>x. r = Inr x)"
  by (cases r) auto

lemma line_ok_chars: "(\<And>c. c \<in> set l \<Longrightarrow> c \<noteq> newline \<and> c \<noteq> CHR 0x0D) \<Longrightarrow> line_ok l"
  by (auto simp: line_ok_def)

lemma digit_not_newline: "digit_val c \<noteq> None \<Longrightarrow> c \<noteq> newline \<and> c \<noteq> CHR 0x0D"
  by (auto simp: digit_val_def newline_def)

lemma hex_digit_not_newline: "c \<in> set hex_digits \<Longrightarrow> c \<noteq> newline \<and> c \<noteq> CHR 0x0D"
  by (auto simp: hex_digits_def newline_def)

lemma line_ok_values [simp]:
  "line_ok (hex_encode bs)" "line_ok (show_nat n)" "prefix_ok a \<Longrightarrow> line_ok (show_prefix a)"
  "line_ok ''true''"
proof -
  show "line_ok (hex_encode bs)" using hex_encode_chars hex_digit_not_newline by (intro line_ok_chars) blast
  show "line_ok (show_nat n)" using show_nat_chars digit_not_newline by (intro line_ok_chars) blast
  have p: "CHR '':'' \<noteq> newline \<and> CHR '':'' \<noteq> CHR 0x0D" "CHR ''.'' \<noteq> newline \<and> CHR ''.'' \<noteq> CHR 0x0D"
    "CHR ''/'' \<noteq> newline \<and> CHR ''/'' \<noteq> CHR 0x0D" by (simp_all add: newline_def)
  show "line_ok (show_prefix a)" if "prefix_ok a"
    using show_prefix_chars [OF that] digit_not_newline hex_digit_not_newline p by (intro line_ok_chars) metis
  show "line_ok ''true''" by (simp add: line_ok_def newline_def)
qed

lemma show_prefix_not_Nil [simp]: "show_prefix a \<noteq> []"
  by (simp add: show_prefix_def)

lemma decodeWGKey_hex_ne: "decodeWGKey b64Err s = Inr k \<Longrightarrow> hex_encode k \<noteq> []"
  using decodeWGKey_length [of b64Err s k] length_hex_encode [of k] by (metis list.size(3) mult_eq_0_iff zero_neq_numeral)

definition endpoint_ok :: "peer_config \<Rightarrow> bool" where
  "endpoint_ok p \<longleftrightarrow> line_ok (pc_Endpoint p)"

lemma ipc_peer_text:
  assumes "decodeWGKey b64Err (pc_PublicKey p) = Inr pub"
    and "if pc_PresharedKey p = [] then psk = None
         else \<exists>k. decodeWGKey b64Err (pc_PresharedKey p) = Inr k \<and> psk = Some k"
  shows "ipc_peer b64Err i p = Inr (ipc_text (peer_pairs p pub psk))"
  using assms
  by (auto simp: ipc_peer_def peer_pairs_def decode_as_def ipc_text_def comp_def split: if_splits)

lemma peer_pairs_ok:
  assumes "decodeWGKey b64Err s = Inr pub" and "\<And>k. psk = Some k \<Longrightarrow> decodeWGKey b64Err s' = Inr k"
    and "endpoint_ok p" and "\<forall>a \<in> set (pc_AllowedIPs p). prefix_ok a"
  shows "\<forall>kx \<in> set (peer_pairs p pub psk). ipc_pair_ok kx"
  using assms decodeWGKey_hex_ne [OF assms(1)] decodeWGKey_hex_ne [OF assms(2)]
  by (auto simp: peer_pairs_def ipc_pair_ok_def endpoint_ok_def newline_def split: option.splits if_splits)

lemma ipc_peer_ok:
  assumes "peer_valid b64Err p" and "endpoint_ok p" and "\<forall>a \<in> set (pc_AllowedIPs p). prefix_ok a"
  obtains kvs d where "\<And>i. ipc_peer b64Err i p = Inr (ipc_text kvs)" "\<forall>kx \<in> set kvs. ipc_pair_ok kx"
    "\<And>v. ipc_run kvs v = Some (v\<lparr>dv_peers := dv_peers v @ [d]\<rparr>)" "peer_denotes b64Err p d"
proof -
  obtain pub where pub: "decodeWGKey b64Err (pc_PublicKey p) = Inr pub"
    using assms(1) by (auto simp: peer_valid_def not_is_err_iff)
  obtain psk where psk: "if pc_PresharedKey p = [] then psk = None
      else \<exists>k. decodeWGKey b64Err (pc_PresharedKey p) = Inr k \<and> psk = Some k"
    using assms(1) by (cases "pc_PresharedKey p = []") (auto simp: peer_valid_def not_is_err_iff)
  then have k: "\<And>k. psk = Some k \<Longrightarrow> decodeWGKey b64Err (pc_PresharedKey p) = Inr k" by (auto split: if_splits)
  have "peer_denotes b64Err p (dev_peer_of p pub psk)"
    using pub psk assms(1) by (auto simp: peer_denotes_def dev_peer_of_def peer_valid_def split: if_splits)
  with that ipc_peer_text [OF pub psk] peer_pairs_ok [OF pub k assms(2,3)] ipc_run_peer [OF assms(3)]
  show ?thesis by blast
qed

lemma ipc_peers_ok:
  assumes "\<forall>p \<in> set ps. peer_valid b64Err p \<and> endpoint_ok p \<and> (\<forall>a \<in> set (pc_AllowedIPs p). prefix_ok a)"
  shows "\<exists>kvs ds. ipc_peers b64Err i ps b = Inr (b @ ipc_text kvs) \<and> (\<forall>kx \<in> set kvs. ipc_pair_ok kx) \<and>
    (\<forall>v. ipc_run kvs v = Some (v\<lparr>dv_peers := dv_peers v @ ds\<rparr>)) \<and> list_all2 (peer_denotes b64Err) ps ds"
  using assms
proof (induction ps arbitrary: i b)
  case Nil
  show ?case by (intro exI [of _ "[]"]) simp
next
  case (Cons p ps)
  obtain kvs d where p: "\<And>i. ipc_peer b64Err i p = Inr (ipc_text kvs)" "\<forall>kx \<in> set kvs. ipc_pair_ok kx"
    "\<And>v. ipc_run kvs v = Some (v\<lparr>dv_peers := dv_peers v @ [d]\<rparr>)" "peer_denotes b64Err p d"
    using ipc_peer_ok [of b64Err p] Cons.prems by auto
  obtain kvs' ds where ps: "ipc_peers b64Err (Suc i) ps (b @ ipc_text kvs) = Inr ((b @ ipc_text kvs) @ ipc_text kvs')"
    "\<forall>kx \<in> set kvs'. ipc_pair_ok kx" "\<forall>v. ipc_run kvs' v = Some (v\<lparr>dv_peers := dv_peers v @ ds\<rparr>)"
    "list_all2 (peer_denotes b64Err) ps ds"
    using Cons by (metis list.set_intros(2))
  from p ps show ?case
    by (intro exI [of _ "kvs @ kvs'"] exI [of _ "d # ds"]) (auto simp: ipc_run_append)
qed

lemma IPC_denotes:
  assumes "kc_Validate b64Err c = None"
    and "\<forall>p \<in> set (kc_Peers c). endpoint_ok p \<and> (\<forall>a \<in> set (pc_AllowedIPs p). prefix_ok a)"
  shows "\<exists>ipc v. IPC b64Err c = Inr ipc \<and> ipc_read ipc = Some v \<and> conf_denotes b64Err c v"
proof -
  obtain priv where priv: "decodeWGKey b64Err (kc_PrivateKey c) = Inr priv"
    using assms(1) by (auto simp: kc_Validate_None not_is_err_iff)
  let ?port = "show_nat (unat (kc_ListenPort c))"
  let ?hdr = "[(''private_key'', hex_encode priv), (''listen_port'', ?port), (''replace_peers'', ''true'')]"
  obtain kvs ds where ps: "ipc_peers b64Err 0 (kc_Peers c) (ipc_text ?hdr) = Inr (ipc_text ?hdr @ ipc_text kvs)"
    "\<forall>kx \<in> set kvs. ipc_pair_ok kx" "\<forall>v. ipc_run kvs v = Some (v\<lparr>dv_peers := dv_peers v @ ds\<rparr>)"
    "list_all2 (peer_denotes b64Err) (kc_Peers c) ds"
    using ipc_peers_ok [of "kc_Peers c" b64Err 0 "ipc_text ?hdr"] assms by (auto simp: kc_Validate_None)
  have "\<forall>kx \<in> set (?hdr @ kvs). ipc_pair_ok kx"
    using ps(2) decodeWGKey_hex_ne [OF priv] by (auto simp: ipc_pair_ok_def newline_def)
  then have "ipc_read (ipc_text (?hdr @ kvs)) = ipc_run (?hdr @ kvs) empty_dev_conf" by (rule ipc_read_text)
  also have "\<dots> = Some \<lparr>dv_private = priv, dv_port = unat (kc_ListenPort c), dv_peers = ds\<rparr>"
    using ps(3) unat_word_less [of "kc_ListenPort c"]
    by (simp add: ipc_set_simps empty_dev_conf_def parse_uint_def)
  finally show ?thesis
    using ps priv by (auto simp: IPC_def decode_as_def conf_denotes_def)
qed

text \<open>Whole seconds are exact.\<close>

lemma seconds_int_whole: "seconds_int (int n * second) = n"
  by (simp add: seconds_int_def)

end
