(* ===== verification/Tun_Memory.thy ===== *)
theory Tun_Memory
  imports Kernel_Config Lossy_Fifo
begin

text \<open>
  The in-process TUN devices of \<open>pkg/wgkernel/tun.go\<close>: two \<open>MemoryTUN\<close>s whose queues are crossed. A device
  writes into its own channel and reads from the other's. \<open>Write\<close> looks at the device's flag first and
  sends after that, so the two are separate steps where \<open>Close\<close> can come in between.
\<close>

section \<open>Definitions\<close>

datatype side = SideA | SideB

fun other :: "side \<Rightarrow> side" where "other SideA = SideB" | "other SideB = SideA"

record tun_queue =
  tq_buf :: "bytes list"
  tq_closed :: bool

record mem_tun =
  mt_name :: string
  mt_mtu :: int
  mt_closed :: bool
  mt_done :: bool

record tun_pair =
  tp_dev :: "side \<Rightarrow> mem_tun"
  tp_out :: "side \<Rightarrow> tun_queue"

text \<open>The pair and the depth of its queues.\<close>

definition NewMemoryTUNPair :: "string \<Rightarrow> int \<Rightarrow> int \<Rightarrow> tun_pair \<times> nat" where
  "NewMemoryTUNPair name mtu buffer =
     (\<lparr>tp_dev = (\<lambda>d. \<lparr>mt_name = name @ (case d of SideA \<Rightarrow> ''-a'' | SideB \<Rightarrow> ''-b''), mt_mtu = clampMTU mtu, mt_closed = False, mt_done = False\<rparr>),
       tp_out = (\<lambda>_. \<lparr>tq_buf = [], tq_closed = False\<rparr>)\<rparr>,
      nat (if buffer \<le> 0 then 16 else buffer))"

definition errOsClosed :: go_error where
  "errOsClosed = GoError ''file already closed'' [ErrOsClosed]"

definition set_queue :: "side \<Rightarrow> bytes list \<Rightarrow> tun_pair \<Rightarrow> tun_pair" where
  "set_queue d q p = p\<lparr>tp_out := (tp_out p)(d := (tp_out p d)\<lparr>tq_buf := q\<rparr>)\<rparr>"

text \<open>The wait of \<open>Read\<close>: \<open>None\<close> while nothing is there; \<open>pickDone\<close> decides when both cases of the select are
  ready. \<open>nb\<close> and \<open>ns\<close> are the lengths of the two slices, \<open>len\<close> that of the first buffer. A packet that does
  not fit has been taken from the queue.\<close>

definition mem_select :: "bool \<Rightarrow> side \<Rightarrow> nat \<Rightarrow> nat \<Rightarrow> nat \<Rightarrow> nat \<Rightarrow> tun_pair \<Rightarrow> bytes res option \<times> tun_pair" where
  "mem_select pickDone d nb ns len offset p =
     (let q = tp_out p (other d) in
      if mt_done (tp_dev p d) \<and> (pickDone \<or> (tq_buf q = [] \<and> \<not> tq_closed q)) then (Some (Inl errOsClosed), p)
      else case tq_buf q of
        [] \<Rightarrow> (if tq_closed q then Some (Inl errOsClosed) else None, p)
      | pkt # rest \<Rightarrow>
          (let p1 = set_queue (other d) rest p in
           if nb = 0 \<or> ns = 0 then (Some (Inl (errors_New ''memtun: empty bufs/sizes'')), p1)
           else if offset + length pkt > len then (Some (Inl (errors_New ''memtun: packet exceeds buffer'')), p1)
           else (Some (Inr pkt), p1)))"

definition mem_Read :: "bool \<Rightarrow> side \<Rightarrow> nat \<Rightarrow> nat \<Rightarrow> nat \<Rightarrow> nat \<Rightarrow> tun_pair \<Rightarrow> bytes res option \<times> tun_pair" where
  "mem_Read pickDone d nb ns len offset p =
     (if mt_closed (tp_dev p d) then (Some (Inl errOsClosed), p) else mem_select pickDone d nb ns len offset p)"

datatype write_outcome = Wrote nat "go_error option" | Panicked

text \<open>The loop of \<open>Write\<close>: a send on a closed channel panics.\<close>

fun write_loop :: "nat \<Rightarrow> side \<Rightarrow> nat \<Rightarrow> bytes list \<Rightarrow> nat \<Rightarrow> tun_pair \<Rightarrow> write_outcome \<times> tun_pair" where
  "write_loop cap d offset [] written p = (Wrote written None, p)"
| "write_loop cap d offset (b # bs) written p =
     (if length b \<le> offset then write_loop cap d offset bs written p
      else let q = tp_out p d in
        if tq_closed q then (Panicked, p)
        else if length (tq_buf q) < cap
        then write_loop cap d offset bs (Suc written) (set_queue d (tq_buf q @ [drop offset b]) p)
        else (Wrote written (Some (errors_New ''memtun: out queue full'')), p))"

definition mem_Write :: "nat \<Rightarrow> side \<Rightarrow> nat \<Rightarrow> bytes list \<Rightarrow> tun_pair \<Rightarrow> write_outcome \<times> tun_pair" where
  "mem_Write cap d offset bufs p =
     (if mt_closed (tp_dev p d) then (Wrote 0 (Some errOsClosed), p) else write_loop cap d offset bufs 0 p)"

definition mem_Close :: "side \<Rightarrow> tun_pair \<Rightarrow> tun_pair" where
  "mem_Close d p =
     (if mt_closed (tp_dev p d) then p
      else p\<lparr>tp_dev := (tp_dev p)(d := (tp_dev p d)\<lparr>mt_closed := True, mt_done := True\<rparr>),
             tp_out := (tp_out p)(d := (tp_out p d)\<lparr>tq_closed := True\<rparr>)\<rparr>)"

section \<open>Packets\<close>

text \<open>What \<open>Write\<close> is given to send.\<close>

definition payloads :: "nat \<Rightarrow> bytes list \<Rightarrow> bytes list" where
  "payloads offset bufs = map (drop offset) (filter (\<lambda>b. length b > offset) bufs)"

lemma payloads_Cons: "payloads offset (b # bs) = (if length b > offset then drop offset b # payloads offset bs else payloads offset bs)"
  by (simp add: payloads_def)

lemma set_queue_simps [simp]:
  "tq_buf (tp_out (set_queue d q p) d) = q" "tq_closed (tp_out (set_queue d q p) x) = tq_closed (tp_out p x)"
  "x \<noteq> d \<Longrightarrow> tp_out (set_queue d q p) x = tp_out p x" "tp_dev (set_queue d q p) = tp_dev p"
  "set_queue d q' (set_queue d q p) = set_queue d q' p"
  by (auto simp: set_queue_def)

lemma set_queue_same: "set_queue d (tq_buf (tp_out p d)) p = p"
  by (simp add: set_queue_def)

text \<open>An open device takes the packets in order while there is room, says how many it took, and fails if
  and only if it could not take all of them.\<close>

lemma write_loop_exact:
  assumes "\<not> tq_closed (tp_out p d)"
  shows "write_loop cap d offset bufs n p =
    (let ps = payloads offset bufs; k = min (length ps) (cap - length (tq_buf (tp_out p d))) in
     (Wrote (n + k) (if k < length ps then Some (errors_New ''memtun: out queue full'') else None),
      set_queue d (tq_buf (tp_out p d) @ take k ps) p))"
  using assms
proof (induction bufs arbitrary: n p)
  case Nil
  then show ?case by (simp add: payloads_def set_queue_same)
next
  case (Cons b bs)
  show ?case
  proof (cases "length b \<le> offset")
    case True
    then show ?thesis using Cons by (simp add: payloads_Cons)
  next
    case False
    let ?q = "tq_buf (tp_out p d)"
    show ?thesis
    proof (cases "length ?q < cap")
      case True
      let ?p = "set_queue d (?q @ [drop offset b]) p"
      have "cap - length ?q = Suc (cap - length (?q @ [drop offset b]))" using True by simp
      then show ?thesis using False True Cons.prems Cons.IH [of ?p "Suc n"] by (simp add: payloads_Cons Let_def min_def)
    next
      case full: False
      then show ?thesis using False Cons.prems by (simp add: payloads_Cons Let_def set_queue_same)
    qed
  qed
qed

text \<open>A device that closes between the check of a \<open>Write\<close> and its send makes the send panic.\<close>

lemma write_close_race:
  assumes "\<not> mt_closed (tp_dev p d)" and "payloads offset bufs \<noteq> []"
  shows "fst (write_loop cap d offset bufs 0 (mem_Close d p)) = Panicked"
proof -
  have "tq_closed (tp_out (mem_Close d p) d)" using assms(1) by (simp add: mem_Close_def)
  then show ?thesis using assms(2) by (induction bufs) (auto simp: payloads_Cons payloads_def [of _ "[]"] Let_def)
qed

text \<open>A reader that waits is woken by the close of either device.\<close>

lemma close_wakes_reader:
  assumes "tq_buf (tp_out p (other d)) = []" and "\<not> mt_closed (tp_dev p e)"
  shows "fst (mem_select pickDone d nb ns len offset (mem_Close e p)) = Some (Inl errOsClosed)"
  using assms by (cases d; cases e) (auto simp: mem_select_def mem_Close_def Let_def)

section \<open>The queue of one direction\<close>

datatype tun_event = TWrite side nat "bytes list" | TRead bool side nat nat nat nat | TClose side

text \<open>What the reader of the other side gets of a device's packets.\<close>

definition tun_step :: "nat \<Rightarrow> side \<Rightarrow> tun_event \<Rightarrow> tun_pair \<Rightarrow> bytes list \<times> tun_pair" where
  "tun_step cap d e p =
     (case e of
        TWrite x offset bufs \<Rightarrow> ([], snd (mem_Write cap x offset bufs p))
      | TRead pd x nb ns len offset \<Rightarrow>
          (case mem_Read pd x nb ns len offset p of
             (Some (Inr pkt), p1) \<Rightarrow> (if x = other d then [pkt] else [], p1)
           | (_, p1) \<Rightarrow> ([], p1))
      | TClose x \<Rightarrow> ([], mem_Close x p))"

definition tun_offered :: "side \<Rightarrow> tun_event \<Rightarrow> bytes list" where
  "tun_offered d e = (case e of TWrite x offset bufs \<Rightarrow> if x = d then payloads offset bufs else [] | _ \<Rightarrow> [])"

lemma write_loop_queue:
  "\<exists>k. tq_buf (tp_out (snd (write_loop cap x offset bufs n p)) d) =
     tq_buf (tp_out p d) @ (if x = d then take k (payloads offset bufs) else []) \<and>
     (length (tq_buf (tp_out p d)) \<le> cap \<longrightarrow> length (tq_buf (tp_out (snd (write_loop cap x offset bufs n p)) d)) \<le> cap)"
proof (cases "tq_closed (tp_out p x)")
  case True
  then have "snd (write_loop cap x offset bufs n p) = p" by (induction bufs arbitrary: n) (auto simp: Let_def)
  then show ?thesis by (intro exI [of _ 0]) simp
next
  case False
  let ?k = "min (length (payloads offset bufs)) (cap - length (tq_buf (tp_out p x)))"
  have "snd (write_loop cap x offset bufs n p) = set_queue x (tq_buf (tp_out p x) @ take ?k (payloads offset bufs)) p"
    by (simp add: write_loop_exact [OF False] Let_def)
  then show ?thesis by (intro exI [of _ ?k]) auto
qed

lemma mem_Read_queue:
  assumes "mem_Read pd x nb ns len offset p = (r, p1)"
  shows "\<exists>lost. tq_buf (tp_out p d) = (case r of Some (Inr pkt) \<Rightarrow> if x = other d then [pkt] else [] | _ \<Rightarrow> []) @ lost @ tq_buf (tp_out p1 d)"
proof (cases "d = other x")
  case True
  then have "x = other d" by (cases x) auto
  with True assms show ?thesis
    by (cases "tq_buf (tp_out p d)") (auto simp: mem_Read_def mem_select_def Let_def split: if_splits)
next
  case False
  then have "x \<noteq> other d" by (cases x; cases d) auto
  with False assms show ?thesis
    by (intro exI [of _ "[]"]) (auto simp: mem_Read_def mem_select_def Let_def split: if_splits list.splits option.splits sum.splits)
qed

interpretation tun_fifo: lossy_fifo "tun_step cap d" "tun_offered d" "\<lambda>p. tq_buf (tp_out p d)" cap for cap d
proof
  fix e p
  have "\<exists>ys. subseq ys (tun_offered d e) \<and>
      (\<exists>lost. tq_buf (tp_out p d) @ ys = fst (tun_step cap d e p) @ lost @ tq_buf (tp_out (snd (tun_step cap d e p)) d)) \<and>
      (length (tq_buf (tp_out p d)) \<le> cap \<longrightarrow> length (tq_buf (tp_out (snd (tun_step cap d e p)) d)) \<le> cap)"
  proof (cases e)
    case (TWrite x offset bufs)
    obtain k where k: "tq_buf (tp_out (snd (write_loop cap x offset bufs 0 p)) d) =
        tq_buf (tp_out p d) @ (if x = d then take k (payloads offset bufs) else [])"
      "length (tq_buf (tp_out p d)) \<le> cap \<longrightarrow> length (tq_buf (tp_out (snd (write_loop cap x offset bufs 0 p)) d)) \<le> cap"
      using write_loop_queue by blast
    have "subseq (take k (payloads offset bufs)) (payloads offset bufs)" by (simp add: prefix_imp_subseq take_is_prefix)
    then show ?thesis using k TWrite
      by (cases "mt_closed (tp_dev p x)") (auto simp: tun_step_def tun_offered_def mem_Write_def intro: exI [of _ "[]"])
  next
    case (TRead pd x nb ns len offset)
    obtain r p1 where r: "mem_Read pd x nb ns len offset p = (r, p1)" by (cases "mem_Read pd x nb ns len offset p") auto
    from mem_Read_queue [OF r, of d] obtain lost where l: "tq_buf (tp_out p d) =
        (case r of Some (Inr pkt) \<Rightarrow> if x = other d then [pkt] else [] | _ \<Rightarrow> []) @ lost @ tq_buf (tp_out p1 d)" by blast
    moreover have "tun_step cap d e p = (case r of Some (Inr pkt) \<Rightarrow> if x = other d then [pkt] else [] | _ \<Rightarrow> [], p1)"
      using TRead r by (auto simp: tun_step_def split: option.splits sum.splits)
    ultimately show ?thesis by (intro exI [of _ "[]"]) (auto dest: arg_cong [where f = length])
  next
    case (TClose x)
    then show ?thesis by (intro exI [of _ "[]"]) (auto simp: tun_step_def mem_Close_def)
  qed
  then obtain ys lost where y: "subseq ys (tun_offered d e)"
    "tq_buf (tp_out p d) @ ys = fst (tun_step cap d e p) @ lost @ tq_buf (tp_out (snd (tun_step cap d e p)) d)"
    "length (tq_buf (tp_out p d)) \<le> cap \<longrightarrow> length (tq_buf (tp_out (snd (tun_step cap d e p)) d)) \<le> cap" by blast
  have "subseq (fst (tun_step cap d e p) @ tq_buf (tp_out (snd (tun_step cap d e p)) d)) (tq_buf (tp_out p d) @ ys)"
    unfolding y(2) by (intro list_emb_append_mono list_emb_append2) simp_all
  also have "subseq (tq_buf (tp_out p d) @ ys) (tq_buf (tp_out p d) @ tun_offered d e)" using y(1) by (intro list_emb_append_mono) simp_all
  finally show "subseq (fst (tun_step cap d e p) @ tq_buf (tp_out (snd (tun_step cap d e p)) d)) (tq_buf (tp_out p d) @ tun_offered d e)" .
  show "length (tq_buf (tp_out p d)) \<le> cap \<Longrightarrow> length (tq_buf (tp_out (snd (tun_step cap d e p)) d)) \<le> cap" using y(3) by simp
qed

text \<open>Over any sequence of writes, reads and closes of a new pair, what is read at one end is a
  subsequence of what was written at the other, and a queue never exceeds its depth.\<close>

lemma memory_tun_fifo:
  assumes "NewMemoryTUNPair name mtu buffer = (p, cap)"
  shows "subseq (run_outs (tun_step cap d) es p) (concat (map (tun_offered d) es))"
    and "length (tq_buf (tp_out (run_state (tun_step cap d) es p) d)) \<le> cap"
proof -
  have q: "tq_buf (tp_out p d) = []" using assms by (auto simp: NewMemoryTUNPair_def)
  show "subseq (run_outs (tun_step cap d) es p) (concat (map (tun_offered d) es))" by (rule tun_fifo.run_delivers_subsequence [OF q])
  show "length (tq_buf (tp_out (run_state (tun_step cap d) es p) d)) \<le> cap" using q by (intro tun_fifo.run_cap) simp
qed

end
