(* ===== verification/Cidr_List.thy ===== *)
theory Cidr_List
  imports Netip
begin

text \<open>
  The lists of prefixes and addresses in WireGuard configuration files, as \<open>pkg/wgconf/parse.go\<close>
  reads them (\<open>splitListField\<close>, \<open>parsePrefixList\<close>, \<open>parseAddrList\<close>), with the facts both
  configuration parsers use: what they accept is valid, and a list of printed IPv4 host prefixes is
  read back.
\<close>

section \<open>Definitions\<close>

definition list_sep :: "char \<Rightarrow> bool" where
  "list_sep c \<longleftrightarrow> c = CHR '','' \<or> c = CHR '' '' \<or> c = CHR 0x09 \<or> c = newline"

definition splitListField :: "string \<Rightarrow> string list" where
  "splitListField v = filter (\<lambda>t. t \<noteq> []) (map trim_space (fields_func list_sep v))"

text \<open>A token of a prefix list: a CIDR, or a bare address as a host prefix.\<close>

definition parse_cidr :: "string \<Rightarrow> prefix res" where
  "parse_cidr t =
     (case parse_prefix t of
        Some p \<Rightarrow> Inr p
      | None \<Rightarrow>
          (case parse_addr t of
             None \<Rightarrow> Inl (errors_New (''invalid CIDR or address '' @ quoted t))
           | Some a \<Rightarrow> Inr (prefix_from a (if is6 a then 128 else 32))))"

fun map_res :: "('a \<Rightarrow> 'b res) \<Rightarrow> 'a list \<Rightarrow> 'b list res" where
  "map_res f [] = Inr []"
| "map_res f (x # xs) = bind_res (f x) (\<lambda>y. bind_res (map_res f xs) (\<lambda>ys. Inr (y # ys)))"

definition parsePrefixList :: "string \<Rightarrow> prefix list res" where
  "parsePrefixList v = map_res parse_cidr (splitListField v)"

definition parseAddrList :: "string \<Rightarrow> addr list res" where
  "parseAddrList v =
     map_res (\<lambda>t. case parse_addr t of None \<Rightarrow> Inl (errors_New (''invalid IP address '' @ quoted t))
                  | Some a \<Rightarrow> Inr a) (splitListField v)"

section \<open>What is accepted is valid\<close>

lemma parse_addr_valid: "parse_addr s = Some a \<Longrightarrow> addr_valid a"
  by (auto simp: parse_addr_def parse_v6_def addr_valid_def Let_def
      split: option.splits if_splits prod.splits)

lemma parse_prefix_valid: "parse_prefix s = Some p \<Longrightarrow> prefix_valid p"
  by (auto simp: parse_prefix_def prefix_valid_def prefix_from_def Let_def addr_valid_def
      split: option.splits if_splits dest!: parse_addr_valid)

lemma parse_cidr_valid: "parse_cidr t = Inr p \<Longrightarrow> prefix_valid p"
proof (cases "parse_prefix t")
  case None
  assume "parse_cidr t = Inr p"
  then obtain a where "parse_addr t = Some a" "p = prefix_from a (if is6 a then 128 else 32)"
    using None by (auto simp: parse_cidr_def split: option.splits)
  then show ?thesis
    using parse_addr_valid [of t a] by (cases a) (auto simp: prefix_from_def prefix_valid_def addr_valid_def)
qed (auto simp: parse_cidr_def dest: parse_prefix_valid)

lemma map_res_all: "map_res f xs = Inr ys \<Longrightarrow> y \<in> set ys \<Longrightarrow> \<exists>x \<in> set xs. f x = Inr y"
  by (induction xs arbitrary: ys) (fastforce simp: bind_res_Inr_iff)+

lemma parsePrefixList_valid: "parsePrefixList v = Inr ps \<Longrightarrow> p \<in> set ps \<Longrightarrow> prefix_valid p"
  by (auto simp: parsePrefixList_def dest!: map_res_all parse_cidr_valid)

lemma parseAddrList_valid: "parseAddrList v = Inr as \<Longrightarrow> a \<in> set as \<Longrightarrow> addr_valid a"
  by (auto simp: parseAddrList_def split: option.splits dest!: map_res_all parse_addr_valid)

section \<open>Host prefixes\<close>

lemma fields_acc_run:
  assumes "\<forall>c \<in> set a. \<not> P c"
  shows "fields_acc P acc (a @ s) = fields_acc P (acc @ a) s"
  using assms by (induction a arbitrary: acc) auto

lemma fields_func_single: "\<forall>c \<in> set a. \<not> P c \<Longrightarrow> a \<noteq> [] \<Longrightarrow> fields_func P a = [a]"
  using fields_acc_run [of a P "[]" "[]"] by (simp add: fields_func_def)

lemma show_host4_sep_free: "c \<in> set (show_prefix (prefix_from (V4 w) 32)) \<Longrightarrow> \<not> list_sep c \<and> \<not> is_space c"
  using show_prefix_host4_chars [of c w]
  by (auto simp: list_sep_def is_space_def newline_def digit_val_def)

lemma splitListField_host4:
  "splitListField (show_prefix (prefix_from (V4 w) 32)) = [show_prefix (prefix_from (V4 w) 32)]"
proof -
  let ?s = "show_prefix (prefix_from (V4 w) 32)"
  have ne: "?s \<noteq> []" by (simp add: show_prefix_def prefix_from_def prefix_valid_def)
  then have "trim_space ?s = ?s"
    using show_host4_sep_free [of "hd ?s" w] show_host4_sep_free [of "last ?s" w] by (intro trim_space_id) auto
  with ne show ?thesis
    unfolding splitListField_def using show_host4_sep_free [of _ w] by (subst fields_func_single) auto
qed

lemma parsePrefixList_host4:
  "parsePrefixList (show_prefix (prefix_from (V4 w) 32)) = Inr [prefix_from (V4 w) 32]"
  by (simp add: parsePrefixList_def splitListField_host4 parse_cidr_def parse_prefix_host4)

end
