(* ===== verification/Creds_Cache.thy ===== *)
theory Creds_Cache
  imports Wgt_Prelude Go_Strings
begin

text \<open>
  The credentials cache of \<open>internal/creds/cache.go\<close>. Streams are grouped by
  \<open>streamID / streamsPerCred\<close>; each group has one entry, reached through a pointer, because
  \<open>InvalidateAll\<close> replaces the map while a \<open>Get\<close> may still hold an entry of the old one.
  The entries live in a store indexed by pointer. Each operation is what the code does between
  taking and releasing the locks: \<open>getEntry\<close> under \<open>c.mu\<close>, the bodies of \<open>Get\<close> and
  \<open>HandleAuthError\<close> under \<open>e.mu\<close>. The clock and the provider are arguments.

  The locale \<open>cred_groups\<close> states what the rest of the program relies on, as equations about
  the entry a group has; its lemmas are the properties, and the interpretation \<open>cc\<close> shows
  the pointer implementation meets it.
\<close>

section \<open>Definitions\<close>

definition DefaultLifetime :: duration where "DefaultLifetime = 10 * minute"
definition DefaultSafetyMargin :: duration where "DefaultSafetyMargin = 60 * second"
definition MaxCacheErrors :: int where "MaxCacheErrors = 3"
definition ErrorWindow :: duration where "ErrorWindow = 10 * second"

record credentials =
  Username :: string
  Password :: string
  ServerAddr :: string
  ExpiresIn :: duration

definition zero_credentials :: credentials where
  "zero_credentials = \<lparr>Username = [], Password = [], ServerAddr = [], ExpiresIn = 0\<rparr>"

record cred_entry =
  e_creds :: credentials
  e_link :: string
  e_expires :: instant
  e_errorCount :: "32 word"
  e_lastErrorTime :: int

definition zero_entry :: cred_entry where
  "zero_entry = \<lparr>e_creds = zero_credentials, e_link = [], e_expires = zero_time,
                 e_errorCount = 0, e_lastErrorTime = 0\<rparr>"

record cred_cache =
  c_streamsPerCred :: int
  c_entries :: "int \<rightharpoonup> nat"
  c_store :: "cred_entry list"

definition NewCache :: "int \<Rightarrow> cred_cache" where
  "NewCache streamsPerCred =
     \<lparr>c_streamsPerCred = (if streamsPerCred \<le> 0 then 4 else streamsPerCred),
      c_entries = Map.empty, c_store = []\<rparr>"

definition groupID :: "cred_cache \<Rightarrow> int \<Rightarrow> int" where
  "groupID c streamID = go_div streamID (c_streamsPerCred c)"

definition getEntry :: "cred_cache \<Rightarrow> int \<Rightarrow> nat \<times> cred_cache" where
  "getEntry c streamID =
     (let gid = groupID c streamID in
      case c_entries c gid of
        Some p \<Rightarrow> (p, c)
      | None \<Rightarrow> (let p = length (c_store c) in
                 (p, c\<lparr>c_entries := (c_entries c)(gid \<mapsto> p),
                       c_store := c_store c @ [zero_entry]\<rparr>)))"

type_synonym provider = "string \<Rightarrow> int \<Rightarrow> credentials res"

text \<open>The lifetime of fetched credentials: the provider's, or the default, less a safety margin
  of at most half of it.\<close>

definition cache_lifetime :: "credentials \<Rightarrow> duration" where
  "cache_lifetime cr =
     (let lifetime = (if ExpiresIn cr \<le> 0 then DefaultLifetime else ExpiresIn cr);
          margin = (if DefaultSafetyMargin > go_div lifetime 2 then go_div lifetime 2
                    else DefaultSafetyMargin)
      in lifetime - margin)"

text \<open>The part of \<open>Get\<close> under \<open>e.mu\<close>, as a function of the entry. \<open>now1\<close> is the clock
  at the lookup, \<open>now2\<close> after the fetch; \<open>ctxErr\<close> is \<open>ctx.Err()\<close>. The second
  component counts the calls of the provider.\<close>

definition get_locked ::
    "go_error option \<Rightarrow> string \<Rightarrow> int \<Rightarrow> provider \<Rightarrow> instant \<Rightarrow> instant \<Rightarrow> cred_entry \<Rightarrow>
     credentials res \<times> nat \<times> cred_entry" where
  "get_locked ctxErr hint streamID p now1 now2 e =
     (if e_link e = hint \<and> now1 < e_expires e then (Inr (e_creds e), 0, e)
      else case ctxErr of
        Some err \<Rightarrow> (Inl err, 0, e)
      | None \<Rightarrow>
          (case p hint streamID of
             Inl err \<Rightarrow> (Inl err, 1, e)
           | Inr cr \<Rightarrow> (Inr cr, 1, e\<lparr>e_creds := cr, e_link := hint,
                                    e_expires := now2 + cache_lifetime cr\<rparr>)))"

definition Get ::
    "go_error option \<Rightarrow> string \<Rightarrow> int \<Rightarrow> provider option \<Rightarrow> instant \<Rightarrow> instant \<Rightarrow> cred_cache \<Rightarrow>
     credentials res \<times> nat \<times> cred_cache" where
  "Get ctxErr hint streamID prov now1 now2 c =
     (case prov of
        None \<Rightarrow> (Inl (errors_New ''creds: provider is nil''), 0, c)
      | Some p \<Rightarrow>
          (let (ptr, c1) = getEntry c streamID;
               (r, calls, e) = get_locked ctxErr hint streamID p now1 now2 (c_store c1 ! ptr)
           in (r, calls, c1\<lparr>c_store := (c_store c1)[ptr := e]\<rparr>)))"

text \<open>\<open>HandleAuthError\<close>: the count is an \<open>int32\<close>, compared as a signed number; \<open>now\<close>
  is in whole seconds.\<close>

definition auth_error_locked :: "int \<Rightarrow> cred_entry \<Rightarrow> bool \<times> cred_entry" where
  "auth_error_locked now e =
     (let count0 = (if now - e_lastErrorTime e > ErrorWindow div second then 0
                    else e_errorCount e);
          count = count0 + 1
      in if sint count \<ge> MaxCacheErrors
         then (True, e\<lparr>e_creds := zero_credentials, e_link := [], e_expires := zero_time,
                       e_errorCount := 0, e_lastErrorTime := 0\<rparr>)
         else (False, e\<lparr>e_errorCount := count, e_lastErrorTime := now\<rparr>))"

definition HandleAuthError :: "instant \<Rightarrow> int \<Rightarrow> cred_cache \<Rightarrow> bool \<times> cred_cache" where
  "HandleAuthError t streamID c =
     (let (ptr, c1) = getEntry c streamID;
          (b, e) = auth_error_locked (unix_seconds t) (c_store c1 ! ptr)
      in (b, c1\<lparr>c_store := (c_store c1)[ptr := e]\<rparr>))"

definition InvalidateAll :: "cred_cache \<Rightarrow> cred_cache" where
  "InvalidateAll c = c\<lparr>c_entries := Map.empty\<rparr>"

definition auth_needles :: "string list" where
  "auth_needles = [''401'', ''Unauthorized'', ''authentication'', ''invalid credential'',
                   ''stale nonce'']"

definition IsAuthError :: "go_error option \<Rightarrow> bool" where
  "IsAuthError err =
     (case err of None \<Rightarrow> False
      | Some e \<Rightarrow> list_ex (\<lambda>needle. str_contains (err_text e) needle) auth_needles)"

definition IsRateLimitError :: "go_error option \<Rightarrow> bool" where
  "IsRateLimitError err =
     (case err of None \<Rightarrow> False
      | Some e \<Rightarrow> str_contains (err_text e) ''code=29'' \<or> str_contains (err_text e) ''Rate limit'')"

section \<open>The well-formedness invariant\<close>

text \<open>Pointers in the map are valid, no two groups share an entry, and the error count of every
  entry is below the threshold.\<close>

definition cache_wf :: "cred_cache \<Rightarrow> bool" where
  "cache_wf c \<longleftrightarrow>
     0 < c_streamsPerCred c \<and>
     (\<forall>g p. c_entries c g = Some p \<longrightarrow> p < length (c_store c)) \<and>
     (\<forall>g h p. c_entries c g = Some p \<longrightarrow> c_entries c h = Some p \<longrightarrow> g = h) \<and>
     (\<forall>e \<in> set (c_store c). uint (e_errorCount e) < MaxCacheErrors)"

text \<open>The entry a group has: what the next \<open>Get\<close> of the group will look at.\<close>

definition group_entry :: "cred_cache \<Rightarrow> int \<Rightarrow> cred_entry" where
  "group_entry c g = (case c_entries c g of None \<Rightarrow> zero_entry | Some p \<Rightarrow> c_store c ! p)"

lemma cache_wf_NewCache [wgt_inv]: "cache_wf (NewCache n)"
  by (auto simp: cache_wf_def NewCache_def)

lemma cache_wf_InvalidateAll [wgt_inv]: "cache_wf c \<Longrightarrow> cache_wf (InvalidateAll c)"
  by (auto simp: cache_wf_def InvalidateAll_def)

lemma getEntry_wf:
  assumes "cache_wf c" and "getEntry c sid = (p, c1)"
  shows "cache_wf c1 \<and> c_entries c1 (groupID c sid) = Some p \<and> p < length (c_store c1) \<and>
    c_streamsPerCred c1 = c_streamsPerCred c \<and> (\<forall>g. group_entry c1 g = group_entry c g)"
proof (cases "c_entries c (groupID c sid)")
  case (Some q)
  with assms show ?thesis by (auto simp: getEntry_def Let_def cache_wf_def)
next
  case None
  with assms(2) have p: "p = length (c_store c)"
    and c1: "c1 = c\<lparr>c_entries := (c_entries c)(groupID c sid \<mapsto> p),
                    c_store := c_store c @ [zero_entry]\<rparr>"
    by (auto simp: getEntry_def Let_def)
  have old: "q < length (c_store c)" if "c_entries c g = Some q" for g q
    using assms(1) that by (auto simp: cache_wf_def)
  have "group_entry c1 g = group_entry c g" for g
    using None old by (auto simp: group_entry_def c1 p nth_append split: option.splits)
  moreover have "cache_wf c1"
    unfolding cache_wf_def
  proof (intro conjI allI impI)
    show "0 < c_streamsPerCred c1" using assms(1) by (simp add: cache_wf_def c1)
    show "q < length (c_store c1)" if "c_entries c1 g = Some q" for g q
      using that old by (auto simp: c1 p split: if_splits dest: less_SucI)
    show "g = h" if "c_entries c1 g = Some q" "c_entries c1 h = Some q" for g h q
      using that old assms(1) by (fastforce simp: c1 p cache_wf_def split: if_splits)
    show "\<forall>e \<in> set (c_store c1). uint (e_errorCount e) < MaxCacheErrors"
      using assms(1) by (auto simp: cache_wf_def c1 zero_entry_def MaxCacheErrors_def)
  qed
  ultimately show ?thesis by (simp add: c1 p)
qed

lemma store_update_wf:
  assumes "cache_wf c" and "c_entries c g = Some p" and "uint (e_errorCount e) < MaxCacheErrors"
  shows "cache_wf (c\<lparr>c_store := (c_store c)[p := e]\<rparr>)"
    and "group_entry (c\<lparr>c_store := (c_store c)[p := e]\<rparr>) h = (if h = g then e else group_entry c h)"
proof -
  have p: "p < length (c_store c)" using assms(1,2) by (auto simp: cache_wf_def)
  show "cache_wf (c\<lparr>c_store := (c_store c)[p := e]\<rparr>)"
    using assms set_update_subset_insert [of "c_store c" p e] by (auto simp: cache_wf_def)
  show "group_entry (c\<lparr>c_store := (c_store c)[p := e]\<rparr>) h = (if h = g then e else group_entry c h)"
  proof (cases "c_entries c h = Some p")
    case True
    then have "h = g" using assms(1,2) by (auto simp: cache_wf_def)
    with assms(2) p show ?thesis by (simp add: group_entry_def)
  next
    case False
    with assms(2) show ?thesis by (auto simp: group_entry_def split: option.splits)
  qed
qed

lemma get_locked_count:
  "get_locked x h s p n1 n2 e = (r, k, e') \<Longrightarrow> e_errorCount e' = e_errorCount e"
  by (auto simp: get_locked_def split: if_splits option.splits sum.splits)

lemma auth_error_locked_count:
  assumes "uint (e_errorCount e) < MaxCacheErrors" and "auth_error_locked now e = (b, e')"
  shows "uint (e_errorCount e') < MaxCacheErrors"
proof -
  have "uint (e_errorCount e) = 0 \<or> uint (e_errorCount e) = 1 \<or> uint (e_errorCount e) = 2"
    using assms(1) uint_ge_0 [of "e_errorCount e"] unfolding MaxCacheErrors_def by linarith
  then have "e_errorCount e \<in> {0, 1, 2}"
    by (auto simp: word_uint_eq_iff)
  with assms(2) show ?thesis
    by (auto simp: auth_error_locked_def Let_def MaxCacheErrors_def split: if_splits)
qed

lemma error_window [simp]: "ErrorWindow div second = 10"
  by (simp add: ErrorWindow_def second_def)

lemma auth_error_locked_near:
  assumes "auth_error_locked now e = (b, e')" and "now - e_lastErrorTime e \<le> 10"
  shows "e_errorCount e \<in> {0, 1} \<Longrightarrow>
      \<not> b \<and> e_errorCount e' = e_errorCount e + 1 \<and> e_lastErrorTime e' = now"
    and "e_errorCount e = 2 \<Longrightarrow> b \<and> e_expires e' = zero_time"
  using assms by (auto simp: auth_error_locked_def MaxCacheErrors_def)

lemma auth_error_locked_far:
  assumes "auth_error_locked now e = (b, e')" and "10 < now - e_lastErrorTime e"
  shows "\<not> b \<and> e' = e\<lparr>e_errorCount := 1, e_lastErrorTime := now\<rparr>"
  using assms by (auto simp: auth_error_locked_def MaxCacheErrors_def)

section \<open>The interface of the cache\<close>

text \<open>\<open>entry c g\<close> is the entry of group \<open>g\<close>, \<open>grp c i\<close> the group of stream \<open>i\<close>. A
  \<open>get\<close> or \<open>auth\<close> runs its locked body on the entry of the stream's group and touches no
  other group.\<close>

locale cred_groups =
  fixes inv :: "'c \<Rightarrow> bool"
    and grp :: "'c \<Rightarrow> int \<Rightarrow> int"
    and entry :: "'c \<Rightarrow> int \<Rightarrow> cred_entry"
    and get :: "go_error option \<Rightarrow> string \<Rightarrow> int \<Rightarrow> provider option \<Rightarrow> instant \<Rightarrow> instant \<Rightarrow>
                'c \<Rightarrow> credentials res \<times> nat \<times> 'c"
    and auth :: "instant \<Rightarrow> int \<Rightarrow> 'c \<Rightarrow> bool \<times> 'c"
    and invalidate :: "'c \<Rightarrow> 'c"
  assumes get_spec:
      "inv c \<Longrightarrow> get x hint i (Some p) n1 n2 c = (r, k, c') \<Longrightarrow>
         inv c' \<and> grp c' = grp c \<and>
         (\<exists>e'. get_locked x hint i p n1 n2 (entry c (grp c i)) = (r, k, e') \<and>
               entry c' = (entry c)(grp c i := e'))"
    and auth_spec:
      "inv c \<Longrightarrow> auth t i c = (b, c') \<Longrightarrow>
         inv c' \<and> grp c' = grp c \<and>
         (\<exists>e'. auth_error_locked (unix_seconds t) (entry c (grp c i)) = (b, e') \<and>
               entry c' = (entry c)(grp c i := e'))"
    and invalidate_spec:
      "inv c \<Longrightarrow> inv (invalidate c) \<and> grp (invalidate c) = grp c \<and>
         entry (invalidate c) = (\<lambda>_. zero_entry)"
begin

lemma get_hit:
  assumes "inv c" and "e_link (entry c (grp c i)) = hint" and "n1 < e_expires (entry c (grp c i))"
    and "get x hint i (Some p) n1 n2 c = (r, k, c')"
  shows "r = Inr (e_creds (entry c (grp c i))) \<and> k = 0 \<and> entry c' = entry c"
  using get_spec [OF assms(1,4)] assms(2,3) by (auto simp: get_locked_def)

lemma get_miss:
  assumes "inv c" and "e_link (entry c (grp c i)) \<noteq> hint \<or> e_expires (entry c (grp c i)) \<le> n1"
    and "get None hint i (Some p) n1 n2 c = (r, k, c')"
  shows "r = p hint i \<and> k = 1 \<and> inv c' \<and> grp c' = grp c \<and>
    (\<forall>cr. p hint i = Inr cr \<longrightarrow>
       e_creds (entry c' (grp c i)) = cr \<and> e_link (entry c' (grp c i)) = hint \<and>
       e_expires (entry c' (grp c i)) = n2 + cache_lifetime cr)"
  using get_spec [OF assms(1,3)] assms(2)
  by (auto simp: get_locked_def split: sum.splits)

lemma get_again:
  assumes "inv c" and "get None hint i (Some p) n1 n2 c = (Inr cr, 1, c')"
    and "grp c j = grp c i" and "m1 < n2 + cache_lifetime cr"
    and "get x hint j (Some q) m1 m2 c' = (r, k, c'')"
  shows "r = Inr cr \<and> k = 0"
proof -
  from get_spec [OF assms(1,2)] have c': "inv c'" "grp c' = grp c"
    and "\<exists>e'. get_locked None hint i p n1 n2 (entry c (grp c i)) = (Inr cr, 1, e') \<and>
              entry c' = (entry c)(grp c i := e')"
    by blast+
  then have "e_creds (entry c' (grp c i)) = cr" "e_link (entry c' (grp c i)) = hint"
    "e_expires (entry c' (grp c i)) = n2 + cache_lifetime cr"
    by (auto simp: get_locked_def split: if_splits sum.splits option.splits)
  with get_hit [OF c'(1) _ _ assms(5)] assms(3,4) c'(2) show ?thesis by simp
qed

lemma other_group:
  assumes "inv c" and "grp c i \<noteq> g"
  shows "get x hint i (Some p) n1 n2 c = (r, k, c') \<Longrightarrow> entry c' g = entry c g"
    and "auth t i c = (b, c'') \<Longrightarrow> entry c'' g = entry c g"
  using get_spec [OF assms(1)] auth_spec [OF assms(1)] assms(2) by force+

lemma auth_step:
  assumes "inv c" and "auth t i c = (b, c')"
    and "unix_seconds t - e_lastErrorTime (entry c (grp c i)) \<le> 10"
    and "e_errorCount (entry c (grp c i)) = n" and "n \<in> {0, 1}"
  shows "\<not> b \<and> inv c' \<and> grp c' = grp c \<and> e_errorCount (entry c' (grp c i)) = n + 1 \<and>
    e_lastErrorTime (entry c' (grp c i)) = unix_seconds t"
  using auth_spec [OF assms(1,2)] auth_error_locked_near(1) assms(3-5) by fastforce

lemma auth_last:
  assumes "inv c" and "auth t i c = (b, c')"
    and "unix_seconds t - e_lastErrorTime (entry c (grp c i)) \<le> 10"
    and "e_errorCount (entry c (grp c i)) = 2"
  shows "b \<and> inv c' \<and> grp c' = grp c \<and> e_expires (entry c' (grp c i)) = zero_time"
  using auth_spec [OF assms(1,2)] auth_error_locked_near(2) assms(3,4) by fastforce

lemma auth_sparse:
  assumes "inv c" and "auth t i c = (b, c')"
    and "10 < unix_seconds t - e_lastErrorTime (entry c (grp c i))"
  shows "\<not> b \<and> inv c' \<and> grp c' = grp c \<and>
    entry c' (grp c i) = (entry c (grp c i))\<lparr>e_errorCount := 1, e_lastErrorTime := unix_seconds t\<rparr>"
  using auth_spec [OF assms(1,2)] auth_error_locked_far assms(3) by fastforce

end

lemma Get_group:
  assumes "cache_wf c" and "Get x hint i (Some p) n1 n2 c = (r, k, c')"
  shows "cache_wf c' \<and> groupID c' = groupID c \<and>
    (\<exists>e'. get_locked x hint i p n1 n2 (group_entry c (groupID c i)) = (r, k, e') \<and>
          group_entry c' = (group_entry c)(groupID c i := e'))"
proof -
  obtain ptr c1 where ge: "getEntry c i = (ptr, c1)" by fastforce
  from getEntry_wf [OF assms(1) ge] have wf: "cache_wf c1" and m: "c_entries c1 (groupID c i) = Some ptr"
    and s: "c_streamsPerCred c1 = c_streamsPerCred c" and same: "group_entry c1 = group_entry c"
    by auto
  have at: "c_store c1 ! ptr = group_entry c (groupID c i)"
    using m same by (metis group_entry_def option.simps(5))
  obtain e where e: "get_locked x hint i p n1 n2 (group_entry c (groupID c i)) = (r, k, e)"
    and c': "c' = c1\<lparr>c_store := (c_store c1)[ptr := e]\<rparr>"
    using assms(2) ge at by (auto simp: Get_def split: prod.splits)
  have "uint (e_errorCount (group_entry c (groupID c i))) < MaxCacheErrors"
    using wf m at by (metis cache_wf_def nth_mem)
  then have cnt: "uint (e_errorCount e) < MaxCacheErrors"
    using get_locked_count [OF e] by simp
  show ?thesis
    using store_update_wf [OF wf m cnt] e s same c'
    by (auto simp: groupID_def fun_eq_iff)
qed

lemma HandleAuthError_group:
  assumes "cache_wf c" and "HandleAuthError t i c = (b, c')"
  shows "cache_wf c' \<and> groupID c' = groupID c \<and>
    (\<exists>e'. auth_error_locked (unix_seconds t) (group_entry c (groupID c i)) = (b, e') \<and>
          group_entry c' = (group_entry c)(groupID c i := e'))"
proof -
  obtain ptr c1 where ge: "getEntry c i = (ptr, c1)" by fastforce
  from getEntry_wf [OF assms(1) ge] have wf: "cache_wf c1" and m: "c_entries c1 (groupID c i) = Some ptr"
    and s: "c_streamsPerCred c1 = c_streamsPerCred c" and same: "group_entry c1 = group_entry c"
    by auto
  have at: "c_store c1 ! ptr = group_entry c (groupID c i)"
    using m same by (metis group_entry_def option.simps(5))
  obtain e where e: "auth_error_locked (unix_seconds t) (group_entry c (groupID c i)) = (b, e)"
    and c': "c' = c1\<lparr>c_store := (c_store c1)[ptr := e]\<rparr>"
    using assms(2) ge at by (auto simp: HandleAuthError_def split: prod.splits)
  have "uint (e_errorCount (group_entry c (groupID c i))) < MaxCacheErrors"
    using wf m at by (metis cache_wf_def nth_mem)
  then have cnt: "uint (e_errorCount e) < MaxCacheErrors"
    using auth_error_locked_count e by blast
  show ?thesis
    using store_update_wf [OF wf m cnt] e s same c'
    by (auto simp: groupID_def fun_eq_iff)
qed

interpretation cc: cred_groups cache_wf groupID group_entry Get HandleAuthError InvalidateAll
proof unfold_locales
  fix c x hint i p n1 n2 r k c'
  assume "cache_wf c" "Get x hint i (Some p) n1 n2 c = (r, k, c')"
  then show "cache_wf c' \<and> groupID c' = groupID c \<and>
      (\<exists>e'. get_locked x hint i p n1 n2 (group_entry c (groupID c i)) = (r, k, e') \<and>
            group_entry c' = (group_entry c)(groupID c i := e'))"
    by (rule Get_group)
next
  fix c t i b c'
  assume "cache_wf c" "HandleAuthError t i c = (b, c')"
  then show "cache_wf c' \<and> groupID c' = groupID c \<and>
      (\<exists>e'. auth_error_locked (unix_seconds t) (group_entry c (groupID c i)) = (b, e') \<and>
            group_entry c' = (group_entry c)(groupID c i := e'))"
    by (rule HandleAuthError_group)
next
  fix c
  assume "cache_wf c"
  then show "cache_wf (InvalidateAll c) \<and> groupID (InvalidateAll c) = groupID c \<and>
      group_entry (InvalidateAll c) = (\<lambda>_. zero_entry)"
    using cache_wf_InvalidateAll [of c]
    by (auto simp: InvalidateAll_def groupID_def group_entry_def fun_eq_iff)
qed

section \<open>Properties\<close>

text \<open>Counting the auth errors of one stream at the given times, and the results.\<close>

fun auth_errors :: "instant list \<Rightarrow> int \<Rightarrow> cred_cache \<Rightarrow> bool list \<times> cred_cache" where
  "auth_errors [] i c = ([], c)"
| "auth_errors (t # ts) i c =
     (let (b, c1) = HandleAuthError t i c; (bs, c2) = auth_errors ts i c1 in (b # bs, c2))"

lemma cache_lifetime_bounds:
  assumes "0 < ExpiresIn cr"
  shows "ExpiresIn cr \<le> 2 * cache_lifetime cr" and "cache_lifetime cr \<le> ExpiresIn cr"
    and "0 < cache_lifetime cr"
  using assms by (auto simp: cache_lifetime_def Let_def go_div_nonneg DefaultSafetyMargin_def second_def)





text \<open>Rejected credentials are dropped. When a group's entry has no counted error and three
  auth errors of its streams arrive each within ten seconds of the one before, the third call
  reports the invalidation, and the next \<open>Get\<close> of any stream of the group calls the provider
  exactly once and returns what it gives, whatever the hint.\<close>

theorem three_auth_errors_force_refetch:
  assumes "cache_wf c"
    and "e_errorCount (group_entry c (groupID c i)) = 0"
    and "unix_seconds t1 - e_lastErrorTime (group_entry c (groupID c i)) \<le> 10"
    and "unix_seconds t2 - unix_seconds t1 \<le> 10" and "unix_seconds t3 - unix_seconds t2 \<le> 10"
    and "groupID c j = groupID c i" and "zero_time \<le> n1"
    and "auth_errors [t1, t2, t3] i c = (bs, c3)"
    and "Get None hint j (Some p) n1 n2 c3 = (r, k, c4)"
  shows "bs = [False, False, True] \<and> r = p hint j \<and> k = 1"
proof -
  obtain b1 c1 b2 c2 b3 where s1: "HandleAuthError t1 i c = (b1, c1)"
    and s2: "HandleAuthError t2 i c1 = (b2, c2)" and s3: "HandleAuthError t3 i c2 = (b3, c3)"
    and bs: "bs = [b1, b2, b3]"
    using assms(8) by (auto simp: Let_def split: prod.splits)
  from cc.auth_step [OF assms(1) s1 assms(3) assms(2)]
  have 1: "\<not> b1" "cache_wf c1" "groupID c1 = groupID c" "e_errorCount (group_entry c1 (groupID c i)) = 1"
    "e_lastErrorTime (group_entry c1 (groupID c i)) = unix_seconds t1" by simp_all
  from cc.auth_step [OF 1(2) s2, of 1] 1 assms(4)
  have 2: "\<not> b2" "cache_wf c2" "groupID c2 = groupID c" "e_errorCount (group_entry c2 (groupID c i)) = 2"
    "e_lastErrorTime (group_entry c2 (groupID c i)) = unix_seconds t2" by simp_all
  from cc.auth_last [OF 2(2) s3] 2 assms(5)
  have 3: "b3" "cache_wf c3" "groupID c3 = groupID c" "e_expires (group_entry c3 (groupID c i)) = zero_time"
    by simp_all
  from cc.get_miss [OF 3(2) _ assms(9)] 3(3,4) assms(6,7) 1(1) 2(1) 3(1) bs show ?thesis by simp
qed

theorem three_auth_errors_force_refetch_witness:
  "fst (auth_errors [1 * second, 2 * second, 3 * second] 0 (NewCache 4)) = [False, False, True]"
proof -
  have g: "group_entry (NewCache 4) g = zero_entry" for g
    by (simp add: group_entry_def NewCache_def)
  obtain bs c3 where a: "auth_errors [1 * second, 2 * second, 3 * second] 0 (NewCache 4) = (bs, c3)"
    by fastforce
  obtain r k c4 where r: "Get None ''l'' 1 (Some (\<lambda>h i. Inr zero_credentials)) 0 0 c3 = (r, k, c4)"
    by (metis prod_cases3)
  have same: "groupID (NewCache 4) 1 = groupID (NewCache 4) 0"
    by (simp add: groupID_def NewCache_def go_div_nonneg)
  have "bs = [False, False, True]"
    using three_auth_errors_force_refetch [OF cache_wf_NewCache _ _ _ _ same _ a r]
      unix_seconds_mult [of 1] unix_seconds_mult [of 2] unix_seconds_mult [of 3]
    by (simp add: g zero_entry_def)
  with a show ?thesis by simp
qed

text \<open>Sparse auth errors never invalidate. Errors of a group that are more than ten seconds
  apart leave its credentials, its hint and its expiry as they were, however many there are.\<close>

theorem sparse_auth_errors_keep_credentials:
  assumes "cache_wf c"
    and "successively (\<lambda>a b. 10 < unix_seconds b - unix_seconds a) ts"
    and "ts \<noteq> [] \<longrightarrow> 10 < unix_seconds (hd ts) - e_lastErrorTime (group_entry c (groupID c i))"
    and "auth_errors ts i c = (bs, c')"
  shows "True \<notin> set bs \<and>
    e_creds (group_entry c' (groupID c i)) = e_creds (group_entry c (groupID c i)) \<and>
    e_link (group_entry c' (groupID c i)) = e_link (group_entry c (groupID c i)) \<and>
    e_expires (group_entry c' (groupID c i)) = e_expires (group_entry c (groupID c i))"
  using assms
proof (induction ts arbitrary: c bs)
  case Nil
  then show ?case by simp
next
  case (Cons t ts)
  obtain b c1 bs' where s: "HandleAuthError t i c = (b, c1)" and rest: "auth_errors ts i c1 = (bs', c')"
    and bs: "bs = b # bs'"
    using Cons.prems(4) by (auto simp: Let_def split: prod.splits)
  from cc.auth_sparse [OF Cons.prems(1) s] Cons.prems(3)
  have 1: "\<not> b" "cache_wf c1" "groupID c1 = groupID c"
    "group_entry c1 (groupID c i) =
       (group_entry c (groupID c i))\<lparr>e_errorCount := 1, e_lastErrorTime := unix_seconds t\<rparr>"
    by simp_all
  have "successively (\<lambda>a b. 10 < unix_seconds b - unix_seconds a) ts"
    "ts \<noteq> [] \<longrightarrow> 10 < unix_seconds (hd ts) - e_lastErrorTime (group_entry c1 (groupID c1 i))"
    using Cons.prems(2) 1(3,4) by (auto simp: successively_Cons)
  from Cons.IH [OF 1(2) this rest] 1 bs show ?case by simp
qed

theorem sparse_auth_errors_keep_credentials_witness:
  "True \<notin> set (fst (auth_errors [20 * second, 40 * second, 60 * second, 80 * second] 0 (NewCache 4)))"
proof -
  obtain bs c' where a: "auth_errors [20 * second, 40 * second, 60 * second, 80 * second] 0 (NewCache 4) = (bs, c')"
    by fastforce
  show ?thesis
    using sparse_auth_errors_keep_credentials [OF cache_wf_NewCache _ _ a] a
    by (simp add: group_entry_def NewCache_def zero_entry_def)
qed

text \<open>A flush is not undone by a fetch in flight. If a \<open>Get\<close> has looked up its entry
  before \<open>InvalidateAll\<close> and stores its credentials after it, the store goes to an entry no
  group refers to: every group is still empty, so every stream fetches anew.\<close>

theorem invalidate_all_beats_inflight_get:
  assumes "cache_wf c"
    and "getEntry c i = (ptr, c1)"
    and "c2 = (InvalidateAll c1)\<lparr>c_store := (c_store (InvalidateAll c1))[ptr := e]\<rparr>"
    and "uint (e_errorCount e) < MaxCacheErrors"
    and "zero_time \<le> n1"
    and "Get None hint j (Some p) n1 n2 c2 = (r, k, c3)"
  shows "group_entry c2 g = zero_entry \<and> r = p hint j \<and> k = 1"
proof -
  have "cache_wf c1" using getEntry_wf [OF assms(1,2)] by blast
  then have "cache_wf (InvalidateAll c1)" by (rule cache_wf_InvalidateAll)
  then have wf: "cache_wf c2"
    using assms(3,4) set_update_subset_insert [of "c_store (InvalidateAll c1)" ptr e]
    by (auto simp: cache_wf_def)
  have z: "group_entry c2 g = zero_entry" for g
    by (simp add: assms(3) group_entry_def InvalidateAll_def)
  then have "e_expires (group_entry c2 (groupID c2 j)) \<le> n1"
    using assms(5) by (simp add: zero_entry_def)
  with cc.get_miss [OF wf _ assms(6)] z show ?thesis by simp
qed

theorem invalidate_all_beats_inflight_get_witness:
  "\<exists>ptr c1 k r c3. getEntry (NewCache 4) 0 = (ptr, c1) \<and>
     Get None ''l'' 0 (Some (\<lambda>h i. Inr zero_credentials)) 5 5
       ((InvalidateAll c1)\<lparr>c_store := (c_store (InvalidateAll c1))[ptr := zero_entry\<lparr>e_link := ''l'', e_expires := 100\<rparr>]\<rparr>)
       = (r, k, c3) \<and> k = 1"
proof -
  obtain ptr c1 where g: "getEntry (NewCache 4) 0 = (ptr, c1)" by fastforce
  let ?e = "zero_entry\<lparr>e_link := ''l'', e_expires := 100\<rparr>"
  let ?c2 = "(InvalidateAll c1)\<lparr>c_store := (c_store (InvalidateAll c1))[ptr := ?e]\<rparr>"
  obtain r k c3 where r: "Get None ''l'' 0 (Some (\<lambda>h i. Inr zero_credentials)) 5 5 ?c2 = (r, k, c3)"
    by (metis prod_cases3)
  from invalidate_all_beats_inflight_get [OF cache_wf_NewCache g refl _ _ r]
  have "k = 1" by (simp add: zero_entry_def MaxCacheErrors_def zero_time_def second_def)
  with g r show ?thesis by blast
qed

text \<open>One entry per group, not per group and hint. When a second stream of a group fetches
  with a different hint, the first hint's credentials are gone: the next \<open>Get\<close> with the first
  hint calls the provider again although its lifetime has not passed.\<close>

theorem second_hint_evicts_first:
  assumes "cache_wf c" and "h1 \<noteq> h2" and "groupID c j = groupID c i"
    and "Get None h2 j (Some p) n1 n2 c = (Inr cr, k, c1)"
    and "Get None h1 i (Some p) m1 m2 c1 = (r, k', c2)"
  shows "r = p h1 i \<and> k' = 1"
proof -
  from cc.get_spec [OF assms(1,4)] have c1: "cache_wf c1" "groupID c1 = groupID c"
    and "\<exists>e'. get_locked None h2 j p n1 n2 (group_entry c (groupID c j)) = (Inr cr, k, e') \<and>
              group_entry c1 = (group_entry c)(groupID c j := e')"
    by blast+
  then have "e_link (group_entry c1 (groupID c1 i)) = h2"
    using assms(3) by (auto simp: get_locked_def split: if_splits sum.splits)
  with cc.get_miss [OF c1(1) _ assms(5)] assms(2) show ?thesis by simp
qed

theorem second_hint_evicts_first_witness:
  "\<exists>c1 r k' c2. Get None ''b'' 1 (Some (\<lambda>h i. Inr zero_credentials)) 2 3
       (snd (snd (Get None ''a'' 0 (Some (\<lambda>h i. Inr zero_credentials)) 0 1 (NewCache 4)))) =
         (Inr zero_credentials, 1, c1) \<and>
     Get None ''a'' 0 (Some (\<lambda>h i. Inr zero_credentials)) 4 5 c1 = (r, k', c2) \<and> k' = 1"
proof -
  let ?p = "\<lambda>h i. Inr zero_credentials"
  obtain r0 k0 c0 where g0: "Get None ''a'' 0 (Some ?p) 0 1 (NewCache 4) = (r0, k0, c0)"
    by (metis prod_cases3)
  from cc.get_miss [OF cache_wf_NewCache _ g0]
  have "e_link (group_entry c0 (groupID (NewCache 4) 0)) = ''a''"
    and w: "cache_wf c0" "groupID c0 = groupID (NewCache 4)"
    by (simp_all add: group_entry_def NewCache_def zero_entry_def)
  moreover have same: "groupID c0 1 = groupID c0 0"
    by (simp add: w groupID_def NewCache_def go_div_nonneg)
  ultimately have l: "e_link (group_entry c0 (groupID c0 1)) \<noteq> ''b''" by simp
  obtain r1 k1 c1 where g1: "Get None ''b'' 1 (Some ?p) 2 3 c0 = (r1, k1, c1)" by (metis prod_cases3)
  from cc.get_miss [OF w(1) _ g1] l have g1': "r1 = Inr zero_credentials" "k1 = 1" by simp_all
  obtain r2 k2 c2 where g2: "Get None ''a'' 0 (Some ?p) 4 5 c1 = (r2, k2, c2)" by (metis prod_cases3)
  from second_hint_evicts_first [OF w(1) _ same g1 [unfolded g1'] g2] have "k2 = 1" by simp
  with g0 g1 g1' g2 show ?thesis by simp
qed

end
