(* ===== verification/Framing.thy ===== *)
theory Framing
  imports Wgt_Prelude
begin

text \<open>
  The wire primitives of \<open>internal/framing\<close>: the 17-byte session and stream preamble
  (\<open>WriteHandshake\<close>, \<open>ReadHandshake\<close>) and the DTLS configuration builder. A writer is a
  function from its state and the bytes to its new state and an error; a reader is the list of
  chunks in which the peer's bytes arrive, followed by the error of the next read.
\<close>

section \<open>Definitions\<close>

definition SessionIDSize :: nat where "SessionIDSize = 16"

definition HandshakeSize :: nat where "HandshakeSize = SessionIDSize + 1"

definition CIDSize :: nat where "CIDSize = 8"

definition WriteHandshake ::
    "('w \<Rightarrow> bytes \<Rightarrow> 'w \<times> go_error option) \<Rightarrow> 'w \<Rightarrow> bytes \<Rightarrow> byte \<Rightarrow> 'w \<times> go_error option" where
  "WriteHandshake write w sessionID streamID =
     (if length sessionID \<noteq> SessionIDSize
      then (w, Some (errors_New ''framing: session id must be 16 bytes''))
      else (let (w', err) = write w (sessionID @ [streamID])
            in (w', map_option (wrapf ''framing: write handshake: '') err)))"

text \<open>\<open>io.ReadFull\<close> for \<open>need\<close> more bytes after the bytes \<open>acc\<close> already read. Each
  chunk is what one \<open>Read\<close> has available; the part that does not fit stays for the next
  \<open>Read\<close>. \<open>e\<close> is the error the connection reports when the chunks are used up.\<close>

fun read_full :: "nat \<Rightarrow> bytes \<Rightarrow> bytes list \<Rightarrow> go_error \<Rightarrow> (bytes \<times> bytes list) res" where
  "read_full need acc [] e =
     (if need = 0 then Inr (acc, [])
      else Inl (if acc \<noteq> [] \<and> errors_Is e ErrEOF
                then GoError ''unexpected EOF'' [ErrUnexpectedEOF] else e))"
| "read_full need acc (c # cs) e =
     (if need = 0 then Inr (acc, c # cs)
      else if length c \<le> need then read_full (need - length c) (acc @ c) cs e
      else Inr (acc @ take need c, drop need c # cs))"

definition ReadHandshake :: "bytes list \<Rightarrow> go_error \<Rightarrow> ((bytes \<times> byte) \<times> bytes list) res" where
  "ReadHandshake r e =
     (case read_full HandshakeSize [] r e of
        Inl err \<Rightarrow> Inl (wrapf ''framing: read handshake: '' err)
      | Inr (buf, r') \<Rightarrow> Inr ((take SessionIDSize buf, buf ! SessionIDSize), r'))"

subsection \<open>DTLS configuration\<close>

datatype role = RoleClient | RoleServer | RoleOther int

datatype cid_generator = OnlySendCIDGenerator | RandomCIDGenerator nat

datatype cipher_suite = TLS_ECDHE_ECDSA_WITH_AES_128_GCM_SHA256

record 'cert dtls_config =
  Certificates :: "'cert list"
  InsecureSkipVerify :: bool
  RequireExtendedMasterSecret :: bool
  CipherSuites :: "cipher_suite list"
  ConnectionIDGenerator :: "cid_generator option"

definition NewDTLSConfig :: "role \<Rightarrow> 'cert \<Rightarrow> 'cert dtls_config" where
  "NewDTLSConfig role cert =
     \<lparr>Certificates = [cert], InsecureSkipVerify = True, RequireExtendedMasterSecret = True,
      CipherSuites = [TLS_ECDHE_ECDSA_WITH_AES_128_GCM_SHA256],
      ConnectionIDGenerator =
        (case role of RoleClient \<Rightarrow> Some OnlySendCIDGenerator
         | RoleServer \<Rightarrow> Some (RandomCIDGenerator CIDSize)
         | RoleOther _ \<Rightarrow> None)\<rparr>"

section \<open>Lemmas\<close>

lemma read_full_enough:
  assumes "need \<le> length (concat r)"
  shows "\<exists>r'. read_full need acc r e = Inr (acc @ take need (concat r), r') \<and>
              concat r' = drop need (concat r)"
  using assms
proof (induction need acc r e rule: read_full.induct)
  case (1 need acc e)
  then show ?case by simp
next
  case (2 need acc c cs e)
  show ?case
  proof (cases "need = 0 \<or> \<not> length c \<le> need")
    case True
    then show ?thesis by auto
  next
    case False
    with 2 show ?thesis by simp
  qed
qed

lemma read_full_short:
  "length (concat r) < need \<Longrightarrow> is_err (read_full need acc r e)"
  by (induction need acc r e rule: read_full.induct) auto

text \<open>A writer that appends to a byte string, as a stream connection does.\<close>

definition buffer_write :: "bytes \<Rightarrow> bytes \<Rightarrow> bytes \<times> go_error option" where
  "buffer_write w bs = (w @ bs, None)"

section \<open>Properties\<close>

text \<open>C13: the preamble round trip. What \<open>WriteHandshake\<close> puts on a fresh connection for a
  16-byte session id is read back by \<open>ReadHandshake\<close> as the same session id and stream id,
  however the carrier cuts the byte stream into reads and whatever payload follows; the payload
  is left unread, byte for byte.\<close>

theorem handshake_roundtrip:
  assumes "length sid = SessionIDSize"
    and "WriteHandshake buffer_write [] sid stid = (wire, err)"
    and "concat chunks = wire @ payload"
  shows "err = None \<and>
    (\<exists>rest. ReadHandshake chunks e = Inr ((sid, stid), rest) \<and> concat rest = payload)"
proof -
  have wire: "wire = sid @ [stid]" and "err = None"
    using assms(1,2) by (simp_all add: WriteHandshake_def buffer_write_def)
  have len: "length (sid @ [stid]) = HandshakeSize"
    using assms(1) by (simp add: HandshakeSize_def)
  then have "HandshakeSize \<le> length (concat chunks)"
    using assms(3) wire by simp
  then obtain rest where "read_full HandshakeSize [] chunks e =
      Inr (take HandshakeSize (concat chunks), rest)" "concat rest = drop HandshakeSize (concat chunks)"
    using read_full_enough [of HandshakeSize chunks "[]" e] by auto
  moreover have "take HandshakeSize (concat chunks) = sid @ [stid]"
    "drop HandshakeSize (concat chunks) = payload"
    using assms(3) wire len append_eq_conv_conj [of "sid @ [stid]" payload "concat chunks"]
    by auto
  ultimately have "ReadHandshake chunks e = Inr ((sid, stid), rest)" "concat rest = payload"
    using assms(1) by (simp_all add: ReadHandshake_def nth_append)
  with \<open>err = None\<close> show ?thesis by blast
qed

theorem handshake_roundtrip_witness:
  "\<exists>rest. ReadHandshake [replicate 10 7, replicate 6 7 @ [3, 1], [2]] (errors_New ''closed'') =
     Inr ((replicate 16 7, 3), rest) \<and> concat rest = [1, 2]"
  using handshake_roundtrip [of "replicate 16 7" 3 "replicate 16 7 @ [3]" None
      "[replicate 10 7, replicate 6 7 @ [3, 1], [2]]" "[1, 2]" "errors_New ''closed''"]
  by (simp add: SessionIDSize_def WriteHandshake_def buffer_write_def numeral_eq_Suc)

text \<open>A stream that ends before 17 bytes never yields a session. Every read of fewer than
  17 bytes in total is an error, so \<open>handleConn\<close> never creates or joins a session from a
  truncated preamble, and a session id of the wrong length is never written.\<close>

theorem handshake_short_rejected:
  shows "(length (concat chunks) < HandshakeSize \<longrightarrow> is_err (ReadHandshake chunks e)) \<and>
         (length sid \<noteq> SessionIDSize \<longrightarrow>
            fst (WriteHandshake buffer_write w sid stid) = w \<and>
            snd (WriteHandshake buffer_write w sid stid) \<noteq> None)"
  using read_full_short [of chunks HandshakeSize "[]" e]
  by (auto simp: ReadHandshake_def WriteHandshake_def split: sum.splits prod.splits)

theorem handshake_short_rejected_witness:
  "is_err (ReadHandshake [[1, 2], [3]] (GoError ''EOF'' [ErrEOF])) \<and>
   snd (WriteHandshake buffer_write [9] [1, 2] 3) \<noteq> None"
  using handshake_short_rejected [of "[[1, 2], [3]]" "GoError ''EOF'' [ErrEOF]" "[1, 2]" "[9]" 3]
  by (simp add: HandshakeSize_def SessionIDSize_def)

end
