(* ===== verification/Proxy_Hub.thy ===== *)
theory Proxy_Hub
  imports Creds_Cache Framing Lossy_Fifo
begin

text \<open>
  The client side of the proxy, \<open>internal/proxy\<close>: the hub with its packet scheduler
  (\<open>hub.go\<close>), and the streams with their reconnect loop and their pumps (\<open>stream.go\<close>). An
  address is its printed form. What the network, the TURN client and DTLS return is part of the
  environment records and of the pump events; the credentials cache is the one of
  \<open>Creds_Cache\<close>. Buffers from the pool (\<open>pool.go\<close>) are the bytes they hold.
\<close>

section \<open>Definitions\<close>

definition PacketBufSize :: nat where "PacketBufSize = 2048"

text \<open>The provider and the logger of \<open>HubConfig\<close> are \<open>None\<close> where Go has nil.\<close>

record hub_config =
  hc_PeerAddr :: string
  hc_ListenAddr :: string
  hc_Streams :: int
  hc_PeerType :: string
  hc_UDP :: bool
  hc_TURNHostOverride :: string
  hc_TURNPortOverride :: int
  hc_StreamsPerCred :: int
  hc_WatchdogTimeout :: duration
  hc_Hints :: "string list"
  hc_Provider :: "provider option"
  hc_Logger :: "unit option"

record stream =
  st_id :: nat
  st_in :: "bytes list"
  st_peer :: "string option"
  st_ready :: bool
  st_bytesTx :: u64
  st_bytesRx :: u64
  st_packetsTx :: u64
  st_packetsRx :: u64
  st_dropsTx :: u64
  st_errorsTx :: u64
  st_errorsRx :: u64

definition streamQueueCap :: nat where "streamQueueCap = 512"

definition new_stream :: "nat \<Rightarrow> stream" where
  "new_stream i = \<lparr>st_id = i, st_in = [], st_peer = None, st_ready = False, st_bytesTx = 0,
     st_bytesRx = 0, st_packetsTx = 0, st_packetsRx = 0, st_dropsTx = 0, st_errorsTx = 0,
     st_errorsRx = 0\<rparr>"

text \<open>\<open>h_lastUsed\<close> is the local variable of \<open>scheduleLoop\<close>.\<close>

record hub =
  h_cfg :: hub_config
  h_creds :: cred_cache
  h_started :: bool
  h_stopped :: bool
  h_cancelled :: bool
  h_streams :: "stream list"
  h_localConn :: "string option"
  h_ready :: bool
  h_lastUsed :: nat

definition NewHub :: "hub_config \<Rightarrow> hub res" where
  "NewHub cfg =
     (if hc_Provider cfg = None then Inl (errors_New ''proxy: HubConfig.Provider is required'')
      else if hc_Logger cfg = None then Inl (errors_New ''proxy: HubConfig.Logger is required'')
      else (let cfg1 = (if hc_Streams cfg \<le> 0 then cfg\<lparr>hc_Streams := 1\<rparr> else cfg);
                cfg2 = (if hc_StreamsPerCred cfg1 \<le> 0 then cfg1\<lparr>hc_StreamsPerCred := 4\<rparr> else cfg1)
            in Inr \<lparr>h_cfg = cfg2, h_creds = NewCache (hc_StreamsPerCred cfg2), h_started = False,
                    h_stopped = False, h_cancelled = False, h_streams = [], h_localConn = None,
                    h_ready = False, h_lastUsed = 0\<rparr>))"

definition hintFor :: "hub_config \<Rightarrow> int \<Rightarrow> string" where
  "hintFor cfg streamID =
     (if length (hc_Hints cfg) = 0 then []
      else hc_Hints cfg !
             nat (go_mod (go_div streamID (hc_StreamsPerCred cfg)) (int (length (hc_Hints cfg)))))"

text \<open>\<open>Start\<close>: the results of binding the listener and of generating the certificate are
  arguments. The streams' goroutines start in \<open>run\<close>.\<close>

definition hub_Start :: "string res \<Rightarrow> go_error option \<Rightarrow> hub \<Rightarrow> go_error option \<times> hub" where
  "hub_Start listen certErr h =
     (if h_started h then (Some (errors_New ''proxy: hub already started''), h)
      else
        (let h1 = h\<lparr>h_started := True\<rparr> in
         case listen of
           Inl err \<Rightarrow> (Some (wrapf (''listen '' @ hc_ListenAddr (h_cfg h) @ '': '') err), h1\<lparr>h_cancelled := True\<rparr>)
         | Inr addr \<Rightarrow>
             (let h2 = h1\<lparr>h_localConn := Some addr\<rparr> in
              case certErr of
                Some err \<Rightarrow> (Some (wrapf ''generate dtls cert: '' err), h2\<lparr>h_cancelled := True\<rparr>)
              | None \<Rightarrow> (None, h2\<lparr>h_streams := map new_stream [0..<nat (hc_Streams (h_cfg h))]\<rparr>))))"

definition hub_Stop :: "hub \<Rightarrow> hub" where
  "hub_Stop h =
     (if h_stopped h \<or> \<not> h_started h then h
      else h\<lparr>h_stopped := True, h_cancelled := True, h_streams := map (\<lambda>s. s\<lparr>st_ready := False\<rparr>) (h_streams h)\<rparr>)"

definition signalReady :: "hub \<Rightarrow> hub" where
  "signalReady h = h\<lparr>h_ready := True\<rparr>"

text \<open>One packet of \<open>scheduleLoop\<close>: the search for the next ready stream, and the hand-off.\<close>

fun find_ready :: "stream list \<Rightarrow> nat \<Rightarrow> nat list \<Rightarrow> nat option" where
  "find_ready ss start [] = None"
| "find_ready ss start (i # is) =
     (let k = (start + i) mod length ss in if st_ready (ss ! k) then Some k else find_ready ss start is)"

definition handoff :: "string \<Rightarrow> bytes \<Rightarrow> stream \<Rightarrow> stream" where
  "handoff addr pkt s =
     (let s1 = s\<lparr>st_peer := Some addr\<rparr>
      in if length (st_in s1) < streamQueueCap then s1\<lparr>st_in := st_in s1 @ [take PacketBufSize pkt]\<rparr>
         else s1\<lparr>st_dropsTx := st_dropsTx s1 + 1\<rparr>)"

definition schedule :: "string \<Rightarrow> bytes \<Rightarrow> hub \<Rightarrow> hub" where
  "schedule addr pkt h =
     (let nStreams = length (h_streams h) in
      if nStreams = 0 then h
      else (let lastUsed = (h_lastUsed h + 1) mod nStreams; h1 = h\<lparr>h_lastUsed := lastUsed\<rparr> in
            case find_ready (h_streams h) lastUsed [0..<nStreams] of
              None \<Rightarrow> h1
            | Some k \<Rightarrow> h1\<lparr>h_streams := (h_streams h)[k := handoff addr pkt (h_streams h ! k)]\<rparr>))"

record hub_stats =
  hs_StreamsRunning :: nat
  hs_StreamsTotal :: nat
  hs_BytesTx :: u64
  hs_BytesRx :: u64
  hs_PacketsTx :: u64
  hs_PacketsRx :: u64
  hs_DropsTx :: u64
  hs_ErrorsTx :: u64
  hs_ErrorsRx :: u64

definition hub_Stats :: "hub \<Rightarrow> hub_stats" where
  "hub_Stats h =
     (let ss = h_streams h in
      \<lparr>hs_StreamsRunning = length (filter st_ready ss), hs_StreamsTotal = length ss,
       hs_BytesTx = sum_list (map st_bytesTx ss), hs_BytesRx = sum_list (map st_bytesRx ss),
       hs_PacketsTx = sum_list (map st_packetsTx ss), hs_PacketsRx = sum_list (map st_packetsRx ss),
       hs_DropsTx = sum_list (map st_dropsTx ss), hs_ErrorsTx = sum_list (map st_errorsTx ss),
       hs_ErrorsRx = sum_list (map st_errorsRx ss)\<rparr>)"

subsection \<open>Connecting a stream\<close>

text \<open>What the outside world answers during one \<open>runOnce\<close>: the context, the clock at the cache
  lookup, after a fetch and at an auth error, and the result of each library call.
  \<open>env_peerIs4\<close> is the result of resolving the peer's address, with whether it is IPv4.\<close>

record once_env =
  env_ctxErr :: "go_error option"
  env_now1 :: instant
  env_now2 :: instant
  env_nowAuth :: instant
  env_dial :: "go_error option"
  env_resolveTurn :: "go_error option"
  env_peerIs4 :: "bool res"
  env_client :: "go_error option"
  env_listen :: "go_error option"
  env_allocate :: "go_error option"

datatype pump_kind = PumpRaw | PumpDTLS bool

definition turn_addr :: "hub_config \<Rightarrow> string \<Rightarrow> string" where
  "turn_addr cfg addr =
     (if hc_TURNHostOverride cfg \<noteq> [] \<or> hc_TURNPortOverride cfg \<noteq> 0
      then (case split_host_port addr of
              None \<Rightarrow> addr
            | Some (host, port) \<Rightarrow>
                join_host_port
                  (if hc_TURNHostOverride cfg \<noteq> [] then hc_TURNHostOverride cfg else host)
                  (if hc_TURNPortOverride cfg \<noteq> 0 then show_int (hc_TURNPortOverride cfg) else port))
      else addr)"

definition invalidateOnAuthError :: "instant \<Rightarrow> go_error \<Rightarrow> int \<Rightarrow> cred_cache \<Rightarrow> cred_cache" where
  "invalidateOnAuthError now err streamID c =
     (if IsAuthError (Some err) then snd (HandleAuthError now streamID c) else c)"

text \<open>\<open>runOnce\<close> up to the pump: either an error, or the relay is allocated and the pump starts
  with the TURN address and whether the IPv4 family was requested. The number counts the calls
  of the provider.\<close>

definition connect ::
  "once_env \<Rightarrow> hub_config \<Rightarrow> int \<Rightarrow> cred_cache \<Rightarrow> (pump_kind \<times> string \<times> bool) res \<times> nat \<times> cred_cache" where
  "connect env cfg streamID c =
     (let hint = hintFor cfg streamID in
      case Get (env_ctxErr env) hint streamID (hc_Provider cfg) (env_now1 env) (env_now2 env) c of
        (Inl err, calls, c1) \<Rightarrow> (Inl (wrapf ''creds: '' err), calls, c1)
      | (Inr cr, calls, c1) \<Rightarrow>
          (let addr = turn_addr cfg (ServerAddr cr) in
           case env_dial env of
             Some derr \<Rightarrow> (Inl (wrapf (if hc_UDP cfg then ''dial udp: '' else ''dial tcp: '') derr), calls, c1)
           | None \<Rightarrow>
          (case env_resolveTurn env of
             Some rerr \<Rightarrow> (Inl (wrapf ''resolve turn addr: '' rerr), calls, c1)
           | None \<Rightarrow>
          (case env_peerIs4 env of
             Inl perr \<Rightarrow> (Inl (wrapf ''resolve peer addr: '' perr), calls, c1)
           | Inr is4 \<Rightarrow>
          (case env_client env of
             Some cerr \<Rightarrow> (Inl (wrapf ''turn client: '' cerr), calls, c1)
           | None \<Rightarrow>
          (case env_listen env of
             Some lerr \<Rightarrow>
               (let err = wrapf ''turn listen: '' lerr
                in (Inl err, calls, invalidateOnAuthError (env_nowAuth env) err streamID c1))
           | None \<Rightarrow>
          (case env_allocate env of
             Some aerr \<Rightarrow>
               (let err = wrapf ''turn allocate: '' aerr
                in (Inl err, calls, invalidateOnAuthError (env_nowAuth env) err streamID c1))
           | None \<Rightarrow>
          (let pt = hc_PeerType cfg in
           if pt = ''wireguard'' then (Inr (PumpRaw, addr, is4), calls, c1)
           else if pt = ''proxy_v1'' then (Inr (PumpDTLS False, addr, is4), calls, c1)
           else if pt = ''proxy_v2'' \<or> pt = [] then (Inr (PumpDTLS True, addr, is4), calls, c1)
           else (Inl (errors_New (''unknown PeerType '' @ quoted pt)), calls, c1)))))))))"

definition pumpExitErr :: "go_error option \<Rightarrow> go_error" where
  "pumpExitErr ctxErr =
     (case ctxErr of Some err \<Rightarrow> err | None \<Rightarrow> errors_New ''stream pump terminated (relay/DTLS failure)'')"

subsection \<open>The pumps\<close>

text \<open>The goroutines of a pump over one stream: the context, which of the goroutines still run
  (transmit, receive, and for DTLS the two carrier loops), the time of the last received data,
  and what went out on each side.\<close>

record pump =
  pm_stream :: stream
  pm_done :: bool
  pm_tx :: bool
  pm_rx :: bool
  pm_up :: bool
  pm_down :: bool
  pm_lastRx :: int
  pm_local :: "(bytes \<times> string) list"

text \<open>\<open>PeTx werr now\<close>: the transmit loop takes a packet and the write returns \<open>werr\<close>.
  \<open>PeRx fromPeer pkt werr now\<close>: a packet arrives and the write to the local listener returns
  \<open>werr\<close>. \<open>PeRxErr canceled\<close>: the read fails. \<open>PeUp\<close>, \<open>PeDown\<close>: one round of a carrier loop, with
  its read and its write error. \<open>PeCancel\<close>: the parent context is cancelled.\<close>

datatype pump_event =
    PeTx "go_error option" instant | PeTxDone
  | PeRx bool bytes "go_error option" instant | PeRxErr bool
  | PeUp bool "go_error option" | PeDown bool bool "go_error option"
  | PeCancel

definition stop_tx :: "pump \<Rightarrow> pump" where "stop_tx p = p\<lparr>pm_tx := False, pm_done := True\<rparr>"
definition stop_rx :: "pump \<Rightarrow> pump" where "stop_rx p = p\<lparr>pm_rx := False, pm_done := True\<rparr>"

definition tx_write :: "go_error option \<Rightarrow> bytes \<Rightarrow> bytes list \<Rightarrow> pump \<Rightarrow> bytes list \<times> pump" where
  "tx_write werr b rest p =
     (let s = (pm_stream p)\<lparr>st_in := rest\<rparr> in
      case werr of
        Some _ \<Rightarrow> ([], stop_tx (p\<lparr>pm_stream := s\<lparr>st_errorsTx := st_errorsTx s + 1\<rparr>\<rparr>))
      | None \<Rightarrow> ([b], p\<lparr>pm_stream := s\<lparr>st_bytesTx := st_bytesTx s + of_nat (length b),
                                      st_packetsTx := st_packetsTx s + 1\<rparr>\<rparr>))"

definition rx_deliver :: "bytes \<Rightarrow> go_error option \<Rightarrow> pump \<Rightarrow> pump" where
  "rx_deliver pkt werr p =
     (let s = pm_stream p in
      case st_peer s of
        None \<Rightarrow> p
      | Some addr \<Rightarrow>
          (case werr of
             Some _ \<Rightarrow> stop_rx (p\<lparr>pm_stream := s\<lparr>st_errorsRx := st_errorsRx s + 1\<rparr>\<rparr>)
           | None \<Rightarrow> p\<lparr>pm_local := pm_local p @ [(take PacketBufSize pkt, addr)],
                       pm_stream := s\<lparr>st_bytesRx := st_bytesRx s + of_nat (length (take PacketBufSize pkt)),
                                      st_packetsRx := st_packetsRx s + 1\<rparr>\<rparr>))"

fun raw_exec :: "pump_event \<Rightarrow> pump \<Rightarrow> bytes list \<times> pump" where
  "raw_exec (PeTx werr now) p =
     (case st_in (pm_stream p) of
        [] \<Rightarrow> ([], p)
      | b # rest \<Rightarrow> if pm_tx p then tx_write werr b rest p else ([], p))"
| "raw_exec PeTxDone p = ([], if pm_tx p \<and> pm_done p then stop_tx p else p)"
| "raw_exec (PeRx fromPeer pkt werr now) p =
     ([], if pm_rx p \<and> fromPeer then rx_deliver pkt werr p else p)"
| "raw_exec (PeRxErr canceled) p =
     ([], if pm_rx p
          then stop_rx (p\<lparr>pm_stream := (pm_stream p)\<lparr>st_errorsRx := st_errorsRx (pm_stream p) + 1\<rparr>\<rparr>)
          else p)"
| "raw_exec PeCancel p = ([], p\<lparr>pm_done := True\<rparr>)"
| "raw_exec _ p = ([], p)"

text \<open>The DTLS pump; \<open>wd\<close> is the watchdog timeout. The watchdog compares with the last receive
  time in whole seconds.\<close>

definition watchdog_expired :: "duration \<Rightarrow> instant \<Rightarrow> int \<Rightarrow> bool" where
  "watchdog_expired wd now lastRx \<longleftrightarrow> wd > 0 \<and> now - lastRx * second > wd"

fun dtls_exec :: "duration \<Rightarrow> pump_event \<Rightarrow> pump \<Rightarrow> bytes list \<times> pump" where
  "dtls_exec wd (PeTx werr now) p =
     (case st_in (pm_stream p) of
        [] \<Rightarrow> ([], p)
      | b # rest \<Rightarrow>
          if \<not> pm_tx p then ([], p)
          else if watchdog_expired wd now (pm_lastRx p)
          then ([], stop_tx (p\<lparr>pm_stream := (pm_stream p)\<lparr>st_in := rest,
                                 st_dropsTx := st_dropsTx (pm_stream p) + 1\<rparr>\<rparr>))
          else tx_write werr b rest p)"
| "dtls_exec wd PeTxDone p = ([], if pm_tx p \<and> pm_done p then stop_tx p else p)"
| "dtls_exec wd (PeRx fromPeer pkt werr now) p =
     ([], if pm_rx p then rx_deliver pkt werr (p\<lparr>pm_lastRx := unix_seconds now\<rparr>) else p)"
| "dtls_exec wd (PeRxErr canceled) p =
     ([], if pm_rx p
          then stop_rx (if canceled then p
                        else p\<lparr>pm_stream := (pm_stream p)\<lparr>st_errorsRx := st_errorsRx (pm_stream p) + 1\<rparr>\<rparr>)
          else p)"
| "dtls_exec wd (PeUp rerr werr) p =
     ([], if \<not> pm_up p then p
          else if rerr then p\<lparr>pm_up := False, pm_done := True\<rparr>
          else case werr of
            None \<Rightarrow> p
          | Some _ \<Rightarrow> p\<lparr>pm_up := False, pm_done := True,
                        pm_stream := (pm_stream p)\<lparr>st_errorsTx := st_errorsTx (pm_stream p) + 1\<rparr>\<rparr>)"
| "dtls_exec wd (PeDown rerr fromPeer werr) p =
     ([], if \<not> pm_down p then p
          else if rerr \<or> fromPeer \<and> werr \<noteq> None
          then p\<lparr>pm_down := False, pm_done := True,
                 pm_stream := (pm_stream p)\<lparr>st_errorsRx := st_errorsRx (pm_stream p) + 1\<rparr>\<rparr>
          else p)"
| "dtls_exec wd PeCancel p = ([], p\<lparr>pm_done := True\<rparr>)"

text \<open>The start of a pump. For DTLS the errors of \<open>dtls.Client\<close>, of the handshake and of the
  preamble come first; the stream is ready only after all of them.\<close>

record dtls_env =
  de_client :: "go_error option"
  de_handshake :: "go_error option"
  de_preamble :: "go_error option"

definition start_pump :: "bool \<Rightarrow> int \<Rightarrow> stream \<Rightarrow> pump" where
  "start_pump isDtls now s =
     \<lparr>pm_stream = s\<lparr>st_ready := True\<rparr>, pm_done = False, pm_tx = True, pm_rx = True, pm_up = isDtls,
      pm_down = isDtls, pm_lastRx = now, pm_local = []\<rparr>"

definition pumpRaw_start :: "stream \<Rightarrow> pump" where
  "pumpRaw_start s = start_pump False 0 s"

definition pumpDTLS_start ::
  "dtls_env \<Rightarrow> bool \<Rightarrow> bytes \<Rightarrow> instant \<Rightarrow> stream \<Rightarrow> bytes \<times> pump res" where
  "pumpDTLS_start de sendHandshake sessionID now s =
     (case de_client de of
        Some err \<Rightarrow> ([], Inl (wrapf ''dtls client: '' err))
      | None \<Rightarrow>
     (case de_handshake de of
        Some err \<Rightarrow> ([], Inl (wrapf ''dtls handshake: '' err))
      | None \<Rightarrow>
     (case (if sendHandshake
            then WriteHandshake (\<lambda>w bs. (w @ bs, de_preamble de)) [] sessionID (of_nat (st_id s))
            else ([], None)) of
        (wire, Some err) \<Rightarrow> (wire, Inl (wrapf ''session-id handshake: '' err))
      | (wire, None) \<Rightarrow> (wire, Inr (start_pump True (unix_seconds now) s)))))"

definition pump_finished :: "pump \<Rightarrow> bool" where
  "pump_finished p \<longleftrightarrow> \<not> pm_tx p \<and> \<not> pm_rx p \<and> \<not> pm_up p \<and> \<not> pm_down p"

subsection \<open>The stream loop\<close>

text \<open>\<open>runOnce\<close>: connect, then pump. \<open>es\<close> are the pump's events until its goroutines have ended
  and \<open>ctxEnd\<close> is the parent context's error at that point.\<close>

definition runOnce ::
  "once_env \<Rightarrow> dtls_env \<Rightarrow> pump_event list \<Rightarrow> go_error option \<Rightarrow> bytes \<Rightarrow> instant \<Rightarrow> hub_config \<Rightarrow>
   stream \<Rightarrow> cred_cache \<Rightarrow> go_error option \<times> stream \<times> cred_cache" where
  "runOnce env de es ctxEnd sessionID now cfg s c =
     (case connect env cfg (int (st_id s)) c of
        (Inl err, calls, c1) \<Rightarrow> (Some err, s, c1)
      | (Inr (PumpRaw, _, _), calls, c1) \<Rightarrow>
          (let p = run_state raw_exec es (pumpRaw_start s)
           in (Some (pumpExitErr ctxEnd), (pm_stream p)\<lparr>st_ready := False\<rparr>, c1))
      | (Inr (PumpDTLS sendHandshake, _, _), calls, c1) \<Rightarrow>
          (case snd (pumpDTLS_start de sendHandshake sessionID now s) of
             Inl err \<Rightarrow> (Some err, s\<lparr>st_ready := False\<rparr>, c1)
           | Inr p0 \<Rightarrow>
               (let p = run_state (dtls_exec (hc_WatchdogTimeout cfg)) es p0
                in (Some (pumpExitErr ctxEnd), (pm_stream p)\<lparr>st_ready := False\<rparr>, c1))))"

definition backoff :: "go_error \<Rightarrow> duration" where
  "backoff err = (if IsRateLimitError (Some err) then 15 * second else second)"

text \<open>What \<open>run\<close> does with the result of \<open>runOnce\<close>: leave, wait for a while, or go on at once.\<close>

datatype run_action = RunReturn | RunWait duration | RunAgain

definition run_after :: "go_error option \<Rightarrow> go_error option \<Rightarrow> stream \<Rightarrow> run_action \<times> stream" where
  "run_after err ctxErr s =
     (case err of
        Some e \<Rightarrow> (if ctxErr = None then (RunWait (backoff e), s\<lparr>st_ready := False\<rparr>) else (RunReturn, s))
      | None \<Rightarrow> (if ctxErr = None then RunAgain else RunReturn, s))"

section \<open>The scheduler\<close>

definition schedule_run :: "string \<Rightarrow> bytes list \<Rightarrow> hub \<Rightarrow> hub" where
  "schedule_run addr pkts h = fold (schedule addr) pkts h"

lemma find_ready_Some:
  assumes "find_ready ss start is = Some k"
  shows "\<exists>pre i suf. is = pre @ i # suf \<and> k = (start + i) mod length ss \<and> st_ready (ss ! k) \<and>
    (\<forall>j \<in> set pre. \<not> st_ready (ss ! ((start + j) mod length ss)))"
  using assms
proof (induction "is")
  case Nil
  then show ?case by simp
next
  case (Cons i "is")
  show ?case
  proof (cases "st_ready (ss ! ((start + i) mod length ss))")
    case True
    with Cons.prems show ?thesis by (intro exI [of _ "[]"]) auto
  next
    case False
    with Cons obtain pre i' suf where "is = pre @ i' # suf" "k = (start + i') mod length ss"
      "st_ready (ss ! k)" "\<forall>j \<in> set pre. \<not> st_ready (ss ! ((start + j) mod length ss))" by auto
    with False show ?thesis by (intro exI [of _ "i # pre"] exI [of _ i'] exI [of _ suf]) auto
  qed
qed

lemma find_ready_None:
  "find_ready ss start is = None \<longleftrightarrow> (\<forall>i \<in> set is. \<not> st_ready (ss ! ((start + i) mod length ss)))"
  by (induction "is") (auto simp: Let_def)

lemma find_ready_first:
  assumes "find_ready ss start [0..<length ss] = Some k"
  obtains d where "d < length ss" and "k = (start + d) mod length ss" and "st_ready (ss ! k)"
    and "\<forall>j < d. \<not> st_ready (ss ! ((start + j) mod length ss))"
proof -
  from find_ready_Some [OF assms] obtain pre i suf where u: "[0..<length ss] = pre @ i # suf"
    and k: "k = (start + i) mod length ss" "st_ready (ss ! k)"
    and pre: "\<forall>j \<in> set pre. \<not> st_ready (ss ! ((start + j) mod length ss))" by blast
  have len: "length pre < length ss" using arg_cong [OF u, of length] by simp
  then have "[0..<length ss] ! length pre = i" using u by (metis nth_append_length)
  then have i: "i = length pre" using len by simp
  have "pre = take i [0..<length ss]" using u i by simp
  then have "pre = [0..<i]" using len i by (simp add: take_upt)
  then have "set pre = {0..<i}" by (metis set_upt)
  with pre len i k that show thesis by auto
qed

lemma find_ready_none_iff:
  assumes "0 < length ss"
  shows "find_ready ss start [0..<length ss] = None \<longleftrightarrow> (\<forall>s \<in> set ss. \<not> st_ready s)"
proof
  assume n: "find_ready ss start [0..<length ss] = None"
  show "\<forall>s \<in> set ss. \<not> st_ready s"
  proof
    fix s assume "s \<in> set ss"
    then obtain k where k: "k < length ss" "s = ss ! k" by (auto simp: in_set_conv_nth)
    have "\<exists>d < length ss. (start + d) mod length ss = k"
    proof (intro exI conjI)
      show "(k + (length ss - start mod length ss)) mod length ss < length ss" using assms by simp
      have "(start + (k + (length ss - start mod length ss)) mod length ss) mod length ss =
          (start mod length ss + (k + (length ss - start mod length ss))) mod length ss"
        by (metis mod_add_left_eq mod_add_right_eq)
      also have "start mod length ss + (k + (length ss - start mod length ss)) = k + length ss"
        using mod_less_divisor [OF assms, of start] by simp
      finally show "(start + (k + (length ss - start mod length ss)) mod length ss) mod length ss = k"
        using k(1) by simp
    qed
    then obtain d where "d \<in> set [0..<length ss]" "(start + d) mod length ss = k" by auto
    with n k(2) show "\<not> st_ready s" unfolding find_ready_None by blast
  qed
next
  assume "\<forall>s \<in> set ss. \<not> st_ready s"
  with assms show "find_ready ss start [0..<length ss] = None" by (auto simp: find_ready_None)
qed

lemma handoff_simps [simp]: "st_ready (handoff a pkt s) = st_ready s" "st_id (handoff a pkt s) = st_id s"
  by (simp_all add: handoff_def Let_def)

lemma length_schedule [simp]: "length (h_streams (schedule a pkt h)) = length (h_streams h)"
  by (simp add: schedule_def Let_def split: option.splits)


definition demo_stream :: "nat \<Rightarrow> bool \<Rightarrow> stream" where
  "demo_stream i r = (new_stream i)\<lparr>st_ready := r\<rparr>"

definition demo_cfg :: hub_config where
  "demo_cfg = \<lparr>hc_PeerAddr = ''10.0.0.1:56000'', hc_ListenAddr = ''127.0.0.1:9000'', hc_Streams = 3,
     hc_PeerType = ''wireguard'', hc_UDP = True, hc_TURNHostOverride = [], hc_TURNPortOverride = 0,
     hc_StreamsPerCred = 4, hc_WatchdogTimeout = 0, hc_Hints = [''l''],
     hc_Provider = Some (\<lambda>h i. Inr (zero_credentials\<lparr>ExpiresIn := 600 * second\<rparr>)), hc_Logger = Some ()\<rparr>"

definition demo_hub :: "stream list \<Rightarrow> hub" where
  "demo_hub ss = \<lparr>h_cfg = demo_cfg, h_creds = NewCache 4, h_started = True, h_stopped = False,
     h_cancelled = False, h_streams = ss, h_localConn = Some ''127.0.0.1:9000'', h_ready = True,
     h_lastUsed = 0\<rparr>"


subsection \<open>Fairness\<close>

lemma schedule_all_ready:
  assumes "\<forall>s \<in> set (h_streams h). st_ready s" and "h_streams h \<noteq> []"
  shows "h_lastUsed (schedule a pkt h) = (h_lastUsed h + 1) mod length (h_streams h)"
    and "h_streams (schedule a pkt h) =
      (h_streams h)[(h_lastUsed h + 1) mod length (h_streams h) :=
        handoff a pkt (h_streams h ! ((h_lastUsed h + 1) mod length (h_streams h)))]"
proof -
  let ?n = "length (h_streams h)" and ?r = "(h_lastUsed h + 1) mod length (h_streams h)"
  have n: "0 < ?n" using assms(2) by simp
  then have u: "[0..<?n] = 0 # [1..<?n]" by (simp add: upt_rec)
  have "st_ready (h_streams h ! ?r)" using assms(1) n by simp
  then have f: "find_ready (h_streams h) ?r [0..<?n] = Some ?r" by (simp add: u)
  show "h_lastUsed (schedule a pkt h) = ?r"
    and "h_streams (schedule a pkt h) = (h_streams h)[?r := handoff a pkt (h_streams h ! ?r)]"
    using assms(2) f by (simp_all add: schedule_def Let_def)
qed

lemma schedule_run_all_ready:
  assumes "\<forall>s \<in> set (h_streams h). st_ready s" and "h_streams h \<noteq> []" and "length (h_streams h) = n"
    and "\<And>i. i < n \<Longrightarrow> length (st_in (h_streams h ! i)) + length pkts \<le> streamQueueCap"
  shows "length (h_streams (schedule_run a pkts h)) = n \<and>
    (\<forall>s \<in> set (h_streams (schedule_run a pkts h)). st_ready s) \<and>
    (\<forall>i < n. st_in (h_streams (schedule_run a pkts h) ! i) =
       st_in (h_streams h ! i) @
       map (\<lambda>j. take PacketBufSize (pkts ! j))
         (filter (\<lambda>j. (h_lastUsed h + 1 + j) mod n = i) [0..<length pkts]))"
  using assms
proof (induction pkts arbitrary: h)
  case Nil
  then show ?case by (simp add: schedule_run_def)
next
  case (Cons pkt pkts)
  let ?r = "(h_lastUsed h + 1) mod n" and ?h1 = "schedule a pkt h"
  have r: "?r < n" using Cons.prems(2,3) by auto
  note one = schedule_all_ready [OF Cons.prems(1,2), of a pkt, unfolded Cons.prems(3)]
  have ss1: "\<forall>s \<in> set (h_streams ?h1). st_ready s"
    using Cons.prems(1,3) r one(2) set_update_subset_insert [of "h_streams h" ?r] by fastforce
  have in1: "st_in (h_streams ?h1 ! i) =
      st_in (h_streams h ! i) @ (if i = ?r then [take PacketBufSize pkt] else [])" if "i < n" for i
    using that r one(2) Cons.prems(3) Cons.prems(4) [of ?r]
    by (auto simp: nth_upd handoff_def Let_def)
  have len1: "length (st_in (h_streams ?h1 ! i)) + length pkts \<le> streamQueueCap" if "i < n" for i
    using in1 [OF that] Cons.prems(4) [OF that] by auto
  have "h_streams ?h1 \<noteq> []" "length (h_streams ?h1) = n"
    using Cons.prems(2,3) one(2) by auto
  from Cons.IH [OF ss1 this len1]
  have IH: "length (h_streams (schedule_run a pkts ?h1)) = n"
    "\<forall>s \<in> set (h_streams (schedule_run a pkts ?h1)). st_ready s"
    "\<And>i. i < n \<Longrightarrow> st_in (h_streams (schedule_run a pkts ?h1) ! i) = st_in (h_streams ?h1 ! i) @
       map (\<lambda>j. take PacketBufSize (pkts ! j)) (filter (\<lambda>j. (h_lastUsed ?h1 + 1 + j) mod n = i) [0..<length pkts])"
    by auto
  have shift: "Suc (h_lastUsed ?h1 + j) mod n = Suc (Suc (h_lastUsed h + j)) mod n" for j
    using one(1) mod_add_left_eq [of "h_lastUsed h + 1" n "1 + j"] by simp
  have upt: "[0..<Suc (length pkts)] = 0 # map Suc [0..<length pkts]"
    by (simp add: upt_conv_Cons map_Suc_upt del: upt_Suc)
  have "st_in (h_streams (schedule_run a (pkt # pkts) h) ! i) = st_in (h_streams h ! i) @
      map (\<lambda>j. take PacketBufSize ((pkt # pkts) ! j))
        (filter (\<lambda>j. (h_lastUsed h + 1 + j) mod n = i) [0..<length (pkt # pkts)])" if "i < n" for i
    using IH(3) [OF that] in1 [OF that]
    by (simp add: schedule_run_def upt filter_map comp_def shift del: upt_Suc)
  with IH(1,2) show ?case by (simp add: schedule_run_def)
qed

text \<open>While every stream is ready and no queue overflows, the scheduler is an exact round
  robin: of a run of packets stream \<open>i\<close> gets, in order, exactly the packets \<open>j\<close> with
  \<open>(lastUsed + 1 + j) mod n = i\<close>, appended to what it had queued, each cut to 2048 bytes.\<close>

theorem scheduler_round_robin:
  assumes "\<forall>s \<in> set (h_streams h). st_ready s" and "h_streams h \<noteq> []"
    and "\<forall>s \<in> set (h_streams h). length (st_in s) + length pkts \<le> streamQueueCap"
    and "i < length (h_streams h)"
  shows "st_in (h_streams (schedule_run a pkts h) ! i) =
    st_in (h_streams h ! i) @
    map (\<lambda>j. take PacketBufSize (pkts ! j))
      (filter (\<lambda>j. (h_lastUsed h + 1 + j) mod length (h_streams h) = i) [0..<length pkts])"
  using schedule_run_all_ready [OF assms(1,2) refl, of pkts a] assms(3,4) by auto

theorem scheduler_round_robin_witness:
  "st_in (h_streams (schedule_run ''a'' [[1], [2], [3], [4], [5]]
     (demo_hub [demo_stream 0 True, demo_stream 1 True])) ! 1) = [[1], [3], [5]]"
  using scheduler_round_robin [of "demo_hub [demo_stream 0 True, demo_stream 1 True]"
      "[[1], [2], [3], [4], [5]]" 1 "''a''"]
  by (simp add: demo_hub_def demo_stream_def new_stream_def streamQueueCap_def PacketBufSize_def
      upt_rec mod_Suc numeral_2_eq_2)

section \<open>The transmit path of a stream\<close>

text \<open>The life of a stream's queue while its pump runs: packets offered by the scheduler, and the
  pump's own events.\<close>

datatype tx_event = Offer string bytes | Pump pump_event

fun offers :: "tx_event \<Rightarrow> bytes list" where
  "offers (Offer addr pkt) = [take PacketBufSize pkt]"
| "offers (Pump e) = []"

fun pump_exec :: "pump_kind \<Rightarrow> duration \<Rightarrow> pump_event \<Rightarrow> pump \<Rightarrow> bytes list \<times> pump" where
  "pump_exec PumpRaw wd e p = raw_exec e p"
| "pump_exec (PumpDTLS sh) wd e p = dtls_exec wd e p"

fun tx_step :: "pump_kind \<Rightarrow> duration \<Rightarrow> tx_event \<Rightarrow> pump \<Rightarrow> bytes list \<times> pump" where
  "tx_step k wd (Offer addr pkt) p = ([], p\<lparr>pm_stream := handoff addr pkt (pm_stream p)\<rparr>)"
| "tx_step k wd (Pump e) p = pump_exec k wd e p"

lemmas pump_defs = tx_write_def rx_deliver_def stop_tx_def stop_rx_def Let_def

lemma tx_write_in [simp]: "st_in (pm_stream (snd (tx_write werr b rest p))) = rest"
  by (simp add: pump_defs split: option.splits)

lemma tx_write_out: "fst (tx_write werr b rest p) = [] \<or> fst (tx_write werr b rest p) = [b]"
  by (simp add: pump_defs split: option.splits)

lemma rx_deliver_in [simp]: "st_in (pm_stream (rx_deliver pkt werr p)) = st_in (pm_stream p)"
  by (simp add: pump_defs Let_def split: option.splits)

lemma stop_in [simp]: "pm_stream (stop_tx p) = pm_stream p" "pm_stream (stop_rx p) = pm_stream p"
  by (simp_all add: pump_defs)

lemma pump_exec_queue:
  "fst (pump_exec k wd e p) = [] \<and> st_in (pm_stream (snd (pump_exec k wd e p))) = st_in (pm_stream p) \<or>
   (\<exists>b rest. st_in (pm_stream p) = b # rest \<and> st_in (pm_stream (snd (pump_exec k wd e p))) = rest \<and>
      (fst (pump_exec k wd e p) = [] \<or> fst (pump_exec k wd e p) = [b]))"
proof (cases k)
  case PumpRaw
  then show ?thesis
    by (cases e) (auto split: list.splits option.splits simp: tx_write_out)
next
  case (PumpDTLS sh)
  then show ?thesis
    by (cases e) (auto split: list.splits option.splits simp: tx_write_out)
qed

lemma tx_step_queue:
  "subseq (fst (tx_step k wd e p) @ st_in (pm_stream (snd (tx_step k wd e p)))) (st_in (pm_stream p) @ offers e)"
  "length (st_in (pm_stream p)) \<le> streamQueueCap \<Longrightarrow>
     length (st_in (pm_stream (snd (tx_step k wd e p)))) \<le> streamQueueCap"
proof -
  have "subseq (fst (pump_exec k wd pe p) @ st_in (pm_stream (snd (pump_exec k wd pe p)))) (st_in (pm_stream p)) \<and>
      length (st_in (pm_stream (snd (pump_exec k wd pe p)))) \<le> length (st_in (pm_stream p))" for pe
    using pump_exec_queue [of k wd pe p] by auto
  then show "subseq (fst (tx_step k wd e p) @ st_in (pm_stream (snd (tx_step k wd e p)))) (st_in (pm_stream p) @ offers e)"
    "length (st_in (pm_stream p)) \<le> streamQueueCap \<Longrightarrow>
     length (st_in (pm_stream (snd (tx_step k wd e p)))) \<le> streamQueueCap"
    by (cases e; auto simp: handoff_def Let_def intro: order_trans)+
qed

interpretation tx_queue: lossy_fifo "tx_step k wd" offers "\<lambda>p. st_in (pm_stream p)" streamQueueCap
  for k wd
  by unfold_locales (rule tx_step_queue, rule tx_step_queue)

text \<open>Where the offered packets went: queued, sent, dropped, or lost to a write error.\<close>

definition tx_total :: "stream \<Rightarrow> u64" where
  "tx_total s = of_nat (length (st_in s)) + st_packetsTx s + st_dropsTx s + st_errorsTx s"

text \<open>A failure of the DTLS carrier loop also counts as a transmit error.\<close>

fun carrier_fail :: "pump_kind \<Rightarrow> tx_event \<Rightarrow> pump \<Rightarrow> nat" where
  "carrier_fail (PumpDTLS sh) (Pump (PeUp False (Some err))) p = (if pm_up p then 1 else 0)"
| "carrier_fail _ _ _ = 0"

fun carrier_fails :: "pump_kind \<Rightarrow> duration \<Rightarrow> tx_event list \<Rightarrow> pump \<Rightarrow> nat" where
  "carrier_fails k wd [] p = 0"
| "carrier_fails k wd (e # es) p = carrier_fail k e p + carrier_fails k wd es (snd (tx_step k wd e p))"

lemma tx_write_account:
  "st_in (pm_stream p) = b # rest \<Longrightarrow>
     tx_total (pm_stream (snd (tx_write werr b rest p))) = tx_total (pm_stream p) \<and>
     st_packetsTx (pm_stream (snd (tx_write werr b rest p))) =
       st_packetsTx (pm_stream p) + of_nat (length (fst (tx_write werr b rest p))) \<and>
     st_bytesTx (pm_stream (snd (tx_write werr b rest p))) =
       st_bytesTx (pm_stream p) + of_nat (sum_list (map length (fst (tx_write werr b rest p)))) \<and>
     pm_up (snd (tx_write werr b rest p)) = pm_up p"
  by (auto simp: pump_defs tx_total_def split: option.splits)

lemma rx_deliver_account [simp]:
  "tx_total (pm_stream (rx_deliver pkt werr p)) = tx_total (pm_stream p)"
  "st_packetsTx (pm_stream (rx_deliver pkt werr p)) = st_packetsTx (pm_stream p)"
  "st_bytesTx (pm_stream (rx_deliver pkt werr p)) = st_bytesTx (pm_stream p)"
  "pm_up (rx_deliver pkt werr p) = pm_up p"
  by (auto simp: pump_defs tx_total_def split: option.splits)

lemma stop_up [simp]: "pm_up (stop_tx p) = pm_up p" "pm_up (stop_rx p) = pm_up p"
  by (simp_all add: pump_defs)

lemma tx_total_rx [simp]: "tx_total (s\<lparr>st_errorsRx := x\<rparr>) = tx_total s"
  by (simp add: tx_total_def)

lemma tx_step_account:
  "tx_total (pm_stream (snd (tx_step k wd e p))) =
     tx_total (pm_stream p) + of_nat (length (offers e)) + of_nat (carrier_fail k e p) \<and>
   st_packetsTx (pm_stream (snd (tx_step k wd e p))) =
     st_packetsTx (pm_stream p) + of_nat (length (fst (tx_step k wd e p))) \<and>
   st_bytesTx (pm_stream (snd (tx_step k wd e p))) =
     st_bytesTx (pm_stream p) + of_nat (sum_list (map length (fst (tx_step k wd e p)))) \<and>
   (if pm_up (snd (tx_step k wd e p)) then 1 else 0) + carrier_fail k e p \<le> (if pm_up p then 1 else 0)"
proof (cases e)
  case (Offer addr pkt)
  then show ?thesis by (auto simp: handoff_def Let_def tx_total_def)
next
  case (Pump pe)
  show ?thesis
  proof (cases k)
    case PumpRaw
    with Pump show ?thesis
      by (cases pe) (auto split: list.splits simp: tx_write_account)
  next
    case (PumpDTLS sh)
    show ?thesis
    proof (cases pe)
      case (PeTx werr now)
      with Pump PumpDTLS show ?thesis
        by (auto split: list.splits simp: tx_write_account) (auto simp: tx_total_def)
    next
      case (PeUp rerr werr)
      with Pump PumpDTLS show ?thesis
        by (cases rerr; cases werr) (auto simp: tx_total_def)
    qed (use Pump PumpDTLS in auto)
  qed
qed

lemma tx_run_account:
  "tx_total (pm_stream (run_state (tx_step k wd) es p)) =
     tx_total (pm_stream p) + of_nat (length (concat (map offers es))) + of_nat (carrier_fails k wd es p) \<and>
   st_packetsTx (pm_stream (run_state (tx_step k wd) es p)) =
     st_packetsTx (pm_stream p) + of_nat (length (run_outs (tx_step k wd) es p)) \<and>
   st_bytesTx (pm_stream (run_state (tx_step k wd) es p)) =
     st_bytesTx (pm_stream p) + of_nat (sum_list (map length (run_outs (tx_step k wd) es p))) \<and>
   carrier_fails k wd es p \<le> (if pm_up p then 1 else 0)"
proof (induction es arbitrary: p)
  case Nil
  then show ?case by simp
next
  case (Cons e es)
  let ?p1 = "snd (tx_step k wd e p)"
  from Cons.IH [of ?p1] tx_step_account [of k wd e p] show ?case
    by (auto simp: algebra_simps split: if_splits)
qed

text \<open>C30: The transmit path neither reorders, duplicates nor silently loses packets. Over any
  interleaving of scheduler hand-offs and pump events on a stream that starts with an empty
  queue, what was written to the relay or to DTLS is a subsequence of what was offered, at most
  512 packets are queued, and the counters account for every offered packet: queued, sent,
  dropped or counted as a transmit error (the carrier loop of DTLS adds at most one error of its
  own); the sent counters are exact. Counters are 64-bit and wrap.\<close>

theorem stream_tx_accounted:
  assumes "st_in (pm_stream p) = []" and "k = PumpRaw \<longrightarrow> \<not> pm_up p"
  shows "let p' = run_state (tx_step k wd) es p; sent = run_outs (tx_step k wd) es p;
             offered = concat (map offers es)
    in subseq sent offered \<and> length (st_in (pm_stream p')) \<le> streamQueueCap \<and>
       (\<exists>n \<le> 1. (k = PumpRaw \<longrightarrow> n = 0) \<and>
          tx_total (pm_stream p') = tx_total (pm_stream p) + of_nat (length offered) + of_nat n) \<and>
       st_packetsTx (pm_stream p') = st_packetsTx (pm_stream p) + of_nat (length sent) \<and>
       st_bytesTx (pm_stream p') = st_bytesTx (pm_stream p) + of_nat (sum_list (map length sent))"
proof -
  from tx_run_account [of k wd es p]
  have acc: "tx_total (pm_stream (run_state (tx_step k wd) es p)) =
      tx_total (pm_stream p) + of_nat (length (concat (map offers es))) + of_nat (carrier_fails k wd es p)"
    "carrier_fails k wd es p \<le> (if pm_up p then 1 else 0)" by blast+
  have "carrier_fails k wd es p \<le> 1" "k = PumpRaw \<longrightarrow> carrier_fails k wd es p = 0"
    using acc(2) assms(2) by (auto split: if_splits)
  with acc(1) have "\<exists>n \<le> 1. (k = PumpRaw \<longrightarrow> n = 0) \<and>
      tx_total (pm_stream (run_state (tx_step k wd) es p)) =
      tx_total (pm_stream p) + of_nat (length (concat (map offers es))) + of_nat n" by blast
  with tx_queue.run_delivers_subsequence [of p k wd es] tx_queue.run_cap [of p k wd es] assms(1)
    tx_run_account [of k wd es p]
  show ?thesis by (simp add: Let_def)
qed

theorem stream_tx_accounted_witness:
  "let es = [Offer ''a'' [1], Offer ''a'' [2], Pump (PeTx None 0), Pump (PeTx (Some (errors_New ''x'')) 0)];
       p = start_pump True 0 (new_stream 3)
   in tx_total (pm_stream (run_state (tx_step (PumpDTLS True) 0) es p)) = 2"
  using stream_tx_accounted [of "start_pump True 0 (new_stream 3)" "PumpDTLS True" 0
      "[Offer ''a'' [1], Offer ''a'' [2], Pump (PeTx None 0), Pump (PeTx (Some (errors_New ''x'')) 0)]"]
  by (auto simp: Let_def tx_total_def start_pump_def new_stream_def handoff_def streamQueueCap_def
      watchdog_expired_def pump_defs)

section \<open>Reconnecting\<close>

lemma runOnce_some_error: "\<exists>err. fst (runOnce env de es ctxEnd sid now cfg s c) = Some err"
  by (auto simp: runOnce_def Let_def split: prod.splits sum.splits pump_kind.splits)

lemma IsRateLimitError_wrapf: "IsRateLimitError (Some e) \<Longrightarrow> IsRateLimitError (Some (wrapf pre e))"
  by (auto simp: IsRateLimitError_def str_contains_iff) (metis append.assoc)+

lemma IsAuthError_wrapf: "IsAuthError (Some e) \<Longrightarrow> IsAuthError (Some (wrapf pre e))"
  by (auto simp: IsAuthError_def auth_needles_def str_contains_iff) (metis append.assoc)+

lemma connect_creds_error:
  assumes "Get (env_ctxErr env) (hintFor cfg i) i (hc_Provider cfg) (env_now1 env) (env_now2 env) c = (Inl e, n, c1)"
  shows "connect env cfg i c = (Inl (wrapf ''creds: '' e), n, c1)"
  using assms by (simp add: connect_def)

text \<open>A stream never busy-loops and never stays marked ready while it is down. Whatever ends a
  \<open>runOnce\<close>, it returns an error; if the context is still live \<open>run\<close> then clears the ready flag
  and waits one second, or fifteen seconds for a rate-limit error, also when that error comes
  wrapped from the credentials provider.\<close>

theorem reconnect_backs_off:
  "\<exists>err s' c'. runOnce env de es ctxEnd sid now cfg s c = (Some err, s', c') \<and>
     run_after (Some err) None s' =
       (RunWait (if IsRateLimitError (Some err) then 15 * second else second), s'\<lparr>st_ready := False\<rparr>) \<and>
     (\<forall>e n c1. Get (env_ctxErr env) (hintFor cfg (int (st_id s))) (int (st_id s)) (hc_Provider cfg)
                 (env_now1 env) (env_now2 env) c = (Inl e, n, c1) \<and> IsRateLimitError (Some e) \<longrightarrow>
        backoff err = 15 * second)"
proof -
  obtain err s' c' where r: "runOnce env de es ctxEnd sid now cfg s c = (Some err, s', c')"
    using runOnce_some_error by (metis prod.collapse)
  have "backoff err = 15 * second"
    if "Get (env_ctxErr env) (hintFor cfg (int (st_id s))) (int (st_id s)) (hc_Provider cfg)
          (env_now1 env) (env_now2 env) c = (Inl e, n, c1)" "IsRateLimitError (Some e)" for e n c1
    using connect_creds_error [OF that(1)] r IsRateLimitError_wrapf [OF that(2)]
    by (auto simp: runOnce_def backoff_def)
  with r show ?thesis by (auto simp: run_after_def backoff_def)
qed

theorem reconnect_backs_off_witness:
  "\<exists>err s' c'. runOnce \<lparr>env_ctxErr = None, env_now1 = 0, env_now2 = 0, env_nowAuth = 0, env_dial = None,
       env_resolveTurn = None, env_peerIs4 = Inr True, env_client = None, env_listen = None, env_allocate = None\<rparr>
     \<lparr>de_client = None, de_handshake = None, de_preamble = None\<rparr> [] None [] 0
     (demo_cfg\<lparr>hc_Provider := Some (\<lambda>h i. Inl (errors_New ''vk error code=29''))\<rparr>) (new_stream 0) (NewCache 4) =
     (Some err, s', c') \<and> backoff err = 15 * second"
proof -
  let ?env = "\<lparr>env_ctxErr = None, env_now1 = 0, env_now2 = 0, env_nowAuth = 0, env_dial = None,
       env_resolveTurn = None, env_peerIs4 = Inr True, env_client = None, env_listen = None, env_allocate = None\<rparr>"
  let ?cfg = "demo_cfg\<lparr>hc_Provider := Some (\<lambda>h i. Inl (errors_New ''vk error code=29''))\<rparr>"
  let ?p = "\<lambda>h i. Inl (errors_New ''vk error code=29'') :: credentials res"
  have h: "hintFor ?cfg 0 = ''l''" by (simp add: hintFor_def demo_cfg_def go_div_nonneg go_mod_nonneg)
  obtain n c1 where g: "Get None ''l'' 0 (Some ?p) 0 0 (NewCache 4) = (Inl (errors_New ''vk error code=29''), n, c1)"
    by (simp add: Get_def getEntry_def NewCache_def get_locked_def zero_entry_def Let_def)
  have rl: "IsRateLimitError (Some (errors_New ''vk error code=29''))"
    by (simp add: IsRateLimitError_def errors_New_def)
  from reconnect_backs_off [of ?env "\<lparr>de_client = None, de_handshake = None, de_preamble = None\<rparr>" "[]" None "[]" 0
      ?cfg "new_stream 0" "NewCache 4"] g h rl
  show ?thesis by (auto simp: demo_cfg_def new_stream_def)
qed

section \<open>Rejected credentials\<close>

text \<open>One attempt that gets cached credentials and is refused by the TURN server.\<close>

definition rejected_env :: "once_env \<Rightarrow> go_error \<Rightarrow> bool" where
  "rejected_env env aerr \<longleftrightarrow> env_dial env = None \<and> env_resolveTurn env = None \<and>
     \<not> is_err (env_peerIs4 env) \<and> env_client env = None \<and> env_listen env = None \<and>
     env_allocate env = Some aerr \<and> IsAuthError (Some aerr)"

lemma connect_rejected:
  assumes "rejected_env env aerr"
    and "Get (env_ctxErr env) (hintFor cfg i) i (hc_Provider cfg) (env_now1 env) (env_now2 env) c = (Inr cr, n, c1)"
  shows "connect env cfg i c =
    (Inl (wrapf ''turn allocate: '' aerr), n, snd (HandleAuthError (env_nowAuth env) i c1))"
  using assms IsAuthError_wrapf [of aerr "''turn allocate: ''"]
  by (cases "env_peerIs4 env")
    (auto simp: connect_def rejected_env_def invalidateOnAuthError_def Let_def is_err_def)

lemma hintFor_group:
  "go_div i (hc_StreamsPerCred cfg) = go_div j (hc_StreamsPerCred cfg) \<Longrightarrow> hintFor cfg i = hintFor cfg j"
  by (simp add: hintFor_def)

lemma auth_error_locked_below:
  assumes "auth_error_locked now e = (b, e')" and "now - e_lastErrorTime e \<le> 10"
    and "e_errorCount e \<in> {0, 1}"
  shows "e' = e\<lparr>e_errorCount := e_errorCount e + 1, e_lastErrorTime := now\<rparr>"
  using assms by (auto simp: auth_error_locked_def MaxCacheErrors_def)

lemma connect_rejected_hit:
  assumes "cache_wf c" and "hc_Provider cfg = Some p"
    and "e_link (group_entry c (groupID c i)) = hintFor cfg i"
    and "env_now1 env < e_expires (group_entry c (groupID c i))"
    and "rejected_env env aerr" and "connect env cfg i c = (r, n, c')"
  shows "n = 0 \<and> (\<exists>b c1. cache_wf c1 \<and> groupID c1 = groupID c \<and> group_entry c1 = group_entry c \<and>
    HandleAuthError (env_nowAuth env) i c1 = (b, c'))"
proof -
  obtain r0 k c1 where g: "Get (env_ctxErr env) (hintFor cfg i) i (Some p) (env_now1 env) (env_now2 env) c = (r0, k, c1)"
    by (metis prod_cases3)
  from cc.get_hit [OF assms(1,3,4) g] cc.get_spec [OF assms(1) g]
  have 1: "r0 = Inr (e_creds (group_entry c (groupID c i)))" "k = 0" "group_entry c1 = group_entry c"
    "cache_wf c1" "groupID c1 = groupID c" by auto
  have "connect env cfg i c = (Inl (wrapf ''turn allocate: '' aerr), 0, snd (HandleAuthError (env_nowAuth env) i c1))"
    using connect_rejected [OF assms(5)] g 1(1,2) assms(2) by metis
  with 1 assms(6) show ?thesis by (metis prod.collapse prod.inject)
qed

lemma connect_rejected_count:
  assumes "cache_wf c" and "hc_Provider cfg = Some p"
    and "e_link (group_entry c (groupID c i)) = hintFor cfg i"
    and "env_now1 env < e_expires (group_entry c (groupID c i))"
    and "rejected_env env aerr" and "connect env cfg i c = (r, n, c')"
    and "unix_seconds (env_nowAuth env) - e_lastErrorTime (group_entry c (groupID c i)) \<le> 10"
    and "e_errorCount (group_entry c (groupID c i)) \<in> {0, 1}"
  shows "n = 0 \<and> cache_wf c' \<and> groupID c' = groupID c \<and>
    group_entry c' (groupID c i) = (group_entry c (groupID c i))
      \<lparr>e_errorCount := e_errorCount (group_entry c (groupID c i)) + 1,
       e_lastErrorTime := unix_seconds (env_nowAuth env)\<rparr>"
proof -
  from connect_rejected_hit [OF assms(1-6)] obtain b c1 where n: "n = 0"
    and c1: "cache_wf c1" "groupID c1 = groupID c" "group_entry c1 = group_entry c"
    and h: "HandleAuthError (env_nowAuth env) i c1 = (b, c')" by blast
  from cc.auth_spec [OF c1(1) h] obtain e' where
    "cache_wf c'" "groupID c' = groupID c"
    "auth_error_locked (unix_seconds (env_nowAuth env)) (group_entry c (groupID c i)) = (b, e')"
    "group_entry c' = (group_entry c)(groupID c i := e')"
    unfolding c1(2,3) by blast
  with auth_error_locked_below [OF _ assms(7,8)] n show ?thesis by auto
qed

lemma connect_provider_calls:
  "fst (snd (connect env cfg i c)) =
   fst (snd (Get (env_ctxErr env) (hintFor cfg i) i (hc_Provider cfg) (env_now1 env) (env_now2 env) c))"
  by (auto simp: connect_def Let_def split: prod.splits sum.splits option.splits)

text \<open>Rejected credentials are not retried forever. When a group's cached credentials are
  refused by the TURN server (an allocate error that looks like an auth rejection) in three
  attempts of streams of the group, each within ten seconds of the one before, none of these
  attempts calls the provider, and the next attempt of any stream of the group does, once.\<close>

theorem rejected_credentials_refetched:
  assumes "cache_wf c" and "hc_Provider cfg = Some p" and "c_streamsPerCred c = hc_StreamsPerCred cfg"
    and "\<forall>i \<in> {i1, i2, i3, i4}. groupID c i = g"
    and "e_errorCount (group_entry c g) = 0" and "e_link (group_entry c g) = hintFor cfg i1"
    and "\<forall>env \<in> {env1, env2, env3}. rejected_env env aerr \<and> env_now1 env < e_expires (group_entry c g)"
    and "unix_seconds (env_nowAuth env1) - e_lastErrorTime (group_entry c g) \<le> 10"
    and "unix_seconds (env_nowAuth env2) - unix_seconds (env_nowAuth env1) \<le> 10"
    and "unix_seconds (env_nowAuth env3) - unix_seconds (env_nowAuth env2) \<le> 10"
    and "env_ctxErr env4 = None" and "zero_time \<le> env_now1 env4"
    and "connect env1 cfg i1 c = (r1, n1, c1)" and "connect env2 cfg i2 c1 = (r2, n2, c2)"
    and "connect env3 cfg i3 c2 = (r3, n3, c3)" and "connect env4 cfg i4 c3 = (r4, n4, c4)"
  shows "n1 = 0 \<and> n2 = 0 \<and> n3 = 0 \<and> n4 = 1"
proof -
  have g: "groupID c i1 = g" "groupID c i2 = g" "groupID c i3 = g" "groupID c i4 = g"
    using assms(4) by auto
  have hint: "hintFor cfg i2 = hintFor cfg i1" "hintFor cfg i3 = hintFor cfg i1"
    by (rule hintFor_group, use g assms(3) in \<open>simp add: groupID_def\<close>)+
  from connect_rejected_count [OF assms(1,2) _ _ _ assms(13), of aerr] g assms(5-8)
  have 1: "n1 = 0" "cache_wf c1" "groupID c1 = groupID c" "group_entry c1 g = (group_entry c g)
      \<lparr>e_errorCount := 1, e_lastErrorTime := unix_seconds (env_nowAuth env1)\<rparr>" by auto
  from connect_rejected_count [OF 1(2) assms(2) _ _ _ assms(14), of aerr] g 1 hint assms(6,7,9)
  have 2: "n2 = 0" "cache_wf c2" "groupID c2 = groupID c" "group_entry c2 g = (group_entry c g)
      \<lparr>e_errorCount := 2, e_lastErrorTime := unix_seconds (env_nowAuth env2)\<rparr>" by auto
  from connect_rejected_hit [OF 2(2) assms(2) _ _ _ assms(15), of aerr] g 2 hint assms(6,7)
  obtain b c2' where n3: "n3 = 0" and c2': "cache_wf c2'" "groupID c2' = groupID c" "group_entry c2' = group_entry c2"
    and h: "HandleAuthError (env_nowAuth env3) i3 c2' = (b, c3)" by auto
  from cc.auth_last [OF c2'(1) h] c2' g 2(4) assms(10)
  have 3: "cache_wf c3" "groupID c3 = groupID c" "e_expires (group_entry c3 g) = zero_time" by auto
  obtain r k c5 where g4: "Get (env_ctxErr env4) (hintFor cfg i4) i4 (Some p) (env_now1 env4) (env_now2 env4) c3 = (r, k, c5)"
    by (metis prod_cases3)
  from cc.get_miss [OF 3(1) _ g4 [unfolded assms(11)]] 3 g(4) assms(12) have "k = 1" by auto
  with connect_provider_calls [of env4 cfg i4 c3] g4 assms(2,16) have "n4 = 1" by simp
  with 1(1) 2(1) n3 show ?thesis by blast
qed

definition demo_env :: "go_error option \<Rightarrow> instant \<Rightarrow> once_env" where
  "demo_env alloc t = \<lparr>env_ctxErr = None, env_now1 = t, env_now2 = t, env_nowAuth = t, env_dial = None,
     env_resolveTurn = None, env_peerIs4 = Inr True, env_client = None, env_listen = None,
     env_allocate = alloc\<rparr>"

definition demo_cache :: cred_cache where
  "demo_cache = snd (snd (Get None ''l'' 0 (hc_Provider demo_cfg) 0 0 (NewCache 4)))"

lemma demo_cache_facts:
  "cache_wf demo_cache" "c_streamsPerCred demo_cache = 4"
  "group_entry demo_cache 0 = zero_entry\<lparr>e_creds := zero_credentials\<lparr>ExpiresIn := 600 * second\<rparr>,
     e_link := ''l'', e_expires := 540 * second\<rparr>"
proof -
  let ?p = "\<lambda>h i. Inr (zero_credentials\<lparr>ExpiresIn := 600 * second\<rparr>)"
  have p: "hc_Provider demo_cfg = Some ?p" by (simp add: demo_cfg_def)
  show "cache_wf demo_cache"
    using cc.get_spec [OF cache_wf_NewCache [of 4], of None "''l''" 0 ?p 0 0] unfolding demo_cache_def p
    by (metis prod.collapse)
  show "c_streamsPerCred demo_cache = 4"
    by (simp add: demo_cache_def p Get_def getEntry_def NewCache_def Let_def split: prod.splits)
  show "group_entry demo_cache 0 = zero_entry\<lparr>e_creds := zero_credentials\<lparr>ExpiresIn := 600 * second\<rparr>,
     e_link := ''l'', e_expires := 540 * second\<rparr>"
    by (simp add: demo_cache_def p Get_def getEntry_def NewCache_def Let_def group_entry_def groupID_def
        get_locked_def zero_entry_def go_div_nonneg cache_lifetime_def DefaultSafetyMargin_def second_def)
qed

theorem rejected_credentials_refetched_witness:
  "let aerr = errors_New ''Allocate error response (error 401: Unauthorized)'';
       c1 = snd (snd (connect (demo_env (Some aerr) (1 * second)) demo_cfg 0 demo_cache));
       c2 = snd (snd (connect (demo_env (Some aerr) (2 * second)) demo_cfg 1 c1));
       c3 = snd (snd (connect (demo_env (Some aerr) (3 * second)) demo_cfg 2 c2))
   in fst (snd (connect (demo_env None (4 * second)) demo_cfg 3 c3)) = 1"
proof -
  let ?aerr = "errors_New ''Allocate error response (error 401: Unauthorized)''"
  obtain r1 n1 c1 r2 n2 c2 r3 n3 c3 r4 n4 c4
    where s: "connect (demo_env (Some ?aerr) (1 * second)) demo_cfg 0 demo_cache = (r1, n1, c1)"
      "connect (demo_env (Some ?aerr) (2 * second)) demo_cfg 1 c1 = (r2, n2, c2)"
      "connect (demo_env (Some ?aerr) (3 * second)) demo_cfg 2 c2 = (r3, n3, c3)"
      "connect (demo_env None (4 * second)) demo_cfg 3 c3 = (r4, n4, c4)"
    by (metis prod_cases3)
  have auth: "IsAuthError (Some ?aerr)" by (simp add: IsAuthError_def auth_needles_def errors_New_def)
  have g: "\<forall>i \<in> {0, 1, 2, 3}. groupID demo_cache i = 0"
    by (simp add: groupID_def demo_cache_facts go_div_nonneg)
  have rej: "\<forall>env \<in> {demo_env (Some ?aerr) (1 * second), demo_env (Some ?aerr) (2 * second),
      demo_env (Some ?aerr) (3 * second)}.
      rejected_env env ?aerr \<and> env_now1 env < e_expires (group_entry demo_cache 0)"
    using auth by (simp add: rejected_env_def demo_env_def demo_cache_facts second_def)
  have hint: "hintFor demo_cfg 0 = ''l''" by (simp add: hintFor_def demo_cfg_def go_div_nonneg go_mod_nonneg)
  have p: "hc_Provider demo_cfg = Some (\<lambda>h i. Inr (zero_credentials\<lparr>ExpiresIn := 600 * second\<rparr>))"
    "c_streamsPerCred demo_cache = hc_StreamsPerCred demo_cfg"
    by (simp_all add: demo_cfg_def demo_cache_facts)
  have t: "env_nowAuth (demo_env a x) = x" "env_ctxErr (demo_env a x) = None" "env_now1 (demo_env a x) = x" for a x
    by (simp_all add: demo_env_def)
  have "n1 = 0 \<and> n2 = 0 \<and> n3 = 0 \<and> n4 = 1"
  proof (rule rejected_credentials_refetched [OF demo_cache_facts(1) p g _ _ rej _ _ _ _ _ s])
    show "e_errorCount (group_entry demo_cache 0) = 0" by (simp add: demo_cache_facts zero_entry_def)
    show "e_link (group_entry demo_cache 0) = hintFor demo_cfg 0" by (simp add: demo_cache_facts hint)
    show "zero_time \<le> env_now1 (demo_env None (4 * second))" by (simp add: t zero_time_def second_def)
  qed (simp_all only: t unix_seconds_mult demo_cache_facts, simp_all add: zero_entry_def)
  with s show ?thesis by (simp add: Let_def)
qed

end
