(* ===== verification/Turn_Tunnel.thy ===== *)
theory Turn_Tunnel
  imports Proxy_Hub
begin

text \<open>
  The public client API, \<open>pkg/wgturn\<close>: the configuration with its validation and defaults
  (\<open>config.go\<close>) and the tunnel's lifecycle over the hub (\<open>tunnel.go\<close>, \<open>stats.go\<close>). The results of
  binding the listener, of the certificate generator and of the wait for the first ready stream
  are arguments of \<open>Start\<close>. The text of \<open>net.SplitHostPort\<close>'s errors is a parameter.
\<close>

section \<open>Definitions\<close>

definition PeerTypeProxyV2 :: string where "PeerTypeProxyV2 = ''proxy_v2''"
definition PeerTypeProxyV1 :: string where "PeerTypeProxyV1 = ''proxy_v1''"
definition PeerTypeWireGuard :: string where "PeerTypeWireGuard = ''wireguard''"
definition ModeStub :: string where "ModeStub = ''stub''"

record turn_config =
  tc_PeerAddr :: string
  tc_ListenAddr :: string
  tc_Streams :: int
  tc_PeerType :: string
  tc_Mode :: string
  tc_Hint :: string
  tc_Hints :: "string list"
  tc_UDP :: bool
  tc_TURNHostOverride :: string
  tc_TURNPortOverride :: int
  tc_StreamsPerCred :: int
  tc_WatchdogTimeout :: duration
  tc_Provider :: "provider option"
  tc_Protector :: "unit option"
  tc_Logger :: "unit option"

definition invalid_config :: "string \<Rightarrow> go_error" where
  "invalid_config msg = GoError (''wgturn: invalid config: '' @ msg) [ErrInvalidConfig]"

definition Validate :: "(string \<Rightarrow> string) \<Rightarrow> turn_config \<Rightarrow> go_error option" where
  "Validate shpErr c =
     (if tc_PeerAddr c = [] then Some (invalid_config ''PeerAddr is required'')
      else if split_host_port (tc_PeerAddr c) = None
      then Some (invalid_config (''PeerAddr '' @ quoted (tc_PeerAddr c) @ '': '' @ shpErr (tc_PeerAddr c)))
      else if tc_ListenAddr c = [] then Some (invalid_config ''ListenAddr is required'')
      else if split_host_port (tc_ListenAddr c) = None
      then Some (invalid_config (''ListenAddr '' @ quoted (tc_ListenAddr c) @ '': '' @ shpErr (tc_ListenAddr c)))
      else if tc_Streams c < 0 then Some (invalid_config ''Streams must be >= 0 (zero defaults to 1)'')
      else if tc_Streams c > 255 then Some (invalid_config ''Streams must be <= 255'')
      else if tc_StreamsPerCred c < 0
      then Some (invalid_config ''StreamsPerCred must be >= 0 (zero defaults to 4)'')
      else if tc_WatchdogTimeout c < 0 then Some (invalid_config ''WatchdogTimeout must be >= 0'')
      else if tc_Provider c = None then Some (invalid_config ''Provider is required'')
      else if tc_Protector c = None
      then Some (invalid_config ''Protector is required (pass NoopProtector{})'')
      else if tc_PeerType c \<in> {[], PeerTypeProxyV2, PeerTypeProxyV1, PeerTypeWireGuard} then None
      else Some (invalid_config (''unknown PeerType '' @ quoted (tc_PeerType c))))"

definition withDefaults :: "turn_config \<Rightarrow> turn_config" where
  "withDefaults c =
     c\<lparr>tc_Streams := (if tc_Streams c = 0 then 1 else tc_Streams c),
       tc_StreamsPerCred := (if tc_StreamsPerCred c = 0 then 4 else tc_StreamsPerCred c),
       tc_PeerType := (if tc_PeerType c = [] then PeerTypeProxyV2 else tc_PeerType c),
       tc_Mode := (if tc_Mode c = [] then ModeStub else tc_Mode c),
       tc_Logger := (case tc_Logger c of None \<Rightarrow> Some () | Some l \<Rightarrow> Some l)\<rparr>"

datatype tunnel_state = TunnelNew | TunnelStarted | TunnelStopped

record tunnel =
  t_cfg :: turn_config
  t_hub :: "hub option"
  t_cancelled :: bool
  t_state :: tunnel_state

definition NewTunnel :: "(string \<Rightarrow> string) \<Rightarrow> turn_config \<Rightarrow> tunnel res" where
  "NewTunnel shpErr cfg =
     (case Validate shpErr cfg of
        Some err \<Rightarrow> Inl err
      | None \<Rightarrow> Inr \<lparr>t_cfg = withDefaults cfg, t_hub = None, t_cancelled = False, t_state = TunnelNew\<rparr>)"

text \<open>The provider goes through \<open>providerAdapter\<close> and \<open>credsAdapter\<close>, which copy the four fields
  of the credentials.\<close>

definition providerAdapter :: "provider \<Rightarrow> provider" where
  "providerAdapter p hint streamID =
     (case p hint streamID of
        Inl err \<Rightarrow> Inl err
      | Inr c \<Rightarrow> Inr \<lparr>Username = Username c, Password = Password c, ServerAddr = ServerAddr c,
                     ExpiresIn = ExpiresIn c\<rparr>)"

definition hub_config_of :: "turn_config \<Rightarrow> hub_config" where
  "hub_config_of c =
     \<lparr>hc_PeerAddr = tc_PeerAddr c, hc_ListenAddr = tc_ListenAddr c, hc_Streams = tc_Streams c,
      hc_PeerType = tc_PeerType c, hc_UDP = tc_UDP c, hc_TURNHostOverride = tc_TURNHostOverride c,
      hc_TURNPortOverride = tc_TURNPortOverride c, hc_StreamsPerCred = tc_StreamsPerCred c,
      hc_WatchdogTimeout = tc_WatchdogTimeout c,
      hc_Hints = (if length (tc_Hints c) = 0 \<and> tc_Hint c \<noteq> [] then [tc_Hint c] else tc_Hints c),
      hc_Provider = map_option providerAdapter (tc_Provider c), hc_Logger = tc_Logger c\<rparr>"

text \<open>How the wait of \<open>Start\<close> ends: a stream is ready, or the start context is done, with its
  error.\<close>

datatype start_wait = WaitReady | WaitDone go_error

definition errAlreadyStarted :: go_error where
  "errAlreadyStarted = GoError ''wgturn: tunnel already started'' [ErrAlreadyStarted]"
definition errNotStarted :: go_error where
  "errNotStarted = GoError ''wgturn: tunnel not started'' [ErrNotStarted]"
definition errStartTimeout :: go_error where
  "errStartTimeout = GoError ''wgturn: timed out waiting for first stream'' [ErrStartTimeout]"

definition Start ::
  "string res \<Rightarrow> go_error option \<Rightarrow> start_wait \<Rightarrow> tunnel \<Rightarrow> go_error option \<times> tunnel" where
  "Start listen certErr wait t =
     (if t_state t \<noteq> TunnelNew then (Some errAlreadyStarted, t)
      else case NewHub (hub_config_of (t_cfg t)) of
        Inl err \<Rightarrow> (Some (wrapf ''wgturn: build hub: '' err), t\<lparr>t_cancelled := True\<rparr>)
      | Inr hub \<Rightarrow>
          (case hub_Start listen certErr hub of
             (Some err, hub') \<Rightarrow> (Some (wrapf ''wgturn: start hub: '' err), t\<lparr>t_cancelled := True\<rparr>)
           | (None, hub') \<Rightarrow>
               (case wait of
                  WaitReady \<Rightarrow>
                    (None, t\<lparr>t_hub := Some (signalReady hub'), t_state := TunnelStarted, t_cancelled := False\<rparr>)
                | WaitDone err \<Rightarrow>
                    (Some (if errors_Is err ErrDeadlineExceeded then errStartTimeout else err),
                     t\<lparr>t_cancelled := True\<rparr>))))"

definition Stop :: "tunnel \<Rightarrow> tunnel" where
  "Stop t =
     (if t_state t \<noteq> TunnelStarted then t
      else t\<lparr>t_state := TunnelStopped, t_cancelled := True, t_hub := map_option hub_Stop (t_hub t)\<rparr>)"

definition Stats :: "tunnel \<Rightarrow> hub_stats res" where
  "Stats t =
     (if t_state t \<noteq> TunnelStarted then Inl errNotStarted
      else case t_hub t of None \<Rightarrow> Inl errNotStarted | Some hub \<Rightarrow> Inr (hub_Stats hub))"

definition Healthy :: "int \<Rightarrow> tunnel \<Rightarrow> bool" where
  "Healthy mn t =
     (case Stats t of
        Inl _ \<Rightarrow> False
      | Inr s \<Rightarrow> int (hs_StreamsRunning s) \<ge> (if mn \<le> 0 then 1 else mn))"

definition LocalAddr :: "tunnel \<Rightarrow> string option" where
  "LocalAddr t = (case t_hub t of None \<Rightarrow> None | Some hub \<Rightarrow> h_localConn hub)"

section \<open>Validated configurations\<close>

lemma Validate_NoneD:
  assumes "Validate shpErr c = None"
  shows "0 \<le> tc_Streams c" "tc_Streams c \<le> 255" "0 \<le> tc_StreamsPerCred c" "tc_Provider c \<noteq> None"
    "tc_PeerType c \<in> {[], PeerTypeProxyV2, PeerTypeProxyV1, PeerTypeWireGuard}"
  using assms by (auto simp: Validate_def split: if_splits)

lemma NewHub_valid:
  assumes "Validate shpErr c = None"
  shows "NewHub (hub_config_of (withDefaults c)) =
    Inr \<lparr>h_cfg = hub_config_of (withDefaults c),
         h_creds = NewCache (tc_StreamsPerCred (withDefaults c)), h_started = False, h_stopped = False,
         h_cancelled = False, h_streams = [], h_localConn = None, h_ready = False, h_lastUsed = 0\<rparr>"
  using Validate_NoneD [OF assms]
  by (auto simp: NewHub_def hub_config_of_def withDefaults_def Let_def split: option.splits)

lemma of_nat_byte_inj:
  assumes "m < 256" and "n < 256" and "(of_nat m :: byte) = of_nat n"
  shows "m = n"
proof -
  have "unat (of_nat m :: byte) = m" "unat (of_nat n :: byte) = n"
    using assms(1,2) by (simp_all add: unat_of_nat)
  with assms(3) show ?thesis by metis
qed

text \<open>The bytes a stream of a \<open>proxy_v2\<close> tunnel writes after the DTLS handshake.\<close>

definition preamble :: "bytes \<Rightarrow> stream \<Rightarrow> bytes" where
  "preamble sessionID s =
     fst (pumpDTLS_start \<lparr>de_client = None, de_handshake = None, de_preamble = None\<rparr> True sessionID 0 s)"

lemma preamble_eq:
  "length sid = SessionIDSize \<Longrightarrow> preamble sid s = sid @ [of_nat (st_id s)]"
  by (simp add: preamble_def pumpDTLS_start_def WriteHandshake_def)

lemma preamble_inj:
  assumes "n \<le> 256" and "length sid = SessionIDSize"
  shows "inj_on (preamble sid) (set (map new_stream [0..<n]))"
proof (rule inj_onI)
  fix s1 s2 assume s: "s1 \<in> set (map new_stream [0..<n])" "s2 \<in> set (map new_stream [0..<n])" "preamble sid s1 = preamble sid s2"
  then obtain i j where ij: "s1 = new_stream i" "s2 = new_stream j" "i < n" "j < n" by auto
  with s(3) preamble_eq [OF assms(2)] have "(of_nat i :: byte) = of_nat j" by (simp add: new_stream_def)
  then have "i = j" using assms(1) ij(3,4) by (intro of_nat_byte_inj) auto
  with ij show "s1 = s2" by simp
qed

lemma started_streams:
  assumes "NewTunnel shpErr cfg = Inr t" and "Start (Inr addr) None WaitReady t = (err, t')"
  obtains h n where "err = None" "t_state t' = TunnelStarted" "t_hub t' = Some h"
    "h_streams h = map new_stream [0..<n]" "h_cfg h = hub_config_of (withDefaults cfg)" "1 \<le> n" "n \<le> 255"
    "tc_Streams cfg \<noteq> 0 \<longrightarrow> int n = tc_Streams cfg" "Validate shpErr cfg = None"
proof -
  have v: "Validate shpErr cfg = None" and t: "t = \<lparr>t_cfg = withDefaults cfg, t_hub = None, t_cancelled = False, t_state = TunnelNew\<rparr>"
    using assms(1) by (auto simp: NewTunnel_def split: option.splits)
  let ?n = "nat (tc_Streams (withDefaults cfg))"
  have "1 \<le> ?n" "?n \<le> 255" "tc_Streams cfg \<noteq> 0 \<longrightarrow> int ?n = tc_Streams cfg"
    using Validate_NoneD(1,2) [OF v] by (auto simp: withDefaults_def)
  moreover obtain h where "err = None" "t_state t' = TunnelStarted" "t_hub t' = Some h"
    "h_streams h = map new_stream [0..<?n]" "h_cfg h = hub_config_of (withDefaults cfg)"
    using assms(2) NewHub_valid [OF v]
    by (auto simp: Start_def t hub_Start_def signalReady_def hub_config_of_def Let_def)
  ultimately show ?thesis using that v by blast
qed

text \<open>A validated configuration gives a working hub. After \<open>New\<close> and a successful \<open>Start\<close> the
  hub has between 1 and 255 streams, the configured number if it was not zero, groups of at
  least one stream, and a peer type that \<open>runOnce\<close> knows; the streams' ids are 0 to n - 1, so
  they fit in the preamble's byte and no two streams send the same preamble.\<close>

theorem valid_config_starts_hub:
  assumes "NewTunnel shpErr cfg = Inr t" and "Start (Inr addr) None WaitReady t = (err, t')"
  shows "err = None \<and> t_state t' = TunnelStarted \<and>
    (\<exists>h. t_hub t' = Some h \<and> 1 \<le> length (h_streams h) \<and> length (h_streams h) \<le> 255 \<and>
      (tc_Streams cfg \<noteq> 0 \<longrightarrow> int (length (h_streams h)) = tc_Streams cfg) \<and>
      0 < hc_StreamsPerCred (h_cfg h) \<and>
      hc_PeerType (h_cfg h) \<in> {''proxy_v2'', ''proxy_v1'', ''wireguard''} \<and>
      map st_id (h_streams h) = [0..<length (h_streams h)] \<and>
      (\<forall>sid. length sid = SessionIDSize \<longrightarrow> inj_on (preamble sid) (set (h_streams h))))"
proof -
  obtain h n where t': "err = None" "t_state t' = TunnelStarted" "t_hub t' = Some h"
    and h: "h_streams h = map new_stream [0..<n]" "h_cfg h = hub_config_of (withDefaults cfg)"
    and n: "1 \<le> n" "n \<le> 255" "tc_Streams cfg \<noteq> 0 \<longrightarrow> int n = tc_Streams cfg" and v: "Validate shpErr cfg = None"
    by (rule started_streams [OF assms])
  have "map st_id (h_streams h) = [0..<n]" by (simp add: h comp_def new_stream_def)
  moreover have "inj_on (preamble sid) (set (h_streams h))" if "length sid = SessionIDSize" for sid
    using preamble_inj [OF _ that, of n] n(2) h(1) by simp
  ultimately show ?thesis
    using t' h n Validate_NoneD(3,5) [OF v]
    by (auto simp: hub_config_of_def withDefaults_def PeerTypeProxyV2_def PeerTypeProxyV1_def PeerTypeWireGuard_def)
qed

definition demo_turn_cfg :: turn_config where
  "demo_turn_cfg = \<lparr>tc_PeerAddr = ''10.0.0.1:56000'', tc_ListenAddr = ''127.0.0.1:9000'', tc_Streams = 16,
     tc_PeerType = [], tc_Mode = [], tc_Hint = ''l'', tc_Hints = [], tc_UDP = True,
     tc_TURNHostOverride = [], tc_TURNPortOverride = 0, tc_StreamsPerCred = 0, tc_WatchdogTimeout = 0,
     tc_Provider = Some (\<lambda>h i. Inr zero_credentials), tc_Protector = Some (), tc_Logger = None\<rparr>"

lemma demo_turn_cfg_valid: "Validate (\<lambda>_. []) demo_turn_cfg = None"
  using split_host_port_plain [of "''10.0.0.1''" "''56000''"] split_host_port_plain [of "''127.0.0.1''" "''9000''"]
  by (simp add: Validate_def demo_turn_cfg_def)

theorem valid_config_starts_hub_witness:
  "\<exists>h. t_hub (snd (Start (Inr ''127.0.0.1:9000'') None WaitReady
       \<lparr>t_cfg = withDefaults demo_turn_cfg, t_hub = None, t_cancelled = False, t_state = TunnelNew\<rparr>)) = Some h \<and>
     length (h_streams h) = 16"
proof -
  let ?t = "\<lparr>t_cfg = withDefaults demo_turn_cfg, t_hub = None, t_cancelled = False, t_state = TunnelNew\<rparr>"
  have n: "NewTunnel (\<lambda>_. []) demo_turn_cfg = Inr ?t" by (simp add: NewTunnel_def demo_turn_cfg_valid)
  obtain err t' where s: "Start (Inr ''127.0.0.1:9000'') None WaitReady ?t = (err, t')" by fastforce
  from valid_config_starts_hub [OF n s] s show ?thesis by (auto simp: demo_turn_cfg_def)
qed

section \<open>The lifecycle\<close>

text \<open>A tunnel is single-use and reports honestly. \<open>Start\<close> succeeds only on a new tunnel; a
  failed \<open>Start\<close> leaves it new, with no hub and its background context cancelled, and reports a
  passed deadline as \<open>ErrStartTimeout\<close>. After a successful one \<open>Stats\<close> works, a second \<open>Start\<close>
  fails and changes nothing. After \<open>Stop\<close> the hub is stopped, \<open>Stats\<close> fails, \<open>Healthy\<close> is false,
  a further \<open>Stop\<close> changes nothing and \<open>Start\<close> still fails.\<close>

theorem tunnel_lifecycle:
  assumes "t_state t = TunnelNew" and "t_hub t = None" and "Start listen certErr wait t = (err, t')"
  shows "(err \<noteq> None \<longrightarrow> t_state t' = TunnelNew \<and> t_hub t' = None \<and> t_cancelled t' \<and> Stats t' = Inl errNotStarted) \<and>
    (\<forall>e. wait = WaitDone e \<and> errors_Is e ErrDeadlineExceeded \<and> \<not> is_err (NewHub (hub_config_of (t_cfg t))) \<and>
         \<not> is_err listen \<and> certErr = None \<longrightarrow> err = Some errStartTimeout) \<and>
    (err = None \<longrightarrow>
       (\<exists>h. t_hub t' = Some h \<and> h_ready h \<and> Stats t' = Inr (hub_Stats h) \<and>
          t_hub (Stop t') = Some (hub_Stop h) \<and> h_stopped (hub_Stop h) \<and> h_cancelled (hub_Stop h)) \<and>
       Start l2 c2 w2 t' = (Some errAlreadyStarted, t') \<and>
       Stats (Stop t') = Inl errNotStarted \<and> \<not> Healthy mn (Stop t') \<and> Stop (Stop t') = Stop t' \<and>
       Start l2 c2 w2 (Stop t') = (Some errAlreadyStarted, Stop t'))"
proof -
  have started: "h_started h" if "hub_Start listen certErr h0 = (None, h)" for h0 h
    using that by (auto simp: hub_Start_def Let_def split: if_splits sum.splits option.splits)
  have fresh: "\<not> h_stopped h" if "hub_Start listen certErr h0 = (None, h)" "NewHub c = Inr h0" for h0 h c
    using that by (auto simp: hub_Start_def NewHub_def Let_def split: if_splits sum.splits option.splits)
  have ok: "\<exists>h. t_hub t' = Some h \<and> h_ready h \<and> h_started h \<and> \<not> h_stopped h \<and> t_state t' = TunnelStarted"
    if "err = None"
    using that assms started fresh
    by (auto simp: Start_def signalReady_def split: sum.splits prod.splits option.splits start_wait.splits)
  have fail: "err \<noteq> None \<Longrightarrow> t_state t' = TunnelNew \<and> t_hub t' = None \<and> t_cancelled t'"
    using assms by (auto simp: Start_def split: sum.splits prod.splits option.splits start_wait.splits)
  have timeout: "err = Some errStartTimeout"
    if pr: "wait = WaitDone e" "errors_Is e ErrDeadlineExceeded" "\<not> is_err (NewHub (hub_config_of (t_cfg t)))"
      "\<not> is_err listen" "certErr = None" for e
  proof -
    obtain h where h: "NewHub (hub_config_of (t_cfg t)) = Inr h" "\<not> h_started h"
      using pr(3) by (cases "NewHub (hub_config_of (t_cfg t))")
        (auto simp: NewHub_def Let_def split: if_splits)
    then show ?thesis
      using assms(1,3) pr by (cases listen) (auto simp: Start_def hub_Start_def Let_def)
  qed
  show ?thesis
    using ok fail timeout
    by (cases err) (auto simp: Stats_def Stop_def Healthy_def Start_def hub_Stop_def)
qed

theorem tunnel_lifecycle_witness:
  "fst (Start (Inr ''127.0.0.1:9000'') None (WaitDone (GoError ''deadline'' [ErrDeadlineExceeded]))
      \<lparr>t_cfg = withDefaults demo_turn_cfg, t_hub = None, t_cancelled = False, t_state = TunnelNew\<rparr>) =
   Some errStartTimeout"
proof -
  let ?t = "\<lparr>t_cfg = withDefaults demo_turn_cfg, t_hub = None, t_cancelled = False, t_state = TunnelNew\<rparr>"
  let ?w = "WaitDone (GoError ''deadline'' [ErrDeadlineExceeded])"
  obtain err t' where s: "Start (Inr ''127.0.0.1:9000'') None ?w ?t = (err, t')" by fastforce
  have "err = Some errStartTimeout"
    using tunnel_lifecycle [OF _ _ s, THEN conjunct2, THEN conjunct1, rule_format]
      NewHub_valid [OF demo_turn_cfg_valid]
    by (simp add: errors_Is_def)
  with s show ?thesis by simp
qed

end
