(* ===== verification/Wg_Conf.thy ===== *)
theory Wg_Conf
  imports Go_Time Cidr_List Turn_Tunnel
begin

text \<open>
  The parser of WireGuard configuration files with wgturn metadata, \<open>pkg/wgconf/parse.go\<close>:
  \<open>Parse\<close> with its line scanner (lines of 1 MiB or more are refused), the metadata keys, the two
  wg-quick sections, and the two derived views \<open>ParseBackendSpec\<close> and \<open>ToTunnelConfig\<close>. As in the
  code, a parser returns the settings read so far together with the error. \<open>frac\<close> is the
  floating-point part of \<open>time.ParseDuration\<close>.
\<close>

section \<open>Definitions\<close>

definition MetaPrefix :: string where "MetaPrefix = ''#@wgt:''"
definition DefaultLocalListen :: string where "DefaultLocalListen = ''127.0.0.1:9000''"

record iface_section =
  if_PrivateKey :: string
  if_Address :: "prefix list"
  if_DNS :: "addr list"
  if_MTU :: int
  if_ListenPort :: u16

record peer_section =
  ps_PublicKey :: string
  ps_PresharedKey :: string
  ps_Endpoint :: string
  ps_AllowedIPs :: "prefix list"
  ps_PersistentKeepalive :: duration

record settings =
  EnableTURN :: bool
  Mode :: string
  VkLink :: string
  PeerType :: string
  Streams :: int
  StreamsPerCred :: int
  WatchdogTimeout :: duration
  UDP :: bool
  TURNHost :: string
  TURNPort :: int
  LocalListen :: string
  Peer :: string
  EnableServer :: bool
  Listen :: string
  BackendSpec :: string
  Iface :: iface_section
  WGPeers :: "peer_section list"
  Unknown :: "string \<rightharpoonup> string"

definition zero_iface :: iface_section where
  "zero_iface = \<lparr>if_PrivateKey = [], if_Address = [], if_DNS = [], if_MTU = 0, if_ListenPort = 0\<rparr>"

definition zero_peer :: peer_section where
  "zero_peer = \<lparr>ps_PublicKey = [], ps_PresharedKey = [], ps_Endpoint = [], ps_AllowedIPs = [],
                ps_PersistentKeepalive = 0\<rparr>"

definition zero_settings :: settings where
  "zero_settings = \<lparr>EnableTURN = False, Mode = [], VkLink = [], PeerType = [], Streams = 0,
     StreamsPerCred = 0, WatchdogTimeout = 0, UDP = False, TURNHost = [], TURNPort = 0,
     LocalListen = [], Peer = [], EnableServer = False, Listen = [], BackendSpec = [],
     Iface = zero_iface, WGPeers = [], Unknown = Map.empty\<rparr>"

datatype ini_section = SectionNone | SectionInterface | SectionPeer

type_synonym 'a outcome = "'a \<times> go_error option"

definition hasPrefixFold :: "string \<Rightarrow> string \<Rightarrow> bool" where
  "hasPrefixFold s pre = (if length s < length pre then False else equal_fold (take (length pre) s) pre)"

definition parseBool :: "string \<Rightarrow> bool res" where
  "parseBool v =
     (let t = to_lower (trim_space v) in
      if t \<in> {''1'', ''true'', ''yes'', ''on'', ''y''} then Inr True
      else if t \<in> {''0'', ''false'', ''no'', ''off'', ''n''} then Inr False
      else Inl (errors_New (''expected boolean, got '' @ quoted v)))"

text \<open>An integer field with bounds; an error of \<open>Atoi\<close> and a value out of bounds give the same
  message.\<close>

definition int_field :: "string \<Rightarrow> int \<Rightarrow> string \<Rightarrow> int res" where
  "int_field msg hi val =
     (case atoi val of
        None \<Rightarrow> Inl (errors_New (msg @ quoted val))
      | Some n \<Rightarrow> if n < 0 \<or> n > hi then Inl (errors_New (msg @ quoted val)) else Inr n)"

definition max_int :: int where "max_int = 2 ^ 63 - 1"

text \<open>A Go duration, or bare seconds; the multiplication by \<open>time.Second\<close> is on \<open>int64\<close>.\<close>

definition seconds_field :: "(nat \<Rightarrow> nat \<Rightarrow> nat \<Rightarrow> nat) \<Rightarrow> string \<Rightarrow> string \<Rightarrow> duration res" where
  "seconds_field frac msg val =
     (case parse_duration frac val of
        Some d \<Rightarrow> Inr d
      | None \<Rightarrow>
          (case atoi val of
             None \<Rightarrow> Inl (errors_New (msg @ quoted val))
           | Some n \<Rightarrow> if n < 0 then Inl (errors_New (msg @ quoted val))
                      else Inr (int64_wrap (n * second))))"

definition upd_res :: "'a res \<Rightarrow> ('a \<Rightarrow> 's) \<Rightarrow> 's \<Rightarrow> 's outcome" where
  "upd_res r f s = (case r of Inl err \<Rightarrow> (s, Some err) | Inr v \<Rightarrow> (f v, None))"

definition wrap_res :: "string \<Rightarrow> 'a res \<Rightarrow> 'a res" where
  "wrap_res pre r = (case r of Inl err \<Rightarrow> Inl (wrapf pre err) | Inr v \<Rightarrow> Inr v)"

definition set_meta :: "(nat \<Rightarrow> nat \<Rightarrow> nat \<Rightarrow> nat) \<Rightarrow> string \<Rightarrow> string \<Rightarrow> settings \<Rightarrow> settings outcome" where
  "set_meta frac key val s =
     (let k = to_lower key in
      if k = ''enableturn'' then upd_res (wrap_res ''EnableTURN: '' (parseBool val)) (\<lambda>b. s\<lparr>EnableTURN := b\<rparr>) s
      else if k = ''mode'' then (s\<lparr>Mode := val\<rparr>, None)
      else if k = ''vklink'' then (s\<lparr>VkLink := val\<rparr>, None)
      else if k = ''peertype'' then (s\<lparr>PeerType := val\<rparr>, None)
      else if k = ''streamnum'' \<or> k = ''streams''
      then upd_res (int_field ''Streams: invalid integer '' max_int val) (\<lambda>n. s\<lparr>Streams := n\<rparr>) s
      else if k = ''streamspercred''
      then upd_res (int_field ''StreamsPerCred: invalid integer '' max_int val) (\<lambda>n. s\<lparr>StreamsPerCred := n\<rparr>) s
      else if k = ''watchdogtimeout''
      then upd_res (seconds_field frac ''WatchdogTimeout: invalid value '' val) (\<lambda>d. s\<lparr>WatchdogTimeout := d\<rparr>) s
      else if k = ''udp'' then upd_res (wrap_res ''UDP: '' (parseBool val)) (\<lambda>b. s\<lparr>UDP := b\<rparr>) s
      else if k = ''turnhost'' then (s\<lparr>TURNHost := val\<rparr>, None)
      else if k = ''turnport''
      then upd_res (int_field ''TURNPort: invalid port '' 65535 val) (\<lambda>n. s\<lparr>TURNPort := n\<rparr>) s
      else if k = ''locallisten'' then (s\<lparr>LocalListen := val\<rparr>, None)
      else if k = ''peer'' then (s\<lparr>Peer := val\<rparr>, None)
      else if k = ''enableserver''
      then upd_res (wrap_res ''EnableServer: '' (parseBool val)) (\<lambda>b. s\<lparr>EnableServer := b\<rparr>) s
      else if k = ''listen'' then (s\<lparr>Listen := val\<rparr>, None)
      else if k = ''backend'' then (s\<lparr>BackendSpec := val\<rparr>, None)
      else (s\<lparr>Unknown := (Unknown s)(k \<mapsto> val)\<rparr>, None))"

definition setIface :: "string \<Rightarrow> string \<Rightarrow> settings \<Rightarrow> settings outcome" where
  "setIface key val s =
     (let k = to_lower key in
      if k = ''privatekey'' then (s\<lparr>Iface := (Iface s)\<lparr>if_PrivateKey := val\<rparr>\<rparr>, None)
      else if k = ''address''
      then upd_res (wrap_res ''Address: '' (parsePrefixList val)) (\<lambda>ps. s\<lparr>Iface := (Iface s)\<lparr>if_Address := ps\<rparr>\<rparr>) s
      else if k = ''dns''
      then upd_res (wrap_res ''DNS: '' (parseAddrList val)) (\<lambda>as. s\<lparr>Iface := (Iface s)\<lparr>if_DNS := as\<rparr>\<rparr>) s
      else if k = ''mtu''
      then upd_res (int_field ''MTU: invalid integer '' max_int val) (\<lambda>n. s\<lparr>Iface := (Iface s)\<lparr>if_MTU := n\<rparr>\<rparr>) s
      else if k = ''listenport''
      then upd_res (int_field ''ListenPort: invalid port '' 65535 val)
             (\<lambda>n. s\<lparr>Iface := (Iface s)\<lparr>if_ListenPort := of_int n\<rparr>\<rparr>) s
      else (s, None))"

definition setPeer :: "(nat \<Rightarrow> nat \<Rightarrow> nat \<Rightarrow> nat) \<Rightarrow> string \<Rightarrow> string \<Rightarrow> settings \<Rightarrow> settings outcome" where
  "setPeer frac key val s =
     (if length (WGPeers s) = 0 then (s, Some (errors_New ''setPeer called with no active peer''))
      else
        (let i = length (WGPeers s) - 1; p = WGPeers s ! i; k = to_lower key;
             put = (\<lambda>p'. s\<lparr>WGPeers := (WGPeers s)[i := p']\<rparr>)
         in if k = ''publickey'' then (put (p\<lparr>ps_PublicKey := val\<rparr>), None)
            else if k = ''presharedkey'' then (put (p\<lparr>ps_PresharedKey := val\<rparr>), None)
            else if k = ''endpoint'' then (put (p\<lparr>ps_Endpoint := val\<rparr>), None)
            else if k = ''allowedips''
            then upd_res (wrap_res ''AllowedIPs: '' (parsePrefixList val)) (\<lambda>ps. put (p\<lparr>ps_AllowedIPs := ps\<rparr>)) s
            else if k = ''persistentkeepalive''
            then upd_res (seconds_field frac ''PersistentKeepalive: invalid value '' val)
                   (\<lambda>d. put (p\<lparr>ps_PersistentKeepalive := d\<rparr>)) s
            else (s, None)))"

text \<open>\<open>key = value\<close> of a line: the parts around the first equals sign, trimmed.\<close>

definition key_value :: "string \<Rightarrow> (string \<times> string) option" where
  "key_value body =
     (case index_byte body (CHR ''='') of
        None \<Rightarrow> None
      | Some eq \<Rightarrow> Some (trim_space (take eq body), trim_space (drop (eq + 1) body)))"

definition cut_comment :: "string \<Rightarrow> string" where
  "cut_comment body =
     (case index_byte body (CHR '';'') of None \<Rightarrow> body | Some i \<Rightarrow> trim_space (take i body))"

definition line_err :: "nat \<Rightarrow> string \<Rightarrow> string" where
  "line_err lineNo msg = ''wgconf: line '' @ show_nat lineNo @ '': '' @ msg"

definition at_line :: "nat \<Rightarrow> settings outcome \<Rightarrow> settings outcome" where
  "at_line lineNo r = (fst r, map_option (wrapf (line_err lineNo [])) (snd r))"

definition parseMeta ::
  "(nat \<Rightarrow> nat \<Rightarrow> nat \<Rightarrow> nat) \<Rightarrow> string \<Rightarrow> string \<Rightarrow> nat \<Rightarrow> settings \<Rightarrow> settings outcome" where
  "parseMeta frac trimmed raw lineNo s =
     (let body = trim_space (drop (length MetaPrefix) trimmed) in
      if body = [] then (s, None)
      else case key_value (cut_comment body) of
        None \<Rightarrow> (s, Some (errors_New (line_err lineNo (''missing '' @ [CHR 0x27, CHR ''='', CHR 0x27] @ '' in metadata '' @ quoted raw))))
      | Some (key, val) \<Rightarrow>
          if key = [] then (s, Some (errors_New (line_err lineNo (''empty key in metadata '' @ quoted raw))))
          else at_line lineNo (set_meta frac key val s))"

text \<open>A section header, and a line of a known section.\<close>

definition header_line :: "string \<Rightarrow> settings \<Rightarrow> ini_section \<times> settings" where
  "header_line trimmed s =
     (let name = to_lower (trim_space (butlast (tl trimmed))) in
      if name = ''interface'' then (SectionInterface, s)
      else if name = ''peer'' then (SectionPeer, s\<lparr>WGPeers := WGPeers s @ [zero_peer]\<rparr>)
      else (SectionNone, s))"

definition ini_line ::
  "(nat \<Rightarrow> nat \<Rightarrow> nat \<Rightarrow> nat) \<Rightarrow> nat \<Rightarrow> string \<Rightarrow> ini_section \<Rightarrow> settings \<Rightarrow> settings outcome" where
  "ini_line frac lineNo trimmed cur s =
     (let body = cut_comment trimmed in
      if body = [] then (s, None)
      else case key_value body of
        None \<Rightarrow> (s, None)
      | Some (key, val) \<Rightarrow>
          if key = [] then (s, None)
          else case cur of
            SectionNone \<Rightarrow> (s, None)
          | SectionInterface \<Rightarrow> at_line lineNo (setIface key val s)
          | SectionPeer \<Rightarrow> at_line lineNo (setPeer frac key val s))"

text \<open>One line of \<open>Parse\<close>: the section that is current after it, the settings, and the error.\<close>

definition parse_line ::
  "(nat \<Rightarrow> nat \<Rightarrow> nat \<Rightarrow> nat) \<Rightarrow> nat \<Rightarrow> string \<Rightarrow> ini_section \<Rightarrow> settings \<Rightarrow> ini_section \<times> settings outcome" where
  "parse_line frac lineNo line cur s =
     (let trimmed = trim_space line in
      if trimmed = [] then (cur, s, None)
      else if hasPrefixFold trimmed MetaPrefix then (cur, parseMeta frac trimmed line lineNo s)
      else if has_prefix trimmed ''#'' \<or> has_prefix trimmed '';'' then (cur, s, None)
      else if has_prefix trimmed ''['' \<and> has_suffix trimmed '']''
      then (let (cur', s') = header_line trimmed s in (cur', s', None))
      else if cur = SectionNone then (cur, s, None)
      else (cur, ini_line frac lineNo trimmed cur s))"

fun parse_lines ::
  "(nat \<Rightarrow> nat \<Rightarrow> nat \<Rightarrow> nat) \<Rightarrow> nat \<Rightarrow> string list \<Rightarrow> ini_section \<Rightarrow> settings \<Rightarrow> settings outcome" where
  "parse_lines frac lineNo [] cur s = (s, None)"
| "parse_lines frac lineNo (l # ls) cur s =
     (case parse_line frac (Suc lineNo) l cur s of
        (cur', s', None) \<Rightarrow> parse_lines frac (Suc lineNo) ls cur' s'
      | (cur', s', Some err) \<Rightarrow> (s', Some err))"

definition maxTokenSize :: nat where "maxTokenSize = 1024 * 1024"

text \<open>\<open>Parse\<close> over the bytes of the reader; \<open>readErr\<close> is the error, if any, with which the reader
  ends.\<close>

definition Parse :: "(nat \<Rightarrow> nat \<Rightarrow> nat \<Rightarrow> nat) \<Rightarrow> string \<Rightarrow> go_error option \<Rightarrow> settings outcome" where
  "Parse frac text readErr =
     (let (ls, tooLong) = scan_max maxTokenSize text in
      case parse_lines frac 0 ls SectionNone zero_settings of
        (s, Some err) \<Rightarrow> (s, Some err)
      | (s, None) \<Rightarrow>
          (s, map_option (wrapf ''wgconf: read: '') (if tooLong then Some errTooLong else readErr)))"

definition ParseString :: "(nat \<Rightarrow> nat \<Rightarrow> nat \<Rightarrow> nat) \<Rightarrow> string \<Rightarrow> settings outcome" where
  "ParseString frac text = Parse frac text None"

datatype backend_kind = BackendUDP | BackendWGKernel

definition ParseBackendSpec :: "string \<Rightarrow> (backend_kind \<times> string) res" where
  "ParseBackendSpec spec0 =
     (let spec = trim_space spec0 in
      if spec = [] then Inl (errors_New ''wgconf: empty Backend spec'')
      else if equal_fold spec ''wgkernel'' then Inr (BackendWGKernel, [])
      else case cut_prefix (to_lower spec) ''udp:'' of
        Some rest \<Rightarrow>
          (let addr = trim_space (drop 4 spec) in
           if addr = [] then Inl (errors_New ''wgconf: udp Backend missing host:port'')
           else Inr (BackendUDP, addr))
      | None \<Rightarrow> Inl (errors_New (''wgconf: unknown Backend spec '' @ quoted spec @ '' (want '' @
                  quoted ''udp:host:port'' @ '' or '' @ quoted ''wgkernel'' @ '')'')))"

definition ToTunnelConfig :: "settings \<Rightarrow> turn_config res" where
  "ToTunnelConfig s =
     (if \<not> EnableTURN s then Inl (errors_New ''wgconf: EnableTURN is false'')
      else if Peer s = [] then Inl (errors_New ''wgconf: Peer is required when EnableTURN is true'')
      else Inr \<lparr>tc_PeerAddr = Peer s,
                tc_ListenAddr = (if LocalListen s = [] then DefaultLocalListen else LocalListen s),
                tc_Streams = Streams s, tc_PeerType = PeerType s, tc_Mode = Mode s, tc_Hint = VkLink s,
                tc_Hints = [], tc_UDP = UDP s, tc_TURNHostOverride = TURNHost s,
                tc_TURNPortOverride = TURNPort s, tc_StreamsPerCred = StreamsPerCred s,
                tc_WatchdogTimeout = WatchdogTimeout s, tc_Provider = None, tc_Protector = None,
                tc_Logger = None\<rparr>)"

section \<open>Parsed settings are well formed\<close>

lemma int_field_bounds: "int_field msg hi v = Inr n \<Longrightarrow> 0 \<le> n \<and> n \<le> hi"
  by (auto simp: int_field_def split: option.splits if_splits)

definition meta_keys :: "string set" where
  "meta_keys = {''enableturn'', ''mode'', ''vklink'', ''peertype'', ''streamnum'', ''streams'',
     ''streamspercred'', ''watchdogtimeout'', ''udp'', ''turnhost'', ''turnport'', ''locallisten'',
     ''peer'', ''enableserver'', ''listen'', ''backend''}"

definition iface_wf :: "iface_section \<Rightarrow> bool" where
  "iface_wf i \<longleftrightarrow> 0 \<le> if_MTU i \<and> (\<forall>p \<in> set (if_Address i). prefix_valid p) \<and>
     (\<forall>a \<in> set (if_DNS i). addr_valid a)"

definition peer_wf :: "peer_section \<Rightarrow> bool" where
  "peer_wf p \<longleftrightarrow> (\<forall>q \<in> set (ps_AllowedIPs p). prefix_valid q)"

definition settings_wf :: "settings \<Rightarrow> bool" where
  "settings_wf s \<longleftrightarrow> 0 \<le> Streams s \<and> 0 \<le> StreamsPerCred s \<and> 0 \<le> TURNPort s \<and> TURNPort s \<le> 65535 \<and>
     iface_wf (Iface s) \<and> (\<forall>p \<in> set (WGPeers s). peer_wf p) \<and>
     (\<forall>k \<in> dom (Unknown s). to_lower k = k \<and> k \<notin> meta_keys)"

lemmas wf_defs = settings_wf_def iface_wf_def peer_wf_def

lemma upd_res_wf:
  assumes "P s" and "\<And>v. r = Inr v \<Longrightarrow> P (f v)"
  shows "P (fst (upd_res r f s))"
  using assms by (auto simp: upd_res_def split: sum.splits)

lemma wrap_res_Inr [simp]: "wrap_res pre r = Inr v \<longleftrightarrow> r = Inr v"
  by (auto simp: wrap_res_def split: sum.splits)

lemma wrap_res_ok [simp]: "wrap_res pre (Inr v) = Inr v"
  by simp

lemma set_meta_wf:
  assumes "settings_wf s"
  shows "settings_wf (fst (set_meta frac key val s))"
proof -
  have unk: "settings_wf (s\<lparr>Unknown := (Unknown s)(to_lower key \<mapsto> val)\<rparr>)" if "to_lower key \<notin> meta_keys"
    using assms that by (auto simp: wf_defs)
  show ?thesis
    unfolding set_meta_def Let_def
    by (auto intro!: upd_res_wf [where P = settings_wf] assms unk dest!: int_field_bounds simp: meta_keys_def)
      (use assms in \<open>auto simp: wf_defs\<close>)
qed

lemma setIface_wf:
  assumes "settings_wf s"
  shows "settings_wf (fst (setIface key val s))"
proof -
  have put: "settings_wf (s\<lparr>Iface := i\<rparr>)" if "iface_wf i" for i
    using assms that by (auto simp: settings_wf_def)
  have "iface_wf (Iface s)" using assms by (simp add: settings_wf_def)
  then show ?thesis
    unfolding setIface_def Let_def
    by (auto intro!: upd_res_wf [where P = settings_wf] put assms
        dest: int_field_bounds parsePrefixList_valid parseAddrList_valid simp: iface_wf_def)
qed

lemma setPeer_wf:
  assumes "settings_wf s"
  shows "settings_wf (fst (setPeer frac key val s))"
proof (cases "WGPeers s = []")
  case False
  have put: "settings_wf (s\<lparr>WGPeers := (WGPeers s)[length (WGPeers s) - 1 := p]\<rparr>)" if "peer_wf p" for p
    using assms that by (auto simp: settings_wf_def dest!: subsetD [OF set_update_subset_insert])
  have "peer_wf (WGPeers s ! (length (WGPeers s) - 1))"
    using assms False by (auto simp: settings_wf_def)
  then show ?thesis
    using False unfolding setPeer_def Let_def
    by (auto intro!: upd_res_wf [where P = settings_wf] put assms dest: parsePrefixList_valid simp: peer_wf_def
        simp del: One_nat_def)
qed (simp add: setPeer_def assms)

lemma fst_at_line [simp]: "fst (at_line n r) = fst r"
  by (simp add: at_line_def)

lemma snd_at_line_None [simp]: "snd (at_line n r) = None \<longleftrightarrow> snd r = None"
  by (simp add: at_line_def)

lemma header_line_wf: "settings_wf s \<Longrightarrow> settings_wf (snd (header_line t s))"
  by (auto simp: header_line_def Let_def wf_defs zero_peer_def)

lemma ini_line_wf: "settings_wf s \<Longrightarrow> settings_wf (fst (ini_line frac n t cur s))"
  by (auto simp: ini_line_def Let_def setIface_wf setPeer_wf split: option.splits ini_section.splits)

lemma parseMeta_wf: "settings_wf s \<Longrightarrow> settings_wf (fst (parseMeta frac t raw n s))"
  by (auto simp: parseMeta_def Let_def set_meta_wf split: option.splits)

lemma parse_line_wf: "settings_wf s \<Longrightarrow> settings_wf (fst (snd (parse_line frac n l cur s)))"
  using header_line_wf [of s "trim_space l"]
  by (simp add: parse_line_def Let_def ini_line_wf parseMeta_wf split_beta)

lemma parse_lines_wf: "settings_wf s \<Longrightarrow> settings_wf (fst (parse_lines frac n ls cur s))"
proof (induction ls arbitrary: n cur s)
  case (Cons l ls)
  obtain cur' s' e where p: "parse_line frac (Suc n) l cur s = (cur', s', e)" by (metis prod_cases3)
  with parse_line_wf [OF Cons.prems, of frac "Suc n" l cur] have "settings_wf s'" by simp
  with p Cons.IH show ?case by (cases e) auto
qed simp

text \<open>C31: Whatever the file contains, and also when parsing stops with an error, the settings that
  \<open>Parse\<close> returns are well formed: the stream counts and the MTU are not negative, the TURN port is a
  port, every address of \<open>Address\<close> and \<open>AllowedIPs\<close> is a valid prefix and every \<open>DNS\<close> entry a valid
  address, and \<open>Unknown\<close> holds lower-case keys only, none of them a known key.\<close>

theorem parse_well_formed: "settings_wf (fst (Parse frac text readErr))"
proof -
  have z: "settings_wf zero_settings" by (simp add: wf_defs zero_settings_def zero_iface_def)
  show ?thesis
    using parse_lines_wf [OF z] by (auto simp: Parse_def split: prod.splits option.splits) (metis fst_conv)+
qed

section \<open>Metadata, configuration and comments do not interfere\<close>

definition is_meta :: "string \<Rightarrow> bool" where
  "is_meta l \<longleftrightarrow> hasPrefixFold (trim_space l) MetaPrefix"

definition is_comment :: "string \<Rightarrow> bool" where
  "is_comment l \<longleftrightarrow> trim_space l = [] \<or>
     \<not> is_meta l \<and> (has_prefix (trim_space l) ''#'' \<or> has_prefix (trim_space l) '';'')"

text \<open>The metadata of \<open>s\<close> with the wg-quick sections of \<open>w\<close>.\<close>

definition with_sections :: "settings \<Rightarrow> settings \<Rightarrow> settings" where
  "with_sections s w = s\<lparr>Iface := Iface w, WGPeers := WGPeers w\<rparr>"

lemma set_meta_with:
  "set_meta frac k v (with_sections s w) =
     (with_sections (fst (set_meta frac k v s)) w, snd (set_meta frac k v s))"
  by (simp add: set_meta_def Let_def upd_res_def with_sections_def split: sum.splits)

lemma setIface_with:
  "setIface k v (with_sections s w) = (with_sections s (fst (setIface k v w)), snd (setIface k v w))"
  by (simp add: setIface_def Let_def upd_res_def with_sections_def split: sum.splits)

lemma setPeer_with:
  "setPeer frac k v (with_sections s w) =
     (with_sections s (fst (setPeer frac k v w)), snd (setPeer frac k v w))"
  by (simp add: setPeer_def Let_def upd_res_def with_sections_def split: sum.splits)

lemma at_line_with: "at_line n (g (fst q), snd q) = (g (fst (at_line n q)), snd (at_line n q))"
  by (simp add: at_line_def)

lemma parseMeta_with:
  "parseMeta frac t raw n (with_sections s w) =
     (with_sections (fst (parseMeta frac t raw n s)) w, snd (parseMeta frac t raw n s))"
  by (auto simp: parseMeta_def Let_def set_meta_with at_line_with [where g = "\<lambda>s. with_sections s w"]
      split: option.splits)

lemma parse_line_meta:
  assumes "is_meta l"
  shows "parse_line frac n l cur s = (cur, parseMeta frac (trim_space l) l n s)"
proof -
  have "trim_space l \<noteq> []" using assms by (auto simp: is_meta_def hasPrefixFold_def MetaPrefix_def)
  with assms show ?thesis by (simp add: parse_line_def is_meta_def)
qed

lemma parse_line_comment: "is_comment l \<Longrightarrow> parse_line frac n l cur s = (cur, s, None)"
  by (auto simp: parse_line_def is_comment_def is_meta_def Let_def)

lemma header_line_with:
  "header_line t (with_sections s w) = (fst (header_line t w), with_sections s (snd (header_line t w)))"
  by (simp add: header_line_def Let_def) (simp add: with_sections_def)

lemma ini_line_with:
  "ini_line frac n t cur (with_sections s w) =
     (with_sections s (fst (ini_line frac n t cur w)), snd (ini_line frac n t cur w))"
  by (auto simp: ini_line_def Let_def setIface_with setPeer_with at_line_with [where g = "with_sections s"]
      split: option.splits ini_section.splits)

lemma parse_line_ini:
  assumes "\<not> is_meta l" and "parse_line frac n l cur w = (cur', w', e)"
  shows "parse_line frac n l cur (with_sections s w) = (cur', with_sections s w', e)"
  using assms
  by (auto simp: parse_line_def is_meta_def Let_def header_line_with ini_line_with split_beta split: if_splits)

text \<open>The line number occurs in error messages only.\<close>

lemma ini_line_number:
  "fst (ini_line frac n t cur s) = fst (ini_line frac m t cur s)"
  "(snd (ini_line frac n t cur s) = None) = (snd (ini_line frac m t cur s) = None)"
  by (auto simp: ini_line_def Let_def split: option.splits ini_section.splits)

lemma parseMeta_number:
  "fst (parseMeta frac t raw n s) = fst (parseMeta frac t raw m s)"
  "(snd (parseMeta frac t raw n s) = None) = (snd (parseMeta frac t raw m s) = None)"
  by (auto simp: parseMeta_def Let_def split: option.splits)

lemma parse_line_number:
  "fst (parse_line frac n l cur s) = fst (parse_line frac m l cur s) \<and>
   fst (snd (parse_line frac n l cur s)) = fst (snd (parse_line frac m l cur s)) \<and>
   (snd (snd (parse_line frac n l cur s)) = None) = (snd (snd (parse_line frac m l cur s)) = None)"
  using ini_line_number [of frac n "trim_space l" cur s m] parseMeta_number [of frac "trim_space l" l n s m]
  by (simp add: parse_line_def Let_def split_beta)

lemma parse_lines_number:
  "fst (parse_lines frac n ls cur s) = fst (parse_lines frac m ls cur s) \<and>
   (snd (parse_lines frac n ls cur s) = None) = (snd (parse_lines frac m ls cur s) = None)"
proof (induction ls arbitrary: n m cur s)
  case (Cons l ls)
  obtain c1 s1 e1 c2 s2 e2 where "parse_line frac (Suc n) l cur s = (c1, s1, e1)"
    "parse_line frac (Suc m) l cur s = (c2, s2, e2)" by (metis prod_cases3)
  with parse_line_number [of frac "Suc n" l cur s "Suc m"] Cons.IH [of "Suc n" c1 s1 "Suc m"] show ?case
    by (cases e1; cases e2) auto
qed simp

definition ini_lines :: "string list \<Rightarrow> string list" where
  "ini_lines ls = filter (\<lambda>l. \<not> is_meta l \<and> \<not> is_comment l) ls"

lemma is_meta_not_comment: "is_meta l \<Longrightarrow> \<not> is_comment l"
  by (auto simp: is_meta_def is_comment_def hasPrefixFold_def MetaPrefix_def)

lemma parse_lines_separate:
  "(snd (parse_lines frac n ls cur (with_sections s w)) = None) =
     (snd (parse_lines frac a (filter is_meta ls) SectionNone s) = None \<and>
      snd (parse_lines frac b (ini_lines ls) cur w) = None) \<and>
   (snd (parse_lines frac n ls cur (with_sections s w)) = None \<longrightarrow>
      fst (parse_lines frac n ls cur (with_sections s w)) =
      with_sections (fst (parse_lines frac a (filter is_meta ls) SectionNone s))
        (fst (parse_lines frac b (ini_lines ls) cur w)))"
proof (induction ls arbitrary: n a b cur s w)
  case Nil
  then show ?case by (simp add: ini_lines_def)
next
  case (Cons l ls)
  consider "is_meta l" | "is_comment l" "\<not> is_meta l" | "\<not> is_meta l" "\<not> is_comment l" by blast
  then show ?case
  proof cases
    case 1
    obtain s' e where pm: "parseMeta frac (trim_space l) l (Suc n) s = (s', e)" by fastforce
    obtain s2 e2 where pm2: "parseMeta frac (trim_space l) l (Suc a) s = (s2, e2)" by fastforce
    have "s2 = s'" "(e2 = None) = (e = None)"
      using parse_line_number [of frac "Suc n" l cur s "Suc a"] pm pm2 by (simp_all add: parse_line_meta 1)
    with 1 pm pm2 Cons.IH [of "Suc n" cur s' w "Suc a" b] show ?thesis
      by (cases e; cases e2) (auto simp: parse_line_meta parseMeta_with ini_lines_def is_meta_not_comment)
  next
    case 2
    with Cons.IH [of "Suc n" cur s w a b] show ?thesis
      by (simp add: parse_line_comment ini_lines_def)
  next
    case 3
    obtain c1 w1 e1 where p1: "parse_line frac (Suc n) l cur w = (c1, w1, e1)" by (metis prod_cases3)
    obtain c2 w2 e2 where p2: "parse_line frac (Suc b) l cur w = (c2, w2, e2)" by (metis prod_cases3)
    from parse_line_number [of frac "Suc n" l cur w "Suc b"] p1 p2
    have "c2 = c1" "w2 = w1" "(e2 = None) = (e1 = None)" by simp_all
    with 3 p1 p2 Cons.IH [of "Suc n" c1 s w1 a "Suc b"] show ?thesis
      by (cases e1; cases e2) (auto simp: parse_line_ini ini_lines_def)
  qed
qed

definition file_line :: "string \<Rightarrow> bool" where
  "file_line l \<longleftrightarrow> line_ok l \<and> length l < maxTokenSize"

lemma ParseString_unlines:
  assumes "\<forall>l \<in> set ls. file_line l"
  shows "ParseString frac (unlines ls) = parse_lines frac 0 ls SectionNone zero_settings"
  using scan_max_unlines [of ls maxTokenSize] assms
  by (simp add: ParseString_def Parse_def file_line_def split: prod.splits option.splits)

text \<open>C17: The metadata lines and the wg-quick lines of a file are independent of each other and of
  comments: the file parses if and only if its metadata lines alone and its wg-quick lines alone
  parse, and then the settings have the metadata of the first and the sections of the second.
  So a metadata line has the same effect in any section, a wgturn file is the same WireGuard
  configuration as without its metadata lines, and blank and comment lines change nothing.\<close>

theorem parse_separates:
  assumes "\<forall>l \<in> set ls. file_line l"
  shows "(snd (ParseString frac (unlines ls)) = None \<longleftrightarrow>
      snd (ParseString frac (unlines (filter is_meta ls))) = None \<and>
      snd (ParseString frac (unlines (ini_lines ls))) = None) \<and>
    (snd (ParseString frac (unlines ls)) = None \<longrightarrow>
      fst (ParseString frac (unlines ls)) =
      with_sections (fst (ParseString frac (unlines (filter is_meta ls))))
        (fst (ParseString frac (unlines (ini_lines ls)))))"
proof -
  have "\<forall>l \<in> set (filter is_meta ls). file_line l" "\<forall>l \<in> set (ini_lines ls). file_line l"
    using assms by (auto simp: ini_lines_def)
  moreover have "with_sections zero_settings zero_settings = zero_settings"
    by (simp add: with_sections_def)
  ultimately show ?thesis
    using assms parse_lines_separate [of frac 0 ls SectionNone zero_settings zero_settings 0 0]
    by (simp add: ParseString_unlines)
qed

definition demo_file :: "string list" where
  "demo_file = [''# demo'', ''[Interface]'', ''#@WGT:EnableTURN = yes'', ''MTU = 1280'', [], ''[Peer]'',
     ''#@wgt:Peer = a:1'']"

lemma demo_file_lines: "\<forall>l \<in> set demo_file. file_line l"
  by (simp add: demo_file_def file_line_def line_ok_def newline_def maxTokenSize_def)

lemma demo_file_parts:
  "filter is_meta demo_file = [''#@WGT:EnableTURN = yes'', ''#@wgt:Peer = a:1'']"
  "ini_lines demo_file = [''[Interface]'', ''MTU = 1280'', ''[Peer]'']"
  by code_simp+

theorem parse_separates_witness:
  "EnableTURN (fst (ParseString (\<lambda>_ _ _. 0) (unlines demo_file))) \<and>
   if_MTU (Iface (fst (ParseString (\<lambda>_ _ _. 0) (unlines demo_file)))) = 1280"
proof -
  let ?f = "\<lambda>_ _ _. 0 :: nat"
  have m: "\<forall>l \<in> set (filter is_meta demo_file). file_line l" "\<forall>l \<in> set (ini_lines demo_file). file_line l"
    using demo_file_lines by (auto simp: ini_lines_def)
  have "snd (parse_lines ?f 0 [''#@WGT:EnableTURN = yes'', ''#@wgt:Peer = a:1''] SectionNone zero_settings) = None \<and>
      EnableTURN (fst (parse_lines ?f 0 [''#@WGT:EnableTURN = yes'', ''#@wgt:Peer = a:1''] SectionNone zero_settings))"
    by code_simp
  moreover have "snd (parse_lines ?f 0 [''[Interface]'', ''MTU = 1280'', ''[Peer]''] SectionNone zero_settings) = None \<and>
      if_MTU (Iface (fst (parse_lines ?f 0 [''[Interface]'', ''MTU = 1280'', ''[Peer]''] SectionNone zero_settings))) = 1280"
    by code_simp
  ultimately show ?thesis
    using parse_separates [OF demo_file_lines, of ?f]
    unfolding ParseString_unlines [OF m(1)] ParseString_unlines [OF m(2)]
    unfolding demo_file_parts
    by (simp add: with_sections_def del: parse_lines.simps)
qed

section \<open>Bare seconds\<close>

lemma show_int_digits: "0 \<le> n \<Longrightarrow> c \<in> set (show_int n) \<Longrightarrow> is_digit c"
  using show_nat_chars by (auto simp: show_int_def is_digit_def)

lemma show_int_not_Nil: "show_int n \<noteq> []"
  by (simp add: show_int_def)

lemma show_int_zero:
  assumes "show_int n = ''0''" and "0 \<le> n"
  shows "n = 0"
proof -
  have "show_nat (nat n) = ''0''" using assms by (simp add: show_int_def)
  then have "parse_digits (show_nat (nat n)) = parse_digits ''0''" by (rule arg_cong)
  then have "Some (nat n) = parse_digits ''0''" by simp
  moreover have "parse_digits ''0'' = Some 0" by code_simp
  ultimately show ?thesis using assms(2) by simp
qed

lemma seconds_field_bare:
  assumes "0 \<le> n" and "int64_ok n"
  shows "seconds_field frac msg (show_int n) = Inr (int64_wrap (n * second))"
proof (cases "show_int n = ''0''")
  case True
  then have "n = 0" using assms(1) by (rule show_int_zero)
  then show ?thesis using True by (simp add: seconds_field_def parse_duration_def int64_wrap_id int64_ok_def)
next
  case False
  have "parse_duration frac (show_int n) = None"
    using False show_int_digits [OF assms(1)] show_int_not_Nil by (intro parse_duration_digits) auto
  then show ?thesis using assms by (simp add: seconds_field_def atoi_show_int)
qed

text \<open>A \<open>WatchdogTimeout\<close> or \<open>PersistentKeepalive\<close> of n bare seconds is accepted for every
  non-negative \<open>int64\<close> and is stored as n seconds for n up to 9223372036. The multiplication by
  \<open>time.Second\<close> is not checked: 9223372037 seconds are stored as a negative duration, and
  18446744074 seconds as less than one second.\<close>

theorem bare_seconds_durations:
  assumes "0 \<le> n" and "int64_ok n" and "WGPeers s \<noteq> []"
  shows "\<exists>d. set_meta frac ''WatchdogTimeout'' (show_int n) s = (s\<lparr>WatchdogTimeout := d\<rparr>, None) \<and>
    setPeer frac ''PersistentKeepalive'' (show_int n) s =
      (s\<lparr>WGPeers := butlast (WGPeers s) @ [(last (WGPeers s))\<lparr>ps_PersistentKeepalive := d\<rparr>]\<rparr>, None) \<and>
    (n \<le> 9223372036 \<longrightarrow> d = n * second) \<and> (n = 9223372037 \<longrightarrow> d < 0) \<and>
    (n = 18446744074 \<longrightarrow> 0 < d \<and> d < second)"
proof -
  let ?d = "int64_wrap (n * second)"
  have k: "to_lower ''WatchdogTimeout'' = ''watchdogtimeout''"
    "to_lower ''PersistentKeepalive'' = ''persistentkeepalive''" by code_simp+
  have "set_meta frac ''WatchdogTimeout'' (show_int n) s = (s\<lparr>WatchdogTimeout := ?d\<rparr>, None)"
    by (simp add: set_meta_def k seconds_field_bare assms upd_res_def)
  moreover have "(WGPeers s)[length (WGPeers s) - 1 := p] = butlast (WGPeers s) @ [p]"
    "WGPeers s ! (length (WGPeers s) - 1) = last (WGPeers s)" for p
    using assms(3) by (simp_all add: last_conv_nth list_update_append butlast_conv_take upd_conv_take_nth_drop)
  then have "setPeer frac ''PersistentKeepalive'' (show_int n) s =
      (s\<lparr>WGPeers := butlast (WGPeers s) @ [(last (WGPeers s))\<lparr>ps_PersistentKeepalive := ?d\<rparr>]\<rparr>, None)"
    using assms(3) unfolding setPeer_def Let_def k
    by (simp add: seconds_field_bare assms upd_res_def)
  moreover have "n \<le> 9223372036 \<longrightarrow> ?d = n * second"
    using assms(1) by (auto simp: second_def int64_ok_def intro!: int64_wrap_id)
  ultimately show ?thesis by (intro exI [of _ ?d]) (auto simp: int64_wrap_def second_def)
qed

theorem bare_seconds_durations_witness:
  "WatchdogTimeout (fst (set_meta (\<lambda>_ _ _. 0) ''WatchdogTimeout'' (show_int 30)
     (zero_settings\<lparr>WGPeers := [zero_peer]\<rparr>))) = 30 * second"
  using bare_seconds_durations [of 30 "zero_settings\<lparr>WGPeers := [zero_peer]\<rparr>" "\<lambda>_ _ _. 0"]
  by (auto simp: int64_ok_def)

section \<open>From the file to the tunnel\<close>

text \<open>A parsed file gives a tunnel configuration exactly when it enables TURN and names a peer.
  With a provider and a protector added, that configuration is accepted by \<open>Validate\<close> exactly when
  there are at most 255 streams, the watchdog timeout is not negative, the peer type is empty or
  known, and peer and local listen address are host:port; an absent \<open>LocalListen\<close> is the default.
  Every other bound is ensured by the parser.\<close>

theorem parsed_file_to_tunnel:
  assumes "Parse frac text readErr = (s, e)"
  shows "(is_err (ToTunnelConfig s) \<longleftrightarrow> \<not> EnableTURN s \<or> Peer s = []) \<and>
    (\<forall>cfg p. ToTunnelConfig s = Inr cfg \<longrightarrow>
      (Validate shpErr (cfg\<lparr>tc_Provider := Some p, tc_Protector := Some ()\<rparr>) = None \<longleftrightarrow>
         Streams s \<le> 255 \<and> 0 \<le> WatchdogTimeout s \<and>
         PeerType s \<in> {[], ''proxy_v2'', ''proxy_v1'', ''wireguard''} \<and>
         split_host_port (Peer s) \<noteq> None \<and>
         (LocalListen s = [] \<or> split_host_port (LocalListen s) \<noteq> None)) \<and>
      tc_ListenAddr cfg = (if LocalListen s = [] then ''127.0.0.1:9000'' else LocalListen s))"
proof -
  have wf: "0 \<le> Streams s" "0 \<le> StreamsPerCred s"
    using parse_lines_wf [of zero_settings frac 0 "fst (scan_max maxTokenSize text)" SectionNone] assms
    by (auto simp: Parse_def wf_defs zero_settings_def zero_iface_def split: prod.splits option.splits)
  have l: "split_host_port ''127.0.0.1:9000'' \<noteq> None"
    using split_host_port_plain [of "''127.0.0.1''" "''9000''"] by simp
  show ?thesis
    using wf l by (auto simp: ToTunnelConfig_def Validate_def DefaultLocalListen_def PeerTypeProxyV2_def
        PeerTypeProxyV1_def PeerTypeWireGuard_def split: if_splits)
qed

theorem parsed_file_to_tunnel_witness:
  "\<not> is_err (ToTunnelConfig (fst (ParseString (\<lambda>_ _ _. 0) (unlines demo_file))))"
proof -
  let ?s = "parse_lines (\<lambda>_ _ _. 0) 0 demo_file SectionNone zero_settings"
  have e: "EnableTURN (fst ?s)" by code_simp
  have p: "Peer (fst ?s) \<noteq> []" by code_simp
  have "Parse (\<lambda>_ _ _. 0) (unlines demo_file) None = (fst ?s, snd ?s)"
    using ParseString_unlines [OF demo_file_lines] by (simp add: ParseString_def)
  from parsed_file_to_tunnel [OF this, THEN conjunct1] e p show ?thesis
    unfolding ParseString_unlines [OF demo_file_lines] by blast
qed

end
