(* ===== verification/Wg_Keys.thy ===== *)
theory Wg_Keys
  imports Go_Base64
begin

unbundle bit_operations_syntax

text \<open>
  WireGuard keys, \<open>pkg/wgadmin/keys.go\<close>. The scalar multiplication of \<open>curve25519\<close> and its base
  point are parameters, and the 32 bytes of \<open>crypto/rand\<close> are an argument.
\<close>

section \<open>Definitions\<close>

record keypair =
  kp_Private :: string
  kp_Public :: string

type_synonym scalar_mult = "bytes \<Rightarrow> bytes \<Rightarrow> bytes res"

definition clamp :: "bytes \<Rightarrow> bytes" where
  "clamp sk =
     (let sk1 = sk[0 := sk ! 0 AND 248]; sk2 = sk1[31 := sk1 ! 31 AND 127] in sk2[31 := sk2 ! 31 OR 64])"

definition wrap_err :: "string \<Rightarrow> 'a res \<Rightarrow> 'a res" where
  "wrap_err pre r = (case r of Inl e \<Rightarrow> Inl (wrapf pre e) | Inr v \<Rightarrow> Inr v)"

definition GenerateKeypair :: "scalar_mult \<Rightarrow> bytes \<Rightarrow> bytes res \<Rightarrow> keypair res" where
  "GenerateKeypair x25519 basepoint rnd =
     bind_res (wrap_err ''wgadmin: rand: '' rnd) (\<lambda>r.
       let sk = clamp r in
       bind_res (wrap_err ''wgadmin: derive public: '' (x25519 sk basepoint)) (\<lambda>pk.
         Inr \<lparr>kp_Private = b64_encode StdEncoding sk, kp_Public = b64_encode StdEncoding pk\<rparr>))"

definition GeneratePresharedKey :: "bytes res \<Rightarrow> string res" where
  "GeneratePresharedKey rnd =
     bind_res (wrap_err ''wgadmin: rand: '' rnd) (\<lambda>psk. Inr (b64_encode StdEncoding psk))"

text \<open>The text of a decoding error names the position of the bad input; it is a parameter.\<close>

definition PublicKeyFor ::
  "(string \<Rightarrow> go_error) \<Rightarrow> scalar_mult \<Rightarrow> bytes \<Rightarrow> string \<Rightarrow> string res" where
  "PublicKeyFor b64Err x25519 basepoint privBase64 =
     (case b64_decode StdEncoding privBase64 of
        None \<Rightarrow> Inl (wrapf ''wgadmin: decode private key: '' (b64Err privBase64))
      | Some sk \<Rightarrow>
          if length sk \<noteq> 32
          then Inl (errors_New (''wgadmin: private key must be 32 bytes, got '' @ show_nat (length sk)))
          else bind_res (wrap_err ''wgadmin: derive public: '' (x25519 sk basepoint))
                 (\<lambda>pk. Inr (b64_encode StdEncoding pk)))"

section \<open>Lemmas\<close>

lemma wrap_err_Inr [simp]: "wrap_err p r = Inr v \<longleftrightarrow> r = Inr v"
  by (auto simp: wrap_err_def split: sum.splits)

lemma wrap_err_ok [simp]: "wrap_err p (Inr v) = Inr v"
  by simp

lemma length_clamp [simp]: "length (clamp sk) = length sk"
  by (simp add: clamp_def Let_def)

lemma clamp_nth:
  assumes "length r = 32" and "i < 32"
  shows "clamp r ! i = (if i = 0 then r ! 0 AND 248 else if i = 31 then (r ! 31 AND 127) OR 64 else r ! i)"
  using assms by (auto simp: clamp_def Let_def nth_upd)

lemma clamped_bits:
  "\<not> bit ((b :: byte) AND 248) 0" "\<not> bit (b AND 248) 1" "\<not> bit (b AND 248) 2"
  "\<not> bit ((b AND 127) OR 64) 7" "bit ((b AND 127) OR 64) 6"
proof -
  have "(127 :: byte) = mask 7" "(64 :: byte) = push_bit 6 1" "(248 :: byte) = NOT (mask 3)"
    by code_simp+
  then show "\<not> bit (b AND 248) 0" "\<not> bit (b AND 248) 1" "\<not> bit (b AND 248) 2"
    "\<not> bit ((b AND 127) OR 64) 7" "bit ((b AND 127) OR 64) 6"
    by (simp_all only: bit_simps) simp_all
qed

text \<open>A generated key pair is a WireGuard key pair. The private key is the base64 form of 32
  bytes that are the random bytes with the three low bits and the top bit cleared and bit 254
  set, and deriving the public key from the private key gives the public key of the pair.\<close>

theorem keypair_clamped_and_consistent:
  assumes "GenerateKeypair x25519 basepoint (Inr r) = Inr kp" and "length r = 32"
  shows "\<exists>sk. b64_decode StdEncoding (kp_Private kp) = Some sk \<and> length sk = 32 \<and>
    (\<forall>i. 0 < i \<and> i < 31 \<longrightarrow> sk ! i = r ! i) \<and>
    \<not> bit (sk ! 0) 0 \<and> \<not> bit (sk ! 0) 1 \<and> \<not> bit (sk ! 0) 2 \<and> \<not> bit (sk ! 31) 7 \<and> bit (sk ! 31) 6 \<and>
    PublicKeyFor b64Err x25519 basepoint (kp_Private kp) = Inr (kp_Public kp)"
proof (intro exI conjI)
  obtain pk where pk: "x25519 (clamp r) basepoint = Inr pk" "kp_Public kp = b64_encode StdEncoding pk"
    and kp: "kp_Private kp = b64_encode StdEncoding (clamp r)"
    using assms(1) by (auto simp: GenerateKeypair_def bind_res_Inr_iff Let_def)
  show dec: "b64_decode StdEncoding (kp_Private kp) = Some (clamp r)"
    by (simp add: kp b64_decode_encode)
  show "length (clamp r) = 32" by (simp add: assms(2))
  show "\<forall>i. 0 < i \<and> i < 31 \<longrightarrow> clamp r ! i = r ! i" using assms(2) by (simp add: clamp_nth)
  show "PublicKeyFor b64Err x25519 basepoint (kp_Private kp) = Inr (kp_Public kp)"
    by (simp add: PublicKeyFor_def dec assms(2) pk)
qed (simp_all add: clamp_nth assms(2) clamped_bits del: One_nat_def)

theorem keypair_clamped_and_consistent_witness:
  "\<exists>kp. GenerateKeypair (\<lambda>s p. Inr s) [] (Inr (replicate 32 255)) = Inr kp \<and>
     PublicKeyFor (\<lambda>_. errors_New []) (\<lambda>s p. Inr s) [] (kp_Private kp) = Inr (kp_Public kp)"
proof -
  obtain kp where kp: "GenerateKeypair (\<lambda>s p. Inr s) [] (Inr (replicate 32 255)) = Inr kp"
    by (simp add: GenerateKeypair_def Let_def)
  from keypair_clamped_and_consistent [OF this, of "\<lambda>_. errors_New []"] kp show ?thesis by auto
qed

end
