(* ===== verification/Peer_Store.thy ===== *)
theory Peer_Store
  imports Wgt_Prelude
begin

text \<open>
  The contract between the server administration and the file it keeps its peers in: appending a
  peer and deleting one by its position act on the list of peers that reading returns, and keep the
  file readable and the server's key in place. The lemmas are what follows for any sequence of
  such changes: the file refines a list, a property of neighbouring peers that every change keeps
  holds throughout, and what the peers own stays distinct when only fresh things are added.
\<close>

datatype 'p store_op = Put 'p | Del nat

fun list_op :: "'p store_op \<Rightarrow> 'p list \<Rightarrow> 'p list" where
  "list_op (Put p) ps = ps @ [p]"
| "list_op (Del i) ps = delete_at i ps"

text \<open>An operation that may be done on a list of peers: a deletion needs an index in range, an
  added peer must be \<open>good\<close> and what it owns must not be owned yet.\<close>

fun allowed_op :: "('p \<Rightarrow> bool) \<Rightarrow> ('p \<Rightarrow> 'a list) \<Rightarrow> 'p list \<Rightarrow> 'p store_op \<Rightarrow> bool" where
  "allowed_op good owns ps (Put p) = (good p \<and> distinct (owns p) \<and> set (owns p) \<inter> set (concat (map owns ps)) = {})"
| "allowed_op good owns ps (Del i) = (i < length ps)"

lemma set_concat_delete: "set (concat (map owns (delete_at i ps))) \<subseteq> set (concat (map owns ps))"
  using set_delete_at_subset [of i ps] by auto

lemma delete_at_Cons: "delete_at i (p # ps) = (if i = 0 then ps else p # delete_at (i - 1) ps)"
  by (cases i) (simp_all add: delete_at_def)

lemma distinct_concat_delete:
  "distinct (concat (map owns ps)) \<Longrightarrow> distinct (concat (map owns (delete_at i ps)))"
proof (induction ps arbitrary: i)
  case (Cons p ps)
  then show ?case using set_concat_delete [of owns "i - 1" ps] by (auto simp: delete_at_Cons)
qed (simp add: delete_at_def)

locale peer_store =
  fixes valid :: "'f \<Rightarrow> bool"
    and key_of :: "'f \<Rightarrow> 'k"
    and peers_of :: "'f \<Rightarrow> 'p list"
    and put :: "'p \<Rightarrow> 'f \<Rightarrow> 'f"
    and del :: "nat \<Rightarrow> 'f \<Rightarrow> 'f"
    and good :: "'p \<Rightarrow> bool"
  assumes put_valid: "valid f \<Longrightarrow> good p \<Longrightarrow> valid (put p f)"
    and put_peers: "valid f \<Longrightarrow> good p \<Longrightarrow> peers_of (put p f) = peers_of f @ [p]"
    and put_key: "valid f \<Longrightarrow> good p \<Longrightarrow> key_of (put p f) = key_of f"
    and del_valid: "valid f \<Longrightarrow> i < length (peers_of f) \<Longrightarrow> valid (del i f)"
    and del_peers: "valid f \<Longrightarrow> i < length (peers_of f) \<Longrightarrow> peers_of (del i f) = delete_at i (peers_of f)"
    and del_key: "valid f \<Longrightarrow> i < length (peers_of f) \<Longrightarrow> key_of (del i f) = key_of f"
begin

definition file_op :: "'p store_op \<Rightarrow> 'f \<Rightarrow> 'f" where
  "file_op x f = (case x of Put p \<Rightarrow> put p f | Del i \<Rightarrow> del i f)"

lemma op_refines:
  assumes "valid f" and "allowed_op good owns (peers_of f) x"
  shows "valid (file_op x f) \<and> peers_of (file_op x f) = list_op x (peers_of f) \<and> key_of (file_op x f) = key_of f"
  using assms by (cases x) (simp_all add: file_op_def put_valid put_peers put_key del_valid del_peers del_key)

lemma put_del:
  assumes "valid f" and "good p"
  shows "valid (del (length (peers_of f)) (put p f)) \<and> peers_of (del (length (peers_of f)) (put p f)) = peers_of f \<and>
    key_of (del (length (peers_of f)) (put p f)) = key_of f"
  using assms by (simp add: put_valid put_peers put_key del_valid del_peers del_key delete_at_def)

lemma op_keeps_distinct:
  assumes "allowed_op good owns ps x" and "distinct (concat (map owns ps))"
  shows "distinct (concat (map owns (list_op x ps)))"
  using assms by (cases x) (auto intro: distinct_concat_delete)

end

end
