(* ===== verification/Wg_Peers.thy ===== *)
theory Wg_Peers
  imports Cidr_List Peer_Store
begin

text \<open>
  The server's WireGuard configuration file, \<open>pkg/wgadmin/wgconf.go\<close>: \<open>parseConf\<close> with its line
  loop, \<open>writeConf\<close> and \<open>formatPeer\<close>. The parser keeps the lines it does not interpret: the lines
  outside peers in \<open>cs_header\<close>, the lines of a peer in \<open>ap_rawLines\<close>. The pointer \<open>pendingPeer\<close> is an
  option; a dereference of \<open>nil\<close>, which Go turns into a panic, is an error here.
\<close>

section \<open>Definitions\<close>

definition nameTag :: string where "nameTag = ''# wgturn-name =''"

record admin_peer =
  ap_Name :: string
  ap_PublicKey :: string
  ap_PresharedKey :: string
  ap_AllowedIPs :: "prefix list"
  ap_rawLines :: "string list"

record conf_state =
  cs_header :: "string list"
  cs_privateKey :: string
  cs_peers :: "admin_peer list"

definition zero_admin_peer :: admin_peer where
  "zero_admin_peer = \<lparr>ap_Name = [], ap_PublicKey = [], ap_PresharedKey = [], ap_AllowedIPs = [], ap_rawLines = []\<rparr>"

datatype conf_section = ConfNone | ConfInterface | ConfPeer

text \<open>The variables of \<open>parseConf\<close>.\<close>

record conf_scan =
  sc_state :: conf_state
  sc_cur :: conf_section
  sc_pending :: "admin_peer option"

definition nil_deref :: go_error where
  "nil_deref = errors_New ''runtime error: invalid memory address or nil pointer dereference''"

text \<open>\<open>parsePrefixList\<close> of \<open>pkg/wgadmin\<close>.\<close>

definition admin_parsePrefixList :: "string \<Rightarrow> prefix list res" where
  "admin_parsePrefixList v =
     map_res parse_cidr (filter (\<lambda>t. t \<noteq> []) (map trim_space (fields_func list_sep v)))"

definition flushPeer :: "conf_scan \<Rightarrow> conf_scan" where
  "flushPeer sc =
     (case sc_pending sc of
        None \<Rightarrow> sc
      | Some p \<Rightarrow> sc\<lparr>sc_state := (sc_state sc)\<lparr>cs_peers := cs_peers (sc_state sc) @ [p]\<rparr>, sc_pending := None\<rparr>)"

definition add_header :: "string \<Rightarrow> conf_scan \<Rightarrow> conf_scan" where
  "add_header line sc = sc\<lparr>sc_state := (sc_state sc)\<lparr>cs_header := cs_header (sc_state sc) @ [line]\<rparr>\<rparr>"

definition on_pending :: "(admin_peer \<Rightarrow> admin_peer) \<Rightarrow> conf_scan \<Rightarrow> conf_scan res" where
  "on_pending f sc =
     (case sc_pending sc of None \<Rightarrow> Inl nil_deref | Some p \<Rightarrow> Inr (sc\<lparr>sc_pending := Some (f p)\<rparr>))"

definition add_raw :: "string \<Rightarrow> admin_peer \<Rightarrow> admin_peer" where
  "add_raw line p = p\<lparr>ap_rawLines := ap_rawLines p @ [line]\<rparr>"

text \<open>A line that is kept as it is.\<close>

definition keep_line :: "string \<Rightarrow> conf_scan \<Rightarrow> conf_scan res" where
  "keep_line line sc = (if sc_cur sc = ConfPeer then on_pending (add_raw line) sc else Inr (add_header line sc))"

definition conf_is_header :: "string \<Rightarrow> bool" where
  "conf_is_header trimmed \<longleftrightarrow> has_prefix trimmed ''['' \<and> has_suffix trimmed '']''"

definition conf_section_line :: "string \<Rightarrow> string \<Rightarrow> conf_scan \<Rightarrow> conf_scan" where
  "conf_section_line line trimmed sc0 =
     (let sc = flushPeer sc0; name = to_lower (trim_space (butlast (tl trimmed))) in
      if name = ''interface'' then add_header line (sc\<lparr>sc_cur := ConfInterface\<rparr>)
      else if name = ''peer''
      then sc\<lparr>sc_cur := ConfPeer, sc_pending := Some (zero_admin_peer\<lparr>ap_rawLines := [line]\<rparr>)\<rparr>
      else add_header line (sc\<lparr>sc_cur := ConfNone\<rparr>))"

definition peer_field :: "string \<Rightarrow> string \<Rightarrow> admin_peer \<Rightarrow> admin_peer res" where
  "peer_field key val p =
     (if key = ''publickey'' then Inr (p\<lparr>ap_PublicKey := val\<rparr>)
      else if key = ''presharedkey'' then Inr (p\<lparr>ap_PresharedKey := val\<rparr>)
      else if key = ''allowedips'' then
        (case admin_parsePrefixList val of
           Inl err \<Rightarrow> Inl (wrapf (''wgadmin: AllowedIPs '' @ quoted val @ '': '') err)
         | Inr prefs \<Rightarrow> Inr (p\<lparr>ap_AllowedIPs := prefs\<rparr>))
      else Inr p)"

definition conf_field :: "string \<Rightarrow> string \<Rightarrow> string \<Rightarrow> conf_scan \<Rightarrow> conf_scan res" where
  "conf_field line key val sc =
     (case sc_cur sc of
        ConfInterface \<Rightarrow>
          (let sc' = add_header line sc in
           Inr (if key = ''privatekey'' then sc'\<lparr>sc_state := (sc_state sc')\<lparr>cs_privateKey := val\<rparr>\<rparr> else sc'))
      | ConfPeer \<Rightarrow>
          (case sc_pending sc of
             None \<Rightarrow> Inl nil_deref
           | Some p \<Rightarrow>
               bind_res (peer_field key val (add_raw line p)) (\<lambda>p'. Inr (sc\<lparr>sc_pending := Some p'\<rparr>)))
      | ConfNone \<Rightarrow> Inr (add_header line sc))"

definition conf_line :: "string \<Rightarrow> conf_scan \<Rightarrow> conf_scan res" where
  "conf_line line sc =
     (let trimmed = trim_space line in
      if conf_is_header trimmed then Inr (conf_section_line line trimmed sc)
      else if sc_cur sc = ConfPeer \<and> has_prefix trimmed nameTag
      then on_pending (\<lambda>p. add_raw line (p\<lparr>ap_Name := trim_space (trim_prefix trimmed nameTag)\<rparr>)) sc
      else if trimmed = [] \<or> has_prefix trimmed ''#'' \<or> has_prefix trimmed '';'' then keep_line line sc
      else case index_byte trimmed (CHR ''='') of
        None \<Rightarrow> keep_line line sc
      | Some eq \<Rightarrow>
          conf_field line (to_lower (trim_space (take eq trimmed))) (trim_space (drop (eq + 1) trimmed)) sc)"

fun conf_lines :: "string list \<Rightarrow> conf_scan \<Rightarrow> conf_scan res" where
  "conf_lines [] sc = Inr sc"
| "conf_lines (l # ls) sc = bind_res (conf_line l sc) (conf_lines ls)"

definition zero_scan :: conf_scan where
  "zero_scan = \<lparr>sc_state = \<lparr>cs_header = [], cs_privateKey = [], cs_peers = []\<rparr>, sc_cur = ConfNone, sc_pending = None\<rparr>"

definition confMaxToken :: nat where "confMaxToken = 1024 * 1024"

definition parseConf :: "string \<Rightarrow> go_error option \<Rightarrow> conf_state res" where
  "parseConf text readErr =
     (let (ls, tooLong) = scan_max confMaxToken text in
      bind_res (conf_lines ls zero_scan) (\<lambda>sc.
        case (if tooLong then Some errTooLong else readErr) of
          Some err \<Rightarrow> Inl (wrapf ''wgadmin: read conf: '' err)
        | None \<Rightarrow> Inr (sc_state (flushPeer sc))))"

text \<open>The lines \<open>formatPeer\<close> prints.\<close>

definition formatPeer :: "admin_peer \<Rightarrow> string list" where
  "formatPeer p =
     [[], ''[Peer]''] @
     (if ap_Name p \<noteq> [] then [nameTag @ '' '' @ ap_Name p] else []) @
     [''PublicKey = '' @ ap_PublicKey p] @
     (if ap_PresharedKey p \<noteq> [] then [''PresharedKey = '' @ ap_PresharedKey p] else []) @
     (if length (ap_AllowedIPs p) > 0
      then [''AllowedIPs = '' @ str_join '', '' (map show_prefix (ap_AllowedIPs p))] else [])"

definition peer_lines :: "admin_peer \<Rightarrow> string list" where
  "peer_lines p = (if length (ap_rawLines p) > 0 then ap_rawLines p else formatPeer p)"

definition writeConf :: "conf_state \<Rightarrow> string" where
  "writeConf st = unlines (cs_header st @ concat (map peer_lines (cs_peers st)))"

section \<open>Runs of lines\<close>

lemma conf_lines_append: "conf_lines (a @ b) sc = bind_res (conf_lines a sc) (conf_lines b)"
  by (induction a arbitrary: sc) (auto simp: bind_res_def split: sum.splits)

text \<open>A peer is pending exactly inside a \<open>[Peer]\<close> section, so no line dereferences \<open>nil\<close>.\<close>

definition scan_ok :: "conf_scan \<Rightarrow> bool" where
  "scan_ok sc \<longleftrightarrow> (sc_cur sc = ConfPeer \<longleftrightarrow> sc_pending sc \<noteq> None)"

lemmas line_defs = keep_line_def on_pending_def add_header_def add_raw_def

lemma flushPeer_simps [simp]:
  "sc_pending (flushPeer sc) = None" "sc_cur (flushPeer sc) = sc_cur sc"
  by (simp_all add: flushPeer_def split: option.splits)

lemma conf_line_ok: "scan_ok sc \<Longrightarrow> conf_line l sc = Inr sc' \<Longrightarrow> scan_ok sc'"
  by (auto simp: conf_line_def conf_section_line_def conf_field_def line_defs scan_ok_def Let_def bind_res_Inr_iff
      split: if_splits option.splits conf_section.splits)

lemma conf_lines_ok: "scan_ok sc \<Longrightarrow> conf_lines ls sc = Inr sc' \<Longrightarrow> scan_ok sc'"
  by (induction ls arbitrary: sc) (auto simp: bind_res_Inr_iff dest: conf_line_ok)

lemma zero_scan_ok: "scan_ok zero_scan"
  by (simp add: scan_ok_def zero_scan_def)

section \<open>Writing what was read\<close>

text \<open>A line inside a peer changes the pending peer only.\<close>

definition peer_step :: "string \<Rightarrow> admin_peer \<Rightarrow> admin_peer res" where
  "peer_step line p =
     (let trimmed = trim_space line in
      if has_prefix trimmed nameTag
      then Inr (add_raw line (p\<lparr>ap_Name := trim_space (trim_prefix trimmed nameTag)\<rparr>))
      else if trimmed = [] \<or> has_prefix trimmed ''#'' \<or> has_prefix trimmed '';'' then Inr (add_raw line p)
      else case index_byte trimmed (CHR ''='') of
        None \<Rightarrow> Inr (add_raw line p)
      | Some eq \<Rightarrow>
          peer_field (to_lower (trim_space (take eq trimmed))) (trim_space (drop (eq + 1) trimmed)) (add_raw line p))"

lemma conf_line_peer:
  assumes "\<not> conf_is_header (trim_space l)" and "sc_cur sc = ConfPeer" and "sc_pending sc = Some p"
  shows "conf_line l sc = bind_res (peer_step l p) (\<lambda>p'. Inr (sc\<lparr>sc_pending := Some p'\<rparr>))"
  using assms
  by (simp add: conf_line_def peer_step_def keep_line_def on_pending_def conf_field_def Let_def
      split: option.splits del: index_byte_None)

lemma peer_step_raw: "peer_step l p = Inr p' \<Longrightarrow> ap_rawLines p' = ap_rawLines p @ [l]"
  by (auto simp: peer_step_def peer_field_def add_raw_def Let_def split: if_splits option.splits sum.splits)

text \<open>Reading the lines of a peer gives the peer, whatever was read before.\<close>

definition self_peer :: "admin_peer \<Rightarrow> bool" where
  "self_peer p \<longleftrightarrow> ap_rawLines p \<noteq> [] \<and>
     (\<forall>sc. conf_lines (ap_rawLines p) sc = Inr ((flushPeer sc)\<lparr>sc_cur := ConfPeer, sc_pending := Some p\<rparr>))"

lemma self_peer_step:
  assumes "self_peer p" and "\<not> conf_is_header (trim_space l)" and "peer_step l p = Inr p'"
  shows "self_peer p'"
  using assms by (simp add: self_peer_def peer_step_raw conf_lines_append conf_line_peer)

lemma self_peer_new:
  assumes "conf_is_header (trim_space l)" and "to_lower (trim_space (butlast (tl (trim_space l)))) = ''peer''"
  shows "self_peer (zero_admin_peer\<lparr>ap_rawLines := [l]\<rparr>)"
  using assms by (simp add: self_peer_def conf_line_def conf_section_line_def zero_admin_peer_def Let_def)

text \<open>Reading the header lines gives the header and the private key, and ends in the section that
  is current while no peer is pending.\<close>

definition header_scan :: "conf_state \<Rightarrow> conf_section \<Rightarrow> conf_scan" where
  "header_scan st c = \<lparr>sc_state = st\<lparr>cs_peers := []\<rparr>, sc_cur = c, sc_pending = None\<rparr>"

definition self_header :: "conf_state \<Rightarrow> conf_section \<Rightarrow> bool" where
  "self_header st c \<longleftrightarrow> c \<noteq> ConfPeer \<and> conf_lines (cs_header st) zero_scan = Inr (header_scan st c)"

text \<open>The invariant of the loop; \<open>L\<close> are the lines of the file.\<close>

definition scan_inv :: "string set \<Rightarrow> conf_scan \<Rightarrow> bool" where
  "scan_inv L sc \<longleftrightarrow> scan_ok sc \<and>
     (\<exists>c. self_header (sc_state sc) c \<and> (sc_cur sc \<noteq> ConfPeer \<longrightarrow> c = sc_cur sc)) \<and>
     (\<forall>p \<in> set (cs_peers (sc_state sc)) \<union> set_option (sc_pending sc). self_peer p \<and> set (ap_rawLines p) \<subseteq> L) \<and>
     set (cs_header (sc_state sc)) \<subseteq> L"

lemma flushPeer_inv:
  assumes "scan_inv L sc"
  shows "\<exists>c. self_header (sc_state (flushPeer sc)) c" "set (cs_header (sc_state (flushPeer sc))) \<subseteq> L"
    "\<And>p. p \<in> set (cs_peers (sc_state (flushPeer sc))) \<Longrightarrow> self_peer p \<and> set (ap_rawLines p) \<subseteq> L"
  using assms by (auto simp: scan_inv_def flushPeer_def self_header_def header_scan_def split: option.splits)

text \<open>A header line of the file, read after the header lines before it.\<close>

lemma self_header_section:
  assumes "self_header st c" and "conf_is_header (trim_space l)"
    and "to_lower (trim_space (butlast (tl (trim_space l)))) \<noteq> ''peer''"
  shows "self_header (st\<lparr>cs_header := cs_header st @ [l]\<rparr>)
    (if to_lower (trim_space (butlast (tl (trim_space l)))) = ''interface'' then ConfInterface else ConfNone)"
  using assms
  by (simp add: self_header_def conf_lines_append conf_line_def conf_section_line_def header_scan_def flushPeer_def
      add_header_def Let_def)

lemma conf_line_header:
  assumes "\<not> conf_is_header (trim_space l)" and "sc_cur sc \<noteq> ConfPeer" and "sc_pending sc = None"
    and "conf_line l sc = Inr sc'" and "self_header (sc_state sc) (sc_cur sc)"
  shows "self_header (sc_state sc') (sc_cur sc) \<and> sc_cur sc' = sc_cur sc \<and> sc_pending sc' = None \<and>
    cs_peers (sc_state sc') = cs_peers (sc_state sc) \<and> cs_header (sc_state sc') = cs_header (sc_state sc) @ [l]"
  using assms
  by (cases "sc_cur sc")
    (auto simp: self_header_def conf_lines_append conf_line_def header_scan_def keep_line_def conf_field_def
      add_header_def Let_def split: if_splits option.splits simp del: index_byte_None)

lemma conf_line_inv:
  assumes "scan_inv L sc" and "conf_line l sc = Inr sc'" and "l \<in> L"
  shows "scan_inv L sc'"
proof (cases "conf_is_header (trim_space l)")
  case True
  then have sc': "sc' = conf_section_line l (trim_space l) sc" using assms(2) by (simp add: conf_line_def Let_def)
  let ?name = "to_lower (trim_space (butlast (tl (trim_space l))))"
  note fl = flushPeer_inv [OF assms(1)]
  obtain c where c: "self_header (sc_state (flushPeer sc)) c" using fl(1) by blast
  show ?thesis
  proof (cases "?name = ''peer''")
    case peer: True
    with c fl self_peer_new [OF True peer] assms(3) show ?thesis
      by (auto simp: sc' conf_section_line_def scan_inv_def scan_ok_def Let_def)
  next
    case False
    from self_header_section [OF c True this] fl assms(3) False show ?thesis
      by (auto simp: sc' conf_section_line_def scan_inv_def scan_ok_def add_header_def Let_def)
  qed
next
  case False
  show ?thesis
  proof (cases "sc_cur sc = ConfPeer")
    case True
    then obtain p where p: "sc_pending sc = Some p" using assms(1) by (auto simp: scan_inv_def scan_ok_def)
    then obtain p' where p': "peer_step l p = Inr p'" "sc' = sc\<lparr>sc_pending := Some p'\<rparr>"
      using assms(2) conf_line_peer [OF False True p] by (auto simp: bind_res_Inr_iff)
    have "self_peer p'" using assms(1) p self_peer_step [OF _ False p'(1)] by (simp add: scan_inv_def)
    then show ?thesis using assms(1,3) p p' peer_step_raw [OF p'(1)] True by (auto simp: scan_inv_def scan_ok_def)
  next
    case np: False
    then have pend: "sc_pending sc = None" using assms(1) by (simp add: scan_inv_def scan_ok_def)
    have "self_header (sc_state sc) (sc_cur sc)" using assms(1) np by (auto simp: scan_inv_def)
    from conf_line_header [OF False np pend assms(2) this] assms(1,3) np pend show ?thesis
      by (auto simp: scan_inv_def scan_ok_def)
  qed
qed

lemma zero_scan_inv: "scan_inv L zero_scan"
  by (simp add: scan_inv_def scan_ok_def self_header_def header_scan_def zero_scan_def)

lemma conf_lines_inv: "scan_inv L sc \<Longrightarrow> set ls \<subseteq> L \<Longrightarrow> conf_lines ls sc = Inr sc' \<Longrightarrow> scan_inv L sc'"
  by (induction ls arbitrary: sc) (auto simp: bind_res_Inr_iff dest: conf_line_inv)

text \<open>What \<open>parseConf\<close> returns can be read back from its lines.\<close>

definition self_conf :: "conf_state \<Rightarrow> bool" where
  "self_conf st \<longleftrightarrow> (\<exists>c. self_header st c) \<and> (\<forall>p \<in> set (cs_peers st). self_peer p)"

definition conf_file_line :: "string \<Rightarrow> bool" where
  "conf_file_line l \<longleftrightarrow> newline \<notin> set l \<and> CHR 0x0D \<notin> set l \<and> length l < confMaxToken"

lemma conf_file_line_ok: "conf_file_line l \<Longrightarrow> line_ok l"
  unfolding conf_file_line_def line_ok_def by (metis last_in_set)

definition conf_out :: "conf_state \<Rightarrow> string list" where
  "conf_out st = cs_header st @ concat (map peer_lines (cs_peers st))"

lemma conf_lines_peers:
  assumes "\<forall>p \<in> set ps. self_peer p"
  shows "\<exists>sc'. conf_lines (concat (map peer_lines ps)) sc = Inr sc' \<and>
    (ps = [] \<longrightarrow> sc' = sc) \<and>
    (ps \<noteq> [] \<longrightarrow> sc_cur sc' = ConfPeer \<and> sc_pending sc' = Some (last ps)) \<and>
    sc_state (flushPeer sc') = (sc_state (flushPeer sc))\<lparr>cs_peers := cs_peers (sc_state (flushPeer sc)) @ ps\<rparr>"
  using assms
proof (induction ps arbitrary: sc)
  case (Cons p ps)
  let ?sc = "(flushPeer sc)\<lparr>sc_cur := ConfPeer, sc_pending := Some p\<rparr>"
  have "conf_lines (peer_lines p) sc = Inr ?sc" using Cons.prems by (simp add: self_peer_def peer_lines_def)
  moreover obtain sc' where "conf_lines (concat (map peer_lines ps)) ?sc = Inr sc'" "ps = [] \<longrightarrow> sc' = ?sc"
    "ps \<noteq> [] \<longrightarrow> sc_cur sc' = ConfPeer \<and> sc_pending sc' = Some (last ps)"
    "sc_state (flushPeer sc') = (sc_state (flushPeer ?sc))\<lparr>cs_peers := cs_peers (sc_state (flushPeer ?sc)) @ ps\<rparr>"
    using Cons.IH [of ?sc] Cons.prems by auto
  moreover have "sc_state (flushPeer ?sc) =
      (sc_state (flushPeer sc))\<lparr>cs_peers := cs_peers (sc_state (flushPeer sc)) @ [p]\<rparr>"
    by (simp add: flushPeer_def [of ?sc])
  ultimately show ?case by (cases "ps = []") (auto simp: conf_lines_append)
qed simp

lemma conf_lines_out:
  assumes "self_conf st"
  shows "\<exists>sc. conf_lines (conf_out st) zero_scan = Inr sc \<and> sc_state (flushPeer sc) = st \<and> scan_ok sc \<and>
    (cs_peers st \<noteq> [] \<longrightarrow> sc_pending sc = Some (last (cs_peers st))) \<and> (cs_peers st = [] \<longrightarrow> sc_pending sc = None)"
proof -
  obtain c where c: "c \<noteq> ConfPeer" "conf_lines (cs_header st) zero_scan = Inr (header_scan st c)"
    using assms by (auto simp: self_conf_def self_header_def)
  obtain sc where "conf_lines (concat (map peer_lines (cs_peers st))) (header_scan st c) = Inr sc"
    "cs_peers st = [] \<longrightarrow> sc = header_scan st c"
    "cs_peers st \<noteq> [] \<longrightarrow> sc_cur sc = ConfPeer \<and> sc_pending sc = Some (last (cs_peers st))"
    "sc_state (flushPeer sc) = (sc_state (flushPeer (header_scan st c)))\<lparr>cs_peers := cs_peers (sc_state (flushPeer (header_scan st c))) @ cs_peers st\<rparr>"
    using conf_lines_peers [of "cs_peers st" "header_scan st c"] assms by (auto simp: self_conf_def)
  then show ?thesis
    using c by (cases "cs_peers st = []")
      (auto simp: conf_out_def conf_lines_append header_scan_def flushPeer_def scan_ok_def)
qed

lemma parseConf_self:
  assumes "parseConf text readErr = Inr st" and "CHR 0x0D \<notin> set text"
  shows "self_conf st \<and> (\<forall>l \<in> set (conf_out st). conf_file_line l)"
proof -
  obtain ls t sc where ls: "scan_max confMaxToken text = (ls, t)" "conf_lines ls zero_scan = Inr sc"
    "st = sc_state (flushPeer sc)"
    using assms(1) by (auto simp: parseConf_def bind_res_Inr_iff split: prod.splits option.splits)
  have "\<forall>l \<in> set ls. conf_file_line l" using scan_max_lines [OF ls(1) assms(2)] by (auto simp: conf_file_line_def line_ok_def)
  moreover have "scan_inv (set ls) sc" using conf_lines_inv [OF zero_scan_inv subset_refl ls(2)] .
  note fl = flushPeer_inv [OF this]
  moreover have "ap_rawLines p \<noteq> []" if "p \<in> set (cs_peers st)" for p
    using fl(3) that ls(3) by (auto simp: self_peer_def)
  ultimately show ?thesis
    using ls(3) by (auto simp: self_conf_def conf_out_def peer_lines_def)
qed

lemma parseConf_lines:
  assumes "\<forall>l \<in> set ls. conf_file_line l"
  shows "parseConf (unlines ls) None = bind_res (conf_lines ls zero_scan) (\<lambda>sc. Inr (sc_state (flushPeer sc)))"
  using scan_max_unlines [of ls confMaxToken] assms conf_file_line_ok by (simp add: parseConf_def conf_file_line_def)

text \<open>C32: Rewriting a configuration file changes nothing the tools read. For a file without carriage
  returns, reading it, writing it with \<open>writeConf\<close> and reading the result gives the same state
  again: the same lines outside peers, the same private key and the same peers with the same
  lines.\<close>

theorem conf_write_read:
  assumes "parseConf text readErr = Inr st" and "CHR 0x0D \<notin> set text"
  shows "parseConf (writeConf st) None = Inr st"
proof -
  note s = parseConf_self [OF assms]
  then obtain sc where "conf_lines (conf_out st) zero_scan = Inr sc" "sc_state (flushPeer sc) = st"
    using conf_lines_out by blast
  then show ?thesis using parseConf_lines [of "conf_out st"] s by (simp add: writeConf_def conf_out_def)
qed

definition demo_conf :: "string list" where
  "demo_conf = [''[Interface]'', ''PrivateKey = abc'', [], ''[Peer]'', ''# wgturn-name = bob'', ''PublicKey = def'']"

lemma demo_conf_lines: "\<forall>l \<in> set demo_conf. conf_file_line l"
  by (simp add: demo_conf_def conf_file_line_def newline_def confMaxToken_def)

theorem conf_write_read_witness:
  "\<exists>st. parseConf (unlines demo_conf) None = Inr st \<and> map ap_Name (cs_peers st) = [''bob''] \<and>
     parseConf (writeConf st) None = Inr st"
proof -
  have c: "case conf_lines demo_conf zero_scan of Inl _ \<Rightarrow> False
      | Inr sc \<Rightarrow> map ap_Name (cs_peers (sc_state (flushPeer sc))) = [''bob'']"
    by code_simp
  then obtain sc where sc: "conf_lines demo_conf zero_scan = Inr sc"
    by (cases "conf_lines demo_conf zero_scan") auto
  define st where "st = sc_state (flushPeer sc)"
  have st: "parseConf (unlines demo_conf) None = Inr st" "map ap_Name (cs_peers st) = [''bob'']"
    using parseConf_lines [OF demo_conf_lines] c by (simp_all only: sc st_def bind_res_simps sum.case)
  have "CHR 0x0D \<notin> set (unlines demo_conf)" by (simp add: unlines_def demo_conf_def newline_def)
  note w = conf_write_read [OF st(1) this]
  show ?thesis by (intro exI [of _ st] conjI st w)
qed

section \<open>The file as a store of peers\<close>

definition strip_raw :: "admin_peer \<Rightarrow> admin_peer" where
  "strip_raw p = p\<lparr>ap_rawLines := []\<rparr>"

definition conf_valid :: "string \<Rightarrow> bool" where
  "conf_valid f \<longleftrightarrow> CHR 0x0D \<notin> set f \<and> \<not> is_err (parseConf f None)"

definition conf_of :: "string \<Rightarrow> conf_state" where
  "conf_of f = (case parseConf f None of Inl _ \<Rightarrow> sc_state zero_scan | Inr st \<Rightarrow> st)"

definition conf_key :: "string \<Rightarrow> string" where "conf_key f = cs_privateKey (conf_of f)"

definition conf_peers :: "string \<Rightarrow> admin_peer list" where
  "conf_peers f = map strip_raw (cs_peers (conf_of f))"

definition conf_put :: "admin_peer \<Rightarrow> string \<Rightarrow> string" where
  "conf_put p f = (let st = conf_of f in writeConf (st\<lparr>cs_peers := cs_peers st @ [p]\<rparr>))"

definition conf_del :: "nat \<Rightarrow> string \<Rightarrow> string" where
  "conf_del i f = (let st = conf_of f in writeConf (st\<lparr>cs_peers := delete_at i (cs_peers st)\<rparr>))"

text \<open>The peers that \<open>Provision\<close> makes from a name without outer white space and line breaks: keys
  without white space and one IPv4 host prefix.\<close>

definition clean_key :: "string \<Rightarrow> bool" where
  "clean_key k \<longleftrightarrow> k \<noteq> [] \<and> (\<forall>c \<in> set k. \<not> is_space c) \<and> length k < 1000"

definition clean_name :: "string \<Rightarrow> bool" where
  "clean_name n \<longleftrightarrow> n \<noteq> [] \<and> trim_space n = n \<and> newline \<notin> set n \<and> CHR 0x0D \<notin> set n \<and> length n < 1000000"

definition clean_peer :: "admin_peer \<Rightarrow> bool" where
  "clean_peer p \<longleftrightarrow> clean_name (ap_Name p) \<and> clean_key (ap_PublicKey p) \<and> clean_key (ap_PresharedKey p) \<and>
     (\<exists>w. ap_AllowedIPs p = [prefix_from (V4 w) 32]) \<and> ap_rawLines p = []"

subsection \<open>Reading a formatted peer\<close>

lemma trim_space_mid:
  assumes "a \<noteq> []" and "\<not> is_space (hd a)" and "b \<noteq> []" and "trim_space b = b"
  shows "trim_space (a @ x @ b) = a @ x @ b"
  using assms trim_space_ends [of b] by (intro trim_space_id) (auto simp: hd_append)

lemma trim_space_blank_end: "trim_space a = a \<Longrightarrow> trim_space (a @ '' '') = a"
  using trim_space_ends [of a]
proof -
  assume t: "trim_space a = a" and e: "trim_space a \<noteq> [] \<Longrightarrow> \<not> is_space (hd (trim_space a)) \<and> \<not> is_space (last (trim_space a))"
  show ?thesis
  proof (cases "a = []")
    case True
    then show ?thesis by (simp add: trim_space_def is_space_def)
  next
    case False
    with t e have "dropWhile is_space (a @ '' '') = a @ '' ''" "dropWhile is_space (rev a) = rev a"
      by (simp_all add: dropWhile_eq_self hd_append hd_rev)
    then show ?thesis by (simp add: trim_space_def is_space_def)
  qed
qed

lemma trim_space_blank_start: "trim_space ('' '' @ b) = trim_space b"
  by (simp add: trim_space_prepend is_space_def)

lemma line_not_special:
  assumes "K \<noteq> []" and "hd K \<notin> {CHR ''['', CHR ''#'', CHR '';''}"
  shows "\<not> conf_is_header (K @ s)" "\<not> has_prefix (K @ s) nameTag" "\<not> has_prefix (K @ s) ''#''" "\<not> has_prefix (K @ s) '';''"
  using assms by (cases K; auto simp: conf_is_header_def nameTag_def)+

lemma peer_step_field:
  assumes "K \<noteq> []" and "hd K \<notin> {CHR ''['', CHR ''#'', CHR '';''}" and "trim_space K = K" and "CHR ''='' \<notin> set K"
    and "v \<noteq> []" and "trim_space v = v"
  shows "peer_step (K @ '' = '' @ v) p = peer_field (to_lower K) v (add_raw (K @ '' = '' @ v) p) \<and>
    \<not> conf_is_header (trim_space (K @ '' = '' @ v))"
proof -
  let ?l = "K @ '' = '' @ v"
  have t: "trim_space ?l = ?l"
    using assms trim_space_ends [of K] by (intro trim_space_mid) auto
  have i: "index_byte ?l (CHR ''='') = Some (length K + 1)"
    using index_byte_append [of "CHR ''=''" "K @ '' ''" "'' '' @ v"] assms(4) by simp
  have k: "take (length K + 1) ?l = K @ '' ''" "drop (length K + 1 + 1) ?l = '' '' @ v" by simp_all
  show ?thesis
    unfolding peer_step_def t Let_def i option.case k trim_space_blank_start trim_space_blank_end [OF assms(3)] assms(6)
    using line_not_special [OF assms(1,2)] assms(1) by simp
qed

lemma clean_key_trim: "clean_key k \<Longrightarrow> k \<noteq> [] \<and> trim_space k = k"
  by (auto simp: clean_key_def intro!: trim_space_id)

lemma key_literals:
  "trim_space ''PublicKey'' = ''PublicKey''" "trim_space ''PresharedKey'' = ''PresharedKey''"
  "trim_space ''AllowedIPs'' = ''AllowedIPs''" "to_lower ''PublicKey'' = ''publickey''"
  "to_lower ''PresharedKey'' = ''presharedkey''" "to_lower ''AllowedIPs'' = ''allowedips''"
  by code_simp+

lemma step_PublicKey:
  "clean_key k \<Longrightarrow> peer_step (''PublicKey = '' @ k) p = Inr (add_raw (''PublicKey = '' @ k) p\<lparr>ap_PublicKey := k\<rparr>) \<and>
     \<not> conf_is_header (trim_space (''PublicKey = '' @ k))"
  using peer_step_field [of "''PublicKey''" k p] clean_key_trim [of k]
  by (simp add: key_literals peer_field_def)

lemma step_PresharedKey:
  "clean_key k \<Longrightarrow> peer_step (''PresharedKey = '' @ k) p = Inr (add_raw (''PresharedKey = '' @ k) p\<lparr>ap_PresharedKey := k\<rparr>) \<and>
     \<not> conf_is_header (trim_space (''PresharedKey = '' @ k))"
  using peer_step_field [of "''PresharedKey''" k p] clean_key_trim [of k]
  by (simp add: key_literals peer_field_def)

lemma admin_parsePrefixList_eq: "admin_parsePrefixList = parsePrefixList"
  by (simp add: fun_eq_iff admin_parsePrefixList_def parsePrefixList_def splitListField_def)

lemma step_AllowedIPs:
  defines "v w \<equiv> show_prefix (prefix_from (V4 w) 32)"
  shows "peer_step (''AllowedIPs = '' @ v w) p = Inr (add_raw (''AllowedIPs = '' @ v w) p\<lparr>ap_AllowedIPs := [prefix_from (V4 w) 32]\<rparr>) \<and>
     \<not> conf_is_header (trim_space (''AllowedIPs = '' @ v w))"
proof -
  have "v w \<noteq> []" by (simp add: v_def show_prefix_def prefix_from_def prefix_valid_def)
  moreover from this have "trim_space (v w) = v w"
    using show_host4_sep_free [of _ w] by (intro trim_space_id) (auto simp: v_def)
  ultimately show ?thesis
    using peer_step_field [of "''AllowedIPs''" "v w" p]
    by (simp add: key_literals peer_field_def admin_parsePrefixList_eq parsePrefixList_host4 v_def)
qed

lemma step_Name:
  assumes "clean_name n"
  shows "peer_step (nameTag @ '' '' @ n) p = Inr (add_raw (nameTag @ '' '' @ n) (p\<lparr>ap_Name := n\<rparr>)) \<and>
     \<not> conf_is_header (trim_space (nameTag @ '' '' @ n))"
proof -
  have "trim_space (nameTag @ '' '' @ n) = nameTag @ '' '' @ n"
    using assms by (intro trim_space_mid) (auto simp: clean_name_def nameTag_def is_space_def)
  moreover have "trim_space (trim_prefix (nameTag @ '' '' @ n) nameTag) = n"
    using assms trim_space_blank_start [of n] by (simp add: trim_prefix_def clean_name_def)
  ultimately show ?thesis
    by (simp add: peer_step_def) (simp add: conf_is_header_def nameTag_def)
qed

text \<open>The lines of a clean peer, after the blank line.\<close>

lemma conf_lines_formatted:
  assumes "clean_peer p"
  shows "\<exists>raw. conf_lines (tl (formatPeer p)) sc =
    Inr ((flushPeer sc)\<lparr>sc_cur := ConfPeer, sc_pending := Some (p\<lparr>ap_rawLines := raw\<rparr>)\<rparr>)"
proof -
  obtain n k1 k2 w where p: "p = \<lparr>ap_Name = n, ap_PublicKey = k1, ap_PresharedKey = k2,
      ap_AllowedIPs = [prefix_from (V4 w) 32], ap_rawLines = []\<rparr>"
    and c: "clean_name n" "clean_key k1" "clean_key k2"
    using assms by (cases p) (auto simp: clean_peer_def)
  have h: "conf_is_header (trim_space ''[Peer]'')" "to_lower (trim_space (butlast (tl (trim_space ''[Peer]'')))) = ''peer''"
    by code_simp+
  let ?v = "show_prefix (prefix_from (V4 w) 32)"
  have out: "tl (formatPeer p) = [''[Peer]'', nameTag @ '' '' @ n, ''PublicKey = '' @ k1, ''PresharedKey = '' @ k2,
      ''AllowedIPs = '' @ ?v]"
    using c by (simp add: formatPeer_def p clean_name_def clean_key_def)
  have start: "conf_line ''[Peer]'' sc = Inr ((flushPeer sc)\<lparr>sc_cur := ConfPeer,
      sc_pending := Some (zero_admin_peer\<lparr>ap_rawLines := [''[Peer]'']\<rparr>)\<rparr>)"
    using h by (simp add: conf_line_def conf_section_line_def Let_def)
  have step: "conf_line l (s\<lparr>sc_cur := ConfPeer, sc_pending := Some q\<rparr>) = Inr (s\<lparr>sc_cur := ConfPeer, sc_pending := Some q'\<rparr>)"
    if "peer_step l q = Inr q' \<and> \<not> conf_is_header (trim_space l)" for l s q q'
    using conf_line_peer [of l "s\<lparr>sc_cur := ConfPeer, sc_pending := Some q\<rparr>" q] that by simp
  show ?thesis
    unfolding out conf_lines.simps start bind_res_simps step [OF step_Name [OF c(1)]] step [OF step_PublicKey [OF c(2)]]
      step [OF step_PresharedKey [OF c(3)]] step [OF step_AllowedIPs]
    by (intro exI) (simp add: p zero_admin_peer_def add_raw_def)
qed

lemma blank_line:
  assumes "scan_ok sc"
  shows "\<exists>sc'. conf_line [] sc = Inr sc' \<and>
    cs_privateKey (sc_state (flushPeer sc')) = cs_privateKey (sc_state (flushPeer sc)) \<and>
    map strip_raw (cs_peers (sc_state (flushPeer sc'))) = map strip_raw (cs_peers (sc_state (flushPeer sc)))"
  using assms
  by (auto simp: conf_line_def conf_is_header_def nameTag_def line_defs scan_ok_def flushPeer_def strip_raw_def)

lemma formatPeer_lines:
  assumes "clean_peer p" and "l \<in> set (formatPeer p)"
  shows "conf_file_line l"
proof -
  obtain w where w: "ap_AllowedIPs p = [prefix_from (V4 w) 32]" using assms(1) by (auto simp: clean_peer_def)
  have k: "newline \<notin> set k \<and> CHR 0x0D \<notin> set k \<and> length k < 1000" if "clean_key k" for k
    using that by (auto simp: clean_key_def is_space_def newline_def)
  let ?v = "show_prefix (prefix_from (V4 w) 32)"
  have o: "length (show_nat (octet i w)) \<le> 3" for i
    by (rule length_show_octet) simp
  have "length ?v < 1000"
    using o [of 0] o [of 1] o [of 2] o [of 3]
    by (simp add: show_prefix_def prefix_from_def prefix_valid_def show4_def show32)
  moreover have "newline \<notin> set ?v" "CHR 0x0D \<notin> set ?v"
    using show_host4_sep_free [of newline w] show_host4_sep_free [of "CHR 0x0D" w] by (auto simp: is_space_def newline_def)
  ultimately have v: "newline \<notin> set ?v \<and> CHR 0x0D \<notin> set ?v \<and> length ?v < 1000" by blast
  show ?thesis
    using assms v k [of "ap_PublicKey p"] k [of "ap_PresharedKey p"] w
    by (auto simp: formatPeer_def conf_file_line_def clean_peer_def clean_name_def nameTag_def newline_def confMaxToken_def
        split: if_splits)
qed

lemma unlines_no_cr: "\<forall>l \<in> set ls. conf_file_line l \<Longrightarrow> CHR 0x0D \<notin> set (unlines ls)"
  by (auto simp: unlines_def conf_file_line_def newline_def)

lemma conf_valid_self:
  assumes "conf_valid f"
  shows "parseConf f None = Inr (conf_of f)" "self_conf (conf_of f)" "\<forall>l \<in> set (conf_out (conf_of f)). conf_file_line l"
proof -
  show p: "parseConf f None = Inr (conf_of f)"
    using assms by (auto simp: conf_valid_def conf_of_def is_err_def split: sum.splits)
  show "self_conf (conf_of f)" "\<forall>l \<in> set (conf_out (conf_of f)). conf_file_line l"
    using parseConf_self [OF p] assms by (auto simp: conf_valid_def)
qed

lemma conf_put_read:
  assumes "conf_valid f" and "clean_peer p"
  shows "\<exists>st. parseConf (conf_put p f) None = Inr st \<and> cs_privateKey st = conf_key f \<and>
    map strip_raw (cs_peers st) = conf_peers f @ [p] \<and> CHR 0x0D \<notin> set (conf_put p f)"
proof -
  let ?st = "conf_of f"
  note v = conf_valid_self [OF assms(1)]
  obtain sc where sc: "conf_lines (conf_out ?st) zero_scan = Inr sc" "sc_state (flushPeer sc) = ?st" "scan_ok sc"
    using conf_lines_out [OF v(2)] by blast
  obtain sc1 where sc1: "conf_line [] sc = Inr sc1" "cs_privateKey (sc_state (flushPeer sc1)) = cs_privateKey ?st"
    "map strip_raw (cs_peers (sc_state (flushPeer sc1))) = map strip_raw (cs_peers ?st)"
    using blank_line [OF sc(3)] sc(2) by auto
  obtain raw where raw: "conf_lines (tl (formatPeer p)) sc1 =
    Inr ((flushPeer sc1)\<lparr>sc_cur := ConfPeer, sc_pending := Some (p\<lparr>ap_rawLines := raw\<rparr>)\<rparr>)"
    using conf_lines_formatted [OF assms(2)] by blast
  have fp: "formatPeer p = [] # tl (formatPeer p)" by (simp add: formatPeer_def)
  have run: "conf_lines (conf_out ?st @ formatPeer p) zero_scan =
      Inr ((flushPeer sc1)\<lparr>sc_cur := ConfPeer, sc_pending := Some (p\<lparr>ap_rawLines := raw\<rparr>)\<rparr>)"
    by (subst fp) (simp only: conf_lines_append conf_lines.simps sc(1) sc1(1) raw bind_res_simps)
  have lines: "\<forall>l \<in> set (conf_out ?st @ formatPeer p). conf_file_line l"
    using v(3) formatPeer_lines [OF assms(2)] by auto
  have "conf_put p f = unlines (conf_out ?st @ formatPeer p)"
    using assms(2) by (simp add: conf_put_def writeConf_def conf_out_def peer_lines_def clean_peer_def Let_def)
  moreover have "p\<lparr>ap_rawLines := []\<rparr> = p" using assms(2) by (simp add: clean_peer_def)
  ultimately show ?thesis
    using parseConf_lines [OF lines] run unlines_no_cr [OF lines] sc1(2,3)
    by (simp add: flushPeer_def [of "_\<lparr>sc_pending := _\<rparr>"] conf_key_def conf_peers_def strip_raw_def)
qed

lemma conf_del_read:
  assumes "conf_valid f"
  shows "parseConf (conf_del i f) None = Inr ((conf_of f)\<lparr>cs_peers := delete_at i (cs_peers (conf_of f))\<rparr>) \<and>
    CHR 0x0D \<notin> set (conf_del i f)"
proof -
  let ?st = "(conf_of f)\<lparr>cs_peers := delete_at i (cs_peers (conf_of f))\<rparr>"
  note v = conf_valid_self [OF assms]
  have self: "self_conf ?st"
    using v(2) set_delete_at_subset [of i "cs_peers (conf_of f)"]
    by (auto simp: self_conf_def self_header_def header_scan_def)
  have lines: "\<forall>l \<in> set (conf_out ?st). conf_file_line l"
    using v(3) set_delete_at_subset [of i "cs_peers (conf_of f)"] by (auto simp: conf_out_def)
  obtain sc where "conf_lines (conf_out ?st) zero_scan = Inr sc" "sc_state (flushPeer sc) = ?st"
    using conf_lines_out [OF self] by blast
  then show ?thesis
    using parseConf_lines [OF lines] unlines_no_cr [OF lines]
    by (simp add: conf_del_def writeConf_def conf_out_def Let_def)
qed

interpretation conf: peer_store conf_valid conf_key conf_peers conf_put conf_del clean_peer
proof (unfold_locales, goal_cases)
  case (1 f p)
  then show ?case using conf_put_read [of f p] by (auto simp: conf_valid_def)
next
  case (2 f p)
  then show ?case using conf_put_read [of f p] by (auto simp: conf_peers_def conf_of_def)
next
  case (3 f p)
  then show ?case using conf_put_read [of f p] by (auto simp: conf_key_def conf_of_def)
next
  case (4 f i)
  then show ?case using conf_del_read [of f i] by (simp add: conf_valid_def)
next
  case (5 f i)
  then show ?case using conf_del_read [of f i] by (simp add: conf_peers_def conf_of_def map_delete_at)
next
  case (6 f i)
  then show ?case using conf_del_read [of f i] by (simp add: conf_key_def conf_of_def)
qed

end
