(* ===== verification/Wg_Subnet.thy ===== *)
theory Wg_Subnet
  imports Netip
begin

unbundle bit_operations_syntax

text \<open>
  The address allocator of the server administration, \<open>pkg/wgadmin/subnet.go\<close>. Addresses of a
  family are compared by their number \<open>addr_num\<close>; the loop ends because the number of the address
  grows and is bounded by the width of the family.
\<close>

section \<open>Definitions\<close>

definition errSubnetExhausted :: go_error where
  "errSubnetExhausted = GoError ''wgadmin: subnet exhausted'' [ErrSubnetExhausted]"

fun isBroadcast :: "addr \<Rightarrow> prefix \<Rightarrow> bool" where
  "isBroadcast (V4 host) subnet =
     (let m = drop_bit (unat (of_int (pfx_bits subnet) :: u32)) (- 1 :: u32) in host AND m = m)"
| "isBroadcast _ subnet = False"

fun addr_num :: "addr \<Rightarrow> nat" where
  "addr_num (V4 w) = unat w" | "addr_num (V6 w z) = unat w" | "addr_num AddrZero = 0"

fun addr_space :: "addr \<Rightarrow> nat" where
  "addr_space (V4 w) = 2 ^ 32" | "addr_space (V6 w z) = 2 ^ 128" | "addr_space AddrZero = 0"

lemma unat_Suc: "(w :: 'a::len word) + 1 \<noteq> 0 \<Longrightarrow> unat (w + 1) = Suc (unat w)"
  by (metis add.commute unatSuc)

lemma addr_next_num:
  assumes "addr_next a \<noteq> AddrZero"
  shows "addr_num (addr_next a) = Suc (addr_num a)" "addr_space (addr_next a) = addr_space a"
    "addr_num a < addr_space a"
proof -
  show "addr_num (addr_next a) = Suc (addr_num a)" "addr_space (addr_next a) = addr_space a"
    using assms by (cases a; auto simp: unat_Suc split: if_splits)+
  show "addr_num a < addr_space a"
  proof (cases a)
    case (V4 w)
    then show ?thesis using unsigned_less [of w, where 'a = nat] by simp
  next
    case (V6 w z)
    then show ?thesis using unsigned_less [of w, where 'a = nat] by simp
  qed (use assms in simp)
qed

function alloc_loop :: "prefix \<Rightarrow> addr list \<Rightarrow> addr \<Rightarrow> addr option" where
  "alloc_loop subnet used a =
     (if \<not> pfx_contains subnet a then None
      else if is4 a \<and> isBroadcast a subnet then None
      else if a \<notin> set used then Some a
      else (let nxt = addr_next a in
            if \<not> addr_valid nxt \<or> nxt = a then None else alloc_loop subnet used nxt))"
  by pat_completeness auto
termination
  by (relation "measure (\<lambda>(subnet, used, a). addr_space a - addr_num a)")
    (auto simp: addr_valid_def addr_next_num Let_def intro!: diff_less_mono2 dest: addr_next_num(3))

declare alloc_loop.simps [simp del]

definition AllocateClientIP :: "prefix \<Rightarrow> addr \<Rightarrow> addr list \<Rightarrow> addr res" where
  "AllocateClientIP subnet serverAddr taken =
     (if \<not> prefix_valid subnet then Inl (errors_New (''wgadmin: invalid subnet '' @ show_prefix subnet))
      else
        (let used = (if addr_valid serverAddr then [serverAddr] else []) @ taken;
             addr = addr_next (pfx_addr (masked subnet))
         in case alloc_loop subnet used addr of
              Some a \<Rightarrow> Inr a
            | None \<Rightarrow> Inl errSubnetExhausted))"

section \<open>A subnet is an interval\<close>

text \<open>The prefixes that \<open>netip\<close> builds: a length within the family, no zone.\<close>

definition host_bits :: "prefix \<Rightarrow> nat" where
  "host_bits p = nat (bit_len (pfx_addr p)) - nat (pfx_bits p)"

definition lo_num :: "prefix \<Rightarrow> nat" where
  "lo_num p = addr_num (pfx_addr p) div 2 ^ host_bits p * 2 ^ host_bits p"

definition hi_num :: "prefix \<Rightarrow> nat" where
  "hi_num p = lo_num p + (2 ^ host_bits p - 1)"

definition same_family :: "addr \<Rightarrow> addr \<Rightarrow> bool" where
  "same_family a b \<longleftrightarrow> is4 a \<and> is4 b \<or> is6 a \<and> is6 b \<and> \<not> has_zone a \<and> \<not> has_zone b"

lemma same_family_num_eq: "same_family a b \<Longrightarrow> addr_num a = addr_num b \<Longrightarrow> a = b"
  by (cases a; cases b) (auto simp: same_family_def word_eq_iff_unsigned [where 'a = nat])

lemma is6_not_is4: "is6 a \<Longrightarrow> \<not> is4 a"
  by (cases a) auto

lemma same_family_common: "same_family a c \<Longrightarrow> same_family b c \<Longrightarrow> same_family a b"
  by (cases c) (auto simp: same_family_def)

lemma div_eq_interval:
  fixes x y d :: nat
  assumes "0 < d"
  shows "x div d = y div d \<longleftrightarrow> y div d * d \<le> x \<and> x \<le> y div d * d + (d - 1)"
proof
  assume "x div d = y div d"
  moreover have "x div d * d \<le> x" "x < x div d * d + d"
    using assms dividend_less_div_times [of d x] by (simp_all add: add.commute)
  ultimately show "y div d * d \<le> x \<and> x \<le> y div d * d + (d - 1)" using assms by simp
next
  assume h: "y div d * d \<le> x \<and> x \<le> y div d * d + (d - 1)"
  then show "x div d = y div d"
    using assms by (intro div_nat_eqI) (auto simp: algebra_simps)
qed

lemma unat_drop: "unat (drop_bit h (w :: 'a::len word)) = unat w div 2 ^ h"
  unfolding unat_drop_bit_eq by (rule drop_bit_eq_div)

lemma unat_take: "unat (take_bit h (w :: 'a::len word)) = unat w mod 2 ^ h"
  unfolding unsigned_take_bit_eq by (rule take_bit_eq_mod)

lemma word_unat_eq_iff: "(v :: 'a::len word) = w \<longleftrightarrow> unat v = unat w"
  by (rule word_eq_iff_unsigned)

lemma xor_zero_iff: "(v :: 'a::len word) XOR w = 0 \<longleftrightarrow> v = w"
  by (auto simp: bit_eq_iff bit_xor_iff)

lemma drop_xor_iff:
  fixes v w :: "'a::len word"
  shows "drop_bit h v XOR drop_bit h w = 0 \<longleftrightarrow> unat v div 2 ^ h = unat w div 2 ^ h"
proof -
  have "drop_bit h v XOR drop_bit h w = 0 \<longleftrightarrow> drop_bit h v = drop_bit h w" by (rule xor_zero_iff)
  then show ?thesis by (simp only: word_unat_eq_iff [of "drop_bit h v"] unat_drop)
qed

lemma unat_and_not_mask:
  fixes x :: "'a::len word"
  shows "unat (x AND NOT (mask h)) = unat x div 2 ^ h * 2 ^ h"
proof -
  have "x AND NOT (mask h) = x - take_bit h x"
    by (subst disjunctive_diff_eq_and_not) (auto simp: take_bit_eq_mask bit_eq_iff bit_simps)
  moreover have le: "unat (take_bit h x) \<le> unat x" by (simp only: unat_take mod_less_eq_dividend)
  then have "unat (x - take_bit h x) = unat x - unat (take_bit h x)"
    by (simp add: unat_sub word_le_nat_alt)
  ultimately show ?thesis by (simp only: unat_take minus_mod_eq_div_mult)
qed

lemma and_not_mask_0:
  fixes x y :: "'a::len word"
  shows "(x XOR y) AND NOT (mask h) = 0 \<longleftrightarrow> unat x div 2 ^ h = unat y div 2 ^ h"
proof -
  have "(x XOR y) AND NOT (mask h) = 0 \<longleftrightarrow> unat (x XOR y) div 2 ^ h = 0"
    using unat_and_not_mask [of "x XOR y" h] by (simp add: word_unat_eq_iff [of "(x XOR y) AND _"])
  also have "\<dots> \<longleftrightarrow> drop_bit h (x XOR y) = 0"
    by (simp only: word_unat_eq_iff [of "drop_bit h _"] unat_drop unsigned_0)
  finally show ?thesis by (simp only: drop_bit_xor drop_xor_iff)
qed

lemma contains_iff:
  assumes "prefix_ok p"
  shows "pfx_contains p a \<longleftrightarrow> same_family a (pfx_addr p) \<and> lo_num p \<le> addr_num a \<and> addr_num a \<le> hi_num p"
proof -
  have h: "addr_num a div 2 ^ host_bits p = addr_num (pfx_addr p) div 2 ^ host_bits p \<longleftrightarrow>
      lo_num p \<le> addr_num a \<and> addr_num a \<le> hi_num p"
    unfolding lo_num_def hi_num_def by (rule div_eq_interval) simp
  show ?thesis
  proof (cases "pfx_addr p")
    case AddrZero
    then show ?thesis using assms by (simp add: prefix_ok_def)
  next
    case (V4 n)
    then have "host_bits p = 32 - nat (pfx_bits p)" by (simp add: host_bits_def)
    with V4 h assms show ?thesis
      by (cases a) (auto simp: pfx_contains_def drop_xor_iff same_family_def prefix_ok_def)
  next
    case (V6 n z)
    then have "host_bits p = 128 - nat (pfx_bits p)" by (simp add: host_bits_def)
    with V6 h assms show ?thesis
      by (cases a) (auto simp: pfx_contains_def net_mask_def and_not_mask_0 drop_xor_iff same_family_def prefix_ok_def)
  qed
qed

lemma masked_addr:
  assumes "prefix_ok p"
  shows "same_family (pfx_addr (masked p)) (pfx_addr p) \<and> addr_num (pfx_addr (masked p)) = lo_num p"
  using assms
  by (cases "pfx_addr p")
    (auto simp: masked_def prefix_ok_def prefix_from_def same_family_def lo_num_def host_bits_def net_mask_def
      unat_and_not_mask)

lemma and_mask_full:
  fixes x :: "'a::len word"
  assumes "h \<le> LENGTH('a)"
  shows "x AND mask h = mask h \<longleftrightarrow> unat x mod 2 ^ h = 2 ^ h - 1"
proof -
  have m: "unat (mask h :: 'a word) = 2 ^ h - 1"
    using assms uint_mask_eq [of h, where 'a = 'a]
    by (simp add: min_def mask_eq_exp_minus_1 nat_diff_distrib nat_power_eq flip: nat_uint_eq)
  have "x AND mask h = take_bit h x" by (simp add: take_bit_eq_mask)
  then have "x AND mask h = mask h \<longleftrightarrow> unat (take_bit h x) = unat (mask h :: 'a word)"
    by (simp only: word_unat_eq_iff [of "take_bit h x"])
  then show ?thesis by (simp only: m unat_take)
qed

lemma broadcast_iff:
  assumes "prefix_ok p" and "pfx_contains p a" and "is4 a"
  shows "isBroadcast a p \<longleftrightarrow> addr_num a = hi_num p"
proof -
  obtain n w where nw: "pfx_addr p = V4 n" "a = V4 w"
    using assms by (cases a; cases "pfx_addr p") (auto simp: pfx_contains_def)
  define b where "b = nat (pfx_bits p)"
  have b: "b \<le> 32" "pfx_bits p = int b"
    using assms(1) nw by (auto simp: prefix_ok_def prefix_valid_def b_def)
  then have ub: "unat (of_int (pfx_bits p) :: u32) = b"
    by (simp add: unsigned_of_nat take_bit_nat_eq_self)
  have "drop_bit b (- 1 :: u32) = mask (32 - b)"
    using b(1) by (auto simp: bit_eq_iff bit_simps)
  then have bc: "isBroadcast a p \<longleftrightarrow> unat w mod 2 ^ (32 - b) = 2 ^ (32 - b) - 1"
    using nw by (simp add: and_mask_full ub Let_def)
  have hb: "host_bits p = 32 - b" using nw b by (simp add: host_bits_def)
  have "unat w div 2 ^ (32 - b) * 2 ^ (32 - b) = lo_num p"
    using contains_iff [OF assms(1), of a] assms(2) nw hb
      div_eq_interval [of "2 ^ (32 - b)" "unat w" "unat n"]
    by (simp add: lo_num_def hi_num_def)
  then have "unat w = lo_num p + unat w mod 2 ^ (32 - b)"
    by (metis div_mult_mod_eq)
  then have "unat w = lo_num p + (2 ^ (32 - b) - 1) \<longleftrightarrow> unat w mod 2 ^ (32 - b) = 2 ^ (32 - b) - 1"
    by (metis add_left_cancel)
  then show ?thesis unfolding bc hi_num_def hb by (simp add: nw)
qed

section \<open>The allocator\<close>

text \<open>A host address: an address of the subnet that is not its first one and, in IPv4, not its last.\<close>

definition is_host :: "prefix \<Rightarrow> addr \<Rightarrow> bool" where
  "is_host p a \<longleftrightarrow> pfx_contains p a \<and> (\<exists>b. pfx_contains p b \<and> addr_num b < addr_num a) \<and>
     (is4 a \<longrightarrow> (\<exists>b. pfx_contains p b \<and> addr_num a < addr_num b))"

fun addr_of_num :: "addr \<Rightarrow> nat \<Rightarrow> addr" where
  "addr_of_num (V4 _) n = V4 (of_nat n)" | "addr_of_num (V6 _ z) n = V6 (of_nat n) z"
| "addr_of_num AddrZero n = AddrZero"

lemma addr_num_less: "a \<noteq> AddrZero \<Longrightarrow> addr_num a < addr_space a"
proof (cases a)
  case (V4 w)
  then show ?thesis using unsigned_less [of w, where 'a = nat] by simp
next
  case (V6 w z)
  then show ?thesis using unsigned_less [of w, where 'a = nat] by simp
qed simp

lemma hi_num_less:
  assumes "prefix_ok p"
  shows "hi_num p < addr_space (pfx_addr p)"
proof -
  let ?a = "pfx_addr p" let ?h = "host_bits p"
  have a: "?a \<noteq> AddrZero" using assms by (simp add: prefix_ok_def)
  define b where "b = nat (bit_len ?a) - ?h"
  have b: "addr_space ?a = 2 ^ b * 2 ^ ?h"
    using a by (cases ?a) (simp_all add: b_def host_bits_def flip: power_add)
  have "addr_num ?a div 2 ^ ?h < 2 ^ b"
    using addr_num_less [OF a] b by (simp add: less_mult_imp_div_less)
  then have "Suc (addr_num ?a div 2 ^ ?h) * 2 ^ ?h \<le> 2 ^ b * 2 ^ ?h"
    by (intro mult_le_mono1) simp
  moreover have "q * x + (x - 1) < Suc q * x" if "0 < x" for q x :: nat using that by simp
  ultimately show ?thesis unfolding b hi_num_def lo_num_def by (meson less_le_trans zero_less_numeral zero_less_power)
qed

lemma contains_num:
  assumes "prefix_ok p" and "lo_num p \<le> n" and "n \<le> hi_num p"
  shows "pfx_contains p (addr_of_num (pfx_addr p) n)" "addr_num (addr_of_num (pfx_addr p) n) = n"
proof -
  have n: "n < addr_space (pfx_addr p)" using hi_num_less [OF assms(1)] assms(3) by simp
  then show e: "addr_num (addr_of_num (pfx_addr p) n) = n"
    using assms(1) by (cases "pfx_addr p") (simp_all add: unsigned_of_nat take_bit_nat_eq_self prefix_ok_def)
  show "pfx_contains p (addr_of_num (pfx_addr p) n)"
    using assms(1) unfolding contains_iff [OF assms(1)] e
    using assms by (cases "pfx_addr p") (auto simp: same_family_def prefix_ok_def)
qed

lemma is_host_iff:
  assumes "prefix_ok p"
  shows "is_host p a \<longleftrightarrow> same_family a (pfx_addr p) \<and> lo_num p < addr_num a \<and> addr_num a \<le> hi_num p \<and>
    (is4 a \<longrightarrow> addr_num a < hi_num p)"
proof -
  have "lo_num p \<le> hi_num p" unfolding hi_num_def by (rule le_add1)
  note lo = contains_num [OF assms order_refl this] and hi = contains_num [OF assms this order_refl]
  have 1: "(\<exists>b. pfx_contains p b \<and> addr_num b < addr_num a) \<longleftrightarrow> lo_num p < addr_num a"
  proof
    assume "lo_num p < addr_num a"
    with lo show "\<exists>b. pfx_contains p b \<and> addr_num b < addr_num a" by (intro exI [of _ "addr_of_num (pfx_addr p) (lo_num p)"]) simp
  qed (auto simp: contains_iff [OF assms])
  have 2: "(\<exists>b. pfx_contains p b \<and> addr_num a < addr_num b) \<longleftrightarrow> addr_num a < hi_num p"
  proof
    assume "addr_num a < hi_num p"
    with hi show "\<exists>b. pfx_contains p b \<and> addr_num a < addr_num b" by (intro exI [of _ "addr_of_num (pfx_addr p) (hi_num p)"]) simp
  qed (auto simp: contains_iff [OF assms])
  show ?thesis
    unfolding is_host_def 1 2 unfolding contains_iff [OF assms] by auto
qed

lemma addr_next_family: "addr_next a \<noteq> AddrZero \<Longrightarrow> same_family a b \<Longrightarrow> same_family (addr_next a) b"
  by (cases a) (auto simp: same_family_def split: if_splits)

lemma addr_next_zero: "a \<noteq> AddrZero \<Longrightarrow> addr_next a = AddrZero \<Longrightarrow> Suc (addr_num a) = addr_space a"
proof (cases a)
  case (V4 w)
  assume "addr_next a = AddrZero"
  with V4 have "w = - 1" by (simp add: add_eq_0_iff2 split: if_splits)
  with V4 show ?thesis by (simp add: unsigned_minus_1_eq_mask mask_eq_exp_minus_1)
next
  case (V6 w z)
  assume "addr_next a = AddrZero"
  with V6 have "w = - 1" by (simp add: add_eq_0_iff2 split: if_splits)
  with V6 show ?thesis by (simp add: unsigned_minus_1_eq_mask mask_eq_exp_minus_1)
qed simp

text \<open>The loop from an address of the subnet's family above the network address.\<close>

lemma alloc_loop_spec:
  assumes "prefix_ok p" and "same_family a (pfx_addr p)" and "lo_num p < addr_num a"
  shows "case alloc_loop p used a of
      Some x \<Rightarrow> is_host p x \<and> x \<notin> set used \<and> addr_num a \<le> addr_num x \<and>
        (\<forall>b. is_host p b \<and> addr_num a \<le> addr_num b \<and> addr_num b < addr_num x \<longrightarrow> b \<in> set used)
    | None \<Rightarrow> \<forall>b. is_host p b \<and> addr_num a \<le> addr_num b \<longrightarrow> b \<in> set used"
  using assms(2,3)
proof (induction "addr_space a - addr_num a" arbitrary: a rule: less_induct)
  case less
  note ok = assms(1) and host = is_host_iff [OF assms(1)] and cont = contains_iff [OF assms(1)]
  show ?case
  proof (cases "is_host p a")
    case False
    then have "alloc_loop p used a = None"
      using less.prems cont broadcast_iff [OF ok] by (auto simp: alloc_loop.simps [of p used a] host)
    moreover have "\<not> is_host p b" if "addr_num a \<le> addr_num b" for b
      using False less.prems that by (auto simp: host same_family_def dest: is6_not_is4)
    ultimately show ?thesis by auto
  next
    case True
    then have step: "alloc_loop p used a = (if a \<notin> set used then Some a else
        if addr_next a = AddrZero \<or> addr_next a = a then None else alloc_loop p used (addr_next a))"
      using less.prems cont broadcast_iff [OF ok]
      by (subst alloc_loop.simps) (auto simp: host addr_valid_def Let_def)
    have least: "b = a \<or> addr_num (Suc_a) \<le> addr_num b"
      if "is_host p b" "addr_num a \<le> addr_num b" "addr_num Suc_a = Suc (addr_num a)" for b Suc_a
      using that same_family_num_eq [of b a] same_family_common [OF _ less.prems(1), of b]
      by (auto simp: host le_less Suc_le_eq)
    show ?thesis
    proof (cases "a \<in> set used")
      case False
      with True show ?thesis by (auto simp: step)
    next
      case used: True
      show ?thesis
      proof (cases "addr_next a = AddrZero")
        case z: True
        have "addr_num b = addr_num a" if "is_host p b" "addr_num a \<le> addr_num b" for b
        proof -
          have "a \<noteq> AddrZero" using less.prems by (auto simp: same_family_def)
          from addr_next_zero [OF this z] have "hi_num p \<le> addr_num a"
            using hi_num_less [OF ok] less.prems(1) by (cases a; cases "pfx_addr p") (auto simp: same_family_def)
          then show ?thesis using that by (simp add: host)
        qed
        then have "b = a" if "is_host p b" "addr_num a \<le> addr_num b" for b
          using that same_family_num_eq [of b a] same_family_common [OF _ less.prems(1), of b] by (auto simp: host)
        then show ?thesis using z used by (auto simp: step)
      next
        case nz: False
        note nx = addr_next_num [OF nz]
        have ne: "addr_next a \<noteq> a" using nx(1) by auto
        have ih: "case alloc_loop p used (addr_next a) of
            Some x \<Rightarrow> is_host p x \<and> x \<notin> set used \<and> addr_num (addr_next a) \<le> addr_num x \<and>
              (\<forall>b. is_host p b \<and> addr_num (addr_next a) \<le> addr_num b \<and> addr_num b < addr_num x \<longrightarrow> b \<in> set used)
          | None \<Rightarrow> \<forall>b. is_host p b \<and> addr_num (addr_next a) \<le> addr_num b \<longrightarrow> b \<in> set used"
          using less.prems nx addr_next_family [OF nz] by (intro less.hyps) auto
        then show ?thesis
          using least [OF _ _ nx(1)] used nz ne nx(1) by (cases "alloc_loop p used (addr_next a)") (auto simp: step)
      qed
    qed
  qed
qed


lemma AllocateClientIP_spec:
  assumes "prefix_ok subnet"
  shows "(\<forall>a. AllocateClientIP subnet serverAddr taken = Inr a \<longrightarrow>
      is_host subnet a \<and> a \<noteq> serverAddr \<and> a \<notin> set taken \<and>
      (\<forall>b. is_host subnet b \<and> addr_num b < addr_num a \<longrightarrow> b = serverAddr \<or> b \<in> set taken)) \<and>
    (is_err (AllocateClientIP subnet serverAddr taken) \<longleftrightarrow>
      (\<forall>b. is_host subnet b \<longrightarrow> b = serverAddr \<or> b \<in> set taken)) \<and>
    (\<forall>e. AllocateClientIP subnet serverAddr taken = Inl e \<longrightarrow> errors_Is e ErrSubnetExhausted)"
proof -
  let ?m = "pfx_addr (masked subnet)" let ?a = "addr_next ?m"
  let ?used = "(if addr_valid serverAddr then [serverAddr] else []) @ taken"
  note m = masked_addr [OF assms] and host = is_host_iff [OF assms]
  have valid: "prefix_valid subnet" using assms by (simp add: prefix_ok_def)
  have hv: "b \<noteq> AddrZero" if "is_host subnet b" for b using that by (auto simp: host same_family_def)
  have spec: "case alloc_loop subnet ?used ?a of
      Some x \<Rightarrow> is_host subnet x \<and> x \<notin> set ?used \<and>
        (\<forall>b. is_host subnet b \<and> addr_num b < addr_num x \<longrightarrow> b \<in> set ?used)
    | None \<Rightarrow> \<forall>b. is_host subnet b \<longrightarrow> b \<in> set ?used"
  proof (cases "?a = AddrZero")
    case True
    then have "alloc_loop subnet ?used ?a = None" by (subst alloc_loop.simps) (simp add: pfx_contains_def split: addr.split)
    moreover have "hi_num subnet \<le> lo_num subnet"
      using addr_next_zero [of ?m] True m hi_num_less [OF assms]
      by (cases "pfx_addr subnet"; cases ?m) (auto simp: same_family_def)
    then have "\<not> is_host subnet b" for b by (auto simp: host)
    ultimately show ?thesis by simp
  next
    case False
    then have "lo_num subnet < addr_num ?a" "same_family ?a (pfx_addr subnet)"
      using m addr_next_num [OF False] addr_next_family [OF False] by auto
    moreover have "addr_num ?a \<le> addr_num b" if "is_host subnet b" for b
      using that m addr_next_num [OF False] by (simp add: host)
    ultimately show ?thesis
      using alloc_loop_spec [OF assms, of ?a ?used] by (auto split: option.splits)
  qed
  show ?thesis
    using spec hv valid
    by (auto simp: AllocateClientIP_def Let_def errSubnetExhausted_def errors_Is_def addr_valid_def is_err_def
        split: option.splits if_splits)
qed


lemma AllocateClientIP_ok:
  assumes "prefix_ok subnet" and "AllocateClientIP subnet serverAddr taken = Inr a"
  shows "is_host subnet a \<and> a \<noteq> serverAddr \<and> a \<notin> set taken"
  using AllocateClientIP_spec [OF assms(1), of serverAddr taken] assms(2) by blast

text \<open>C18: The allocator returns the lowest free host address. For a valid subnet and any lists of
  taken addresses: a returned address is a host address of the subnet (not the network address
  and, in IPv4, not the broadcast address), is neither the server's nor taken, and every host
  address below it is used; and \<open>ErrSubnetExhausted\<close> is returned exactly when every host address
  is used.\<close>

theorem allocate_lowest_free:
  assumes "prefix_ok subnet"
  shows "(\<forall>a. AllocateClientIP subnet serverAddr taken = Inr a \<longrightarrow>
      is_host subnet a \<and> a \<noteq> serverAddr \<and> a \<notin> set taken \<and>
      (\<forall>b. is_host subnet b \<and> addr_num b < addr_num a \<longrightarrow> b = serverAddr \<or> b \<in> set taken)) \<and>
    (is_err (AllocateClientIP subnet serverAddr taken) \<longleftrightarrow>
      (\<forall>b. is_host subnet b \<longrightarrow> b = serverAddr \<or> b \<in> set taken)) \<and>
    (\<forall>e. AllocateClientIP subnet serverAddr taken = Inl e \<longrightarrow> errors_Is e ErrSubnetExhausted)"
  using assms by (rule AllocateClientIP_spec)

definition demo_subnet :: prefix where
  "demo_subnet = prefix_from (V4 0x0A070000) 29"

theorem allocate_lowest_free_witness:
  "prefix_ok demo_subnet \<and>
   AllocateClientIP demo_subnet (V4 0x0A070001) [V4 0x0A070002, V4 0x0A070004] =
     Inr (V4 0x0A070003) \<and>
   is_host demo_subnet (V4 0x0A070003)"
proof -
  have ok: "prefix_ok demo_subnet"
    by (simp add: demo_subnet_def prefix_ok_def prefix_from_def prefix_valid_def)
  have r: "AllocateClientIP demo_subnet (V4 0x0A070001) [V4 0x0A070002, V4 0x0A070004] =
     Inr (V4 0x0A070003)" by code_simp
  show ?thesis using allocate_lowest_free [OF ok] ok r by blast
qed

section \<open>Prefixes of parsed text\<close>

lemma prefix_from_ok: "a \<noteq> AddrZero \<Longrightarrow> 0 \<le> b \<Longrightarrow> b \<le> bit_len a \<Longrightarrow> prefix_ok (prefix_from a b)"
  by (cases a) (auto simp: prefix_ok_def prefix_from_def prefix_valid_def)

end
