(* ===== verification/Wg_Profile.thy ===== *)
theory Wg_Profile
  imports Netip
begin

text \<open>
  The client profile that the server administration hands out and share URLs carry,
  \<open>Profile\<close> of \<open>pkg/wgshare/share.go\<close>, with its validation.
\<close>

record profile =
  pf_Label :: string
  pf_ServerPublicKey :: string
  pf_ClientPrivateKey :: string
  pf_PresharedKey :: string
  pf_Endpoint :: string
  pf_Address :: prefix
  pf_AllowedIPs :: "prefix list"
  pf_DNS :: "addr list"
  pf_MTU :: int
  pf_PersistentKeepalive :: duration

definition invalid_url :: "string \<Rightarrow> go_error" where
  "invalid_url msg = GoError (''wgshare: invalid share URL'' @ msg) [ErrInvalidURL]"

definition profile_Validate :: "profile \<Rightarrow> go_error option" where
  "profile_Validate p =
     (if pf_ServerPublicKey p = [] then Some (invalid_url '': ServerPublicKey is required'')
      else if pf_ClientPrivateKey p = [] then Some (invalid_url '': ClientPrivateKey is required'')
      else if pf_Endpoint p = [] then Some (invalid_url '': Endpoint is required'')
      else if \<not> prefix_valid (pf_Address p) then Some (invalid_url '': Address is required'')
      else None)"

end
