(* ===== verification/Wg_Admin.thy ===== *)
theory Wg_Admin
  imports Wg_Keys Wg_Peers Wg_Subnet Wg_Profile
begin

text \<open>
  The server administration, \<open>pkg/wgadmin/server.go\<close>: \<open>Provision\<close>, \<open>Revoke\<close> and \<open>List\<close> on the
  configuration file. The mutex makes each of them one step, so an operation is a function of the
  world: the file and the texts given to \<open>wg syncconf\<close>. The outcomes of the system calls, the random
  bytes and the result of the synchronisation command are arguments. A failed write leaves the
  file as it was, because the new text goes to a temporary file that is renamed at the end.
\<close>

section \<open>Definitions\<close>

type_synonym sync_command = "string \<Rightarrow> string \<Rightarrow> go_error option"

record admin_server =
  as_ConfPath :: string
  as_Interface :: string
  as_Subnet :: prefix
  as_ServerAddress :: addr
  as_Endpoint :: string
  as_AllowedIPs :: "prefix list"
  as_DNS :: "addr list"
  as_MTU :: int
  as_PersistentKeepalive :: duration
  as_SyncCommand :: "sync_command option"

definition NewServer :: "sync_command \<Rightarrow> admin_server \<Rightarrow> admin_server" where
  "NewServer realSyncConf s0 =
     (let s1 = (if \<not> prefix_valid (as_Subnet s0) then s0\<lparr>as_Subnet := prefix_from (V4 0x0A070000) 24\<rparr> else s0);
          s2 = (if \<not> addr_valid (as_ServerAddress s1)
                then s1\<lparr>as_ServerAddress := addr_next (pfx_addr (masked (as_Subnet s1)))\<rparr> else s1);
          s3 = (if length (as_AllowedIPs s2) = 0 then s2\<lparr>as_AllowedIPs := [prefix_from (V4 0) 0]\<rparr> else s2);
          s4 = (if as_SyncCommand s3 = None then s3\<lparr>as_SyncCommand := Some realSyncConf\<rparr> else s3)
      in s4)"

text \<open>The world: the contents of \<open>ConfPath\<close> and the calls of the synchronisation command.\<close>

record admin_world =
  aw_file :: string
  aw_synced :: "(string \<times> string) list"

text \<open>The outcomes of the system calls of an operation: opening and reading the file, creating,
  writing, flushing and closing the temporary file, renaming it.\<close>

record admin_io =
  io_open :: "go_error option"
  io_read :: "go_error option"
  io_temp :: "go_error option"
  io_write :: "go_error option"
  io_fsync :: "go_error option"
  io_close :: "go_error option"
  io_rename :: "go_error option"

definition io_ok :: admin_io where
  "io_ok = \<lparr>io_open = None, io_read = None, io_temp = None, io_write = None, io_fsync = None, io_close = None,
            io_rename = None\<rparr>"

definition readState :: "admin_io \<Rightarrow> admin_server \<Rightarrow> admin_world \<Rightarrow> conf_state res" where
  "readState io s w =
     (if as_ConfPath s = [] then Inl (errors_New ''wgadmin: ConfPath is required'')
      else case io_open io of
        Some err \<Rightarrow> Inl (wrapf ''wgadmin: open conf: '' err)
      | None \<Rightarrow>
          bind_res (parseConf (aw_file w) (io_read io)) (\<lambda>st.
            if cs_privateKey st = [] then Inl (errors_New ''wgadmin: [Interface] PrivateKey not found in conf'')
            else Inr st))"

definition writeState :: "admin_io \<Rightarrow> conf_state \<Rightarrow> admin_world \<Rightarrow> go_error option \<times> admin_world" where
  "writeState io st w =
     (case io_temp io of
        Some err \<Rightarrow> (Some (wrapf ''wgadmin: temp file: '' err), w)
      | None \<Rightarrow>
     (case io_write io of
        Some err \<Rightarrow> (Some (wrapf ''wgadmin: write conf: '' err), w)
      | None \<Rightarrow>
     (case io_fsync io of
        Some err \<Rightarrow> (Some (wrapf ''wgadmin: fsync: '' err), w)
      | None \<Rightarrow>
     (case io_close io of
        Some err \<Rightarrow> (Some (wrapf ''wgadmin: close tmp: '' err), w)
      | None \<Rightarrow>
     (case io_rename io of
        Some err \<Rightarrow> (Some (wrapf ''wgadmin: rename: '' err), w)
      | None \<Rightarrow> (None, w\<lparr>aw_file := writeConf st\<rparr>))))))"

definition strippedPeer :: "admin_peer \<Rightarrow> string list" where
  "strippedPeer p =
     [[], ''[Peer]'', ''PublicKey = '' @ ap_PublicKey p] @
     (if ap_PresharedKey p \<noteq> [] then [''PresharedKey = '' @ ap_PresharedKey p] else []) @
     (if length (ap_AllowedIPs p) > 0
      then [''AllowedIPs = '' @ str_join '', '' (map show_prefix (ap_AllowedIPs p))] else [])"

definition strippedConf :: "conf_state \<Rightarrow> string" where
  "strippedConf st = unlines
     ([''[Interface]'', ''PrivateKey = '' @ cs_privateKey st] @
      filter (\<lambda>line. has_prefix (to_lower (trim_space line)) ''listenport'') (cs_header st) @
      concat (map strippedPeer (cs_peers st)))"

definition admin_sync :: "admin_server \<Rightarrow> conf_state \<Rightarrow> admin_world \<Rightarrow> go_error option \<times> admin_world" where
  "admin_sync s st w =
     (case as_SyncCommand s of
        None \<Rightarrow> (Some nil_deref, w)
      | Some cmd \<Rightarrow>
          (map_option (wrapf ''wgadmin: wg syncconf: '') (cmd (as_Interface s) (strippedConf st)),
           w\<lparr>aw_synced := aw_synced w @ [(as_Interface s, strippedConf st)]\<rparr>))"

definition existingPeerAddrs :: "admin_peer list \<Rightarrow> addr list" where
  "existingPeerAddrs ps = concat (map (\<lambda>p. map pfx_addr (filter is_single_ip (ap_AllowedIPs p))) ps)"

definition admin_List :: "admin_io \<Rightarrow> admin_server \<Rightarrow> admin_world \<Rightarrow> admin_peer list res" where
  "admin_List io s w = bind_res (readState io s w) (\<lambda>st. Inr (map (\<lambda>p. p\<lparr>ap_rawLines := []\<rparr>) (cs_peers st)))"

definition errPeerExists :: "string \<Rightarrow> go_error" where
  "errPeerExists name = GoError (''wgadmin: peer already exists: '' @ quoted name) [ErrPeerExists]"
definition errPeerNotFound :: "string \<Rightarrow> go_error" where
  "errPeerNotFound name = GoError (''wgadmin: peer not found: '' @ quoted name) [ErrPeerNotFound]"

text \<open>The part of \<open>Provision\<close> before the file is written: the keys, the address, the new peer and the
  profile.\<close>

record crypto_env =
  cr_x25519 :: scalar_mult
  cr_basepoint :: bytes
  cr_b64Err :: "string \<Rightarrow> go_error"
  cr_keyBytes :: "bytes res"
  cr_pskBytes :: "bytes res"

definition provision_plan ::
  "crypto_env \<Rightarrow> admin_server \<Rightarrow> string \<Rightarrow> conf_state \<Rightarrow> (admin_peer \<times> profile) res" where
  "provision_plan cr s name st =
     (if \<exists>p \<in> set (cs_peers st). ap_Name p = name then Inl (errPeerExists name)
      else
        bind_res (wrap_err ''wgadmin: derive server public: ''
                    (PublicKeyFor (cr_b64Err cr) (cr_x25519 cr) (cr_basepoint cr) (cs_privateKey st))) (\<lambda>serverPub.
        bind_res (GenerateKeypair (cr_x25519 cr) (cr_basepoint cr) (cr_keyBytes cr)) (\<lambda>cliKey.
        bind_res (GeneratePresharedKey (cr_pskBytes cr)) (\<lambda>psk.
        bind_res (AllocateClientIP (as_Subnet s) (as_ServerAddress s) (existingPeerAddrs (cs_peers st))) (\<lambda>a.
          Inr (\<lparr>ap_Name = name, ap_PublicKey = kp_Public cliKey, ap_PresharedKey = psk,
                ap_AllowedIPs = [prefix_from a (bit_len a)], ap_rawLines = []\<rparr>,
               \<lparr>pf_Label = name, pf_ServerPublicKey = serverPub, pf_ClientPrivateKey = kp_Private cliKey,
                pf_PresharedKey = psk, pf_Endpoint = as_Endpoint s,
                pf_Address = prefix_from a (pfx_bits (as_Subnet s)), pf_AllowedIPs = as_AllowedIPs s,
                pf_DNS = as_DNS s, pf_MTU = as_MTU s, pf_PersistentKeepalive = as_PersistentKeepalive s\<rparr>))))))"

definition Provision ::
  "admin_io \<Rightarrow> crypto_env \<Rightarrow> admin_server \<Rightarrow> string \<Rightarrow> admin_world \<Rightarrow> profile res \<times> admin_world" where
  "Provision io cr s name w =
     (if name = [] then (Inl (errors_New ''wgadmin: peer name is required''), w)
      else case readState io s w of
        Inl err \<Rightarrow> (Inl err, w)
      | Inr st \<Rightarrow>
          (case provision_plan cr s name st of
             Inl err \<Rightarrow> (Inl err, w)
           | Inr (newPeer, prof) \<Rightarrow>
               (let st' = st\<lparr>cs_peers := cs_peers st @ [newPeer]\<rparr> in
                case writeState io st' w of
                  (Some err, w1) \<Rightarrow> (Inl err, w1)
                | (None, w1) \<Rightarrow>
                    (case admin_sync s st' w1 of
                       (Some err, w2) \<Rightarrow> (Inl err, w2)
                     | (None, w2) \<Rightarrow> (Inr prof, w2)))))"

definition Revoke ::
  "admin_io \<Rightarrow> admin_server \<Rightarrow> string \<Rightarrow> admin_world \<Rightarrow> go_error option \<times> admin_world" where
  "Revoke io s name w =
     (if name = [] then (Some (errors_New ''wgadmin: peer name is required''), w)
      else case readState io s w of
        Inl err \<Rightarrow> (Some err, w)
      | Inr st \<Rightarrow>
          (case find_index (\<lambda>p. ap_Name p = name) (cs_peers st) of
             None \<Rightarrow> (Some (errPeerNotFound name), w)
           | Some idx \<Rightarrow>
               (let st' = st\<lparr>cs_peers := delete_at idx (cs_peers st)\<rparr> in
                case writeState io st' w of
                  (Some err, w1) \<Rightarrow> (Some err, w1)
                | (None, w1) \<Rightarrow> admin_sync s st' w1)))"

section \<open>What the operations do to the file\<close>

lemma readState_InrD:
  assumes "readState io s w = Inr st"
  shows "parseConf (aw_file w) (io_read io) = Inr st" "cs_privateKey st \<noteq> []"
  using assms by (auto simp: readState_def bind_res_Inr_iff split: if_splits option.splits)

lemma parseConf_no_read_err: "parseConf f e = Inr st \<Longrightarrow> parseConf f None = Inr st"
  by (auto simp: parseConf_def bind_res_Inr_iff split: prod.splits option.splits if_splits)

lemma readState_conf:
  assumes "readState io s w = Inr st"
  shows "conf_of (aw_file w) = st" "conf_key (aw_file w) \<noteq> []"
proof -
  have "parseConf (aw_file w) None = Inr st" using readState_InrD(1) [OF assms] by (rule parseConf_no_read_err)
  then show "conf_of (aw_file w) = st" by (simp add: conf_of_def)
  then show "conf_key (aw_file w) \<noteq> []" using readState_InrD(2) [OF assms] by (simp add: conf_key_def)
qed

lemma writeState_file:
  "writeState io st w = (e, w') \<Longrightarrow> (e \<noteq> None \<longrightarrow> w' = w) \<and> (e = None \<longrightarrow> w' = w\<lparr>aw_file := writeConf st\<rparr>)"
  by (auto simp: writeState_def split: option.splits)

lemma admin_sync_file: "aw_file (snd (admin_sync s st w)) = aw_file w"
  by (simp add: admin_sync_def split: option.split)

text \<open>After \<open>Provision\<close> the file is the old one or has the planned peer appended; it is the old one
  unless the write succeeded.\<close>

lemma Provision_file:
  assumes "Provision io cr s name w = (r, w')"
  shows "(is_err r \<and> w' = w) \<or>
    (\<exists>st p prof. readState io s w = Inr st \<and> provision_plan cr s name st = Inr (p, prof) \<and>
       aw_file w' = conf_put p (aw_file w) \<and> (r = Inr prof \<or> is_err r))"
proof (cases "name = [] \<or> is_err (readState io s w)")
  case True
  with assms show ?thesis by (auto simp: Provision_def is_err_def split: if_splits sum.splits)
next
  case False
  then obtain st where st: "readState io s w = Inr st" by (auto simp: is_err_def split: sum.splits)
  show ?thesis
  proof (cases "provision_plan cr s name st")
    case (Inl e)
    with assms st False show ?thesis by (auto simp: Provision_def)
  next
    case (Inr pp)
    obtain p prof where pp: "pp = (p, prof)" by fastforce
    define st' where "st' = st\<lparr>cs_peers := cs_peers st @ [p]\<rparr>"
    obtain e1 w1 where w1: "writeState io st' w = (e1, w1)" by fastforce
    obtain e2 w2 where w2: "admin_sync s st' w1 = (e2, w2)" by fastforce
    have f2: "aw_file w2 = aw_file w1" using admin_sync_file [of s st' w1] w2 by simp
    have put: "writeConf st' = conf_put p (aw_file w)"
      using readState_conf [OF st] by (simp add: conf_put_def st'_def Let_def)
    show ?thesis
      using assms st Inr pp w1 w2 f2 put writeState_file [OF w1] False
      by (cases e1; cases e2) (auto simp: Provision_def st'_def [symmetric] Let_def)
  qed
qed

lemma Revoke_file:
  assumes "Revoke io s name w = (e, w')"
  shows "(e \<noteq> None \<and> w' = w) \<or>
    (\<exists>st i. readState io s w = Inr st \<and> find_index (\<lambda>p. ap_Name p = name) (cs_peers st) = Some i \<and>
       aw_file w' = conf_del i (aw_file w))"
proof (cases "name = [] \<or> is_err (readState io s w)")
  case True
  with assms show ?thesis by (auto simp: Revoke_def is_err_def split: if_splits sum.splits)
next
  case False
  then obtain st where st: "readState io s w = Inr st" by (auto simp: is_err_def split: sum.splits)
  show ?thesis
  proof (cases "find_index (\<lambda>p. ap_Name p = name) (cs_peers st)")
    case None
    with assms st False show ?thesis by (auto simp: Revoke_def simp del: find_index_None)
  next
    case (Some i)
    define st' where "st' = st\<lparr>cs_peers := delete_at i (cs_peers st)\<rparr>"
    obtain e1 w1 where w1: "writeState io st' w = (e1, w1)" by fastforce
    have del: "writeConf st' = conf_del i (aw_file w)"
      using readState_conf [OF st] by (simp add: conf_del_def st'_def Let_def)
    show ?thesis
      using assms st Some w1 del writeState_file [OF w1] False admin_sync_file [of s st' w1]
      by (cases e1) (auto simp: Revoke_def st'_def [symmetric] Let_def)
  qed
qed

lemma find_index_last_name:
  assumes "find_index (\<lambda>p. f p = n) xs = Some i" and "map f xs = map f (ys @ [y])" and "\<forall>q \<in> set ys. f q \<noteq> n"
  shows "i = length ys"
proof -
  have i: "i < length xs" "f (xs ! i) = n" using find_index_Some [OF assms(1)] by auto
  have len: "length xs = Suc (length ys)" using assms(2) by (metis length_append_singleton length_map)
  have "f (xs ! j) \<noteq> n" if "j < length ys" for j
    using arg_cong [OF assms(2), of "\<lambda>l. l ! j"] that len assms(3) by (simp add: nth_append)
  with i len show ?thesis by (metis less_antisym)
qed

section \<open>The planned peer\<close>

text \<open>What the code relies on from the curve and the random source: results of 32 bytes.\<close>

definition crypto_ok :: "crypto_env \<Rightarrow> bool" where
  "crypto_ok cr \<longleftrightarrow> (\<forall>sk pt pk. cr_x25519 cr sk pt = Inr pk \<longrightarrow> length pk = 32) \<and>
     (\<forall>r. cr_keyBytes cr = Inr r \<longrightarrow> length r = 32) \<and> (\<forall>r. cr_pskBytes cr = Inr r \<longrightarrow> length r = 32)"

lemma clean_key_b64: "length bs = 32 \<Longrightarrow> clean_key (b64_encode StdEncoding bs)"
proof -
  assume l: "length bs = 32"
  show ?thesis using l b64_not_space by (auto simp: clean_key_def length_b64_encode)
qed

lemma existing_strip: "existingPeerAddrs (map strip_raw ps) = existingPeerAddrs ps"
  by (simp add: existingPeerAddrs_def strip_raw_def comp_def)

lemma existing_conf: "existingPeerAddrs (conf_peers f) = existingPeerAddrs (cs_peers (conf_of f))"
  by (simp add: conf_peers_def existing_strip)

lemma names_strip: "map ap_Name (map strip_raw ps) = map ap_Name ps"
  by (simp add: strip_raw_def)

lemma plan_InrD:
  assumes "provision_plan cr s name st = Inr (p, prof)"
  obtains serverPub r pk r2 a where
    "\<forall>q \<in> set (cs_peers st). ap_Name q \<noteq> name"
    "PublicKeyFor (cr_b64Err cr) (cr_x25519 cr) (cr_basepoint cr) (cs_privateKey st) = Inr serverPub"
    "cr_keyBytes cr = Inr r" "cr_x25519 cr (clamp r) (cr_basepoint cr) = Inr pk" "cr_pskBytes cr = Inr r2"
    "AllocateClientIP (as_Subnet s) (as_ServerAddress s) (existingPeerAddrs (cs_peers st)) = Inr a"
    "p = \<lparr>ap_Name = name, ap_PublicKey = b64_encode StdEncoding pk, ap_PresharedKey = b64_encode StdEncoding r2,
          ap_AllowedIPs = [prefix_from a (bit_len a)], ap_rawLines = []\<rparr>"
    "prof = \<lparr>pf_Label = name, pf_ServerPublicKey = serverPub, pf_ClientPrivateKey = b64_encode StdEncoding (clamp r),
       pf_PresharedKey = b64_encode StdEncoding r2, pf_Endpoint = as_Endpoint s,
       pf_Address = prefix_from a (pfx_bits (as_Subnet s)), pf_AllowedIPs = as_AllowedIPs s,
       pf_DNS = as_DNS s, pf_MTU = as_MTU s, pf_PersistentKeepalive = as_PersistentKeepalive s\<rparr>"
  using assms
  by (auto simp: provision_plan_def bind_res_Inr_iff GeneratePresharedKey_def GenerateKeypair_def Let_def split: if_splits)

text \<open>The abstract effect: the new peer is readable, its name and address are new, its address is a
  free host address of the subnet, and the profile belongs to it.\<close>

definition planned :: "crypto_env \<Rightarrow> admin_server \<Rightarrow> string \<Rightarrow> admin_peer list \<Rightarrow> admin_peer \<Rightarrow> profile \<Rightarrow> bool" where
  "planned cr s name ps p prof \<longleftrightarrow>
     ap_Name p = name \<and> (\<forall>q \<in> set ps. ap_Name q \<noteq> name) \<and>
     (\<exists>a. is_host (as_Subnet s) a \<and> a \<noteq> as_ServerAddress s \<and> a \<notin> set (existingPeerAddrs ps) \<and>
        ap_AllowedIPs p = [prefix_from a 32] \<and> pf_Address prof = prefix_from a (pfx_bits (as_Subnet s))) \<and>
     PublicKeyFor (cr_b64Err cr) (cr_x25519 cr) (cr_basepoint cr) (pf_ClientPrivateKey prof) = Inr (ap_PublicKey p) \<and>
     pf_PresharedKey prof = ap_PresharedKey p \<and> pf_Label prof = name"

lemma planned_strip: "planned cr s name (map strip_raw ps) p prof = planned cr s name ps p prof"
  unfolding planned_def existing_strip by (simp add: strip_raw_def)

lemma plan_peer:
  assumes "provision_plan cr s name st = Inr (p, prof)" and "crypto_ok cr" and "clean_name name"
    and "prefix_ok (as_Subnet s)" and "is4 (pfx_addr (as_Subnet s))"
  shows "clean_peer p \<and> planned cr s name (cs_peers st) p prof \<and>
    (\<exists>a. existingPeerAddrs [p] = [a] \<and> a \<notin> set (existingPeerAddrs (cs_peers st)))"
proof -
  from assms(1) obtain serverPub r pk r2 a where e: "\<forall>q \<in> set (cs_peers st). ap_Name q \<noteq> name"
    "cr_keyBytes cr = Inr r" "cr_x25519 cr (clamp r) (cr_basepoint cr) = Inr pk" "cr_pskBytes cr = Inr r2"
    "AllocateClientIP (as_Subnet s) (as_ServerAddress s) (existingPeerAddrs (cs_peers st)) = Inr a"
    "p = \<lparr>ap_Name = name, ap_PublicKey = b64_encode StdEncoding pk, ap_PresharedKey = b64_encode StdEncoding r2,
          ap_AllowedIPs = [prefix_from a (bit_len a)], ap_rawLines = []\<rparr>"
    "pf_Address prof = prefix_from a (pfx_bits (as_Subnet s))" "pf_ClientPrivateKey prof = b64_encode StdEncoding (clamp r)"
    "pf_PresharedKey prof = b64_encode StdEncoding r2" "pf_Label prof = name"
    by (elim plan_InrD) simp
  have len: "length pk = 32" "length r = 32" "length r2 = 32" using e assms(2) by (auto simp: crypto_ok_def)
  have pub: "PublicKeyFor (cr_b64Err cr) (cr_x25519 cr) (cr_basepoint cr) (pf_ClientPrivateKey prof) = Inr (ap_PublicKey p)"
    by (simp add: PublicKeyFor_def e b64_decode_encode len)
  note alloc = AllocateClientIP_ok [OF assms(4) e(5)]
  then obtain v where v: "a = V4 v"
    using assms(5) by (cases a; cases "pfx_addr (as_Subnet s)") (auto simp: is_host_def pfx_contains_def)
  have addrs: "existingPeerAddrs [p] = [a]"
    by (simp add: e(6) v existingPeerAddrs_def is_single_ip_def prefix_from_def prefix_valid_def)
  have "clean_peer p"
    using len clean_key_b64 assms(3) by (auto simp: clean_peer_def e(6) v)
  moreover have "planned cr s name (cs_peers st) p prof"
    unfolding planned_def using alloc pub e(1,9,10)
    by (intro conjI exI [of _ a]) (simp_all add: e(6,7) v)
  ultimately show ?thesis using addrs alloc by blast
qed

lemma plan_put:
  assumes "conf_valid (aw_file w)" and "crypto_ok cr" and "clean_name name"
    and "prefix_ok (as_Subnet s)" and "is4 (pfx_addr (as_Subnet s))"
    and "Provision io cr s name w = (Inr prof, w1)"
  shows "\<exists>p. aw_file w1 = conf_put p (aw_file w) \<and> clean_peer p \<and>
    conf_peers (aw_file w1) = conf_peers (aw_file w) @ [p] \<and> planned cr s name (conf_peers (aw_file w)) p prof"
proof -
  obtain st p where st: "readState io s w = Inr st" "provision_plan cr s name st = Inr (p, prof)"
    "aw_file w1 = conf_put p (aw_file w)"
    using Provision_file [OF assms(6)] by auto
  note pl = plan_peer [OF st(2) assms(2-5)]
  have "cs_peers st = cs_peers (conf_of (aw_file w))" using readState_conf [OF st(1)] by simp
  then have "planned cr s name (conf_peers (aw_file w)) p prof"
    using pl by (simp add: conf_peers_def planned_strip)
  then show ?thesis using conf.put_peers [OF assms(1), of p] pl st(3) by auto
qed

section \<open>Properties\<close>

text \<open>C8: Provisioning and revoking act on the file as on a list of peers. For a readable file without
  carriage returns, an IPv4 subnet and a name without outer white space and line breaks: after a
  successful \<open>Provision\<close> the file is readable, has the same private key and the same peers followed
  by one peer with that name, which was not in use, and an address that is a free host address of
  the subnet; the profile has that address, a private key whose public key is the peer's, and its
  preshared key. A successful \<open>Revoke\<close> of the name then restores the peers and the key.\<close>

theorem provision_then_revoke:
  assumes "conf_valid (aw_file w)" and "crypto_ok cr" and "clean_name name"
    and "prefix_ok (as_Subnet s)" and "is4 (pfx_addr (as_Subnet s))"
    and "Provision io cr s name w = (Inr prof, w1)"
  shows "conf_valid (aw_file w1) \<and> conf_key (aw_file w1) = conf_key (aw_file w) \<and>
    (\<exists>p. conf_peers (aw_file w1) = conf_peers (aw_file w) @ [p] \<and>
       planned cr s name (conf_peers (aw_file w)) p prof) \<and>
    (\<forall>io' w2. Revoke io' s name w1 = (None, w2) \<longrightarrow>
       conf_valid (aw_file w2) \<and> conf_peers (aw_file w2) = conf_peers (aw_file w) \<and>
       conf_key (aw_file w2) = conf_key (aw_file w))"
proof -
  obtain p where pl: "aw_file w1 = conf_put p (aw_file w)" "clean_peer p"
    "conf_peers (aw_file w1) = conf_peers (aw_file w) @ [p]" and planned: "planned cr s name (conf_peers (aw_file w)) p prof"
    using plan_put [OF assms] by blast
  note put = conf.put_valid [OF assms(1)] conf.put_key [OF assms(1)]
  have "conf_valid (aw_file w2) \<and> conf_peers (aw_file w2) = conf_peers (aw_file w) \<and> conf_key (aw_file w2) = conf_key (aw_file w)"
    if rv: "Revoke io' s name w1 = (None, w2)" for io' w2
  proof -
    obtain st1 i where st1: "readState io' s w1 = Inr st1" "find_index (\<lambda>p. ap_Name p = name) (cs_peers st1) = Some i"
      "aw_file w2 = conf_del i (aw_file w1)"
      using Revoke_file [OF rv] by auto
    have names: "map ap_Name (cs_peers st1) = map ap_Name (conf_peers (aw_file w) @ [p])"
      using arg_cong [OF pl(3), of "map ap_Name"] readState_conf(1) [OF st1(1)]
      by (simp add: conf_peers_def names_strip del: map_map)
    have "i = length (conf_peers (aw_file w))"
      using find_index_last_name [OF st1(2) names] planned by (simp add: planned_def)
    then show ?thesis using conf.put_del [OF assms(1) pl(2)] pl(1) st1(3) by simp
  qed
  then show ?thesis using put [of p] pl planned by auto
qed

text \<open>A world in which provisioning succeeds: an empty server with the subnet 10.7.0.0/29.\<close>

definition demo_lines :: "string list" where
  "demo_lines = [''[Interface]'', ''PrivateKey = AAAAAAAAAAAAAAAAAAAAAAAAAAAAAAAAAAAAAAAAAAA='', ''ListenPort = 51820'']"

definition demo_world :: admin_world where "demo_world = \<lparr>aw_file = unlines demo_lines, aw_synced = []\<rparr>"

definition demo_server :: admin_server where
  "demo_server = NewServer (\<lambda>_ _. None)
     \<lparr>as_ConfPath = ''wg0.conf'', as_Interface = ''wg0'', as_Subnet = demo_subnet, as_ServerAddress = AddrZero,
      as_Endpoint = ''vpn:56000'', as_AllowedIPs = [], as_DNS = [], as_MTU = 1280, as_PersistentKeepalive = 0,
      as_SyncCommand = None\<rparr>"

definition demo_crypto :: crypto_env where
  "demo_crypto = \<lparr>cr_x25519 = (\<lambda>s p. Inr (replicate 32 7)), cr_basepoint = [], cr_b64Err = (\<lambda>_. errors_New []),
     cr_keyBytes = Inr (replicate 32 1), cr_pskBytes = Inr (replicate 32 2)\<rparr>"

lemma demo_lines_ok: "\<forall>l \<in> set demo_lines. conf_file_line l"
  by (simp add: demo_lines_def conf_file_line_def newline_def confMaxToken_def)

lemma demo_read:
  "readState io_ok demo_server demo_world = Inr \<lparr>cs_header = demo_lines,
     cs_privateKey = ''AAAAAAAAAAAAAAAAAAAAAAAAAAAAAAAAAAAAAAAAAAA='', cs_peers = []\<rparr>"
proof -
  have "conf_lines demo_lines zero_scan = Inr \<lparr>sc_state = \<lparr>cs_header = demo_lines,
     cs_privateKey = ''AAAAAAAAAAAAAAAAAAAAAAAAAAAAAAAAAAAAAAAAAAA='', cs_peers = []\<rparr>, sc_cur = ConfInterface, sc_pending = None\<rparr>"
    by code_simp
  then have "parseConf (unlines demo_lines) None = Inr \<lparr>cs_header = demo_lines,
     cs_privateKey = ''AAAAAAAAAAAAAAAAAAAAAAAAAAAAAAAAAAAAAAAAAAA='', cs_peers = []\<rparr>"
    unfolding parseConf_lines [OF demo_lines_ok] by (simp add: flushPeer_def)
  then show ?thesis by (simp add: readState_def io_ok_def demo_world_def demo_server_def NewServer_def Let_def)
qed

lemma demo_valid: "conf_valid (aw_file demo_world)"
  using readState_InrD(1) [OF demo_read] unlines_no_cr [OF demo_lines_ok]
  by (simp add: conf_valid_def demo_world_def io_ok_def)

lemma demo_server_simps:
  "as_Subnet demo_server = demo_subnet" "as_ServerAddress demo_server = V4 0x0A070001"
  "as_SyncCommand demo_server = Some (\<lambda>_ _. None)"
proof -
  have "addr_next (pfx_addr (masked demo_subnet)) = V4 0x0A070001" by code_simp
  moreover have "prefix_valid demo_subnet" by code_simp
  ultimately show "as_Subnet demo_server = demo_subnet" "as_ServerAddress demo_server = V4 0x0A070001"
    "as_SyncCommand demo_server = Some (\<lambda>_ _. None)"
    by (simp_all add: demo_server_def NewServer_def Let_def addr_valid_def)
qed

lemma demo_provision:
  "\<exists>prof w1. Provision io_ok demo_crypto demo_server ''bob'' demo_world = (Inr prof, w1)"
proof -
  have c: "b64_chars StdEncoding (bits24 0 0 0) = ''AAAA''"
    by (simp add: b64_chars_def bits24_def StdEncoding_def b64_std_def)
  have p1: "b64_padding StdEncoding 1 = ''=''" by (simp add: b64_padding_def StdEncoding_def)
  have r: "replicate 32 (0 :: byte) = [0, 0, 0, 0, 0, 0, 0, 0, 0, 0, 0, 0, 0, 0, 0, 0, 0, 0, 0, 0, 0, 0, 0, 0, 0, 0, 0, 0, 0, 0, 0, 0]"
    by code_simp
  have "b64_encode StdEncoding (replicate 32 0) = ''AAAAAAAAAAAAAAAAAAAAAAAAAAAAAAAAAAAAAAAAAAA=''"
    unfolding r b64_encode.simps c p1 by simp
  then have d: "b64_decode StdEncoding ''AAAAAAAAAAAAAAAAAAAAAAAAAAAAAAAAAAAAAAAAAAA='' = Some (replicate 32 0)"
    by (metis b64_decode_encode b64_ok_encodings(1))
  have a: "AllocateClientIP demo_subnet (V4 0x0A070001) [] = Inr (V4 0x0A070002)" by code_simp
  show ?thesis
    by (simp add: Provision_def demo_read provision_plan_def PublicKeyFor_def d demo_crypto_def GenerateKeypair_def
        GeneratePresharedKey_def demo_server_simps existingPeerAddrs_def a writeState_def Let_def)
      (simp add: io_ok_def admin_sync_def demo_server_simps)
qed

lemma demo_crypto_ok: "crypto_ok demo_crypto"
  by (auto simp: crypto_ok_def demo_crypto_def)

lemma demo_subnet_ok: "prefix_ok (as_Subnet demo_server)" "is4 (pfx_addr (as_Subnet demo_server))"
  by (simp_all add: demo_server_simps demo_subnet_def prefix_ok_def prefix_from_def prefix_valid_def)

lemma demo_name: "clean_name ''bob''"
  by (simp add: clean_name_def trim_space_def is_space_def newline_def)

theorem provision_then_revoke_witness:
  "\<exists>prof w1 p. Provision io_ok demo_crypto demo_server ''bob'' demo_world = (Inr prof, w1) \<and>
     conf_peers (aw_file w1) = conf_peers (aw_file demo_world) @ [p] \<and> ap_Name p = ''bob''"
proof -
  obtain prof w1 where pr: "Provision io_ok demo_crypto demo_server ''bob'' demo_world = (Inr prof, w1)"
    using demo_provision by blast
  from provision_then_revoke [OF demo_valid demo_crypto_ok demo_name demo_subnet_ok pr]
  obtain p where p: "conf_peers (aw_file w1) = conf_peers (aw_file demo_world) @ [p]"
    "planned demo_crypto demo_server ''bob'' (conf_peers (aw_file demo_world)) p prof" by blast
  have "ap_Name p = ''bob''" using p(2) unfolding planned_def by (rule conjunct1)
  with pr p(1) show ?thesis by (intro exI [of _ prof] exI [of _ w1] exI [of _ p] conjI)
qed

subsection \<open>Histories\<close>

text \<open>Any sequence of operations, successful or not: \<open>Provision\<close> with clean names and \<open>Revoke\<close> with
  any name, with any outcome of the system calls and of the synchronisation.\<close>

inductive admin_reach :: "admin_server \<Rightarrow> admin_world \<Rightarrow> admin_world \<Rightarrow> bool" for s where
  start: "admin_reach s w w"
| provision: "admin_reach s w w1 \<Longrightarrow> clean_name name \<Longrightarrow> crypto_ok cr \<Longrightarrow> Provision io cr s name w1 = (r, w2) \<Longrightarrow>
    admin_reach s w w2"
| revoke: "admin_reach s w w1 \<Longrightarrow> Revoke io s name w1 = (e, w2) \<Longrightarrow> admin_reach s w w2"

definition peer_hosts :: "admin_peer \<Rightarrow> addr list" where
  "peer_hosts p = map pfx_addr (filter is_single_ip (ap_AllowedIPs p))"

definition peer_names :: "admin_peer \<Rightarrow> string list" where
  "peer_names p = (if ap_Name p = [] then [] else [ap_Name p])"

lemma existing_hosts: "existingPeerAddrs ps = concat (map peer_hosts ps)"
  by (simp add: existingPeerAddrs_def peer_hosts_def [abs_def])

text \<open>Every step is a change of the file that the contract of the store allows, or none.\<close>

lemma Provision_allowed:
  assumes "Provision io cr s name w = (r, w')" and "crypto_ok cr" and "clean_name name"
    and "prefix_ok (as_Subnet s)" and "is4 (pfx_addr (as_Subnet s))"
  shows "aw_file w' = aw_file w \<or>
    (\<exists>p. aw_file w' = conf_put p (aw_file w) \<and> allowed_op clean_peer peer_hosts (conf_peers (aw_file w)) (Put p) \<and>
       allowed_op clean_peer peer_names (conf_peers (aw_file w)) (Put p))"
proof (cases "w' = w")
  case False
  then obtain st p prof where st: "readState io s w = Inr st" "provision_plan cr s name st = Inr (p, prof)"
    "aw_file w' = conf_put p (aw_file w)"
    using Provision_file [OF assms(1)] by blast
  note pl = plan_peer [OF st(2) assms(2-5)]
  have ps: "cs_peers st = cs_peers (conf_of (aw_file w))" using readState_conf [OF st(1)] by simp
  note hosts = existing_hosts
  obtain a where a: "peer_hosts p = [a]" "a \<notin> set (concat (map peer_hosts (conf_peers (aw_file w))))"
    using pl by (auto simp: ps hosts [symmetric] existing_conf) (simp add: hosts)
  have "planned cr s name (conf_peers (aw_file w)) p prof" using pl ps by (simp add: conf_peers_def planned_strip)
  then have n: "ap_Name p \<notin> set (concat (map peer_names (conf_peers (aw_file w))))"
    by (auto simp: planned_def peer_names_def split: if_splits)
  have "allowed_op clean_peer peer_hosts (conf_peers (aw_file w)) (Put p)"
    "allowed_op clean_peer peer_names (conf_peers (aw_file w)) (Put p)"
    using pl a n by (simp_all add: peer_names_def [of p])
  with st(3) show ?thesis by blast
qed simp

lemma Revoke_allowed:
  assumes "Revoke io s name w = (e, w')"
  shows "aw_file w' = aw_file w \<or>
    (\<exists>i. aw_file w' = conf_del i (aw_file w) \<and> i < length (conf_peers (aw_file w)))"
  using Revoke_file [OF assms]
proof (elim disjE exE conjE)
  fix st i assume st: "readState io s w = Inr st" "find_index (\<lambda>p. ap_Name p = name) (cs_peers st) = Some i"
    "aw_file w' = conf_del i (aw_file w)"
  then have "i < length (conf_peers (aw_file w))"
    using find_index_Some [OF st(2)] readState_conf(1) [OF st(1)] by (simp add: conf_peers_def)
  with st(3) show ?thesis by blast
qed auto

definition file_inv :: "string \<Rightarrow> string \<Rightarrow> bool" where
  "file_inv key f \<longleftrightarrow> conf_valid f \<and> conf_key f = key \<and> distinct (concat (map peer_hosts (conf_peers f))) \<and>
     distinct (concat (map peer_names (conf_peers f)))"

lemma file_inv_op:
  assumes "file_inv key f" and "allowed_op clean_peer peer_hosts (conf_peers f) x"
    and "allowed_op clean_peer peer_names (conf_peers f) x"
  shows "file_inv key (conf.file_op x f)"
  using assms conf.op_refines [of f peer_hosts x] conf.op_keeps_distinct [of peer_hosts "conf_peers f" x]
    conf.op_keeps_distinct [of peer_names "conf_peers f" x]
  by (simp add: file_inv_def)

lemma admin_reach_inv:
  assumes "admin_reach s w w'" and "prefix_ok (as_Subnet s)" and "is4 (pfx_addr (as_Subnet s))"
    and "file_inv key (aw_file w)"
  shows "file_inv key (aw_file w')"
  using assms
proof (induction rule: admin_reach.induct)
  case (provision w w1 name cr io r w2)
  then have inv: "file_inv key (aw_file w1)" by blast
  from Provision_allowed [OF provision.hyps(4,3,2) provision.prems(1,2)] show ?case
  proof (elim disjE exE conjE)
    fix p assume p: "aw_file w2 = conf_put p (aw_file w1)"
      "allowed_op clean_peer peer_hosts (conf_peers (aw_file w1)) (Put p)"
      "allowed_op clean_peer peer_names (conf_peers (aw_file w1)) (Put p)"
    from file_inv_op [OF inv p(2,3)] p(1) show ?thesis by (simp add: conf.file_op_def)
  qed (simp add: inv)
next
  case (revoke w w1 io name e w2)
  then have inv: "file_inv key (aw_file w1)" by blast
  from Revoke_allowed [OF revoke.hyps(2)] show ?case
  proof (elim disjE exE conjE)
    fix i assume "aw_file w2 = conf_del i (aw_file w1)" "i < length (conf_peers (aw_file w1))"
    with file_inv_op [OF inv, of "Del i"] show ?thesis by (simp add: conf.file_op_def)
  qed (simp add: inv)
qed simp



subsection \<open>Failures\<close>


definition demo_bad_server :: admin_server where
  "demo_bad_server = demo_server\<lparr>as_SyncCommand := Some (\<lambda>_ _. Some (errors_New ''exit status 1''))\<rparr>"


subsection \<open>Names\<close>

definition names_ok :: "conf_scan \<Rightarrow> bool" where
  "names_ok sc \<longleftrightarrow>
     (\<forall>p \<in> set (cs_peers (sc_state sc)) \<union> set_option (sc_pending sc). trim_space (ap_Name p) = ap_Name p)"

lemma conf_line_names: "names_ok sc \<Longrightarrow> conf_line l sc = Inr sc' \<Longrightarrow> names_ok sc'"
  by (auto simp: names_ok_def conf_line_def conf_section_line_def conf_field_def peer_field_def line_defs flushPeer_def
      zero_admin_peer_def Let_def bind_res_Inr_iff
      split: if_splits option.splits conf_section.splits sum.splits simp del: index_byte_None)

lemma conf_lines_names: "names_ok sc \<Longrightarrow> conf_lines ls sc = Inr sc' \<Longrightarrow> names_ok sc'"
  by (induction ls arbitrary: sc) (auto simp: bind_res_Inr_iff dest: conf_line_names)

lemma parseConf_names:
  assumes "parseConf f e = Inr st" and "p \<in> set (cs_peers st)"
  shows "trim_space (ap_Name p) = ap_Name p"
proof -
  obtain ls sc where sc: "conf_lines ls zero_scan = Inr sc" "st = sc_state (flushPeer sc)"
    using assms(1) by (auto simp: parseConf_def bind_res_Inr_iff split: prod.splits option.splits)
  have "names_ok sc" using conf_lines_names [OF _ sc(1)] by (simp add: names_ok_def zero_scan_def)
  with sc(2) assms(2) show ?thesis by (auto simp: names_ok_def flushPeer_def split: option.splits)
qed

text \<open>A name with outer white space is never found again. \<open>Provision\<close> accepts it, but the file's
  reader trims names, so whatever the file contains no peer has that name: the check for an
  existing peer never applies to it, and \<open>Revoke\<close> of the name always fails with
  \<open>ErrPeerNotFound\<close> and changes nothing.\<close>

theorem untrimmed_name_never_found:
  assumes "trim_space name \<noteq> name" and "readState io s w = Inr st"
  shows "(\<forall>p \<in> set (cs_peers st). ap_Name p \<noteq> name) \<and> Revoke io s name w = (Some (errPeerNotFound name), w)"
proof -
  have "\<forall>p \<in> set (cs_peers st). ap_Name p \<noteq> name"
    using parseConf_names [OF readState_InrD(1) [OF assms(2)]] assms(1) by auto
  moreover from this have "find_index (\<lambda>p. ap_Name p = name) (cs_peers st) = None" by simp
  moreover have "name \<noteq> []" using assms(1) by auto
  ultimately show ?thesis using assms(2) by (auto simp: Revoke_def simp del: find_index_None)
qed

theorem untrimmed_name_never_found_witness:
  "Revoke io_ok demo_server ''bob '' demo_world = (Some (errPeerNotFound ''bob ''), demo_world)"
proof -
  have "trim_space ''bob '' \<noteq> ''bob ''" by code_simp
  from untrimmed_name_never_found [OF this demo_read] show ?thesis by blast
qed

end
