(* ===== verification/Wg_Kernel.thy ===== *)
theory Wg_Kernel
  imports Turn_Tunnel Kernel_Config
begin

text \<open>
  The embedded WireGuard kernel, \<open>pkg/wgkernel/kernel.go\<close>: its options, its lifecycle over one
  device and its status. The device of wireguard-go is outside the repository: what its \<open>IpcSet\<close>,
  \<open>Up\<close> and \<open>IpcGet\<close> return are arguments. Log lines are not modelled.
\<close>

section \<open>Definitions\<close>

subsection \<open>The kernel\<close>

datatype kernel_state = KernelNew | KernelStarted | KernelStopped

datatype klogger = NoopLogger | HostLogger nat
datatype kbind = DefaultBind | HostBind nat

text \<open>A WireGuard device: the text it was configured with, whether it is up and whether it is
  closed.\<close>

record wg_device =
  d_tun :: nat
  d_bind :: kbind
  d_ipc :: string
  d_up :: bool
  d_closed :: bool

record kernel =
  kn_cfg :: kernel_config
  kn_tun :: nat
  kn_bind :: kbind
  kn_logger :: klogger
  kn_dev :: "wg_device option"
  kn_state :: kernel_state
  kn_turnTun :: "nat option"

datatype koption = OptLogger "klogger option" | OptBind "kbind option" | OptTurnTunnel "nat option"

definition WithLogger :: "klogger option \<Rightarrow> kernel \<Rightarrow> kernel" where
  "WithLogger l k = (case l of None \<Rightarrow> k | Some x \<Rightarrow> k\<lparr>kn_logger := x\<rparr>)"

definition WithBind :: "kbind option \<Rightarrow> kernel \<Rightarrow> kernel" where
  "WithBind b k = (case b of None \<Rightarrow> k | Some x \<Rightarrow> k\<lparr>kn_bind := x\<rparr>)"

definition WithTurnTunnel :: "nat option \<Rightarrow> kernel \<Rightarrow> kernel" where
  "WithTurnTunnel t k = k\<lparr>kn_turnTun := t\<rparr>"

fun apply_option :: "koption \<Rightarrow> kernel \<Rightarrow> kernel" where
  "apply_option (OptLogger l) k = WithLogger l k"
| "apply_option (OptBind b) k = WithBind b k"
| "apply_option (OptTurnTunnel t) k = WithTurnTunnel t k"

definition NewKernel ::
  "(string \<Rightarrow> go_error) \<Rightarrow> kernel_config \<Rightarrow> nat option \<Rightarrow> koption list \<Rightarrow> kernel res" where
  "NewKernel b64Err cfg t opts =
     (case kc_Validate b64Err cfg of
        Some err \<Rightarrow> Inl (wrapf ''wgkernel: '' err)
      | None \<Rightarrow>
          (case t of
             None \<Rightarrow> Inl (errors_New ''wgkernel: nil tun device'')
           | Some tun \<Rightarrow>
               Inr (fold apply_option opts
                 \<lparr>kn_cfg = kc_withDefaults cfg, kn_tun = tun, kn_bind = DefaultBind, kn_logger = NoopLogger,
                  kn_dev = None, kn_state = KernelNew, kn_turnTun = None\<rparr>)))"

text \<open>\<open>WithTurnTunnel\<close>: every peer's endpoint becomes the tunnel's local address.\<close>

definition rewrite_endpoints :: "string \<Rightarrow> kernel_config \<Rightarrow> kernel_config" where
  "rewrite_endpoints addr cfg = cfg\<lparr>kc_Peers := map (\<lambda>p. p\<lparr>pc_Endpoint := addr\<rparr>) (kc_Peers cfg)\<rparr>"

definition started_config :: "(nat \<Rightarrow> tunnel) \<Rightarrow> kernel \<Rightarrow> kernel_config res" where
  "started_config tunnels k =
     (case kn_turnTun k of
        None \<Rightarrow> Inr (kn_cfg k)
      | Some t \<Rightarrow>
          (case LocalAddr (tunnels t) of
             None \<Rightarrow> Inl (errors_New ''wgkernel: WithTurnTunnel: tunnel not started (LocalAddr is nil)'')
           | Some addr \<Rightarrow> Inr (rewrite_endpoints addr (kn_cfg k))))"

text \<open>\<open>Start\<close>, with the context's error, the tunnels the pointers lead to and the results of the
  device's \<open>IpcSet\<close> and \<open>Up\<close>. The third result is the device it created, closed again when one
  of them failed.\<close>

definition kernel_Start ::
  "(string \<Rightarrow> go_error) \<Rightarrow> go_error option \<Rightarrow> (nat \<Rightarrow> tunnel) \<Rightarrow> (string \<Rightarrow> go_error option) \<Rightarrow> go_error option \<Rightarrow>
   kernel \<Rightarrow> go_error option \<times> kernel \<times> wg_device option" where
  "kernel_Start b64Err ctxErr tunnels ipcSet upErr k =
     (if kn_state k \<noteq> KernelNew then (Some (errors_New ''wgkernel: already started''), k, None)
      else case ctxErr of
        Some err \<Rightarrow> (Some err, k, None)
      | None \<Rightarrow>
          (case started_config tunnels k of
             Inl err \<Rightarrow> (Some err, k, None)
           | Inr cfg \<Rightarrow>
               (case IPC b64Err cfg of
                  Inl err \<Rightarrow> (Some (wrapf ''wgkernel: build IPC: '' err), k, None)
                | Inr ipc \<Rightarrow>
                    (let dev = \<lparr>d_tun = kn_tun k, d_bind = kn_bind k, d_ipc = ipc, d_up = False, d_closed = False\<rparr> in
                     case ipcSet ipc of
                       Some err \<Rightarrow> (Some (wrapf ''wgkernel: IpcSet: '' err), k, Some (dev\<lparr>d_closed := True\<rparr>))
                     | None \<Rightarrow>
                         (case upErr of
                            Some err \<Rightarrow> (Some (wrapf ''wgkernel: device.Up: '' err), k, Some (dev\<lparr>d_closed := True\<rparr>))
                          | None \<Rightarrow>
                              (let dev' = dev\<lparr>d_up := True\<rparr> in
                               (None, k\<lparr>kn_dev := Some dev', kn_state := KernelStarted\<rparr>, Some dev')))))))"

definition kernel_Stop :: "kernel \<Rightarrow> kernel" where
  "kernel_Stop k =
     (if kn_state k \<noteq> KernelStarted then k
      else k\<lparr>kn_state := KernelStopped, kn_dev := map_option (\<lambda>d. d\<lparr>d_up := False, d_closed := True\<rparr>) (kn_dev k)\<rparr>)"

subsection \<open>Status\<close>

text \<open>The text of a \<open>strconv\<close> error is a parameter.\<close>

fun listen_port_line :: "(string \<Rightarrow> go_error) \<Rightarrow> string list \<Rightarrow> u16 res" where
  "listen_port_line numErr [] = Inl (errors_New ''listen_port not found in IpcGet output'')"
| "listen_port_line numErr (line # ls) =
     (case cut_prefix line ''listen_port='' of
        None \<Rightarrow> listen_port_line numErr ls
      | Some rest \<Rightarrow>
          (case parse_uint 16 (trim_space rest) of
             None \<Rightarrow> Inl (wrapf ''parse listen_port: '' (numErr (trim_space rest)))
           | Some n \<Rightarrow> Inr (of_nat n)))"

definition ActualListenPort :: "(string \<Rightarrow> go_error) \<Rightarrow> string res \<Rightarrow> kernel \<Rightarrow> u16 res" where
  "ActualListenPort numErr ipcGet k =
     (if kn_state k \<noteq> KernelStarted \<or> kn_dev k = None then Inl (errors_New ''wgkernel: not started'')
      else case ipcGet of
        Inl err \<Rightarrow> Inl (wrapf ''ipc get: '' err)
      | Inr got \<Rightarrow> listen_port_line numErr (str_split newline got))"

record peer_stats =
  pst_PublicKey :: string
  pst_LastHandshakeTimeSec :: int
  pst_RxBytes :: nat
  pst_TxBytes :: nat

text \<open>\<open>strconv.ParseInt\<close> and \<open>ParseUint\<close> with the error ignored: zero for what is no number, the
  nearest value for what is out of range.\<close>

definition parse_int64_val :: "string \<Rightarrow> int" where
  "parse_int64_val s =
     (let (neg, ds) =
        (case s of [] \<Rightarrow> (False, [])
         | c # t \<Rightarrow> if c = CHR ''-'' then (True, t) else if c = CHR ''+'' then (False, t) else (False, s))
      in case parse_digits ds of
           None \<Rightarrow> 0
         | Some n \<Rightarrow> if neg then max (- (2 ^ 63)) (- int n) else min (2 ^ 63 - 1) (int n))"

definition parse_uint64_val :: "string \<Rightarrow> nat" where
  "parse_uint64_val s = (case parse_digits s of None \<Rightarrow> 0 | Some n \<Rightarrow> min n (2 ^ 64 - 1))"

definition zero_peer_stats :: peer_stats where
  "zero_peer_stats = \<lparr>pst_PublicKey = [], pst_LastHandshakeTimeSec = 0, pst_RxBytes = 0, pst_TxBytes = 0\<rparr>"

definition stats_line :: "string \<Rightarrow> peer_stats list \<times> peer_stats \<Rightarrow> peer_stats list \<times> peer_stats" where
  "stats_line line st =
     (let (out, cur) = st in
      if has_prefix line ''public_key='' then
        (if pst_PublicKey cur \<noteq> [] then out @ [cur] else out,
         zero_peer_stats\<lparr>pst_PublicKey := trim_prefix line ''public_key=''\<rparr>)
      else if has_prefix line ''last_handshake_time_sec='' then
        (out, cur\<lparr>pst_LastHandshakeTimeSec := parse_int64_val (trim_prefix line ''last_handshake_time_sec='')\<rparr>)
      else if has_prefix line ''rx_bytes='' then
        (out, cur\<lparr>pst_RxBytes := parse_uint64_val (trim_prefix line ''rx_bytes='')\<rparr>)
      else if has_prefix line ''tx_bytes='' then
        (out, cur\<lparr>pst_TxBytes := parse_uint64_val (trim_prefix line ''tx_bytes='')\<rparr>)
      else (out, cur))"

definition stats_of :: "string list \<Rightarrow> peer_stats list" where
  "stats_of ls =
     (let (out, cur) = fold stats_line ls ([], zero_peer_stats)
      in if pst_PublicKey cur \<noteq> [] then out @ [cur] else out)"

definition kernel_Stats :: "string res \<Rightarrow> kernel \<Rightarrow> peer_stats list res" where
  "kernel_Stats ipcGet k =
     (if kn_state k \<noteq> KernelStarted \<or> kn_dev k = None then Inl (errors_New ''wgkernel: not started'')
      else case ipcGet of
        Inl err \<Rightarrow> Inl (wrapf ''ipc get: '' err)
      | Inr got \<Rightarrow> Inr (stats_of (str_split newline got)))"

section \<open>Constructed kernels\<close>

lemma apply_option_keeps [simp]:
  "kn_cfg (apply_option o1 k) = kn_cfg k" "kn_state (apply_option o1 k) = kn_state k"
  "kn_dev (apply_option o1 k) = kn_dev k" "kn_tun (apply_option o1 k) = kn_tun k"
  by (cases o1; simp add: WithLogger_def WithBind_def WithTurnTunnel_def split: option.splits)+

lemma fold_option_keeps [simp]:
  "kn_cfg (fold apply_option os k) = kn_cfg k" "kn_state (fold apply_option os k) = kn_state k"
  "kn_dev (fold apply_option os k) = kn_dev k" "kn_tun (fold apply_option os k) = kn_tun k"
  by (induction os arbitrary: k) simp_all

lemma NewKernel_ok:
  assumes "NewKernel b64Err cfg t opts = Inr k"
  shows "kc_Validate b64Err cfg = None" "kn_cfg k = kc_withDefaults cfg" "kn_state k = KernelNew" "kn_dev k = None"
  using assms by (auto simp: NewKernel_def split: option.splits)

lemma withDefaults_keeps [simp]:
  "kc_PrivateKey (kc_withDefaults c) = kc_PrivateKey c" "kc_Peers (kc_withDefaults c) = kc_Peers c"
  "kc_ListenPort (kc_withDefaults c) = kc_ListenPort c"
  "0 \<le> kc_MTU c \<Longrightarrow> 0 \<le> kc_MTU (kc_withDefaults c)"
  by (simp_all add: kc_withDefaults_def DefaultMTU_def)

lemma started_config_cases:
  "started_config tunnels k = Inr c \<Longrightarrow>
   kn_turnTun k = None \<and> c = kn_cfg k \<or>
   (\<exists>t addr. kn_turnTun k = Some t \<and> LocalAddr (tunnels t) = Some addr \<and> c = rewrite_endpoints addr (kn_cfg k))"
  by (auto simp: started_config_def split: option.splits)

lemma Validate_started:
  assumes "kc_Validate b64Err cfg = None" and "kn_cfg k = kc_withDefaults cfg" and "started_config tunnels k = Inr c"
  shows "kc_Validate b64Err c = None"
  using started_config_cases [OF assms(3)] assms(1,2)
  by (auto simp: kc_Validate_None rewrite_endpoints_def peer_valid_def)


definition demo_key :: string where "demo_key = encodeWGKeyBase64 (replicate 32 7)"

definition demo_peer_cfg :: peer_config where
  "demo_peer_cfg = \<lparr>pc_PublicKey = demo_key, pc_PresharedKey = [], pc_Endpoint = ''192.0.2.7:51820'',
     pc_AllowedIPs = [prefix_from (V4 0) 0, prefix_from (V6 0 []) 0], pc_PersistentKeepalive = 25 * second\<rparr>"

definition demo_kernel_cfg :: kernel_config where
  "demo_kernel_cfg = \<lparr>kc_PrivateKey = demo_key, kc_Address = [], kc_ListenPort = 0, kc_MTU = 0, kc_DNS = [],
     kc_Peers = [demo_peer_cfg]\<rparr>"

lemma demo_key_decodes: "decodeWGKey e demo_key = Inr (replicate 32 7)"
  by (simp add: demo_key_def decodeWGKey_encode)

lemma demo_kernel_cfg_valid: "kc_Validate e demo_kernel_cfg = None"
  by (simp add: kc_Validate_None demo_kernel_cfg_def demo_peer_cfg_def peer_valid_def demo_key_decodes
      prefix_valid_def prefix_from_def second_def)

definition demo_kernel :: kernel where
  "demo_kernel = \<lparr>kn_cfg = kc_withDefaults demo_kernel_cfg, kn_tun = 3, kn_bind = DefaultBind, kn_logger = NoopLogger,
     kn_dev = None, kn_state = KernelNew, kn_turnTun = None\<rparr>"

lemma demo_kernel_new: "NewKernel e demo_kernel_cfg (Some 3) [] = Inr demo_kernel"
  by (simp add: NewKernel_def demo_kernel_cfg_valid demo_kernel_def)


lemma kernel_Start_None:
  assumes "kernel_Start b64Err ctxErr tunnels ipcSet upErr k = (None, k', dev)" and "kn_state k = KernelNew"
  shows "ctxErr = None \<and> upErr = None \<and> (\<exists>d. dev = Some d \<and> d_up d \<and> \<not> d_closed d \<and> ipcSet (d_ipc d) = None \<and>
      k' = k\<lparr>kn_dev := Some d, kn_state := KernelStarted\<rparr>)"
proof -
  obtain c ipc where c: "ctxErr = None" "upErr = None" "started_config tunnels k = Inr c" "IPC b64Err c = Inr ipc"
    "ipcSet ipc = None"
    using assms by (simp add: kernel_Start_def Let_def split: option.splits sum.splits)
  let ?d = "\<lparr>d_tun = kn_tun k, d_bind = kn_bind k, d_ipc = ipc, d_up = True, d_closed = False\<rparr>"
  have "kernel_Start b64Err ctxErr tunnels ipcSet upErr k = (None, k\<lparr>kn_dev := Some ?d, kn_state := KernelStarted\<rparr>, Some ?d)"
    using c assms(2) by (simp add: kernel_Start_def Let_def)
  then have "(None :: go_error option, k', dev) = (None, k\<lparr>kn_dev := Some ?d, kn_state := KernelStarted\<rparr>, Some ?d)"
    unfolding assms(1) .
  then have "k' = k\<lparr>kn_dev := Some ?d, kn_state := KernelStarted\<rparr>" "dev = Some ?d" by simp_all
  with c show ?thesis by (intro conjI exI [of _ ?d]) simp_all
qed

text \<open>C34: The kernel's lifecycle. \<open>Start\<close> works once: only on a new kernel, and not after it
  succeeded or after \<open>Stop\<close>. When it fails the kernel is unchanged, and a device it created is
  closed. While it runs the device is up and open; \<open>Stop\<close> closes the device and a second \<open>Stop\<close>
  changes nothing. \<open>Stats\<close> and \<open>ActualListenPort\<close> fail before \<open>Start\<close> and after \<open>Stop\<close>.\<close>

theorem kernel_lifecycle:
  assumes "NewKernel b64Err cfg t opts = Inr k"
    and "kernel_Start b64Err ctxErr tunnels ipcSet upErr k = (err, k', dev)"
  shows "is_err (kernel_Stats got k) \<and> is_err (ActualListenPort numErr got k) \<and> kernel_Stop k = k \<and>
    (err \<noteq> None \<longrightarrow> k' = k \<and> (\<forall>d. dev = Some d \<longrightarrow> d_closed d)) \<and>
    (err = None \<longrightarrow>
       ctxErr = None \<and> upErr = None \<and>
       (\<exists>d. dev = Some d \<and> kn_dev k' = Some d \<and> d_up d \<and> \<not> d_closed d \<and> ipcSet (d_ipc d) = None \<and>
          kn_dev (kernel_Stop k') = Some (d\<lparr>d_up := False, d_closed := True\<rparr>)) \<and>
       (\<forall>ipc. kernel_Stats (Inr ipc) k' = Inr (stats_of (str_split newline ipc))) \<and>
       kernel_Stop (kernel_Stop k') = kernel_Stop k' \<and>
       is_err (kernel_Stats got (kernel_Stop k')) \<and> is_err (ActualListenPort numErr got (kernel_Stop k')) \<and>
       (\<forall>k2 \<in> {k', kernel_Stop k'}. kernel_Start b64Err c2 t2 i2 u2 k2 =
          (Some (errors_New ''wgkernel: already started''), k2, None)))"
proof -
  note k = NewKernel_ok [OF assms(1)]
  have fail: "err \<noteq> None \<Longrightarrow> k' = k \<and> (\<forall>d. dev = Some d \<longrightarrow> d_closed d)"
    using assms(2) k(3) by (auto simp: kernel_Start_def Let_def split: option.splits sum.splits)
  have ok: "ctxErr = None \<and> upErr = None \<and> (\<exists>d. dev = Some d \<and> d_up d \<and> \<not> d_closed d \<and> ipcSet (d_ipc d) = None \<and>
      k' = k\<lparr>kn_dev := Some d, kn_state := KernelStarted\<rparr>)" if "err = None"
    using kernel_Start_None [OF assms(2) [unfolded that] k(3)] .
  have new: "is_err (kernel_Stats got k)" "is_err (ActualListenPort numErr got k)" "kernel_Stop k = k"
    using k(3) by (simp_all add: kernel_Stats_def ActualListenPort_def kernel_Stop_def)
  show ?thesis
  proof (cases err)
    case None
    then obtain d where d: "ctxErr = None" "upErr = None" "dev = Some d" "d_up d" "\<not> d_closed d" "ipcSet (d_ipc d) = None"
      "k' = k\<lparr>kn_dev := Some d, kn_state := KernelStarted\<rparr>" using ok by blast
    then have s: "kernel_Stop k' = k'\<lparr>kn_state := KernelStopped, kn_dev := Some (d\<lparr>d_up := False, d_closed := True\<rparr>)\<rparr>"
      by (simp add: kernel_Stop_def)
    have st: "kn_state k' = KernelStarted" "kn_state (kernel_Stop k') = KernelStopped" "kn_dev k' = Some d"
      using d(7) s by simp_all
    then have "kernel_Stop (kernel_Stop k') = kernel_Stop k'" "is_err (kernel_Stats got (kernel_Stop k'))"
      "is_err (ActualListenPort numErr got (kernel_Stop k'))"
      "\<forall>ipc. kernel_Stats (Inr ipc) k' = Inr (stats_of (str_split newline ipc))"
      "\<forall>k2 \<in> {k', kernel_Stop k'}. kernel_Start b64Err c2 t2 i2 u2 k2 = (Some (errors_New ''wgkernel: already started''), k2, None)"
      by (simp_all add: kernel_Stop_def [of "kernel_Stop k'"] kernel_Stats_def ActualListenPort_def kernel_Start_def)
    with None new d st(3) s show ?thesis by simp
  next
    case (Some e)
    with new fail show ?thesis by simp
  qed
qed

theorem kernel_lifecycle_witness:
  "\<exists>k' d. kernel_Start errors_New None undefined (\<lambda>_. Some (errors_New ''bad'')) None demo_kernel = (Some (errors_New ''wgkernel: IpcSet: bad''), k', Some d) \<and>
     k' = demo_kernel \<and> d_closed d \<and> is_err (kernel_Stats (Inr []) demo_kernel)"
proof -
  have c: "started_config undefined demo_kernel = Inr (kc_withDefaults demo_kernel_cfg)"
    by (simp add: started_config_def demo_kernel_def)
  have ep: "line_ok ''192.0.2.7:51820''" by (simp add: line_ok_def newline_def)
  obtain ipc where "IPC errors_New (kc_withDefaults demo_kernel_cfg) = Inr ipc"
    using IPC_denotes [of errors_New "kc_withDefaults demo_kernel_cfg"] demo_kernel_cfg_valid [of errors_New] ep
    by (auto simp: kc_Validate_None demo_kernel_cfg_def demo_peer_cfg_def prefix_ok_def prefix_valid_def prefix_from_def endpoint_ok_def)
  then obtain k' d where s: "kernel_Start errors_New None undefined (\<lambda>_. Some (errors_New ''bad'')) None demo_kernel =
      (Some (errors_New ''wgkernel: IpcSet: bad''), k', Some d)"
    using c by (simp add: kernel_Start_def Let_def wrapf_def) (simp add: demo_kernel_def errors_New_def wrapf_def)
  from kernel_lifecycle [OF demo_kernel_new s, of "Inr []"] s show ?thesis by auto
qed

section \<open>Status reports\<close>

text \<open>The report of a device: other lines, and per peer a block that opens with the public key and
  has, among other lines, the last handshake and the two counters.\<close>

definition status_line :: "string \<Rightarrow> bool" where
  "status_line l \<longleftrightarrow> has_prefix l ''public_key='' \<or> has_prefix l ''last_handshake_time_sec='' \<or>
     has_prefix l ''rx_bytes='' \<or> has_prefix l ''tx_bytes=''"

definition peer_block :: "peer_stats \<Rightarrow> string list \<Rightarrow> bool" where
  "peer_block s ls \<longleftrightarrow> pst_PublicKey s \<noteq> [] \<and> int64_ok (pst_LastHandshakeTimeSec s) \<and>
     pst_RxBytes s < 2 ^ 64 \<and> pst_TxBytes s < 2 ^ 64 \<and>
     filter status_line ls =
       [''public_key='' @ pst_PublicKey s, ''last_handshake_time_sec='' @ show_int (pst_LastHandshakeTimeSec s),
        ''tx_bytes='' @ show_nat (pst_TxBytes s), ''rx_bytes='' @ show_nat (pst_RxBytes s)]"

lemma stats_line_other: "\<not> status_line l \<Longrightarrow> stats_line l st = st"
  by (cases st) (simp add: stats_line_def status_line_def)

lemma fold_stats_filter: "fold stats_line ls st = fold stats_line (filter status_line ls) st"
  by (induction ls arbitrary: st) (simp_all add: stats_line_other)

lemma parse_int64_val_show: "int64_ok i \<Longrightarrow> parse_int64_val (show_int i) = i"
proof (cases "i < 0")
  case True
  then show "int64_ok i \<Longrightarrow> ?thesis" by (simp add: parse_int64_val_def show_int_def int64_ok_def)
next
  case False
  obtain c t where ct: "show_nat (nat i) = c # t" by (metis show_nat_not_Nil neq_Nil_conv)
  then have "digit_val c \<noteq> None" using show_nat_chars [of c "nat i"] by simp
  then have "c \<noteq> CHR ''-''" and "c \<noteq> CHR ''+''" by auto
  moreover have "parse_digits (c # t) = Some (nat i)" using ct [symmetric] by simp
  ultimately show "int64_ok i \<Longrightarrow> ?thesis"
    using False ct by (simp add: parse_int64_val_def show_int_def int64_ok_def)
qed

lemma trim_prefix_append [simp]: "trim_prefix (p @ s) p = s"
  by (simp add: trim_prefix_def)

lemma stats_line_public: "stats_line (''public_key='' @ x) (out, cur) =
    (if pst_PublicKey cur \<noteq> [] then out @ [cur] else out, zero_peer_stats\<lparr>pst_PublicKey := x\<rparr>)"
  using trim_prefix_append [of "''public_key=''" x] by (simp add: stats_line_def)

lemma stats_line_counters:
  "stats_line (''last_handshake_time_sec='' @ x) (out, cur) = (out, cur\<lparr>pst_LastHandshakeTimeSec := parse_int64_val x\<rparr>)"
  "stats_line (''rx_bytes='' @ x) (out, cur) = (out, cur\<lparr>pst_RxBytes := parse_uint64_val x\<rparr>)"
  "stats_line (''tx_bytes='' @ x) (out, cur) = (out, cur\<lparr>pst_TxBytes := parse_uint64_val x\<rparr>)"
  using trim_prefix_append [of "''last_handshake_time_sec=''" x] trim_prefix_append [of "''rx_bytes=''" x]
    trim_prefix_append [of "''tx_bytes=''" x]
  by (simp_all add: stats_line_def)

lemma fold_stats_block:
  assumes "peer_block s ls"
  shows "fold stats_line ls (out, cur) = (if pst_PublicKey cur \<noteq> [] then out @ [cur] else out, s)"
proof -
  have "fold stats_line ls (out, cur) = fold stats_line (filter status_line ls) (out, cur)" by (rule fold_stats_filter)
  with assms show ?thesis
    by (cases s) (simp add: peer_block_def stats_line_public stats_line_counters parse_int64_val_show
        parse_uint64_val_def zero_peer_stats_def del: append.simps)
qed

lemma stats_of_blocks:
  assumes "list_all2 peer_block ss bs"
  shows "fold stats_line (concat bs) (out, cur) =
    (if ss = [] then (out, cur)
     else ((if pst_PublicKey cur \<noteq> [] then out @ [cur] else out) @ butlast ss, last ss))"
  using assms
proof (induction ss bs arbitrary: out cur rule: list_all2_induct)
  case (Cons s ss b bs)
  then have "pst_PublicKey s \<noteq> []" by (simp add: peer_block_def)
  with Cons show ?case by (simp add: fold_stats_block)
qed simp

lemma listen_port_first:
  assumes "\<forall>l \<in> set pre. \<not> has_prefix l ''listen_port=''"
  shows "listen_port_line numErr (pre @ (''listen_port='' @ show_nat (unat port)) # rest) = Inr port"
proof -
  have c: "cut_prefix (''listen_port='' @ x) ''listen_port='' = Some x" for x
    by (simp add: cut_prefix_def)
  have "trim_space (show_nat n) = show_nat n" for n
  proof (rule not_space_trim, rule ballI)
    fix c assume "c \<in> set (show_nat n)"
    then have "digit_val c \<noteq> None" by (rule show_nat_chars)
    then show "\<not> is_space c" by (auto simp: is_space_def digit_val_def)
  qed
  with assms c [of "show_nat (unat port)"] unat_word_less [of port] show ?thesis
    by (induction pre) (simp_all add: cut_prefix_def parse_uint_def)
qed

text \<open>A running kernel reports its device exactly. From a device report with other lines in any
  place, \<open>Stats\<close> returns one entry per peer, in the report's order, with the peer's key, last
  handshake and counters, and \<open>ActualListenPort\<close> returns the port of the report's first
  \<open>listen_port\<close> line. Signs, 64-bit counters and 16-bit ports survive.\<close>

theorem kernel_status_exact:
  assumes "kn_state k = KernelStarted" and "kn_dev k = Some d"
    and "\<forall>l \<in> set hdr. \<not> status_line l" and "list_all2 peer_block ss blocks"
    and "\<forall>l \<in> set (hdr @ concat blocks). newline \<notin> set l"
    and "hdr = pre @ (''listen_port='' @ show_nat (unat port)) # post"
    and "\<forall>l \<in> set pre. \<not> has_prefix l ''listen_port=''"
  shows "kernel_Stats (Inr (unlines (hdr @ concat blocks))) k = Inr ss \<and>
    ActualListenPort numErr (Inr (unlines (hdr @ concat blocks))) k = Inr port"
proof -
  have sp: "str_split newline (unlines (hdr @ concat blocks)) = hdr @ concat blocks @ [[]]"
    using str_split_unlines [OF assms(5)] by simp
  have "fold stats_line hdr st = st" for st
    using fold_stats_filter [of hdr st] assms(3) by (simp add: filter_False)
  moreover have "stats_line [] st = st" for st
    by (rule stats_line_other) (simp add: status_line_def has_prefix_def)
  moreover have "ss \<noteq> [] \<Longrightarrow> pst_PublicKey (last ss) \<noteq> []"
  proof -
    assume "ss \<noteq> []"
    then have "\<exists>b. peer_block (last ss) b"
      using assms(4) by (metis last_conv_nth length_greater_0_conv list_all2_conv_all_nth diff_less zero_less_one)
    then show ?thesis by (auto simp: peer_block_def)
  qed
  ultimately have "stats_of (hdr @ concat blocks @ [[]]) = ss"
    using stats_of_blocks [OF assms(4)] by (simp add: stats_of_def zero_peer_stats_def)
  moreover have "listen_port_line numErr (hdr @ concat blocks @ [[]]) = Inr port"
    using listen_port_first [OF assms(7)] assms(6) by simp
  ultimately show ?thesis using assms(1,2) sp by (simp add: kernel_Stats_def ActualListenPort_def)
qed

definition demo_stats :: peer_stats where
  "demo_stats = \<lparr>pst_PublicKey = ''ab01'', pst_LastHandshakeTimeSec = 17, pst_RxBytes = 5, pst_TxBytes = 9\<rparr>"

theorem kernel_status_exact_witness:
  "kernel_Stats (Inr (unlines ([''listen_port='' @ show_nat (unat (77 :: u16))] @
      concat [[''public_key=ab01'', ''endpoint=192.0.2.7:1'', ''last_handshake_time_sec=17'',
        ''last_handshake_time_nsec=3'', ''tx_bytes=9'', ''rx_bytes=5'']])))
     (demo_kernel\<lparr>kn_state := KernelStarted, kn_dev := Some \<lparr>d_tun = 3, d_bind = DefaultBind, d_ipc = [], d_up = True, d_closed = False\<rparr>\<rparr>) =
   Inr [demo_stats]"
proof -
  let ?d = "\<lparr>d_tun = 3, d_bind = DefaultBind, d_ipc = [], d_up = True, d_closed = False\<rparr>"
  let ?b = "[''public_key=ab01'', ''endpoint=192.0.2.7:1'', ''last_handshake_time_sec=17'',
        ''last_handshake_time_nsec=3'', ''tx_bytes=9'', ''rx_bytes=5'']"
  have n: "show_int 17 = ''17''" "show_nat 9 = ''9''" "show_nat 5 = ''5''" "show_nat 77 = ''77''" by code_simp+
  have "filter status_line ?b = [''public_key=ab01'', ''last_handshake_time_sec=17'', ''tx_bytes=9'', ''rx_bytes=5'']"
    by code_simp
  then have b: "list_all2 peer_block [demo_stats] [?b]"
    by (simp add: peer_block_def demo_stats_def n int64_ok_def)
  have h: "\<forall>l \<in> set [''listen_port='' @ show_nat (unat (77 :: u16))]. \<not> status_line l"
    by (simp add: n status_line_def)
  have nl: "\<forall>l \<in> set ([''listen_port='' @ show_nat (unat (77 :: u16))] @ concat [?b]). newline \<notin> set l"
    by (simp add: n newline_def)
  show ?thesis
    by (rule kernel_status_exact [OF _ _ h b nl, where pre = "[]" and post = "[]" and port = 77 and d = ?d, THEN conjunct1])
      simp_all
qed

end
