(* ===== verification/Go_Json.thy ===== *)
theory Go_Json
  imports Go_Hex
begin

text \<open>
  Go's \<open>encoding/json\<close> as share URLs use it: the printer of strings and the reader of JSON texts,
  with its escapes, its number grammar and its nesting limit. Texts are bytes; bytes from 0x80 on
  are those of well-formed UTF-8 and are passed through, so the replacement of malformed UTF-8 and
  the escaping of the two Unicode line separators are outside the model. The reader's recursion
  takes fuel; \<open>json_fuel\<close> says that the fuel \<open>json_parse\<close> starts with is enough for every text.
  Nothing here models a file of the repository.
\<close>

section \<open>Definitions\<close>

datatype jval = JNull | JBool bool | JNum string | JStr string | JArr "jval list" | JObj "(string \<times> jval) list"

definition json_ws :: "char \<Rightarrow> bool" where
  "json_ws c \<longleftrightarrow> c \<in> {CHR '' '', CHR 0x09, CHR 0x0A, CHR 0x0D}"

definition skip_ws :: "string \<Rightarrow> string" where
  "skip_ws s = dropWhile json_ws s"

subsection \<open>Strings\<close>

definition bslash :: char where "bslash = CHR 0x5C"
definition dquote :: char where "dquote = CHR 0x22"

definition json_esc :: "char \<Rightarrow> string" where
  "json_esc c =
     (let n = of_char c :: nat in
      if c = dquote \<or> c = bslash then [bslash, c]
      else if n = 8 then [bslash, CHR ''b''] else if n = 12 then [bslash, CHR ''f'']
      else if n = 10 then [bslash, CHR ''n''] else if n = 13 then [bslash, CHR ''r'']
      else if n = 9 then [bslash, CHR ''t'']
      else if n < 32 \<or> c \<in> {CHR ''<'', CHR ''>'', CHR ''&''}
      then [bslash, CHR ''u'', CHR ''0'', CHR ''0'', hex_digits ! (n div 16), hex_digits ! (n mod 16)]
      else [c])"

definition json_quote :: "string \<Rightarrow> string" where
  "json_quote s = dquote # concat (map json_esc s) @ [dquote]"

fun hex4 :: "string \<Rightarrow> (nat \<times> string) option" where
  "hex4 (a # b # c # d # r) =
     (case (hex_val a, hex_val b, hex_val c, hex_val d) of
        (Some w, Some x, Some y, Some z) \<Rightarrow> Some (((w * 16 + x) * 16 + y) * 16 + z, r)
      | _ \<Rightarrow> None)"
| "hex4 _ = None"

definition utf8 :: "nat \<Rightarrow> string" where
  "utf8 n = map char_of
     (if n < 128 then [n]
      else if n < 2048 then [192 + n div 64, 128 + n mod 64]
      else if n < 65536 then [224 + n div 4096, 128 + n div 64 mod 64, 128 + n mod 64]
      else [240 + n div 262144, 128 + n div 4096 mod 64, 128 + n div 64 mod 64, 128 + n mod 64])"

text \<open>A surrogate must be followed by an escape that completes it; otherwise it stands for the
  replacement character and the next escape is read on its own.\<close>

definition replacement :: nat where "replacement = 65533"

definition surrogate :: "nat \<Rightarrow> string \<Rightarrow> nat \<times> string" where
  "surrogate r v =
     (if 55296 \<le> r \<and> r < 57344 then
        (case v of
           b # u # w \<Rightarrow>
             (if b = bslash \<and> u = CHR ''u'' then
                (case hex4 w of
                   None \<Rightarrow> (replacement, v)
                 | Some (r2, w') \<Rightarrow>
                     if r < 56320 \<and> 56320 \<le> r2 \<and> r2 < 57344
                     then ((r - 55296) * 1024 + (r2 - 56320) + 65536, w') else (replacement, v))
              else (replacement, v))
         | _ \<Rightarrow> (replacement, v))
      else (r, v))"

definition simple_escape :: "char \<Rightarrow> char option" where
  "simple_escape e = map_of
     [(dquote, dquote), (bslash, bslash), (CHR ''/'', CHR ''/''), (CHR ''b'', CHR 0x08), (CHR ''f'', CHR 0x0C),
      (CHR ''n'', CHR 0x0A), (CHR ''r'', CHR 0x0D), (CHR ''t'', CHR 0x09)] e"

definition prepend :: "string \<Rightarrow> (string \<times> string) option \<Rightarrow> (string \<times> string) option" where
  "prepend x r = map_option (\<lambda>(y, t). (x @ y, t)) r"

lemma hex4_length: "hex4 s = Some (n, r) \<Longrightarrow> length s = length r + 4"
  by (cases s rule: hex4.cases) (auto split: option.splits)

lemma surrogate_length: "length (snd (surrogate r v)) \<le> length v"
  by (auto simp: surrogate_def dest!: hex4_length split: list.splits option.splits)

text \<open>A string behind its opening quote: its value and the text behind its closing quote.\<close>

function json_str :: "string \<Rightarrow> (string \<times> string) option" where
  "json_str s =
     (case s of
        [] \<Rightarrow> None
      | c # t \<Rightarrow>
          if c = dquote then Some ([], t)
          else if (of_char c :: nat) < 32 then None
          else if c = bslash then
            (case t of
               [] \<Rightarrow> None
             | e # u \<Rightarrow>
                 if e = CHR ''u'' then
                   (case hex4 u of
                      None \<Rightarrow> None
                    | Some (r, v) \<Rightarrow> prepend (utf8 (fst (surrogate r v))) (json_str (snd (surrogate r v))))
                 else (case simple_escape e of None \<Rightarrow> None | Some x \<Rightarrow> prepend [x] (json_str u)))
          else prepend [c] (json_str t))"
  by pat_completeness auto
termination
proof (relation "measure length", goal_cases)
  case (2 s c t e u x r v)
  then show ?case using hex4_length [of u r v] surrogate_length [of r v] by simp
qed simp_all

declare json_str.simps [simp del]

subsection \<open>Numbers\<close>

definition json_digit :: "char \<Rightarrow> bool" where
  "json_digit c \<longleftrightarrow> digit_val c \<noteq> None"

definition num_int :: "string \<Rightarrow> (string \<times> string) option" where
  "num_int s =
     (case s of
        [] \<Rightarrow> None
      | c # t \<Rightarrow>
          if c = CHR ''0'' then Some ([c], t)
          else if json_digit c then Some (takeWhile json_digit s, dropWhile json_digit s) else None)"

definition num_frac :: "string \<Rightarrow> (string \<times> string) option" where
  "num_frac s =
     (case s of
        [] \<Rightarrow> Some ([], [])
      | c # t \<Rightarrow>
          if c = CHR ''.'' then
            (if takeWhile json_digit t = [] then None else Some (c # takeWhile json_digit t, dropWhile json_digit t))
          else Some ([], s))"

definition num_exp :: "string \<Rightarrow> (string \<times> string) option" where
  "num_exp s =
     (case s of
        [] \<Rightarrow> Some ([], [])
      | c # t \<Rightarrow>
          if c = CHR ''e'' \<or> c = CHR ''E'' then
            (let (sg, u) = (case t of [] \<Rightarrow> ([], [])
                            | d # w \<Rightarrow> if d = CHR ''+'' \<or> d = CHR ''-'' then ([d], w) else ([], t))
             in if takeWhile json_digit u = [] then None
                else Some (c # sg @ takeWhile json_digit u, dropWhile json_digit u))
          else Some ([], s))"

definition json_num :: "string \<Rightarrow> (string \<times> string) option" where
  "json_num s =
     (let (sg, s1) = (case s of [] \<Rightarrow> ([], []) | c # t \<Rightarrow> if c = CHR ''-'' then ([c], t) else ([], s)) in
      case num_int s1 of
        None \<Rightarrow> None
      | Some (i, s2) \<Rightarrow>
          (case num_frac s2 of
             None \<Rightarrow> None
           | Some (f, s3) \<Rightarrow>
               (case num_exp s3 of
                  None \<Rightarrow> None
                | Some (e, s4) \<Rightarrow> Some (sg @ i @ f @ e, s4))))"

subsection \<open>Values\<close>

definition maxNestingDepth :: nat where "maxNestingDepth = 10000"

definition json_lit :: "string \<Rightarrow> (jval \<times> string) option" where
  "json_lit s =
     (if has_prefix s ''true'' then Some (JBool True, drop 4 s)
      else if has_prefix s ''false'' then Some (JBool False, drop 5 s)
      else if has_prefix s ''null'' then Some (JNull, drop 4 s)
      else map_option (\<lambda>(x, r). (JNum x, r)) (json_num s))"

text \<open>The text behind the next character, when that is the expected one.\<close>

definition expect :: "char \<Rightarrow> string \<Rightarrow> string option" where
  "expect c s = (case skip_ws s of [] \<Rightarrow> None | d # t \<Rightarrow> if d = c then Some t else None)"

fun jvalue :: "nat \<Rightarrow> nat \<Rightarrow> string \<Rightarrow> (jval \<times> string) option"
and jelems :: "nat \<Rightarrow> nat \<Rightarrow> string \<Rightarrow> (jval list \<times> string) option"
and jmembers :: "nat \<Rightarrow> nat \<Rightarrow> string \<Rightarrow> ((string \<times> jval) list \<times> string) option" where
  "jvalue 0 d s = None"
| "jvalue (Suc n) d s =
     (case skip_ws s of
        [] \<Rightarrow> None
      | c # t \<Rightarrow>
          if c = dquote then map_option (\<lambda>(x, r). (JStr x, r)) (json_str t)
          else if c = CHR ''{'' then
            (if d \<ge> maxNestingDepth then None
             else case expect (CHR ''}'') t of
               Some r \<Rightarrow> Some (JObj [], r)
             | None \<Rightarrow> map_option (\<lambda>(x, r). (JObj x, r)) (jmembers n (Suc d) t))
          else if c = CHR ''['' then
            (if d \<ge> maxNestingDepth then None
             else case expect (CHR '']'') t of
               Some r \<Rightarrow> Some (JArr [], r)
             | None \<Rightarrow> map_option (\<lambda>(x, r). (JArr x, r)) (jelems n (Suc d) t))
          else json_lit (c # t))"
| "jelems 0 d s = None"
| "jelems (Suc n) d s =
     (case jvalue n d s of
        None \<Rightarrow> None
      | Some (v, r) \<Rightarrow>
          (case expect (CHR '']'') r of
             Some r2 \<Rightarrow> Some ([v], r2)
           | None \<Rightarrow>
               (case expect (CHR '','') r of
                  None \<Rightarrow> None
                | Some r2 \<Rightarrow> map_option (\<lambda>(vs, r3). (v # vs, r3)) (jelems n d r2))))"
| "jmembers 0 d s = None"
| "jmembers (Suc n) d s =
     (case expect dquote s of
        None \<Rightarrow> None
      | Some t \<Rightarrow>
          (case json_str t of
             None \<Rightarrow> None
           | Some (k, r) \<Rightarrow>
               (case expect (CHR '':'') r of
                  None \<Rightarrow> None
                | Some r1 \<Rightarrow>
                    (case jvalue n d r1 of
                       None \<Rightarrow> None
                     | Some (v, r2) \<Rightarrow>
                         (case expect (CHR ''}'') r2 of
                            Some r3 \<Rightarrow> Some ([(k, v)], r3)
                          | None \<Rightarrow>
                              (case expect (CHR '','') r2 of
                                 None \<Rightarrow> None
                               | Some r3 \<Rightarrow> map_option (\<lambda>(m, r4). ((k, v) # m, r4)) (jmembers n d r3)))))))"

definition json_parse :: "string \<Rightarrow> jval option" where
  "json_parse s =
     (case jvalue (2 * length s + 2) 0 s of
        None \<Rightarrow> None
      | Some (v, r) \<Rightarrow> if skip_ws r = [] then Some v else None)"

subsection \<open>Decoding into variables\<close>

text \<open>\<open>json.Unmarshal\<close> into a string, an integer or a structure that holds a value: a value of another type
  is an error, \<open>null\<close> leaves what is there, and the members of an object are stored one after the
  other. Callers drop what was decoded when there is an error.\<close>

definition str_into :: "jval \<Rightarrow> string \<Rightarrow> string option" where
  "str_into v old = (case v of JStr x \<Rightarrow> Some x | JNull \<Rightarrow> Some old | _ \<Rightarrow> None)"

definition int_into :: "jval \<Rightarrow> int \<Rightarrow> int option" where
  "int_into v old = (case v of JNum x \<Rightarrow> atoi x | JNull \<Rightarrow> Some old | _ \<Rightarrow> None)"

fun fold_members :: "(string \<times> jval \<Rightarrow> 'r \<Rightarrow> 'r option) \<Rightarrow> (string \<times> jval) list \<Rightarrow> 'r \<Rightarrow> 'r option" where
  "fold_members f [] r = Some r"
| "fold_members f (kv # kvs) r = (case f kv r of None \<Rightarrow> None | Some r' \<Rightarrow> fold_members f kvs r')"

definition into_object :: "(string \<times> jval \<Rightarrow> 'r \<Rightarrow> 'r option) \<Rightarrow> jval \<Rightarrow> 'r \<Rightarrow> 'r option" where
  "into_object f v old = (case v of JObj kvs \<Rightarrow> fold_members f kvs old | JNull \<Rightarrow> Some old | _ \<Rightarrow> None)"

section \<open>Strings read back\<close>

lemma utf8_ascii: "(of_char c :: nat) < 128 \<Longrightarrow> utf8 (of_char c) = [c]"
  by (simp add: utf8_def)

lemma prepend_simps [simp]:
  "prepend x None = None" "prepend x (Some (y, t)) = Some (x @ y, t)"
  by (simp_all add: prepend_def)

lemma hex4_ascii: "n < 128 \<Longrightarrow> hex4 (CHR ''0'' # CHR ''0'' # hex_digits ! (n div 16) # hex_digits ! (n mod 16) # r) = Some (n, r)"
proof -
  assume n: "n < 128"
  have z: "hex_val (CHR ''0'') = Some 0" by code_simp
  have "n div 16 < 16" using n by simp
  with z show ?thesis by (simp add: hex_val_digit)
qed

lemma json_str_esc: "json_str (json_esc c @ t) = prepend [c] (json_str t)"
proof -
  let ?n = "of_char c :: nat"
  have q: "(of_char dquote :: nat) = 34" "(of_char bslash :: nat) = 92" "dquote \<noteq> bslash" "bslash \<noteq> CHR ''u''"
    by (simp_all add: dquote_def bslash_def)
  consider "c = dquote \<or> c = bslash" | "?n \<in> {8, 9, 10, 12, 13}"
    | "c \<noteq> dquote" "c \<noteq> bslash" "?n \<notin> {8, 9, 10, 12, 13}" "?n < 32 \<or> c \<in> {CHR ''<'', CHR ''>'', CHR ''&''}"
    | "c \<noteq> dquote" "c \<noteq> bslash" "\<not> ?n < 32" "c \<notin> {CHR ''<'', CHR ''>'', CHR ''&''}"
    by blast
  then show ?thesis
  proof cases
    case 1
    then show ?thesis by (subst json_str.simps) (auto simp: json_esc_def simple_escape_def q dquote_def bslash_def)
  next
    case 2
    then have "c \<in> {CHR 0x08, CHR 0x09, CHR 0x0A, CHR 0x0C, CHR 0x0D}"
      by (auto simp: of_char_eq_iff [symmetric, where 'a = nat] simp del: of_char_eq_iff)
    then show ?thesis
      by (subst json_str.simps) (auto simp: json_esc_def simple_escape_def dquote_def bslash_def)
  next
    case 3
    then have small: "?n < 128" by auto
    have "json_esc c @ t = bslash # CHR ''u'' # CHR ''0'' # CHR ''0'' # hex_digits ! (?n div 16) # hex_digits ! (?n mod 16) # t"
      using 3 by (auto simp: json_esc_def Let_def)
    then show ?thesis
      using small q by (subst json_str.simps) (simp add: hex4_ascii surrogate_def utf8_ascii del: hex4.simps)
  next
    case 4
    then have "json_esc c = [c]" by (auto simp: json_esc_def Let_def)
    with 4 show ?thesis by (subst json_str.simps) simp
  qed
qed

lemma json_str_quote: "json_str (concat (map json_esc s) @ dquote # r) = Some (s, r)"
proof (induction s)
  case Nil
  show ?case by (subst json_str.simps) simp
next
  case (Cons c s)
  then show ?case by (simp add: json_str_esc)
qed

lemma jvalue_str: "jvalue (Suc n) d (json_quote s @ r) = Some (JStr s, r)"
  by (simp add: json_quote_def skip_ws_def json_ws_def dquote_def json_str_quote [unfolded dquote_def])

section \<open>Printed values read back\<close>

text \<open>A text \<open>t\<close> prints the value \<open>v\<close>: in front of a comma or a closing bracket it is read as that
  value, with any fuel above its length and at a small nesting depth.\<close>

definition jstop :: "string \<Rightarrow> bool" where
  "jstop r \<longleftrightarrow> r \<noteq> [] \<and> hd r \<in> {CHR '','', CHR ''}'', CHR '']''}"

definition jtext :: "string \<Rightarrow> jval \<Rightarrow> bool" where
  "jtext t v \<longleftrightarrow> t \<noteq> [] \<and> (\<forall>n d r. length t \<le> n \<and> d \<le> 5 \<and> jstop r \<longrightarrow> jvalue (Suc n) d (t @ r) = Some (v, r))"

lemma jtext_str: "jtext (json_quote s) (JStr s)"
  unfolding jtext_def using jvalue_str by (auto simp: json_quote_def)

lemma json_num_show:
  assumes "jstop r"
  shows "json_num (show_int i @ r) = Some (show_int i, r)"
proof -
  have stop: "\<not> json_digit (hd r)" "hd r \<noteq> CHR ''.''" "hd r \<noteq> CHR ''e''" "hd r \<noteq> CHR ''E''" "r \<noteq> []"
    using assms by (auto simp: jstop_def json_digit_def digit_val_def)
  have all: "\<forall>c \<in> set (show_nat n). json_digit c" for n using show_nat_chars by (auto simp: json_digit_def)
  have int: "num_int (show_nat n @ r) = Some (show_nat n, r)" for n
  proof (cases "n = 0")
    case True
    then show ?thesis by (simp add: num_int_def show_nat_0)
  next
    case False
    obtain c t where ct: "show_nat n = c # t" by (metis show_nat_not_Nil neq_Nil_conv)
    have "c \<noteq> CHR ''0''" using hd_show_nat [of n] False ct by simp
    moreover have "takeWhile json_digit (show_nat n @ r) = show_nat n" "dropWhile json_digit (show_nat n @ r) = r"
      using all [of n] stop by (cases r; simp add: takeWhile_append2 dropWhile_append2)+
    ultimately show ?thesis using ct all [of n] by (simp add: num_int_def)
  qed
  have tail: "num_frac r = Some ([], r)" "num_exp r = Some ([], r)"
    using stop by (cases r; simp add: num_frac_def num_exp_def)+
  have pos: "hd (show_nat n @ r) \<noteq> CHR ''-''" for n
    using show_nat_chars [OF hd_in_set [OF show_nat_not_Nil [of n]]] digit_val_specials(1) by (auto simp: hd_append)
  show ?thesis
  proof (cases "i < 0")
    case True
    then show ?thesis using int [of "nat (- i)"] tail by (simp add: json_num_def show_int_def)
  next
    case False
    obtain c t where ct: "show_nat (nat i) @ r = c # t" by (metis show_nat_not_Nil append_is_Nil_conv neq_Nil_conv)
    with pos [of "nat i"] have "c \<noteq> CHR ''-''" by simp
    with int [of "nat i"] tail False ct show ?thesis by (simp add: json_num_def show_int_def)
  qed
qed

lemma jtext_int: "jtext (show_int i) (JNum (show_int i))"
proof -
  obtain c t where ct: "show_int i = c # t" by (cases "show_int i") (auto simp: show_int_def split: if_splits)
  have "c = CHR ''-'' \<or> digit_val c \<noteq> None"
    using ct show_nat_chars [of c] by (auto simp: show_int_def split: if_splits) (metis list.set_intros(1) show_nat_chars)
  then have "\<not> json_ws c \<and> c \<noteq> dquote \<and> c \<noteq> CHR ''{'' \<and> c \<noteq> CHR ''['' \<and> c \<noteq> CHR ''t'' \<and> c \<noteq> CHR ''f'' \<and> c \<noteq> CHR ''n''"
    by (auto simp: json_ws_def dquote_def digit_val_def)
  with json_num_show [of _ i] ct show ?thesis
    by (auto simp: jtext_def skip_ws_def json_lit_def)
qed

lemma expect_hit: "\<not> json_ws c \<Longrightarrow> expect c (c # t) = Some t"
  by (simp add: expect_def skip_ws_def)

lemma expect_miss: "\<not> json_ws d \<Longrightarrow> d \<noteq> c \<Longrightarrow> expect c (d # t) = None"
  by (simp add: expect_def skip_ws_def)

lemma json_punct [simp]: "\<not> json_ws (CHR '','')" "\<not> json_ws (CHR '']'')" "\<not> json_ws (CHR ''}'')" "\<not> json_ws (CHR '':'')"
  "\<not> json_ws dquote" "\<not> json_ws (CHR ''{'')" "\<not> json_ws (CHR ''['')"
  by (simp_all add: json_ws_def dquote_def)

lemma jelems_strs:
  assumes "xs \<noteq> []" and "length xs < n"
  shows "jelems n d (str_join '','' (map json_quote xs) @ '']'' @ r) = Some (map JStr xs, r)"
  using assms
proof (induction xs arbitrary: n)
  case (Cons x xs)
  then obtain m where m: "n = Suc m" "length xs < m" by (cases n) auto
  then obtain l where l: "m = Suc l" by (cases m) auto
  show ?case
  proof (cases xs)
    case Nil
    then show ?thesis using jvalue_str [of l d x "'']'' @ r"] m l by (simp add: expect_hit)
  next
    case (Cons y ys)
    let ?t = "str_join '','' (map json_quote xs) @ '']'' @ r"
    have "jvalue m d (json_quote x @ '','' @ ?t) = Some (JStr x, '','' @ ?t)" using jvalue_str [of l] l by simp
    with Cons.IH [of m] m Cons show ?thesis by (simp add: expect_hit expect_miss)
  qed
qed simp

definition json_strs :: "string list \<Rightarrow> string" where
  "json_strs xs = ''['' @ str_join '','' (map json_quote xs) @ '']''"

lemma length_str_join: "length ts \<le> length (str_join '','' ts) + 1"
  by (induction "'',''" ts rule: str_join.induct) auto

lemma json_quote_hd: "json_quote x @ t = dquote # (concat (map json_esc x) @ dquote # t)"
  by (simp add: json_quote_def)

lemma jtext_strs:
  assumes "xs \<noteq> []"
  shows "jtext (json_strs xs) (JArr (map JStr xs))"
proof -
  have "jvalue (Suc n) d (json_strs xs @ r) = Some (JArr (map JStr xs), r)"
    if n: "length (json_strs xs) \<le> n" and d: "d \<le> 5" for n d r
  proof -
    let ?t = "str_join '','' (map json_quote xs) @ '']'' @ r"
    have "length xs < n" using n length_str_join [of "map json_quote xs"] by (simp add: json_strs_def)
    then have "jelems n (Suc d) ?t = Some (map JStr xs, r)" by (rule jelems_strs [OF assms])
    moreover obtain u where "?t = dquote # u"
      using assms by (cases xs; cases "tl xs") (auto simp: json_quote_def)
    then have "expect (CHR '']'') ?t = None" by (simp add: expect_miss dquote_def json_ws_def)
    moreover have "json_strs xs @ r = CHR ''['' # ?t" by (simp add: json_strs_def)
    ultimately show ?thesis using d
      by (simp add: skip_ws_def maxNestingDepth_def dquote_def json_ws_def)
  qed
  then show ?thesis by (simp add: jtext_def json_strs_def)
qed

text \<open>An object with the given member texts.\<close>

definition json_member :: "string \<times> string \<Rightarrow> string" where
  "json_member kt = json_quote (fst kt) @ '':'' @ snd kt"

definition json_object :: "(string \<times> string) list \<Rightarrow> string" where
  "json_object kts = ''{'' @ str_join '','' (map json_member kts) @ ''}''"

lemma jmembers_text:
  assumes "list_all2 (\<lambda>kt kv. fst kv = fst kt \<and> jtext (snd kt) (snd kv)) kts kvs" and "kts \<noteq> []" and "d \<le> 5"
    and "length (str_join '','' (map json_member kts)) + 1 < n"
  shows "jmembers n d (str_join '','' (map json_member kts) @ ''}'' @ r) = Some (kvs, r)"
  using assms
proof (induction kts kvs arbitrary: n rule: list_all2_induct)
  case (Cons kt kts kv kvs)
  obtain k t v where k: "kt = (k, t)" "kv = (k, v)" "jtext t v" using Cons.hyps(1) by (cases kt; cases kv) auto
  show ?case
  proof (cases kts)
    case Nil
    then have "kvs = []" using Cons.hyps(2) by simp
    obtain m where m: "n = Suc (Suc m)" "length t \<le> m"
      using Cons.prems(3) Nil k by (cases n; cases "n - 1") (auto simp: json_member_def json_quote_def)
    have "jvalue (Suc m) d (t @ ''}'' @ r) = Some (v, ''}'' @ r)"
      using k(3) m(2) Cons.prems(2) by (simp add: jtext_def jstop_def)
    with Nil \<open>kvs = []\<close> k m show ?thesis
      by (simp add: json_member_def json_quote_def expect_hit json_str_quote)
  next
    case (Cons kt2 kts2)
    let ?rest = "str_join '','' (map json_member kts)"
    have j: "str_join '','' (map json_member (kt # kts)) = json_quote k @ '':'' @ t @ '','' @ ?rest"
      using Cons k by (simp add: json_member_def)
    then obtain m where m: "n = Suc (Suc m)" "length t \<le> m" "length ?rest + 1 < Suc m"
      using Cons.prems(3) by (cases n; cases "n - 1") (auto simp: json_quote_def)
    have "jvalue (Suc m) d (t @ '','' @ ?rest @ ''}'' @ r) = Some (v, '','' @ ?rest @ ''}'' @ r)"
      using k(3) m(2) Cons.prems(2) by (simp add: jtext_def jstop_def)
    moreover have "jmembers (Suc m) d (?rest @ ''}'' @ r) = Some (kvs, r)"
      using Cons.IH [OF _ Cons.prems(2) m(3)] Cons by simp
    ultimately show ?thesis
      unfolding j using k m(1) by (simp add: json_quote_def expect_hit expect_miss json_str_quote)
  qed
qed simp

theorem json_parse_object:
  assumes "list_all2 (\<lambda>kt kv. fst kv = fst kt \<and> jtext (snd kt) (snd kv)) kts kvs" and "kts \<noteq> []"
  shows "json_parse (json_object kts) = Some (JObj kvs)"
proof -
  let ?t = "str_join '','' (map json_member kts)"
  let ?n = "2 * length (json_object kts) + 1"
  have "jmembers ?n 1 (?t @ ''}'' @ []) = Some (kvs, [])"
    using assms by (intro jmembers_text) (auto simp: json_object_def)
  moreover obtain u where "?t = dquote # u"
    using assms(2) by (cases kts; cases "tl kts") (auto simp: json_member_def json_quote_def)
  then have "expect (CHR ''}'') (?t @ ''}'') = None" by (simp add: expect_miss dquote_def json_ws_def)
  moreover have "json_object kts = CHR ''{'' # (?t @ ''}'')" by (simp add: json_object_def)
  ultimately have "jvalue (Suc ?n) 0 (json_object kts) = Some (JObj kvs, [])"
    by (simp add: skip_ws_def maxNestingDepth_def dquote_def json_ws_def)
  then show ?thesis by (simp add: json_parse_def skip_ws_def)
qed

section \<open>The fuel is enough\<close>

lemma skip_ws_length: "length (skip_ws s) \<le> length s"
  by (simp add: skip_ws_def length_dropWhile_le)

lemma expect_length: "expect c s = Some t \<Longrightarrow> length t < length s"
  using skip_ws_length [of s] by (auto simp: expect_def split: list.splits if_splits)

lemma json_str_length: "json_str s = Some (x, r) \<Longrightarrow> length r < length s"
proof (induction s arbitrary: x rule: length_induct)
  case (1 s)
  have IH: "length t < length s \<Longrightarrow> json_str t = Some (y, r) \<Longrightarrow> length r < length s" for t y
    using "1.IH" by (meson order.strict_trans)
  from "1.prems" obtain c t where s: "s = c # t" by (subst (asm) json_str.simps) (auto split: list.splits)
  have IHs: "length w < Suc (length t) \<Longrightarrow> json_str w = Some (y, r) \<Longrightarrow> length r < Suc (length t)" for w y
    using IH s by simp
  have u: "length (snd (surrogate n v)) < length s" if "t = e # u" "hex4 u = Some (n, v)" for e u n v
    using that hex4_length [of u n v] surrogate_length [of n v] s by simp
  show ?case
  proof (cases "c = dquote")
    case True
    with "1.prems" s show ?thesis by (subst (asm) json_str.simps) simp
  next
    case q: False
    show ?thesis
    proof (cases "c = bslash")
      case False
      with "1.prems" s q show ?thesis
        by (subst (asm) json_str.simps) (auto simp: prepend_def split: if_splits intro: IHs)
    next
      case True
      with "1.prems" s q obtain e w where w: "t = e # w"
        by (subst (asm) json_str.simps) (auto split: list.splits if_splits)
      have IHw: "length v < Suc (Suc (length w)) \<Longrightarrow> json_str v = Some (y, r) \<Longrightarrow> length r < Suc (Suc (length w))" for v y
        using IHs w by simp
      have IHe: "json_str w = Some (y, r) \<Longrightarrow> length r < Suc (Suc (length w))" for y
        by (rule IHw [of w]) simp_all
      show ?thesis
        using "1.prems" s q True w u [OF w]
        by (subst (asm) json_str.simps) (auto simp: prepend_def split: if_splits option.splits intro: IHw IHe)
    qed
  qed
qed

lemma num_lengths:
  "num_int s = Some (i, r) \<Longrightarrow> length r < length s" "num_frac s = Some (i, r) \<Longrightarrow> length r \<le> length s"
  "num_exp s = Some (i, r) \<Longrightarrow> length r \<le> length s"
  using length_dropWhile_le [of json_digit]
  by (auto simp: num_int_def num_frac_def num_exp_def Let_def less_Suc_eq_le le_SucI split: list.splits if_splits prod.splits)

lemma json_lit_length: "json_lit s = Some (v, r) \<Longrightarrow> length r < length s"
proof -
  have "length r < length s" if n: "json_num s = Some (x, r)" for x
  proof -
    define s1 where "s1 = (case s of [] \<Rightarrow> [] | c # t \<Rightarrow> if c = CHR ''-'' then t else s)"
    have "length s1 \<le> length s" by (simp add: s1_def split: list.splits)
    moreover obtain i s2 f s3 e where "num_int s1 = Some (i, s2)" "num_frac s2 = Some (f, s3)" "num_exp s3 = Some (e, r)"
      using n by (cases s) (auto simp: json_num_def s1_def split: if_splits option.splits)
    ultimately obtain i s2 f s3 e where s: "length s1 \<le> length s" "num_int s1 = Some (i, s2)" "num_frac s2 = Some (f, s3)"
      "num_exp s3 = Some (e, r)" by blast
    from num_lengths(1) [OF s(2)] num_lengths(2) [OF s(3)] num_lengths(3) [OF s(4)] s(1) show ?thesis by linarith
  qed
  then show "json_lit s = Some (v, r) \<Longrightarrow> ?thesis"
    by (auto simp: json_lit_def has_prefix_iff split: if_splits)
qed

lemma jlengths:
  "jvalue n d s = Some (v, r) \<Longrightarrow> length r < length s"
  "jelems n d s = Some (vs, r) \<Longrightarrow> length r < length s"
  "jmembers n d s = Some (ms, r) \<Longrightarrow> length r < length s"
proof (induction n d s and n d s and n d s arbitrary: v r and vs r and ms r rule: jvalue_jelems_jmembers.induct)
  case (2 n d s)
  then show ?case using skip_ws_length [of s]
    by (force split: list.splits if_splits option.splits dest: json_str_length expect_length json_lit_length)
next
  case (4 n d s)
  then show ?case by (fastforce split: option.splits dest: expect_length)
next
  case (6 n d s)
  then show ?case by (fastforce split: option.splits dest: expect_length json_str_length)
qed simp_all

lemma jfuel_step:
  "(\<forall>d s. 2 * length s + 1 \<le> n \<longrightarrow> jvalue (Suc n) d s = jvalue n d s) \<and>
   (\<forall>d s. 2 * length s + 2 \<le> n \<longrightarrow> jelems (Suc n) d s = jelems n d s \<and> jmembers (Suc n) d s = jmembers n d s)"
proof (induction n)
  case (Suc n)
  have v: "jvalue (Suc (Suc n)) d s = jvalue (Suc n) d s" if l: "2 * length s + 1 \<le> Suc n" for d s
  proof -
    show ?thesis
    proof (cases "skip_ws s")
      case (Cons c t)
      then have eq: "jelems (Suc n) d' t = jelems n d' t" "jmembers (Suc n) d' t = jmembers n d' t" for d'
        using Suc.IH l skip_ws_length [of s] by simp_all
      show ?thesis by (subst (1 2) jvalue.simps) (simp only: Cons list.case eq)
    qed simp
  qed
  have el: "jelems (Suc (Suc n)) d s = jelems (Suc n) d s" if l: "2 * length s + 2 \<le> Suc n" for d s
  proof (cases "jvalue n d s")
    case None
    with Suc.IH l show ?thesis by simp
  next
    case (Some vr)
    then obtain x r where x: "jvalue n d s = Some (x, r)" "jvalue (Suc n) d s = Some (x, r)" using Suc.IH l by (cases vr) simp
    have "jelems (Suc n) d r2 = jelems n d r2" if "expect (CHR '','') r = Some r2" for r2
      using Suc.IH l jlengths(1) [OF x(1)] expect_length [OF that] by simp
    then show ?thesis by (subst (1 2) jelems.simps) (simp add: x del: jelems.simps jvalue.simps split: option.split)
  qed
  have mem: "jmembers (Suc (Suc n)) d s = jmembers (Suc n) d s" if l: "2 * length s + 2 \<le> Suc n" for d s
  proof (cases "expect dquote s")
    case (Some t)
    show ?thesis
    proof (cases "json_str t")
      case k: (Some kr)
      obtain k r where kr: "json_str t = Some (k, r)" using k by (cases kr) simp
      show ?thesis
      proof (cases "expect (CHR '':'') r")
        case r1: (Some r1)
        have len: "length r1 + 3 \<le> length s"
          using expect_length [OF Some] json_str_length [OF kr] expect_length [OF r1] by linarith
        then have eq: "jvalue (Suc n) d r1 = jvalue n d r1" using Suc.IH l by simp
        have "jmembers (Suc n) d r3 = jmembers n d r3"
          if "jvalue n d r1 = Some (x, r2)" "expect (CHR '','') r2 = Some r3" for x r2 r3
          using Suc.IH l len jlengths(1) [OF that(1)] expect_length [OF that(2)] by simp
        then show ?thesis
          by (subst (1 2) jmembers.simps) (simp add: Some kr r1 eq del: jmembers.simps jvalue.simps split: option.split)
      qed (simp add: Some kr)
    qed (simp add: Some)
  qed simp
  from v el mem show ?case by blast
qed simp

theorem json_fuel:
  assumes "2 * length s + 2 \<le> n"
  shows "jvalue n d s = jvalue (2 * length s + 2) d s"
  using assms
proof (induction n rule: dec_induct)
  case (step n)
  with jfuel_step [of n] show ?case by simp
qed simp

end
