(* ===== verification/Go_Url.thy ===== *)
theory Go_Url
  imports Go_Hex
begin

text \<open>
  Go's \<open>url.QueryEscape\<close> and \<open>url.QueryUnescape\<close>, on arbitrary bytes, with the round trip.
  Nothing here models a file of the repository.
\<close>

definition url_unreserved :: "char \<Rightarrow> bool" where
  "url_unreserved c \<longleftrightarrow>
     (let n = of_char c :: nat in
      97 \<le> n \<and> n \<le> 122 \<or> 65 \<le> n \<and> n \<le> 90 \<or> 48 \<le> n \<and> n \<le> 57 \<or> c \<in> {CHR ''-'', CHR ''_'', CHR ''.'', CHR 0x7E})"

definition upper_hex :: string where "upper_hex = ''0123456789ABCDEF''"

definition query_esc :: "char \<Rightarrow> string" where
  "query_esc c =
     (if url_unreserved c then [c]
      else if c = CHR '' '' then ''+''
      else (let n = of_char c :: nat in [CHR 0x25, upper_hex ! (n div 16), upper_hex ! (n mod 16)]))"

definition QueryEscape :: "string \<Rightarrow> string" where
  "QueryEscape s = concat (map query_esc s)"

text \<open>A percent sign that is not followed by two hexadecimal digits is an error.\<close>

fun QueryUnescape :: "string \<Rightarrow> string option" where
  "QueryUnescape [] = Some []"
| "QueryUnescape (c # s) =
     (if c = CHR 0x25 then
        (case s of
           a # b # t \<Rightarrow>
             (case (hex_val a, hex_val b) of
                (Some h, Some l) \<Rightarrow> map_option (\<lambda>u. char_of (h * 16 + l) # u) (QueryUnescape t)
              | _ \<Rightarrow> None)
         | _ \<Rightarrow> None)
      else map_option (\<lambda>u. (if c = CHR ''+'' then CHR '' '' else c) # u) (QueryUnescape s))"

lemma hex_val_upper: "n < 16 \<Longrightarrow> hex_val (upper_hex ! n) = Some n"
proof -
  have "\<forall>n \<in> set [0..<16]. hex_val (upper_hex ! n) = Some n" by code_simp
  then show "n < 16 \<Longrightarrow> ?thesis" by simp
qed

lemma of_char_less: "(of_char c :: nat) < 256"
  by (simp add: of_char_def)

lemma QueryUnescape_esc: "QueryUnescape (query_esc c @ t) = map_option ((#) c) (QueryUnescape t)"
proof -
  have u: "url_unreserved c \<Longrightarrow> c \<noteq> CHR 0x25 \<and> c \<noteq> CHR ''+''" by (auto simp: url_unreserved_def)
  have d: "(of_char c :: nat) div 16 < 16" using of_char_less [of c] by (simp add: less_mult_imp_div_less)
  have e: "char_of ((of_char c :: nat) div 16 * 16 + of_char c mod 16) = c" by (simp only: div_mult_mod_eq char_of_char)
  show ?thesis
    using u d e by (auto simp: query_esc_def hex_val_upper Let_def)
qed

theorem query_roundtrip: "QueryUnescape (QueryEscape s) = Some s"
  by (induction s) (simp_all add: QueryEscape_def QueryUnescape_esc)

end
