(* ===== verification/Wg_Share.thy ===== *)
theory Wg_Share
  imports Wg_Profile Wg_Kernel Cidr_List Go_Json Go_Url
begin

text \<open>
  Share URLs, \<open>pkg/wgshare\<close>: a client profile as one URL (\<open>share.go\<close>) and the configurations of the
  tunnel and of the embedded kernel made from it (\<open>convert.go\<close>). The payload is JSON in base64.
  The texts of the errors of \<open>encoding/base64\<close>, \<open>encoding/json\<close> and \<open>net/netip\<close> are parameters.
\<close>

section \<open>Definitions\<close>

definition Scheme :: string where "Scheme = ''wgturn''"

definition formatVersion :: int where "formatVersion = 1"

record wire_format =
  wf_V :: int
  wf_SP :: string
  wf_CP :: string
  wf_PSK :: string
  wf_EP :: string
  wf_AD :: string
  wf_AI :: "string list"
  wf_DNS :: "string list"
  wf_MTU :: int
  wf_KA :: int

text \<open>The members \<open>json.Marshal\<close> writes: the field tags in order, without the empty fields that are
  tagged \<open>omitempty\<close>.\<close>

definition wire_members :: "wire_format \<Rightarrow> (string \<times> string) list" where
  "wire_members w =
     [(''v'', show_int (wf_V w)), (''sp'', json_quote (wf_SP w)), (''cp'', json_quote (wf_CP w))] @
     (if wf_PSK w = [] then [] else [(''psk'', json_quote (wf_PSK w))]) @
     [(''ep'', json_quote (wf_EP w)), (''ad'', json_quote (wf_AD w))] @
     (if wf_AI w = [] then [] else [(''ai'', json_strs (wf_AI w))]) @
     (if wf_DNS w = [] then [] else [(''dns'', json_strs (wf_DNS w))]) @
     (if wf_MTU w = 0 then [] else [(''mtu'', show_int (wf_MTU w))]) @
     (if wf_KA w = 0 then [] else [(''ka'', show_int (wf_KA w))])"

definition json_Marshal :: "wire_format \<Rightarrow> string" where
  "json_Marshal w = json_object (wire_members w)"

text \<open>\<open>json.Unmarshal\<close> into the struct. A key selects the field whose tag it is up to case; other
  keys are skipped; a later member overwrites an earlier one; \<open>null\<close> leaves a string or a number
  as it is and empties a slice. A value of another type makes the whole call fail. An array is
  decoded onto the slice's old elements, also those beyond its length that an earlier, longer
  array left behind; the second component of the state are those of the two slices.\<close>

type_synonym wire_state = "wire_format \<times> string list \<times> string list"

fun elems_into :: "jval list \<Rightarrow> string list \<Rightarrow> string list option" where
  "elems_into [] old = Some []"
| "elems_into (v # vs) old =
     (case str_into v (case old of [] \<Rightarrow> [] | x # _ \<Rightarrow> x) of
        None \<Rightarrow> None
      | Some x \<Rightarrow> map_option ((#) x) (elems_into vs (tl old)))"

definition slice_into :: "jval \<Rightarrow> string list \<Rightarrow> string list \<Rightarrow> (string list \<times> string list) option" where
  "slice_into v cur stale =
     (case v of
        JArr vs \<Rightarrow>
          if vs = [] then Some ([], [])
          else map_option (\<lambda>xs. (xs, drop (length xs) (cur @ stale))) (elems_into vs (cur @ stale))
      | JNull \<Rightarrow> Some ([], [])
      | _ \<Rightarrow> None)"

definition member_into :: "string \<times> jval \<Rightarrow> wire_state \<Rightarrow> wire_state option" where
  "member_into kv st =
     (let k = to_lower (fst kv); v = snd kv; (w, sa, sd) = st in
      if k = ''v'' then map_option (\<lambda>x. (w\<lparr>wf_V := x\<rparr>, sa, sd)) (int_into v (wf_V w))
      else if k = ''sp'' then map_option (\<lambda>x. (w\<lparr>wf_SP := x\<rparr>, sa, sd)) (str_into v (wf_SP w))
      else if k = ''cp'' then map_option (\<lambda>x. (w\<lparr>wf_CP := x\<rparr>, sa, sd)) (str_into v (wf_CP w))
      else if k = ''psk'' then map_option (\<lambda>x. (w\<lparr>wf_PSK := x\<rparr>, sa, sd)) (str_into v (wf_PSK w))
      else if k = ''ep'' then map_option (\<lambda>x. (w\<lparr>wf_EP := x\<rparr>, sa, sd)) (str_into v (wf_EP w))
      else if k = ''ad'' then map_option (\<lambda>x. (w\<lparr>wf_AD := x\<rparr>, sa, sd)) (str_into v (wf_AD w))
      else if k = ''ai'' then map_option (\<lambda>(x, s). (w\<lparr>wf_AI := x\<rparr>, s, sd)) (slice_into v (wf_AI w) sa)
      else if k = ''dns'' then map_option (\<lambda>(x, s). (w\<lparr>wf_DNS := x\<rparr>, sa, s)) (slice_into v (wf_DNS w) sd)
      else if k = ''mtu'' then map_option (\<lambda>x. (w\<lparr>wf_MTU := x\<rparr>, sa, sd)) (int_into v (wf_MTU w))
      else if k = ''ka'' then map_option (\<lambda>x. (w\<lparr>wf_KA := x\<rparr>, sa, sd)) (int_into v (wf_KA w))
      else Some st)"

fun members_into :: "(string \<times> jval) list \<Rightarrow> wire_state \<Rightarrow> wire_state option" where
  "members_into [] st = Some st"
| "members_into (kv # kvs) st =
     (case member_into kv st of None \<Rightarrow> None | Some st' \<Rightarrow> members_into kvs st')"

definition zero_wire :: wire_format where
  "zero_wire = \<lparr>wf_V = 0, wf_SP = [], wf_CP = [], wf_PSK = [], wf_EP = [], wf_AD = [], wf_AI = [], wf_DNS = [],
     wf_MTU = 0, wf_KA = 0\<rparr>"

definition json_Unmarshal :: "string \<Rightarrow> wire_format option" where
  "json_Unmarshal s =
     (case json_parse s of
        None \<Rightarrow> None
      | Some v \<Rightarrow>
          (case v of
             JNull \<Rightarrow> Some zero_wire
           | JObj kvs \<Rightarrow> map_option fst (members_into kvs (zero_wire, [], []))
           | _ \<Rightarrow> None))"

text \<open>The bytes of a string and back.\<close>

definition to_bytes :: "string \<Rightarrow> bytes" where
  "to_bytes s = map (\<lambda>c. of_nat (of_char c)) s"

definition of_bytes :: "bytes \<Rightarrow> string" where
  "of_bytes bs = map (\<lambda>b. char_of (unat b)) bs"

definition wire_of :: "profile \<Rightarrow> wire_format" where
  "wire_of p =
     \<lparr>wf_V = formatVersion, wf_SP = pf_ServerPublicKey p, wf_CP = pf_ClientPrivateKey p, wf_PSK = pf_PresharedKey p,
      wf_EP = pf_Endpoint p, wf_AD = show_prefix (pf_Address p), wf_AI = map show_prefix (pf_AllowedIPs p),
      wf_DNS = map show_addr (pf_DNS p), wf_MTU = pf_MTU p, wf_KA = go_div (pf_PersistentKeepalive p) second\<rparr>"

definition Encode :: "profile \<Rightarrow> string res" where
  "Encode p =
     (case profile_Validate p of
        Some err \<Rightarrow> Inl err
      | None \<Rightarrow>
          Inr (Scheme @ ''://'' @ b64_encode RawURLEncoding (to_bytes (json_Marshal (wire_of p))) @
               (if pf_Label p \<noteq> [] then ''#'' @ QueryEscape (pf_Label p) else [])))"

record share_errs =
  se_b64 :: "string \<Rightarrow> string"
  se_json :: "string \<Rightarrow> string"
  se_prefix :: "string \<Rightarrow> string"
  se_addr :: "string \<Rightarrow> string"

definition parse_ai :: "share_errs \<Rightarrow> string \<Rightarrow> string \<Rightarrow> prefix res" where
  "parse_ai se what a =
     (case parse_prefix a of None \<Rightarrow> Inl (invalid_url (what @ quoted a @ '': '' @ se_prefix se a)) | Some pp \<Rightarrow> Inr pp)"

definition parse_dns :: "share_errs \<Rightarrow> string \<Rightarrow> addr res" where
  "parse_dns se d =
     (case parse_addr d of None \<Rightarrow> Inl (invalid_url ('': DNS '' @ quoted d @ '': '' @ se_addr se d)) | Some a \<Rightarrow> Inr a)"

text \<open>The invalid zero value of \<open>netip.Prefix\<close>.\<close>

definition zero_prefix :: prefix where
  "zero_prefix = \<lparr>pfx_addr = AddrZero, pfx_bits = - 1\<rparr>"

definition profile_of :: "share_errs \<Rightarrow> string \<Rightarrow> wire_format \<Rightarrow> profile res" where
  "profile_of se label w =
     bind_res (if wf_AD w \<noteq> [] then parse_ai se '': address '' (wf_AD w) else Inr zero_prefix) (\<lambda>ad.
     bind_res (map_res (parse_ai se '': AllowedIPs '') (wf_AI w)) (\<lambda>ai.
     bind_res (map_res (parse_dns se) (wf_DNS w)) (\<lambda>dns.
       let p = \<lparr>pf_Label = label, pf_ServerPublicKey = wf_SP w, pf_ClientPrivateKey = wf_CP w,
                pf_PresharedKey = wf_PSK w, pf_Endpoint = wf_EP w, pf_Address = ad, pf_AllowedIPs = ai, pf_DNS = dns,
                pf_MTU = wf_MTU w, pf_PersistentKeepalive = int64_wrap (wf_KA w * second)\<rparr>
       in case profile_Validate p of Some err \<Rightarrow> Inl err | None \<Rightarrow> Inr p)))"

text \<open>The label behind the first \<open>#\<close>, raw when it does not decode, and the payload before it.\<close>

definition split_label :: "string \<Rightarrow> string \<times> string" where
  "split_label rest =
     (case index_byte rest (CHR ''#'') of
        None \<Rightarrow> ([], rest)
      | Some i \<Rightarrow>
          (let raw = drop (i + 1) rest in
           (case QueryUnescape raw of None \<Rightarrow> raw | Some dec \<Rightarrow> dec, take i rest)))"

definition share_Parse :: "share_errs \<Rightarrow> string \<Rightarrow> profile res" where
  "share_Parse se s =
     (case cut_prefix s (Scheme @ ''://'') of
        None \<Rightarrow> Inl (invalid_url ('': missing '' @ quoted (Scheme @ ''://'') @ '' scheme''))
      | Some rest0 \<Rightarrow>
          (let (label, rest) = split_label rest0 in
           if rest = [] then Inl (invalid_url '': empty payload'')
           else case b64_decode RawURLEncoding rest of
             None \<Rightarrow> Inl (invalid_url ('': base64 decode: '' @ se_b64 se rest))
           | Some js \<Rightarrow>
               (case json_Unmarshal (of_bytes js) of
                  None \<Rightarrow> Inl (invalid_url ('': json: '' @ se_json se (of_bytes js)))
                | Some w \<Rightarrow>
                    if wf_V w \<noteq> formatVersion
                    then Inl (invalid_url ('': unsupported version '' @ show_int (wf_V w) @
                           '' (this binary handles v'' @ show_int formatVersion @ '')''))
                    else profile_of se label w)))"

subsection \<open>Configurations made from a profile\<close>

definition DefaultStreams :: int where "DefaultStreams = 24"
definition DefaultListen :: string where "DefaultListen = ''127.0.0.1:0''"
definition ModeVKLink :: string where "ModeVKLink = ''vk_link''"

definition share_ToTunnelConfig :: "profile \<Rightarrow> string \<Rightarrow> turn_config" where
  "share_ToTunnelConfig p vkLink =
     \<lparr>tc_PeerAddr = pf_Endpoint p, tc_ListenAddr = DefaultListen, tc_Streams = DefaultStreams,
      tc_PeerType = PeerTypeProxyV2, tc_Mode = (if vkLink \<noteq> [] then ModeVKLink else []), tc_Hint = vkLink,
      tc_Hints = [], tc_UDP = True, tc_TURNHostOverride = [], tc_TURNPortOverride = 0, tc_StreamsPerCred = 0,
      tc_WatchdogTimeout = 0, tc_Provider = None, tc_Protector = None, tc_Logger = None\<rparr>"

definition default_route :: prefix where "default_route = prefix_from (V4 0) 0"

definition ToKernelConfig :: "profile \<Rightarrow> kernel_config" where
  "ToKernelConfig p =
     \<lparr>kc_PrivateKey = pf_ClientPrivateKey p, kc_Address = [pf_Address p], kc_ListenPort = 0, kc_MTU = pf_MTU p,
      kc_DNS = pf_DNS p,
      kc_Peers =
        [\<lparr>pc_PublicKey = pf_ServerPublicKey p, pc_PresharedKey = pf_PresharedKey p, pc_Endpoint = [],
          pc_AllowedIPs = (if length (pf_AllowedIPs p) = 0 then [default_route] else pf_AllowedIPs p),
          pc_PersistentKeepalive = pf_PersistentKeepalive p\<rparr>]\<rparr>"

section \<open>The payload reads back\<close>

lemma of_bytes_to_bytes [simp]: "of_bytes (to_bytes s) = s"
proof -
  have "unat (of_nat (of_char c) :: byte) = of_char c" for c
    using of_char_less [of c] by (simp add: unat_of_nat)
  then show ?thesis by (simp add: of_bytes_def to_bytes_def comp_def)
qed

definition wire_values :: "wire_format \<Rightarrow> (string \<times> jval) list" where
  "wire_values w =
     [(''v'', JNum (show_int (wf_V w))), (''sp'', JStr (wf_SP w)), (''cp'', JStr (wf_CP w))] @
     (if wf_PSK w = [] then [] else [(''psk'', JStr (wf_PSK w))]) @
     [(''ep'', JStr (wf_EP w)), (''ad'', JStr (wf_AD w))] @
     (if wf_AI w = [] then [] else [(''ai'', JArr (map JStr (wf_AI w)))]) @
     (if wf_DNS w = [] then [] else [(''dns'', JArr (map JStr (wf_DNS w)))]) @
     (if wf_MTU w = 0 then [] else [(''mtu'', JNum (show_int (wf_MTU w)))]) @
     (if wf_KA w = 0 then [] else [(''ka'', JNum (show_int (wf_KA w)))])"

lemma json_parse_Marshal: "json_parse (json_Marshal w) = Some (JObj (wire_values w))"
  unfolding json_Marshal_def
  by (rule json_parse_object)
    (auto simp: wire_members_def wire_values_def jtext_str jtext_int jtext_strs intro!: list_all2_appendI)

lemma elems_into_strs: "elems_into (map JStr xs) old = Some xs"
  by (induction xs arbitrary: old) (simp_all add: str_into_def)

lemma members_into_append:
  "members_into (a @ b) st = (case members_into a st of None \<Rightarrow> None | Some st' \<Rightarrow> members_into b st')"
  by (induction a arbitrary: st) (auto split: option.splits)

lemma tag_lower:
  "to_lower ''v'' = ''v''" "to_lower ''sp'' = ''sp''" "to_lower ''cp'' = ''cp''" "to_lower ''psk'' = ''psk''"
  "to_lower ''ep'' = ''ep''" "to_lower ''ad'' = ''ad''" "to_lower ''ai'' = ''ai''" "to_lower ''dns'' = ''dns''"
  "to_lower ''mtu'' = ''mtu''" "to_lower ''ka'' = ''ka''"
  by code_simp+

lemmas into_simps = member_into_def str_into_def int_into_def slice_into_def tag_lower elems_into_strs

text \<open>One optional member decoded onto a state where its field is still empty.\<close>

lemma members_into_opt:
  "members_into (if x = [] then [] else [(''psk'', JStr x)]) (w, sa, sd) = Some (if x = [] then w else w\<lparr>wf_PSK := x\<rparr>, sa, sd)"
  "wf_AI w = [] \<Longrightarrow> members_into (if xs = [] then [] else [(''ai'', JArr (map JStr xs))]) (w, [], sd) = Some (w\<lparr>wf_AI := xs\<rparr>, [], sd)"
  "wf_DNS w = [] \<Longrightarrow> members_into (if xs = [] then [] else [(''dns'', JArr (map JStr xs))]) (w, sa, []) = Some (w\<lparr>wf_DNS := xs\<rparr>, sa, [])"
  "wf_MTU w = 0 \<Longrightarrow> int64_ok n \<Longrightarrow> members_into (if n = 0 then [] else [(''mtu'', JNum (show_int n))]) (w, sa, sd) = Some (w\<lparr>wf_MTU := n\<rparr>, sa, sd)"
  "wf_KA w = 0 \<Longrightarrow> int64_ok n \<Longrightarrow> members_into (if n = 0 then [] else [(''ka'', JNum (show_int n))]) (w, sa, sd) = Some (w\<lparr>wf_KA := n\<rparr>, sa, sd)"
  by (simp_all add: into_simps atoi_show_int)

lemma json_Unmarshal_Marshal:
  assumes "int64_ok (wf_V w)" and "int64_ok (wf_MTU w)" and "int64_ok (wf_KA w)"
  shows "json_Unmarshal (json_Marshal w) = Some w"
proof -
  have "members_into (wire_values w) (zero_wire, [], []) = Some (w, [], [])"
    unfolding wire_values_def zero_wire_def
    using assms
    by (cases w) (simp add: members_into_append members_into_opt atoi_show_int
        into_simps(1-3,5-14) del: members_into.simps(2) if_split,
      simp add: members_into_append members_into_opt atoi_show_int into_simps)
  then show ?thesis by (simp add: json_Unmarshal_def json_parse_Marshal)
qed

section \<open>Share URLs\<close>

text \<open>The profiles whose values Go's types allow: prefixes and addresses as \<open>netip\<close> builds them and
  64-bit numbers.\<close>

definition profile_wf :: "profile \<Rightarrow> bool" where
  "profile_wf p \<longleftrightarrow> prefix_ok (pf_Address p) \<and> (\<forall>a \<in> set (pf_AllowedIPs p). prefix_ok a) \<and>
     (\<forall>a \<in> set (pf_DNS p). a \<noteq> AddrZero) \<and> int64_ok (pf_MTU p) \<and> int64_ok (pf_PersistentKeepalive p)"

definition whole_seconds :: "duration \<Rightarrow> duration" where
  "whole_seconds d = go_div d second * second"

lemma go_div_bounds:
  assumes "int64_ok d"
  shows "int64_ok (go_div d second)" "int64_ok (go_div d second * second)"
proof -
  have q: "go_div d second = sgn d * (\<bar>d\<bar> div second)"
    by (simp add: go_div_def signed_divide_int_def second_def)
  have "\<bar>d\<bar> div second * second + \<bar>d\<bar> mod second = \<bar>d\<bar>" by (rule div_mult_mod_eq)
  moreover have "0 \<le> \<bar>d\<bar> mod second" "0 \<le> \<bar>d\<bar> div second"
    by (simp_all add: pos_imp_zdiv_nonneg_iff)
  moreover define x where "x = \<bar>d\<bar> div second"
  ultimately have x: "0 \<le> x" "x * second \<le> \<bar>d\<bar>" unfolding x_def by linarith+
  have qx: "go_div d second = sgn d * x" by (simp add: q x_def)
  have "\<bar>go_div d second\<bar> \<le> x" "\<bar>go_div d second * second\<bar> \<le> x * second" "x \<le> x * second"
    unfolding qx using x(1) by (simp_all add: sgn_if abs_mult second_def)
  with x(2) have b: "\<bar>go_div d second\<bar> \<le> \<bar>d\<bar>" "\<bar>go_div d second * second\<bar> \<le> \<bar>d\<bar>" by linarith+
  have s: "sgn (go_div d second) = sgn d \<or> go_div d second = 0"
    using x(1) by (auto simp: qx sgn_if)
  have ok: "int64_ok y" if "\<bar>y\<bar> \<le> \<bar>d\<bar>" "sgn y = sgn d \<or> y = 0" for y
    using that assms by (auto simp: int64_ok_def sgn_if split: if_splits)
  show "int64_ok (go_div d second)" by (rule ok [OF b(1) s])
  show "int64_ok (go_div d second * second)"
    using s by (intro ok [OF b(2)]) (auto simp: sgn_mult second_def)
qed

lemma map_res_ok: "(\<And>x. x \<in> set xs \<Longrightarrow> f (g x) = Inr x) \<Longrightarrow> map_res f (map g xs) = Inr xs"
  by (induction xs) simp_all

lemma url_payload_no_hash: "CHR ''#'' \<notin> set (b64_encode RawURLEncoding bs)"
  using b64_encode_chars [OF b64_ok_encodings(2), of "CHR ''#''" bs]
  by (auto simp: RawURLEncoding_def [THEN arg_cong [where f = be_alphabet]] RawURLEncoding_def [THEN arg_cong [where f = be_pad]] b64_url_def)

lemma split_label_encoded:
  assumes "CHR ''#'' \<notin> set t"
  shows "split_label (t @ (if l \<noteq> [] then ''#'' @ QueryEscape l else [])) = (l, t)"
  using index_byte_append [of "CHR ''#''" t "QueryEscape l"] assms
    index_byte_None [of t "CHR ''#''"]
  by (cases "l = []") (simp_all add: split_label_def query_roundtrip del: index_byte_None)

lemma json_Marshal_not_Nil [simp]: "json_Marshal w \<noteq> []"
  by (simp add: json_Marshal_def json_object_def)

lemma share_Parse_Encode:
  assumes "profile_Validate p = None" and "profile_wf p"
  shows "\<exists>url. Encode p = Inr url \<and>
    share_Parse se url = Inr (p\<lparr>pf_PersistentKeepalive := whole_seconds (pf_PersistentKeepalive p)\<rparr>)"
proof -
  let ?js = "json_Marshal (wire_of p)"
  let ?t = "b64_encode RawURLEncoding (to_bytes ?js)"
  let ?l = "if pf_Label p \<noteq> [] then ''#'' @ QueryEscape (pf_Label p) else []"
  let ?p = "p\<lparr>pf_PersistentKeepalive := whole_seconds (pf_PersistentKeepalive p)\<rparr>"
  note ka = go_div_bounds [of "pf_PersistentKeepalive p"]
  have cut: "cut_prefix (Scheme @ ''://'' @ ?t @ ?l) (Scheme @ ''://'') = Some (?t @ ?l)"
    by (simp add: cut_prefix_def Scheme_def)
  have ne: "?t \<noteq> []" by (simp add: to_bytes_def)
  have js: "json_Unmarshal ?js = Some (wire_of p)"
    using assms(2) ka by (intro json_Unmarshal_Marshal) (auto simp: wire_of_def profile_wf_def formatVersion_def int64_ok_def)
  have ai: "map_res (parse_ai se '': AllowedIPs '') (map show_prefix (pf_AllowedIPs p)) = Inr (pf_AllowedIPs p)"
    using assms(2) by (intro map_res_ok) (simp add: parse_ai_def profile_wf_def parse_prefix_show_prefix)
  have dns: "map_res (parse_dns se) (map show_addr (pf_DNS p)) = Inr (pf_DNS p)"
    using assms(2) by (intro map_res_ok) (simp add: parse_dns_def profile_wf_def parse_addr_show_addr)
  have "profile_Validate ?p = profile_Validate p" by (simp add: profile_Validate_def)
  then have "profile_Validate ?p = None" using assms(1) by simp
  moreover have "int64_wrap (go_div (pf_PersistentKeepalive p) second * second) = whole_seconds (pf_PersistentKeepalive p)"
    using assms(2) ka(2) by (simp add: int64_wrap_id whole_seconds_def profile_wf_def)
  ultimately have "profile_of se (pf_Label p) (wire_of p) = Inr ?p"
    using assms(2) ai dns
    by (cases p) (simp add: profile_of_def Let_def wire_of_def parse_ai_def profile_wf_def parse_prefix_show_prefix)
  then have "share_Parse se (Scheme @ ''://'' @ ?t @ ?l) = Inr ?p"
    using cut ne js split_label_encoded [OF url_payload_no_hash, of "to_bytes ?js" "pf_Label p"]
    by (simp add: share_Parse_def b64_decode_encode wire_of_def)
  with assms(1) show ?thesis by (simp add: Encode_def)
qed

text \<open>C20: A share URL carries its profile. \<open>Encode\<close> of a valid profile gives a URL that \<open>Parse\<close> reads
  back as the same profile: keys, endpoint, address, allowed addresses and resolvers of both address
  families in order, MTU, and any label, whatever characters it has. Only the keepalive is cut to
  whole seconds, so a profile with a keepalive of whole seconds is read back unchanged. A
  profile that does not validate is not encoded.\<close>

theorem share_url_roundtrip:
  assumes "profile_wf p"
  shows "(profile_Validate p = None \<longrightarrow>
      (\<exists>url. Encode p = Inr url \<and> has_prefix url ''wgturn://'' \<and>
        share_Parse se url = Inr (p\<lparr>pf_PersistentKeepalive := whole_seconds (pf_PersistentKeepalive p)\<rparr>) \<and>
        (\<forall>n. pf_PersistentKeepalive p = n * second \<longrightarrow> share_Parse se url = Inr p))) \<and>
    (profile_Validate p \<noteq> None \<longrightarrow> is_err (Encode p))"
proof (intro conjI impI)
  assume v: "profile_Validate p = None"
  from share_Parse_Encode [OF v assms, of se] obtain url where u: "Encode p = Inr url"
    "share_Parse se url = Inr (p\<lparr>pf_PersistentKeepalive := whole_seconds (pf_PersistentKeepalive p)\<rparr>)" by blast
  have "has_prefix url ''wgturn://''" using u(1) v by (auto simp: Encode_def Scheme_def)
  moreover have "whole_seconds (n * second) = n * second" for n
    by (simp add: whole_seconds_def go_div_def signed_divide_int_def sgn_if abs_mult second_def)
  then have "share_Parse se url = Inr p" if "pf_PersistentKeepalive p = n * second" for n
    using u(2) that by (metis (no_types) profile.surjective profile.update_convs(10))
  ultimately show "\<exists>url. Encode p = Inr url \<and> has_prefix url ''wgturn://'' \<and>
      share_Parse se url = Inr (p\<lparr>pf_PersistentKeepalive := whole_seconds (pf_PersistentKeepalive p)\<rparr>) \<and>
      (\<forall>n. pf_PersistentKeepalive p = n * second \<longrightarrow> share_Parse se url = Inr p)"
    using u by blast
next
  assume "profile_Validate p \<noteq> None"
  then show "is_err (Encode p)" by (auto simp: Encode_def)
qed

definition demo_profile :: profile where
  "demo_profile = \<lparr>pf_Label = ''anna & bob'', pf_ServerPublicKey = demo_key, pf_ClientPrivateKey = demo_key,
     pf_PresharedKey = [], pf_Endpoint = ''is-01.example.com:56000'', pf_Address = prefix_from (V4 0x0A070005) 24,
     pf_AllowedIPs = [prefix_from (V4 0) 0, prefix_from (V6 0 []) 0], pf_DNS = [V4 0x01010101], pf_MTU = 1280,
     pf_PersistentKeepalive = 25 * second\<rparr>"

lemma demo_key_not_Nil: "demo_key \<noteq> []"
  by (simp add: demo_key_def encodeWGKeyBase64_def)

lemma demo_profile_ok: "profile_Validate demo_profile = None" "profile_wf demo_profile"
  by (simp_all add: profile_Validate_def profile_wf_def demo_profile_def demo_key_not_Nil prefix_ok_def prefix_from_def
      prefix_valid_def int64_ok_def second_def)

theorem share_url_roundtrip_witness:
  "\<exists>url. Encode demo_profile = Inr url \<and>
     share_Parse \<lparr>se_b64 = id, se_json = id, se_prefix = id, se_addr = id\<rparr> url = Inr demo_profile"
proof -
  have "pf_PersistentKeepalive demo_profile = 25 * second" by (simp add: demo_profile_def)
  with share_url_roundtrip [OF demo_profile_ok(2), of "\<lparr>se_b64 = id, se_json = id, se_prefix = id, se_addr = id\<rparr>"]
    demo_profile_ok(1)
  show ?thesis by blast
qed

lemma map_res_err: "map_res f xs = Inl e \<Longrightarrow> \<exists>x \<in> set xs. f x = Inl e"
  by (induction xs) (auto simp: bind_res_Inl_iff)

lemma invalid_url_Is [simp]: "errors_Is (invalid_url m) ErrInvalidURL"
  by (simp add: invalid_url_def errors_Is_def)

lemma profile_Validate_Is: "profile_Validate p = Some e \<Longrightarrow> errors_Is e ErrInvalidURL"
  by (auto simp: profile_Validate_def split: if_splits)

lemma validated_Inl:
  "(case profile_Validate p of None \<Rightarrow> Inr p | Some err \<Rightarrow> Inl err) = Inl e \<longleftrightarrow> profile_Validate p = Some e"
  by (cases "profile_Validate p") simp_all

lemma profile_of_err: "profile_of se l w = Inl e \<Longrightarrow> errors_Is e ErrInvalidURL"
  by (auto simp: profile_of_def Let_def bind_res_Inl_iff parse_ai_def parse_dns_def validated_Inl
      dest!: map_res_err profile_Validate_Is split: if_splits option.split_asm)

lemma prefix_from_okI:
  "addr_valid ip \<Longrightarrow> \<not> has_zone ip \<Longrightarrow> \<not> bits < 0 \<Longrightarrow> \<not> bit_len ip < bits \<Longrightarrow> prefix_ok (prefix_from ip bits)"
  by (cases ip) (auto simp: prefix_ok_def prefix_from_def prefix_valid_def addr_valid_def)

lemma parse_prefix_ok: "parse_prefix s = Some p \<Longrightarrow> prefix_ok p"
  by (auto simp: parse_prefix_def Let_def split: option.splits if_splits intro!: prefix_from_okI dest: parse_addr_valid)

lemma profile_of_wf:
  assumes "profile_of se l w = Inr p" and "int64_ok (wf_MTU w)"
  shows "profile_Validate p = None \<and> profile_wf p"
proof -
  obtain ad ai dns where r: "(if wf_AD w \<noteq> [] then parse_ai se '': address '' (wf_AD w) else Inr zero_prefix) = Inr ad"
    "map_res (parse_ai se '': AllowedIPs '') (wf_AI w) = Inr ai" "map_res (parse_dns se) (wf_DNS w) = Inr dns"
    and p: "p = \<lparr>pf_Label = l, pf_ServerPublicKey = wf_SP w, pf_ClientPrivateKey = wf_CP w,
        pf_PresharedKey = wf_PSK w, pf_Endpoint = wf_EP w, pf_Address = ad, pf_AllowedIPs = ai, pf_DNS = dns,
        pf_MTU = wf_MTU w, pf_PersistentKeepalive = int64_wrap (wf_KA w * second)\<rparr>"
    and v: "profile_Validate p = None"
    using assms(1) by (auto simp: profile_of_def Let_def bind_res_Inr_iff split: option.splits)
  have pa: "parse_ai se w x = Inr y \<Longrightarrow> prefix_ok y" for w x y
    by (auto simp: parse_ai_def parse_prefix_ok split: option.splits)
  have pd: "parse_dns se x = Inr y \<Longrightarrow> y \<noteq> AddrZero" for x y
    using parse_addr_valid [of x y] by (auto simp: parse_dns_def addr_valid_def split: option.splits)
  have "prefix_valid ad" using v by (auto simp: profile_Validate_def p split: if_splits)
  then have "prefix_ok ad" using r(1) pa by (auto simp: zero_prefix_def prefix_valid_def split: if_splits)
  moreover have "\<forall>a \<in> set ai. prefix_ok a" using map_res_all [OF r(2)] pa by blast
  moreover have "\<forall>a \<in> set dns. a \<noteq> AddrZero"
    using map_res_all [OF r(3)] pd by blast
  ultimately show ?thesis using v assms(2) by (auto simp: profile_wf_def p int64_wrap_ok)
qed

lemma members_into_MTU:
  "members_into kvs st = Some st' \<Longrightarrow> int64_ok (wf_MTU (fst st)) \<Longrightarrow> int64_ok (wf_MTU (fst st'))"
proof (induction kvs arbitrary: st)
  case (Cons kv kvs)
  then obtain st1 where s1: "member_into kv st = Some st1" "members_into kvs st1 = Some st'"
    by (auto split: option.splits)
  have i: "int_into v x = Some y \<Longrightarrow> int64_ok x \<Longrightarrow> int64_ok y" for v x y
    by (cases v) (auto simp: int_into_def atoi_range)
  have "int64_ok (wf_MTU (fst st1))"
    using s1(1) Cons.prems(2) by (cases st) (auto simp: member_into_def Let_def intro: i split: if_splits)
  then show ?case by (rule Cons.IH [OF s1(2)])
qed simp

lemma json_Unmarshal_MTU: "json_Unmarshal s = Some w \<Longrightarrow> int64_ok (wf_MTU w)"
  by (auto simp: json_Unmarshal_def zero_wire_def int64_ok_def split: option.splits jval.splits
      dest: members_into_MTU [unfolded int64_ok_def])



section \<open>Configurations made from a profile\<close>

text \<open>The kernel configuration of a profile with readable keys passes the kernel's validation, and
  the tunnel configuration passes the tunnel's once a provider and a protector are attached.\<close>

lemma ToKernelConfig_valid:
  assumes "profile_wf p" and "\<not> is_err (decodeWGKey b64Err (pf_ClientPrivateKey p))"
    and "\<not> is_err (decodeWGKey b64Err (pf_ServerPublicKey p))"
    and "pf_PresharedKey p \<noteq> [] \<longrightarrow> \<not> is_err (decodeWGKey b64Err (pf_PresharedKey p))"
    and "0 \<le> pf_MTU p" and "0 \<le> pf_PersistentKeepalive p"
  shows "kc_Validate b64Err (ToKernelConfig p) = None"
  using assms
  by (auto simp: kc_Validate_None ToKernelConfig_def peer_valid_def profile_wf_def prefix_ok_def
      default_route_def prefix_from_def prefix_valid_def)

lemma ToKernelConfig_allowed:
  "profile_wf p \<Longrightarrow> \<forall>q \<in> set (kc_Peers (ToKernelConfig p)). \<forall>a \<in> set (pc_AllowedIPs q). prefix_ok a"
  by (auto simp: ToKernelConfig_def profile_wf_def default_route_def prefix_ok_def prefix_from_def prefix_valid_def)

lemma ToTunnelConfig_valid:
  assumes "split_host_port (pf_Endpoint p) \<noteq> None"
  shows "Validate shpErr ((share_ToTunnelConfig p link)\<lparr>tc_Provider := Some pr, tc_Protector := Some ()\<rparr>) = None"
proof -
  have "pf_Endpoint p \<noteq> []"
    using assms by (auto simp: split_host_port_def last_index_byte_def)
  moreover have "split_host_port ''127.0.0.1:0'' \<noteq> None"
    using split_host_port_plain [of "''127.0.0.1''" "''0''"] by simp
  ultimately show ?thesis
    using assms by (simp add: Validate_def share_ToTunnelConfig_def DefaultListen_def DefaultStreams_def)
qed

end
