(* ===== verification/Client_Path.thy ===== *)
theory Client_Path
  imports Wg_Admin Wg_Share
begin

text \<open>
  The path of a client from \<open>wgadmin.Provision\<close> over its share URL to the configurations of its
  tunnel and of its WireGuard device: the facts that join the server administration, share URLs and
  the embedded kernel.
\<close>

section \<open>A provisioned profile\<close>

text \<open>What the operator configured: values Go's types allow, an endpoint with a port, and no negative
  MTU or keepalive.\<close>

definition server_values_ok :: "admin_server \<Rightarrow> bool" where
  "server_values_ok s \<longleftrightarrow> (\<forall>a \<in> set (as_AllowedIPs s). prefix_ok a) \<and> (\<forall>a \<in> set (as_DNS s). a \<noteq> AddrZero) \<and>
     0 \<le> as_MTU s \<and> int64_ok (as_MTU s) \<and> 0 \<le> as_PersistentKeepalive s \<and> int64_ok (as_PersistentKeepalive s) \<and>
     split_host_port (as_Endpoint s) \<noteq> None"

text \<open>The keys of the server and of a new client, as the server's file and the profile have them.\<close>

definition keys_agree :: "crypto_env \<Rightarrow> string \<Rightarrow> admin_peer \<Rightarrow> profile \<Rightarrow> bytes \<Rightarrow> bytes \<Rightarrow> bytes \<Rightarrow> bool" where
  "keys_agree cr serverKey p prof sk spk psk \<longleftrightarrow>
     length sk = 32 \<and> length spk = 32 \<and> length psk = 32 \<and>
     PublicKeyFor (cr_b64Err cr) (cr_x25519 cr) (cr_basepoint cr) serverKey = Inr (b64_encode StdEncoding spk) \<and>
     (\<exists>pk. cr_x25519 cr sk (cr_basepoint cr) = Inr pk \<and> ap_PublicKey p = b64_encode StdEncoding pk) \<and>
     ap_PresharedKey p = b64_encode StdEncoding psk \<and>
     pf_ClientPrivateKey prof = b64_encode StdEncoding sk \<and> pf_ServerPublicKey prof = b64_encode StdEncoding spk \<and>
     pf_PresharedKey prof = b64_encode StdEncoding psk"

lemma PublicKeyFor_length:
  assumes "PublicKeyFor e x25519 bp k = Inr pub" and "\<And>sk pt pk. x25519 sk pt = Inr pk \<Longrightarrow> length pk = 32"
  obtains spk where "length spk = 32" "pub = b64_encode StdEncoding spk"
  using assms by (auto simp: PublicKeyFor_def bind_res_Inr_iff split: option.splits if_splits)

lemma host_prefix_ok:
  assumes "prefix_ok sub" and "is_host sub a"
  shows "prefix_ok (prefix_from a (pfx_bits sub))"
proof -
  have "pfx_contains sub a" using assms(2) by (simp add: is_host_def)
  with assms(1) show ?thesis
    by (cases a; cases "pfx_addr sub") (auto simp: pfx_contains_def prefix_ok_def prefix_from_def prefix_valid_def)
qed

lemma provisioned_profile:
  assumes "provision_plan cr s name st = Inr (p, prof)" and "crypto_ok cr" and "prefix_ok (as_Subnet s)" and "server_values_ok s"
  obtains sk spk psk where "keys_agree cr (cs_privateKey st) p prof sk spk psk" "profile_wf prof" "profile_Validate prof = None"
    "pf_Endpoint prof = as_Endpoint s" "0 \<le> pf_MTU prof" "0 \<le> pf_PersistentKeepalive prof"
    "pf_AllowedIPs prof = as_AllowedIPs s"
proof -
  from assms(1) obtain pub r pk r2 a where e:
    "PublicKeyFor (cr_b64Err cr) (cr_x25519 cr) (cr_basepoint cr) (cs_privateKey st) = Inr pub"
    "cr_keyBytes cr = Inr r" "cr_x25519 cr (clamp r) (cr_basepoint cr) = Inr pk" "cr_pskBytes cr = Inr r2"
    "AllocateClientIP (as_Subnet s) (as_ServerAddress s) (existingPeerAddrs (cs_peers st)) = Inr a"
    "p = \<lparr>ap_Name = name, ap_PublicKey = b64_encode StdEncoding pk, ap_PresharedKey = b64_encode StdEncoding r2,
          ap_AllowedIPs = [prefix_from a (bit_len a)], ap_rawLines = []\<rparr>"
    "prof = \<lparr>pf_Label = name, pf_ServerPublicKey = pub, pf_ClientPrivateKey = b64_encode StdEncoding (clamp r),
       pf_PresharedKey = b64_encode StdEncoding r2, pf_Endpoint = as_Endpoint s,
       pf_Address = prefix_from a (pfx_bits (as_Subnet s)), pf_AllowedIPs = as_AllowedIPs s,
       pf_DNS = as_DNS s, pf_MTU = as_MTU s, pf_PersistentKeepalive = as_PersistentKeepalive s\<rparr>"
    by (rule plan_InrD) blast
  obtain spk where spk: "length spk = 32" "pub = b64_encode StdEncoding spk"
    using PublicKeyFor_length [OF e(1)] assms(2) by (auto simp: crypto_ok_def)
  have len: "length (clamp r) = 32" "length r2 = 32" using e(2,4) assms(2) by (auto simp: crypto_ok_def)
  have "is_host (as_Subnet s) a" using AllocateClientIP_ok [OF assms(3) e(5)] by simp
  then have addr: "prefix_ok (prefix_from a (pfx_bits (as_Subnet s)))" by (rule host_prefix_ok [OF assms(3)])
  have keys: "keys_agree cr (cs_privateKey st) p prof (clamp r) spk r2"
    using e len spk by (simp add: keys_agree_def)
  have wf: "profile_wf prof" using addr assms(4) by (simp add: profile_wf_def server_values_ok_def e(7))
  have "as_Endpoint s \<noteq> []" using assms(4) by (auto simp: server_values_ok_def split_host_port_def last_index_byte_def)
  moreover have "b64_encode StdEncoding spk \<noteq> []" "b64_encode StdEncoding (clamp r) \<noteq> []" using spk(1) len(1) by (auto simp del: length_clamp)
  ultimately have "profile_Validate prof = None"
    using addr by (simp add: profile_Validate_def e(7) spk(2) prefix_ok_def)
  with that [OF keys wf] assms(4) show ?thesis by (simp add: server_values_ok_def e(7))
qed

section \<open>The client's device\<close>

text \<open>The keys and routes of the client's device belong to the server's file.\<close>

lemma whole_seconds_nonneg: "0 \<le> d \<Longrightarrow> 0 \<le> whole_seconds d"
  by (simp add: whole_seconds_def go_div_nonneg pos_imp_zdiv_nonneg_iff second_def)

lemma profile_device:
  assumes "keys_agree cr key p prof sk spk psk" and "profile_wf prof" and "0 \<le> pf_MTU prof" and "0 \<le> pf_PersistentKeepalive prof"
    and "LocalAddr tn = Some addr" and "addr \<noteq> []" and "line_ok addr"
  shows "\<exists>k c ipc v d. NewKernel b64Err (ToKernelConfig prof) (Some tun) [OptTurnTunnel (Some n)] = Inr k \<and>
    started_config (\<lambda>_. tn) k = Inr c \<and> IPC b64Err c = Inr ipc \<and> ipc_read ipc = Some v \<and>
    dv_private v = sk \<and> dv_peers v = [d] \<and> dp_public d = spk \<and> dp_psk d = Some psk \<and> dp_endpoint d = Some addr \<and>
    dp_allowed d = (if pf_AllowedIPs prof = [] then [default_route] else pf_AllowedIPs prof)"
proof -
  have dec: "decodeWGKey b64Err (pf_ClientPrivateKey prof) = Inr sk" "decodeWGKey b64Err (pf_ServerPublicKey prof) = Inr spk"
    "decodeWGKey b64Err (pf_PresharedKey prof) = Inr psk" and ne: "pf_PresharedKey prof \<noteq> []"
    using assms(1) decodeWGKey_encode(1) [of _ b64Err] by (auto simp: keys_agree_def encodeWGKeyBase64_def)
  have val: "kc_Validate b64Err (ToKernelConfig prof) = None"
    using assms(2-4) dec by (intro ToKernelConfig_valid) simp_all
  let ?cfg = "kc_withDefaults (ToKernelConfig prof)"
  let ?k = "WithTurnTunnel (Some n) \<lparr>kn_cfg = ?cfg, kn_tun = tun, kn_bind = DefaultBind, kn_logger = NoopLogger,
    kn_dev = None, kn_state = KernelNew, kn_turnTun = None\<rparr>"
  let ?c = "rewrite_endpoints addr ?cfg"
  have k: "NewKernel b64Err (ToKernelConfig prof) (Some tun) [OptTurnTunnel (Some n)] = Inr ?k"
    using val by (simp add: NewKernel_def)
  have sc: "started_config (\<lambda>_. tn) ?k = Inr ?c"
    using assms(5) by (simp add: started_config_def WithTurnTunnel_def)
  have "kc_Validate b64Err ?c = None"
    by (rule Validate_started [OF val _ sc]) (simp add: WithTurnTunnel_def)
  moreover have "\<forall>q \<in> set (kc_Peers ?c). endpoint_ok q \<and> (\<forall>a \<in> set (pc_AllowedIPs q). prefix_ok a)"
    using ToKernelConfig_allowed [OF assms(2)] assms(7) by (auto simp: rewrite_endpoints_def endpoint_ok_def)
  ultimately obtain ipc v where v: "IPC b64Err ?c = Inr ipc" "ipc_read ipc = Some v" "conf_denotes b64Err ?c v"
    using IPC_denotes by blast
  then obtain d where d: "dv_peers v = [d]" "peer_denotes b64Err ((hd (kc_Peers (ToKernelConfig prof)))\<lparr>pc_Endpoint := addr\<rparr>) d"
    by (auto simp: conf_denotes_def rewrite_endpoints_def ToKernelConfig_def list_all2_Cons1)
  have "dv_private v = sk" using v(3) dec(1) by (simp add: conf_denotes_def rewrite_endpoints_def ToKernelConfig_def)
  moreover have "dp_public d = spk" "dp_psk d = Some psk" "dp_endpoint d = Some addr"
    "dp_allowed d = (if pf_AllowedIPs prof = [] then [default_route] else pf_AllowedIPs prof)"
    using d(2) dec ne assms(6) by (auto simp: peer_denotes_def ToKernelConfig_def split: option.splits)
  ultimately show ?thesis using k sc v(1,2) d(1) by blast
qed

end
