(* ===== verification/Go_Any.thy ===== *)
theory Go_Any
  imports Go_Json Go_Float
begin

text \<open>
  JSON texts decoded into Go's \<open>any\<close>, as \<open>json.Unmarshal\<close> does it for \<open>map[string]any\<close>: objects become
  maps, arrays slices, numbers \<open>float64\<close>. A map is the list of its members as they stand in the
  text; a later member overwrites an earlier one of the same key. A number that no \<open>float64\<close> can
  hold makes the whole decoding fail. Nothing here models a file of the repository.
\<close>

section \<open>Definitions\<close>

datatype any = ANil | ABool bool | AFloat f64 | AString string | ASlice "any list" | AMap "(string \<times> any) list"

type_synonym any_map = "(string \<times> any) list"

definition aget :: "(string \<times> 'a) list \<Rightarrow> string \<Rightarrow> 'a option" where
  "aget m k = map_of (rev m) k"

text \<open>\<open>x.(string)\<close> and \<open>x.(float64)\<close> with the result dropped on a mismatch, on a map lookup whose
  missing key gives \<open>nil\<close>.\<close>

definition get_string :: "any_map \<Rightarrow> string \<Rightarrow> string" where
  "get_string m k = (case aget m k of Some (AString s) \<Rightarrow> s | _ \<Rightarrow> [])"

definition get_float :: "any_map \<Rightarrow> string \<Rightarrow> f64" where
  "get_float m k = (case aget m k of Some (AFloat x) \<Rightarrow> x | _ \<Rightarrow> f64_zero)"

fun any_of :: "jval \<Rightarrow> any option"
and anys_of :: "jval list \<Rightarrow> any list option"
and members_of :: "(string \<times> jval) list \<Rightarrow> any_map option" where
  "any_of JNull = Some ANil"
| "any_of (JBool b) = Some (ABool b)"
| "any_of (JNum x) = map_option AFloat (ParseFloat x)"
| "any_of (JStr s) = Some (AString s)"
| "any_of (JArr vs) = map_option ASlice (anys_of vs)"
| "any_of (JObj kvs) = map_option AMap (members_of kvs)"
| "anys_of [] = Some []"
| "anys_of (v # vs) = (case (any_of v, anys_of vs) of (Some a, Some b) \<Rightarrow> Some (a # b) | _ \<Rightarrow> None)"
| "members_of [] = Some []"
| "members_of ((k, v) # kvs) = (case (any_of v, members_of kvs) of (Some a, Some b) \<Rightarrow> Some ((k, a) # b) | _ \<Rightarrow> None)"

text \<open>\<open>json.Unmarshal\<close> into a variable of type \<open>map[string]any\<close> that is \<open>nil\<close>: the text \<open>null\<close> leaves
  it \<open>nil\<close>, which reads like an empty map.\<close>

definition unmarshal_map :: "string \<Rightarrow> any_map option" where
  "unmarshal_map body =
     (case json_parse body of
        Some JNull \<Rightarrow> Some []
      | Some (JObj kvs) \<Rightarrow> members_of kvs
      | _ \<Rightarrow> None)"

definition unmarshal_any :: "string \<Rightarrow> any option" where
  "unmarshal_any body = (case json_parse body of Some v \<Rightarrow> any_of v | None \<Rightarrow> None)"

lemma aget_Nil [simp]: "aget [] k = None"
  by (simp add: aget_def)

lemma aget_in: "aget m k = Some v \<Longrightarrow> (k, v) \<in> set m"
  by (auto simp: aget_def dest: map_of_SomeD)

lemma get_string_some: "get_string m k \<noteq> [] \<Longrightarrow> aget m k = Some (AString (get_string m k))"
  by (auto simp: get_string_def split: option.splits any.splits)

end
