(* ===== verification/Vk_Captcha.thy ===== *)
theory Vk_Captcha
  imports Go_Any Go_Url "HOL-Library.List_Lexorder" "HOL-Library.Char_ord"
begin

text \<open>
  Errors and captcha challenges of the VK provider: \<open>provider/vk/errors.go\<close>, \<open>provider/vk/captcha.go\<close>
  and the chain of solvers, \<open>captchasolve/chain.go\<close>. A VK answer is a decoded JSON object;
  \<open>detectVKError\<close> sorts out the error envelopes, \<open>extractCaptcha\<close> reads a challenge and
  \<open>applySolution\<close> writes a solution into the form of the next request. A solver is a function on a
  challenge and on the state of the world it acts on.
\<close>

section \<open>Definitions\<close>

subsection \<open>Package fmt and package net/url\<close>

text \<open>\<open>fmt.Sscanf\<close> with the format \<open>%d\<close> and an \<open>int\<close>: leading blanks but no newline, a sign, digits.
  What follows is ignored.\<close>

definition Sscanf_d :: "string \<Rightarrow> int option" where
  "Sscanf_d s =
     (let t = dropWhile (\<lambda>c. is_space c \<and> c \<noteq> newline) s;
          sg = takeWhile (\<lambda>c. c = CHR ''+'' \<or> c = CHR ''-'') (take 1 t);
          ds = takeWhile dec_digit (drop (length sg) t)
      in if ds = [] then None else atoi (sg @ ds))"

text \<open>\<open>url.Values\<close> with one value per key, \<open>Set\<close> and \<open>Encode\<close>, which sorts by key.\<close>

type_synonym form = "(string \<times> string) list"

definition form_set :: "string \<Rightarrow> string \<Rightarrow> form \<Rightarrow> form" where
  "form_set k v f = (k, v) # filter (\<lambda>kv. fst kv \<noteq> k) f"

definition form_get :: "form \<Rightarrow> string \<Rightarrow> string option" where
  "form_get f k = map_of f k"

definition form_encode :: "form \<Rightarrow> string" where
  "form_encode f =
     str_join ''&'' (map (\<lambda>kv. QueryEscape (fst kv) @ ''='' @ QueryEscape (snd kv)) (sort_key fst f))"

subsection \<open>captcha.go\<close>

record challenge =
  ch_SID :: string
  ch_ImgURL :: string
  ch_RedirectURI :: string
  ch_Attempt :: int
  ch_TS :: string

definition captchaNeededMsg :: string where "captchaNeededMsg = ''Captcha needed''"

record solution =
  sol_Key :: string
  sol_SuccessToken :: string

type_synonym 'w solver = "challenge \<Rightarrow> 'w \<Rightarrow> solution res \<times> 'w"

definition captcha_required :: "string \<Rightarrow> go_error" where
  "captcha_required suf = GoError (''wgturn: captcha required'' @ suf) [ErrCaptchaRequired]"

definition rejectingSolver :: "'w solver" where
  "rejectingSolver ch w = (Inl (captcha_required '': solver not configured''), w)"

text \<open>\<open>far\<close> is the conversion of floating point numbers that do not fit an integer.\<close>

definition captcha_attempt :: "(f64 \<Rightarrow> int) \<Rightarrow> any_map \<Rightarrow> int" where
  "captcha_attempt far e =
     (case aget e ''captcha_attempt'' of
        Some (AFloat v) \<Rightarrow> f64_int far v
      | Some (AString s) \<Rightarrow> (case Sscanf_d s of Some n \<Rightarrow> if n > 0 then n else 1 | None \<Rightarrow> 1)
      | _ \<Rightarrow> 1)"

definition captcha_ts :: "(f64 \<Rightarrow> int) \<Rightarrow> any_map \<Rightarrow> string" where
  "captcha_ts far e =
     (case aget e ''captcha_ts'' of
        Some (AString s) \<Rightarrow> s
      | Some (AFloat v) \<Rightarrow> show_int (f64_int far v)
      | _ \<Rightarrow> [])"

definition extractCaptcha :: "(f64 \<Rightarrow> int) \<Rightarrow> any_map \<Rightarrow> challenge option" where
  "extractCaptcha far e =
     (let code = get_float e ''error_code''; msg = get_string e ''error_msg'';
          sid = get_string e ''captcha_sid''; img = get_string e ''captcha_img'';
          redirect = get_string e ''redirect_uri''
      in if f64_int far code \<noteq> 14 \<and> msg \<noteq> captchaNeededMsg then None
         else if sid = [] \<and> img = [] then None
         else Some \<lparr>ch_SID = sid, ch_ImgURL = img, ch_RedirectURI = redirect,
                    ch_Attempt = captcha_attempt far e, ch_TS = captcha_ts far e\<rparr>)"

definition token_fields :: "challenge \<Rightarrow> solution \<Rightarrow> form \<Rightarrow> form" where
  "token_fields ch sol f0 =
     (let f1 = form_set ''success_token'' (sol_SuccessToken sol)
                 (form_set ''is_sound_captcha'' ''0'' (form_set ''captcha_key'' [] f0));
          f2 = (if ch_TS ch \<noteq> [] then form_set ''captcha_ts'' (ch_TS ch) f1 else f1)
      in if ch_Attempt ch > 0 then form_set ''captcha_attempt'' (show_int (ch_Attempt ch)) f2 else f2)"

definition text_fields :: "solution \<Rightarrow> form \<Rightarrow> form" where
  "text_fields sol f0 =
     form_set ''captcha_key'' (sol_Key sol)
       (form_set ''is_sound_captcha'' [] (form_set ''success_token'' [] f0))"

definition applySolution :: "form \<Rightarrow> challenge \<Rightarrow> solution \<Rightarrow> form res" where
  "applySolution f ch sol =
     (if ch_SID ch = [] then Inl (errors_New ''captcha SID is empty'')
      else (let f0 = form_set ''captcha_sid'' (ch_SID ch) f in
            if sol_SuccessToken sol \<noteq> [] then Inr (token_fields ch sol f0)
            else if sol_Key sol \<noteq> [] then Inr (text_fields sol f0)
            else Inl (errors_New ''solver returned empty solution'')))"

subsection \<open>errors.go\<close>

text \<open>The errors of a request: an ordinary error, or the wrapper that carries a challenge beside
  the error it wraps.\<close>

datatype vk_error = VkError go_error | CaptchaErr challenge go_error

text \<open>The wrapper's text, and its chain: \<open>Is\<close> answers for \<open>errCaptchaChallenge\<close>, \<open>Unwrap\<close> leads to
  the wrapped error.\<close>

fun to_error :: "vk_error \<Rightarrow> go_error" where
  "to_error (VkError e) = e"
| "to_error (CaptchaErr ch p) =
     GoError (''vk: captcha required (sid='' @ ch_SID ch @ '', img='' @ ch_ImgURL ch @ '')'')
       (ErrCaptchaChallenge # err_chain p)"

fun lastCaptchaChallenge :: "vk_error \<Rightarrow> challenge option" where
  "lastCaptchaChallenge (VkError e) = None"
| "lastCaptchaChallenge (CaptchaErr ch p) = Some ch"

definition code_msg :: "(f64 \<Rightarrow> int) \<Rightarrow> f64 \<Rightarrow> string \<Rightarrow> string" where
  "code_msg far code msg = ''code='' @ show_int (f64_int far code) @ '' msg='' @ quoted msg"

definition auth_failure :: "string \<Rightarrow> go_error" where
  "auth_failure suf = GoError (''wgturn: credentials rejected (auth failure)'' @ suf) [ErrAuthFailure]"

text \<open>The two shapes of VK's \<open>error\<close> member.\<close>

definition string_error :: "any_map \<Rightarrow> string \<Rightarrow> vk_error" where
  "string_error resp e =
     (if e = ''need_captcha'' \<or> e = ''captcha_required'' then
        (let sid = get_string resp ''captcha_sid''; img = get_string resp ''captcha_img'';
             p = captcha_required ('': '' @ e)
         in if sid = [] \<and> img = [] then VkError p
            else CaptchaErr \<lparr>ch_SID = sid, ch_ImgURL = img, ch_RedirectURI = [], ch_Attempt = 0, ch_TS = []\<rparr> p)
      else VkError (errors_New (''vk error: '' @ e)))"

definition object_error :: "(f64 \<Rightarrow> int) \<Rightarrow> any_map \<Rightarrow> vk_error" where
  "object_error far e =
     (let code = get_float e ''error_code''; msg = get_string e ''error_msg'' in
      if f64_eq code 14 \<or> msg = captchaNeededMsg then
        (let p = captcha_required ('': '' @ code_msg far code msg) in
         case extractCaptcha far e of Some ch \<Rightarrow> CaptchaErr ch p | None \<Rightarrow> VkError p)
      else if f64_eq code 5 \<or> f64_eq code 15 \<or> f64_eq code 17
      then VkError (auth_failure ('': '' @ code_msg far code msg))
      else VkError (errors_New (''vk error '' @ code_msg far code msg)))"

definition ok_error :: "(f64 \<Rightarrow> int) \<Rightarrow> any_map \<Rightarrow> vk_error option" where
  "ok_error far resp =
     (case aget resp ''error_code'' of
        None \<Rightarrow> None
      | Some _ \<Rightarrow>
          (let code = get_float resp ''error_code''; msg = get_string resp ''error_msg'' in
           if f64_eq code 14 \<or> msg = captchaNeededMsg
           then Some (VkError (captcha_required ('': ok '' @ code_msg far code msg)))
           else Some (VkError (errors_New (''ok error '' @ code_msg far code msg)))))"

definition detectVKError :: "(f64 \<Rightarrow> int) \<Rightarrow> any_map \<Rightarrow> vk_error option" where
  "detectVKError far resp =
     (case aget resp ''error'' of
        Some (AString e) \<Rightarrow> Some (string_error resp e)
      | Some (AMap e) \<Rightarrow> Some (object_error far e)
      | _ \<Rightarrow> ok_error far resp)"

subsection \<open>captchasolve/chain.go\<close>

text \<open>\<open>errors.Join\<close>: the texts on lines of their own, the chains of all.\<close>

definition errors_Join :: "go_error list \<Rightarrow> go_error" where
  "errors_Join es = GoError (str_join [newline] (map err_text es)) (concat (map err_chain es))"

text \<open>The observers \<open>OnAttempt\<close> and \<open>OnFailure\<close> are what they are told, in order.\<close>

datatype chain_event = OnAttempt nat | OnFailure nat go_error

text \<open>\<open>ctxErr\<close> reads \<open>ctx.Err()\<close> from the state of the world.\<close>

fun chain_loop ::
    "('w \<Rightarrow> go_error option) \<Rightarrow> challenge \<Rightarrow> nat \<Rightarrow> 'w solver list \<Rightarrow> go_error list \<Rightarrow> 'w \<Rightarrow>
     solution res \<times> chain_event list \<times> 'w" where
  "chain_loop ctxErr ch i [] failures w = (Inl (errors_Join failures), [], w)"
| "chain_loop ctxErr ch i (s # ss) failures w =
     (case ctxErr w of
        Some err \<Rightarrow> (Inl (if failures \<noteq> [] then errors_Join (failures @ [err]) else err), [], w)
      | None \<Rightarrow>
          (case s ch w of
             (Inr sol, w') \<Rightarrow> (Inr sol, [OnAttempt i], w')
           | (Inl err, w') \<Rightarrow>
               (case chain_loop ctxErr ch (Suc i) ss
                       (failures @ [wrapf (''solver['' @ show_nat i @ '']: '') err]) w' of
                  (r, evs, w'') \<Rightarrow> (r, OnAttempt i # OnFailure i err # evs, w''))))"

definition chain_Solve ::
    "('w \<Rightarrow> go_error option) \<Rightarrow> 'w solver list \<Rightarrow> challenge \<Rightarrow> 'w \<Rightarrow> solution res \<times> chain_event list \<times> 'w" where
  "chain_Solve ctxErr solvers ch w =
     (if solvers = [] then (Inl (errors_New ''captchasolve chain: no solvers configured''), [], w)
      else chain_loop ctxErr ch 0 solvers [] w)"

section \<open>Forms\<close>

lemma form_get_set [simp]: "form_get (form_set k v f) j = (if j = k then Some v else form_get f j)"
proof -
  have "map_of (filter (\<lambda>kv. fst kv \<noteq> k) f) j = map_of f j" if "j \<noteq> k"
    using that by (induction f) auto
  then show ?thesis by (simp add: form_get_def form_set_def)
qed

lemma form_set_distinct: "distinct (map fst f) \<Longrightarrow> distinct (map fst (form_set k v f))"
  by (auto simp: form_set_def distinct_map inj_on_def)

text \<open>A solution by token overwrites the captcha fields of the form and leaves the others alone; a
  solution by text does so too, but it leaves a time stamp and an attempt number that an earlier
  token solution wrote.\<close>

lemma applySolution_fields:
  assumes "applySolution f ch sol = Inr f'"
  shows "form_get f' ''captcha_sid'' = Some (ch_SID ch)" and "ch_SID ch \<noteq> []"
    and "sol_SuccessToken sol \<noteq> [] \<Longrightarrow>
      form_get f' ''success_token'' = Some (sol_SuccessToken sol) \<and> form_get f' ''captcha_key'' = Some [] \<and>
      form_get f' ''is_sound_captcha'' = Some ''0''"
    and "sol_SuccessToken sol = [] \<Longrightarrow>
      sol_Key sol \<noteq> [] \<and> form_get f' ''success_token'' = Some [] \<and> form_get f' ''captcha_key'' = Some (sol_Key sol) \<and>
      form_get f' ''captcha_ts'' = form_get f ''captcha_ts'' \<and> form_get f' ''captcha_attempt'' = form_get f ''captcha_attempt''"
    and "k \<notin> {''captcha_sid'', ''success_token'', ''captcha_key'', ''is_sound_captcha'', ''captcha_ts'', ''captcha_attempt''} \<Longrightarrow>
      form_get f' k = form_get f k"
  using assms by (auto simp: applySolution_def token_fields_def text_fields_def Let_def split: if_splits)

text \<open>When a captcha solved by a token is followed by one solved by a text, the form of the next
  request has the new session id and the text, an empty token, and still the time stamp and the
  attempt number of the first captcha.\<close>

theorem text_retry_keeps_timestamp:
  assumes a: "applySolution f ch1 sol1 = Inr f1" "applySolution f1 ch2 sol2 = Inr f2"
    and t: "sol_SuccessToken sol1 \<noteq> []" "sol_SuccessToken sol2 = []" "ch_TS ch1 \<noteq> []" "ch_Attempt ch1 > 0"
  shows "form_get f2 ''captcha_sid'' = Some (ch_SID ch2) \<and> form_get f2 ''captcha_key'' = Some (sol_Key sol2) \<and>
    form_get f2 ''success_token'' = Some [] \<and> form_get f2 ''captcha_ts'' = Some (ch_TS ch1) \<and>
    form_get f2 ''captcha_attempt'' = Some (show_int (ch_Attempt ch1))"
proof -
  have "form_get f1 ''captcha_ts'' = Some (ch_TS ch1)" "form_get f1 ''captcha_attempt'' = Some (show_int (ch_Attempt ch1))"
    using a(1) t by (auto simp: applySolution_def token_fields_def Let_def split: if_splits)
  with applySolution_fields [OF a(2)] t(2) show ?thesis by simp
qed

theorem text_retry_keeps_timestamp_witness:
  "\<exists>f1 f2. applySolution [] \<lparr>ch_SID = ''1'', ch_ImgURL = [], ch_RedirectURI = ''r'', ch_Attempt = 1, ch_TS = ''7''\<rparr>
       \<lparr>sol_Key = [], sol_SuccessToken = ''tok''\<rparr> = Inr f1 \<and>
     applySolution f1 \<lparr>ch_SID = ''2'', ch_ImgURL = ''i'', ch_RedirectURI = [], ch_Attempt = 2, ch_TS = []\<rparr>
       \<lparr>sol_Key = ''abc'', sol_SuccessToken = []\<rparr> = Inr f2 \<and> form_get f2 ''captcha_ts'' = Some ''7''"
proof -
  let ?c1 = "\<lparr>ch_SID = ''1'', ch_ImgURL = [], ch_RedirectURI = ''r'', ch_Attempt = 1, ch_TS = ''7''\<rparr>"
  let ?c2 = "\<lparr>ch_SID = ''2'', ch_ImgURL = ''i'', ch_RedirectURI = [], ch_Attempt = 2, ch_TS = []\<rparr>"
  let ?s1 = "\<lparr>sol_Key = [], sol_SuccessToken = ''tok''\<rparr>" and ?s2 = "\<lparr>sol_Key = ''abc'', sol_SuccessToken = []\<rparr>"
  obtain f1 where f1: "applySolution [] ?c1 ?s1 = Inr f1" by (simp add: applySolution_def Let_def)
  obtain f2 where f2: "applySolution f1 ?c2 ?s2 = Inr f2" by (simp add: applySolution_def Let_def)
  from text_retry_keeps_timestamp [OF f1 f2] f1 f2 show ?thesis by auto
qed

section \<open>Challenges\<close>

lemma extractCaptcha_some: "extractCaptcha far e = Some ch \<Longrightarrow> ch_SID ch \<noteq> [] \<or> ch_ImgURL ch \<noteq> []"
  by (auto simp: extractCaptcha_def Let_def split: if_splits)

lemma detect_captcha:
  assumes "detectVKError far resp = Some (CaptchaErr ch p)"
  shows "errors_Is (to_error (CaptchaErr ch p)) ErrCaptchaRequired" and "ch_SID ch \<noteq> [] \<or> ch_ImgURL ch \<noteq> []"
  using assms extractCaptcha_some
  by (auto simp: detectVKError_def string_error_def object_error_def ok_error_def captcha_required_def errors_Is_def Let_def
      split: option.splits any.splits if_splits)

section \<open>The chain of solvers\<close>

text \<open>The solvers tried one after the other, all failing and none cut off by the context: their errors
  and the state afterwards. \<open>None\<close> if a solver succeeds or the context is done before one.\<close>

fun all_fail :: "('w \<Rightarrow> go_error option) \<Rightarrow> challenge \<Rightarrow> 'w solver list \<Rightarrow> 'w \<Rightarrow> (go_error list \<times> 'w) option" where
  "all_fail ctxErr ch [] w = Some ([], w)"
| "all_fail ctxErr ch (s # ss) w =
     (if ctxErr w \<noteq> None then None
      else case s ch w of
        (Inr _, _) \<Rightarrow> None
      | (Inl e, w') \<Rightarrow> map_option (\<lambda>(es, w''). (e # es, w'')) (all_fail ctxErr ch ss w'))"

definition attempts :: "nat \<Rightarrow> go_error list \<Rightarrow> chain_event list" where
  "attempts i es = concat (map (\<lambda>(j, e). [OnAttempt j, OnFailure j e]) (zip [i..<i + length es] es))"

definition failure_list :: "nat \<Rightarrow> go_error list \<Rightarrow> go_error list" where
  "failure_list i es = map (\<lambda>(j, e). wrapf (''solver['' @ show_nat j @ '']: '') e) (zip [i..<i + length es] es)"

lemma attempts_Cons: "attempts i (e # es) = OnAttempt i # OnFailure i e # attempts (Suc i) es"
proof -
  have "[i..<i + length (e # es)] = i # [Suc i..<Suc i + length es]" by (subst upt_conv_Cons) simp_all
  then show ?thesis by (simp add: attempts_def)
qed

lemma failure_list_Cons: "failure_list i (e # es) = wrapf (''solver['' @ show_nat i @ '']: '') e # failure_list (Suc i) es"
proof -
  have "[i..<i + length (e # es)] = i # [Suc i..<Suc i + length es]" by (subst upt_conv_Cons) simp_all
  then show ?thesis by (simp add: failure_list_def)
qed

lemma chain_prefix:
  "all_fail ctxErr ch pre w = Some (es, w') \<Longrightarrow>
   chain_loop ctxErr ch i (pre @ ss) fs w =
     (case chain_loop ctxErr ch (i + length pre) ss (fs @ failure_list i es) w' of
        (r, evs, w'') \<Rightarrow> (r, attempts i es @ evs, w''))"
proof (induction pre arbitrary: i fs w es)
  case Nil
  then show ?case by (simp add: attempts_def failure_list_def)
next
  case (Cons s pre)
  then obtain e v es' where s: "ctxErr w = None" "s ch w = (Inl e, v)" "all_fail ctxErr ch pre v = Some (es', w')" "es = e # es'"
    by (auto split: if_splits prod.splits sum.splits)
  show ?case
    using Cons.IH [OF s(3), of "Suc i" "fs @ [wrapf (''solver['' @ show_nat i @ '']: '') e]"] s
    by (simp add: attempts_Cons failure_list_Cons split: prod.splits)
qed

lemma failure_list_is:
  assumes "x \<in> set es" and "errors_Is x t"
  shows "errors_Is (errors_Join (failure_list i es @ more_es)) t"
  using assms
proof (induction es arbitrary: i)
  case (Cons e es)
  then show ?case by (cases "x = e") (auto simp: failure_list_Cons errors_Join_def errors_Is_def)
qed simp

text \<open>A chain of solvers asks them in order. When the first ones fail and the next succeeds, its
  solution is the answer and no later solver is asked; when the context is done before the next
  one, none is asked and the error is the context's and every failure's; when all fail, the error is
  that of every failure. The observers see each attempt and each failure once, in order.\<close>

theorem chain_first_success:
  assumes f: "all_fail ctxErr ch pre w = Some (es, w')"
  shows "(ctxErr w' = None \<and> s ch w' = (Inr sol, w'') \<longrightarrow>
      chain_Solve ctxErr (pre @ s # post) ch w = (Inr sol, attempts 0 es @ [OnAttempt (length pre)], w'')) \<and>
    (ctxErr w' = Some c \<longrightarrow> (\<exists>e. chain_Solve ctxErr (pre @ s # post) ch w = (Inl e, attempts 0 es, w') \<and>
      (\<forall>t. errors_Is c t \<longrightarrow> errors_Is e t) \<and> (\<forall>x \<in> set es. \<forall>t. errors_Is x t \<longrightarrow> errors_Is e t))) \<and>
    (pre \<noteq> [] \<longrightarrow> (\<exists>e. chain_Solve ctxErr pre ch w = (Inl e, attempts 0 es, w') \<and>
      (\<forall>x \<in> set es. \<forall>t. errors_Is x t \<longrightarrow> errors_Is e t)))"
proof (intro conjI impI)
  note p = chain_prefix [OF f, where i = 0 and fs = "[]"]
  show "chain_Solve ctxErr (pre @ s # post) ch w = (Inr sol, attempts 0 es @ [OnAttempt (length pre)], w'')"
    if "ctxErr w' = None \<and> s ch w' = (Inr sol, w'')"
    using that p [of "s # post"] by (simp add: chain_Solve_def)
  show "\<exists>e. chain_Solve ctxErr (pre @ s # post) ch w = (Inl e, attempts 0 es, w') \<and>
      (\<forall>t. errors_Is c t \<longrightarrow> errors_Is e t) \<and> (\<forall>x \<in> set es. \<forall>t. errors_Is x t \<longrightarrow> errors_Is e t)"
    if c: "ctxErr w' = Some c"
  proof -
    let ?e = "if failure_list 0 es \<noteq> [] then errors_Join (failure_list 0 es @ [c]) else c"
    have "chain_Solve ctxErr (pre @ s # post) ch w = (Inl ?e, attempts 0 es, w')"
      using c p [of "s # post"] by (simp add: chain_Solve_def)
    moreover have "\<forall>t. errors_Is c t \<longrightarrow> errors_Is ?e t" by (simp add: errors_Join_def errors_Is_def)
    moreover have "\<forall>x \<in> set es. \<forall>t. errors_Is x t \<longrightarrow> errors_Is ?e t"
      using failure_list_is [of _ es _ 0 "[c]"] by (cases es) (auto simp: failure_list_Cons)
    ultimately show ?thesis by blast
  qed
  show "\<exists>e. chain_Solve ctxErr pre ch w = (Inl e, attempts 0 es, w') \<and> (\<forall>x \<in> set es. \<forall>t. errors_Is x t \<longrightarrow> errors_Is e t)"
    if "pre \<noteq> []"
    using that p [of "[]"] failure_list_is [of _ es _ 0 "[]"] by (auto simp: chain_Solve_def)
qed

theorem chain_first_success_witness:
  "chain_Solve (\<lambda>n. None) [\<lambda>ch n. (Inl (errors_New ''no''), Suc n), \<lambda>ch n. (Inr \<lparr>sol_Key = ''k'', sol_SuccessToken = []\<rparr>, Suc n)]
     \<lparr>ch_SID = ''1'', ch_ImgURL = [], ch_RedirectURI = [], ch_Attempt = 1, ch_TS = []\<rparr> (0 :: nat)
   = (Inr \<lparr>sol_Key = ''k'', sol_SuccessToken = []\<rparr>, [OnAttempt 0, OnFailure 0 (errors_New ''no''), OnAttempt 1], 2)"
proof -
  let ?f = "\<lambda>ch n. (Inl (errors_New ''no''), Suc n)" and ?ch = "\<lparr>ch_SID = ''1'', ch_ImgURL = [], ch_RedirectURI = [], ch_Attempt = 1, ch_TS = []\<rparr>"
  have "all_fail (\<lambda>n. None) ?ch [?f] (0 :: nat) = Some ([errors_New ''no''], 1)" by simp
  from chain_first_success [OF this, where s = "\<lambda>ch n. (Inr \<lparr>sol_Key = ''k'', sol_SuccessToken = []\<rparr>, Suc n)" and post = "[]"
      and sol = "\<lparr>sol_Key = ''k'', sol_SuccessToken = []\<rparr>" and w'' = 2]
  show ?thesis by (simp add: attempts_def)
qed

end
