(* ===== verification/Call_Link.thy ===== *)
theory Call_Link
  imports Go_Strings
begin

text \<open>
  The links and addresses the credentials providers read: \<open>provider/vk/parse.go\<close> and
  \<open>provider/yandex/parse.go\<close>. A link names a call by an id; a TURN URL names a relay by host and
  port. The two providers have functions of the same names, which differ in their markers and in
  what they check of a port; they are prefixed \<open>vk_\<close> and \<open>ya_\<close> here.
\<close>

section \<open>Definitions\<close>

subsection \<open>Packages strings: substrings\<close>

text \<open>\<open>strings.Index\<close>, with \<open>None\<close> for -1, and \<open>strings.IndexAny\<close>.\<close>

fun str_index :: "string \<Rightarrow> string \<Rightarrow> nat option" where
  "str_index [] sub = (if sub = [] then Some 0 else None)"
| "str_index (c # s) sub = (if has_prefix (c # s) sub then Some 0 else map_option Suc (str_index s sub))"

definition index_any :: "string \<Rightarrow> string \<Rightarrow> nat option" where
  "index_any s chars = find_index (\<lambda>c. c \<in> set chars) s"

subsection \<open>Call ids\<close>

definition isCallIDRune :: "char \<Rightarrow> bool" where
  "isCallIDRune c \<longleftrightarrow>
     (let r = of_char c :: nat in
      (97 \<le> r \<and> r \<le> 122) \<or> (65 \<le> r \<and> r \<le> 90) \<or> (48 \<le> r \<and> r \<le> 57) \<or> c = CHR ''-'' \<or> c = CHR ''_'' \<or> c = CHR ''.'')"

definition cut_scheme :: "string \<Rightarrow> string" where
  "cut_scheme s = (case str_index s ''://'' of Some i \<Rightarrow> drop (i + 3) s | None \<Rightarrow> s)"

text \<open>The part of both functions behind the marker: cut at the first delimiter, trim, and check
  every character.\<close>

definition id_tail :: "go_error \<Rightarrow> string \<Rightarrow> string res" where
  "id_tail invalid s =
     (let s1 = (case index_any s ''/?#'' of Some i \<Rightarrow> take i s | None \<Rightarrow> s);
          s2 = trim_space s1
      in if s2 = [] then Inl invalid
         else if list_all isCallIDRune s2 then Inr s2 else Inl invalid)"

definition after_marker :: "go_error \<Rightarrow> string \<Rightarrow> string \<Rightarrow> string res" where
  "after_marker invalid marker s =
     (let urlLike = str_contains s ''/'' \<or> str_contains s ''://''; s1 = cut_scheme s in
      case str_index s1 marker of
        Some i \<Rightarrow> id_tail invalid (drop (i + length marker) s1)
      | None \<Rightarrow> if urlLike then Inl invalid else id_tail invalid s1)"

definition vk_invalid :: go_error where
  "vk_invalid = GoError ''vk: invalid call link'' [ErrVkInvalidLink]"

definition vk_extractCallID :: "string \<Rightarrow> string res" where
  "vk_extractCallID link =
     (let s = trim_space link in
      if s = [] then Inl vk_invalid else after_marker vk_invalid ''join/'' s)"

definition ya_invalid :: go_error where
  "ya_invalid = GoError ''yandex: invalid telemost link'' [ErrYandexInvalidLink]"

definition ya_extractCallID :: "string \<Rightarrow> string res" where
  "ya_extractCallID link =
     (let s = trim_space link in
      if s = [] then Inl ya_invalid
      else after_marker ya_invalid ''/j/''
             (if has_prefix (to_lower s) ''telemost:'' then drop (length ''telemost:'') s else s))"

definition IsTelemostLink :: "string \<Rightarrow> bool" where
  "IsTelemostLink s =
     (let low = to_lower (trim_space s) in
      has_prefix low ''telemost:'' \<or> str_contains low ''telemost.yandex.'')"

subsection \<open>TURN URLs\<close>

fun drop_scheme :: "string list \<Rightarrow> string \<Rightarrow> string" where
  "drop_scheme [] s = s"
| "drop_scheme (p # ps) s = (if has_prefix s p then drop (length p) s else drop_scheme ps s)"

definition drop_query :: "string \<Rightarrow> string" where
  "drop_query s = (case index_byte s (CHR ''?'') of Some i \<Rightarrow> take i s | None \<Rightarrow> s)"

definition vk_parseTurnURL :: "string \<Rightarrow> string res" where
  "vk_parseTurnURL s0 =
     (let s = trim_space s0 in
      if s = [] then Inl (errors_New ''vk: empty turn URL'')
      else (let hp = drop_query (drop_scheme [''turns:'', ''turn:'', ''stun:'', ''stuns:''] s) in
            case split_host_port hp of
              None \<Rightarrow> Inl (errors_New (''vk: turn URL missing host:port: '' @ hp))
            | Some _ \<Rightarrow> Inr hp))"

definition ya_parseTurnURL :: "string \<Rightarrow> string res" where
  "ya_parseTurnURL s0 =
     (let s = trim_space s0 in
      if s = [] then Inl (errors_New ''yandex: empty turn URL'')
      else (let hp = drop_query (drop_scheme [''turns:'', ''turn:'', ''stuns:'', ''stun:''] s) in
            case split_host_port hp of
              None \<Rightarrow> Inl (errors_New (''yandex: turn URL missing host:port: '' @ hp))
            | Some (host, port) \<Rightarrow>
                if host = [] then Inl (errors_New (''yandex: turn URL missing host: '' @ hp))
                else (case atoi port of
                        None \<Rightarrow> Inl (errors_New (''yandex: turn URL has bad port: '' @ hp))
                      | Some n \<Rightarrow> if n < 1 \<or> n > 65535
                                  then Inl (errors_New (''yandex: turn URL has bad port: '' @ hp)) else Inr hp)))"

definition isTurnURL :: "string \<Rightarrow> bool" where
  "isTurnURL s0 = (let s = to_lower (trim_space s0) in has_prefix s ''turn:'' \<or> has_prefix s ''turns:'')"

section \<open>Substrings\<close>

lemma str_index_None: "str_index s sub = None \<longleftrightarrow> \<not> str_contains s sub"
  by (induction s) auto

lemma str_index_Some: "str_index s sub = Some i \<Longrightarrow> s = take i s @ sub @ drop (i + length sub) s"
proof (induction s arbitrary: i)
  case (Cons c s)
  show ?case
  proof (cases "has_prefix (c # s) sub")
    case True
    with Cons.prems have "i = 0" by simp
    with True show ?thesis by (metis append_take_drop_id append_Nil add_0 has_prefix_def take_0)
  next
    case False
    with Cons.prems obtain j where "i = Suc j" "str_index s sub = Some j" by auto
    with Cons.IH show ?thesis by (metis Cons_eq_appendI add_Suc drop_Suc_Cons take_Suc_Cons)
  qed
qed (auto split: if_splits)

lemma str_contains_refl [simp]: "str_contains (a @ sub @ b) sub"
  by (auto simp: str_contains_iff)

lemma str_contains_append: "str_contains s sub \<Longrightarrow> str_contains (a @ s @ b) sub"
  unfolding str_contains_iff by (metis append.assoc)

lemma str_contains_char: "str_contains s [c] \<longleftrightarrow> c \<in> set s"
  by (auto simp: str_contains_iff in_set_conv_decomp)

lemma str_contains_subset: "str_contains s sub \<Longrightarrow> set sub \<subseteq> set s"
  by (auto simp: str_contains_iff)

lemma cut_scheme_suffix: "\<exists>a. s = a @ cut_scheme s"
  by (cases "str_index s ''://''") (auto simp: cut_scheme_def, metis append_take_drop_id)

lemma take_find_index: "(case find_index P s of Some i \<Rightarrow> take i s | None \<Rightarrow> s) = takeWhile (\<lambda>c. \<not> P c) s"
  by (induction s) (auto split: option.splits simp del: find_index_None)

section \<open>Trimming\<close>

lemma trim_space_split: "\<exists>v w. s = v @ trim_space s @ w \<and> list_all is_space v \<and> list_all is_space w"
proof -
  let ?t = "dropWhile is_space s"
  have a: "s = takeWhile is_space s @ ?t" by simp
  have "rev ?t = takeWhile is_space (rev ?t) @ dropWhile is_space (rev ?t)" by simp
  then have "?t = trim_space s @ rev (takeWhile is_space (rev ?t))"
    by (metis rev_append rev_rev_ident trim_space_def)
  with a show ?thesis
    by (metis list_all_iff list_all_rev set_takeWhileD)
qed

lemma trim_space_core:
  assumes "list_all is_space v" and "list_all is_space w" and "s \<noteq> []" and "\<not> is_space (hd s)" and "\<not> is_space (last s)"
  shows "trim_space (v @ s @ w) = s"
proof -
  have v: "dropWhile is_space (v @ s @ w) = s @ w"
    using assms by (cases s) (auto simp: dropWhile_prepend_all list_all_iff)
  have "dropWhile is_space (rev w @ rev s) = rev s"
    using assms by (cases "rev s") (auto simp: dropWhile_prepend_all list_all_iff last_rev [symmetric] simp del: last_rev)
  with v show ?thesis by (simp add: trim_space_def)
qed

section \<open>Call ids\<close>

definition id_ok :: "string \<Rightarrow> bool" where
  "id_ok i \<longleftrightarrow> i \<noteq> [] \<and> list_all isCallIDRune i"

text \<open>What may follow an id: nothing but blanks, or a delimiter after blanks.\<close>

definition id_stop :: "string \<Rightarrow> bool" where
  "id_stop r \<longleftrightarrow> (case dropWhile is_space r of [] \<Rightarrow> True | c # _ \<Rightarrow> c \<in> set ''/?#'')"

lemma isCallIDRune_not [simp]:
  "isCallIDRune c \<Longrightarrow> \<not> is_space c" "isCallIDRune c \<Longrightarrow> c \<notin> set ''/?#:''"
  by (auto simp: isCallIDRune_def is_space_def)

lemma space_not_delim: "is_space c \<Longrightarrow> c \<notin> set ''/?#''"
  by (auto simp: is_space_def)

lemma id_ok_ends: "id_ok i \<Longrightarrow> i \<noteq> [] \<and> \<not> is_space (hd i) \<and> \<not> is_space (last i)"
  by (cases i) (auto simp: id_ok_def list_all_iff)

lemma id_tail_takeWhile:
  "id_tail e s = (let t = trim_space (takeWhile (\<lambda>c. c \<notin> set ''/?#'') s) in if id_ok t then Inr t else Inl e)"
  unfolding id_tail_def index_any_def take_find_index by (simp add: id_ok_def Let_def)

lemma id_tail_hit:
  assumes i: "id_ok i" and r: "id_stop r"
  shows "id_tail e (i @ r) = Inr i"
proof -
  let ?D = "\<lambda>c. c \<notin> set ''/?#''"
  have "\<forall>c \<in> set i. ?D c" using i isCallIDRune_not(2) by (fastforce simp: id_ok_def list_all_iff)
  then have "takeWhile ?D (i @ r) = i @ takeWhile ?D r" by (simp add: takeWhile_append)
  moreover have "list_all is_space (takeWhile ?D r)"
  proof -
    have "takeWhile ?D r = takeWhile ?D (takeWhile is_space r @ dropWhile is_space r)" by simp
    also have "\<dots> = takeWhile is_space r @ takeWhile ?D (dropWhile is_space r)"
      using space_not_delim by (subst takeWhile_append2) (auto dest: set_takeWhileD)
    also have "takeWhile ?D (dropWhile is_space r) = []" using r by (cases "dropWhile is_space r") (auto simp: id_stop_def simp del: dropWhile_eq_Nil_conv)
    finally show ?thesis by (auto simp: list_all_iff dest: set_takeWhileD)
  qed
  ultimately have "trim_space (takeWhile ?D (i @ r)) = i"
    using trim_space_core [of "[]" "takeWhile ?D r" i] id_ok_ends [OF i] by simp
  with i show ?thesis by (simp add: id_tail_takeWhile)
qed

lemma id_tail_Inr: "id_tail e s = Inr i \<Longrightarrow> id_ok i \<and> str_contains s i"
proof -
  assume a: "id_tail e s = Inr i"
  let ?t = "takeWhile (\<lambda>c. c \<notin> set ''/?#'') s"
  from a have i: "id_ok i" "i = trim_space ?t" by (auto simp: id_tail_takeWhile Let_def split: if_splits)
  obtain v w where vw: "?t = v @ i @ w" using trim_space_split [of ?t] i(2) by auto
  have "s = v @ i @ w @ dropWhile (\<lambda>c. c \<notin> set ''/?#'') s" by (metis append.assoc takeWhile_dropWhile_id vw)
  then have "str_contains s i" unfolding str_contains_iff by (metis append.assoc)
  with i(1) show ?thesis by simp
qed

lemma id_tail_Inl: "id_tail e s = Inl x \<Longrightarrow> x = e"
  by (auto simp: id_tail_takeWhile Let_def split: if_splits)

lemma id_stop_prefix: "id_stop (r @ w) \<Longrightarrow> list_all is_space w \<Longrightarrow> id_stop r"
  by (induction r) (auto simp: id_stop_def list_all_iff split: if_splits list.splits)

text \<open>Trimming a link whose id is followed by \<open>r\<close> only shortens \<open>r\<close>.\<close>

lemma trim_link:
  assumes v: "list_all is_space v" and p: "p = [] \<or> \<not> is_space (hd p)" and i: "id_ok i" and r: "id_stop r"
  shows "\<exists>r' w. r = r' @ w \<and> trim_space (v @ p @ i @ r) = p @ i @ r' \<and> id_stop r'"
proof -
  obtain r' w where w: "r = r' @ w" "list_all is_space w" "r' = [] \<or> \<not> is_space (last r')"
  proof -
    let ?w = "takeWhile is_space (rev r)" and ?r = "dropWhile is_space (rev r)"
    have "r = rev ?r @ rev ?w" by (metis rev_append rev_rev_ident takeWhile_dropWhile_id)
    moreover have "list_all is_space (rev ?w)" by (auto simp: list_all_iff dest: set_takeWhileD)
    moreover have "rev ?r = [] \<or> \<not> is_space (last (rev ?r))" by (metis hd_dropWhile last_rev rev_is_Nil_conv)
    ultimately show ?thesis using that by blast
  qed
  have "trim_space (v @ (p @ i @ r') @ w) = p @ i @ r'"
    using v w p id_ok_ends [OF i] by (intro trim_space_core) (auto simp: hd_append last_append)
  with w id_stop_prefix [of r' w] r show ?thesis by auto
qed

lemma trim_space_set: "c \<in> set s \<Longrightarrow> \<not> is_space c \<Longrightarrow> c \<in> set (trim_space s)"
  using trim_space_split [of s] by (auto simp: list_all_iff) (metis Un_iff set_append)

lemma str_contains_trim: "str_contains (trim_space s) x \<Longrightarrow> str_contains s x"
  using trim_space_split [of s] str_contains_append by metis

lemma after_marker_Inr:
  assumes a: "after_marker e m s = Inr i"
  shows "id_ok i \<and> str_contains s i \<and> (CHR ''/'' \<in> set s \<longrightarrow> (\<exists>a b. s = a @ m @ b \<and> str_contains b i))"
proof -
  obtain p where p: "s = p @ cut_scheme s" using cut_scheme_suffix by blast
  show ?thesis
  proof (cases "str_index (cut_scheme s) m")
    case None
    with a have t: "id_tail e (cut_scheme s) = Inr i" and n: "CHR ''/'' \<notin> set s"
      by (auto simp: after_marker_def str_contains_char Let_def split: if_splits)
    from id_tail_Inr [OF t] p have "id_ok i" "str_contains s i"
      using str_contains_append [of "cut_scheme s" i p "[]"] by auto
    with n show ?thesis by simp
  next
    case (Some k)
    let ?b = "drop (k + length m) (cut_scheme s)"
    from Some a have t: "id_tail e ?b = Inr i" by (simp add: after_marker_def)
    have s: "s = (p @ take k (cut_scheme s)) @ m @ ?b" using str_index_Some [OF Some] p by (metis append.assoc)
    with id_tail_Inr [OF t] show ?thesis
      using str_contains_append [of ?b i "p @ take k (cut_scheme s) @ m" "[]"] by (metis append.assoc append_Nil2)
  qed
qed

lemma after_marker_Inl: "after_marker e m s = Inl x \<Longrightarrow> x = e"
  by (auto simp: after_marker_def Let_def dest: id_tail_Inl split: option.splits if_splits)

text \<open>Which provider's parser a documented link form goes through: the text in front of the id. The
  first lists have a scheme, the second do not.\<close>

definition vk_url_forms :: "string list" where
  "vk_url_forms = [''https://vk.com/call/join/'', ''https://vk.ru/call/join/'', ''http://vk.com/call/join/'', ''HTTPS://vk.com/call/join/'']"

definition vk_host_forms :: "string list" where
  "vk_host_forms = [''vk.com/call/join/'', ''vk.ru/call/join/'']"

definition ya_url_forms :: "string list" where
  "ya_url_forms = [''https://telemost.yandex.ru/j/'', ''https://telemost.yandex.com/j/'', ''telemost:https://telemost.yandex.ru/j/'']"

definition ya_host_forms :: "string list" where
  "ya_host_forms = [''telemost.yandex.ru/j/'', ''telemost.yandex.com/j/'']"

lemma marker_forms:
  "p \<in> set vk_url_forms \<Longrightarrow> after_marker e ''join/'' (p @ t) = id_tail e t"
  "p \<in> set vk_host_forms \<Longrightarrow> \<not> str_contains t ''://'' \<Longrightarrow> after_marker e ''join/'' (p @ t) = id_tail e t"
  by (auto simp: vk_url_forms_def vk_host_forms_def after_marker_def cut_scheme_def str_index_None [symmetric])

lemma marker_forms_ya:
  "p \<in> set (take 2 ya_url_forms) \<Longrightarrow> after_marker e ''/j/'' (p @ t) = id_tail e t"
  "p \<in> set ya_host_forms \<Longrightarrow> \<not> str_contains t ''://'' \<Longrightarrow> after_marker e ''/j/'' (p @ t) = id_tail e t"
  by (auto simp: ya_url_forms_def ya_host_forms_def after_marker_def cut_scheme_def str_index_None [symmetric])

lemma marker_bare:
  assumes "CHR ''/'' \<notin> set t" and "CHR ''/'' \<in> set m"
  shows "after_marker e m t = id_tail e t"
proof -
  have "\<not> str_contains t x" if "CHR ''/'' \<in> set x" for x using that assms(1) str_contains_subset by blast
  then have "str_index t ''://'' = None" "str_index t m = None" "\<not> str_contains t ''/''" "\<not> str_contains t ''://''"
    using assms(2) by (simp_all add: str_index_None)
  then show ?thesis by (simp add: after_marker_def cut_scheme_def)
qed

lemma str_contains_prefix: "\<not> str_contains (a @ b) x \<Longrightarrow> \<not> str_contains a x"
  using str_contains_append [of a x "[]" b] by auto

lemma id_no_scheme: "id_ok i \<Longrightarrow> str_contains (i @ r) ''://'' \<Longrightarrow> str_contains r ''://''"
proof (induction i)
  case (Cons c i)
  have "CHR '':'' \<noteq> c" using Cons.prems(1) by (auto simp: id_ok_def dest: isCallIDRune_not(2))
  then have "str_contains (i @ r) ''://''" using Cons.prems(2) by simp
  then show ?case using Cons.IH Cons.prems(1) by (cases "i = []") (auto simp: id_ok_def)
qed simp

text \<open>A link in a form whose prefix the marker search takes off: the id is found.\<close>

lemma vk_form_hit:
  assumes i: "id_ok i" and r: "id_stop r" and v: "list_all is_space v" and p: "p = [] \<or> \<not> is_space (hd p)"
    and f: "\<And>r' w. r = r' @ w \<Longrightarrow> after_marker vk_invalid ''join/'' (p @ i @ r') = id_tail vk_invalid (i @ r')"
  shows "vk_extractCallID (v @ p @ i @ r) = Inr i"
proof -
  obtain r' w where w: "r = r' @ w" "trim_space (v @ p @ i @ r) = p @ i @ r'" "id_stop r'"
    using trim_link [OF v p i r] by blast
  with f [OF w(1)] id_tail_hit [OF i w(3)] i show ?thesis by (simp add: vk_extractCallID_def id_ok_def)
qed

lemma vk_forms_heads: "p \<in> set (vk_url_forms @ vk_host_forms) \<Longrightarrow> p = [] \<or> \<not> is_space (hd p)"
  by (auto simp: vk_url_forms_def vk_host_forms_def is_space_def)

lemma host_form_rest: "id_ok i \<Longrightarrow> \<not> str_contains r ''://'' \<Longrightarrow> r = r' @ w \<Longrightarrow> \<not> str_contains (i @ r') ''://''"
  using str_contains_prefix id_no_scheme by blast

lemma id_no_slash: "id_ok i \<Longrightarrow> CHR ''/'' \<notin> set i"
  using isCallIDRune_not(2) [of "CHR ''/''"] by (auto simp: id_ok_def list_all_iff)

lemma bare_rest: "id_ok i \<Longrightarrow> CHR ''/'' \<notin> set r \<Longrightarrow> r = r' @ w \<Longrightarrow> CHR ''/'' \<notin> set (i @ r')"
  using id_no_slash by auto

lemma slash_trim: "CHR ''/'' \<in> set s \<Longrightarrow> CHR ''/'' \<in> set (trim_space s)"
  by (rule trim_space_set) (simp_all add: is_space_def)

lemma extract_Inr:
  assumes "after_marker e m (trim_space link) = Inr j"
  shows "id_ok j \<and> str_contains link j \<and> (CHR ''/'' \<in> set link \<longrightarrow> (\<exists>a b. link = a @ m @ b \<and> str_contains b j))"
proof -
  obtain v w where vw: "link = v @ trim_space link @ w" using trim_space_split by blast
  from after_marker_Inr [OF assms] have *: "id_ok j" "str_contains (trim_space link) j"
    "CHR ''/'' \<in> set (trim_space link) \<longrightarrow> (\<exists>a b. trim_space link = a @ m @ b \<and> str_contains b j)" by auto
  have "\<exists>a b. link = a @ m @ b \<and> str_contains b j" if sl: "CHR ''/'' \<in> set link"
  proof -
    from *(3) slash_trim [OF sl] obtain a b where "trim_space link = a @ m @ b" "str_contains b j" by blast
    with vw str_contains_append [of b j "[]" w] show ?thesis
      by (intro exI [of _ "v @ a"] exI [of _ "b @ w"]) simp
  qed
  with * str_contains_trim show ?thesis by blast
qed



section \<open>Telemost links\<close>

lemma id_ok_trim: "id_ok i \<Longrightarrow> p = [] \<or> \<not> is_space (hd p) \<Longrightarrow> trim_space (p @ i) = p @ i"
  using trim_space_core [of "[]" "[]" "p @ i"] id_ok_ends [of i] by (cases p) auto

lemma ya_forms_heads: "p \<in> set (ya_url_forms @ ya_host_forms) \<Longrightarrow> \<not> is_space (hd p) \<and> p \<noteq> []"
  by (auto simp: ya_url_forms_def ya_host_forms_def is_space_def)

lemma ya_form_prefix:
  "p \<in> set (take 2 ya_url_forms) \<Longrightarrow> \<not> has_prefix (to_lower (p @ t)) ''telemost:''"
  by (auto simp: ya_url_forms_def to_lower_def char_lower_def)

lemma has_prefix_telemost: "has_prefix (to_lower (''telemost:'' @ t)) ''telemost:''"
  by (simp add: to_lower_def char_lower_def)

lemma ya_extract_url:
  assumes i: "id_ok i" and r: "id_stop r" and p: "p \<in> set (take 2 ya_url_forms)"
  shows "ya_extractCallID (p @ i @ r) = Inr i"
proof -
  have h: "p = [] \<or> \<not> is_space (hd p)" using p ya_forms_heads by (auto dest: in_set_takeD)
  obtain r' w where w: "r = r' @ w" "trim_space ([] @ p @ i @ r) = p @ i @ r'" "id_stop r'"
    using trim_link [of "[]", OF _ h i r] by auto
  then show ?thesis
    using ya_form_prefix [OF p, of "i @ r'"] marker_forms_ya(1) [OF p] id_tail_hit [OF i w(3)] i
    by (simp add: ya_extractCallID_def id_ok_def)
qed

lemma ya_extract_tag:
  assumes i: "id_ok i" and r: "id_stop r" and n: "CHR ''/'' \<notin> set r"
  shows "ya_extractCallID (''telemost:'' @ i @ r) = Inr i"
proof -
  have h: "\<not> is_space (hd ''telemost:'')" by (simp add: is_space_def)
  obtain r' w where w: "r = r' @ w" "trim_space ([] @ ''telemost:'' @ i @ r) = ''telemost:'' @ i @ r'" "id_stop r'"
    using trim_link [of "[]" "''telemost:''", OF _ _ i r] h by auto
  have m: "after_marker ya_invalid ''/j/'' (i @ r') = Inr i"
    using marker_bare [OF bare_rest [OF i n w(1)], of "''/j/''"] id_tail_hit [OF i w(3)] by simp
  with w(2) has_prefix_telemost [of "i @ r'"] show ?thesis by (simp add: ya_extractCallID_def)
qed

text \<open>Which links a router takes for Telemost's: all documented forms of Telemost, and of VK's
  those whose id has the Telemost host name in it.\<close>

lemma telemost_forms:
  assumes i: "id_ok i" and p: "p \<in> set (''telemost:'' # ya_url_forms @ ya_host_forms)"
  shows "IsTelemostLink (p @ i)"
proof -
  have "\<not> is_space (hd p) \<and> p \<noteq> []" using p ya_forms_heads by (auto simp: is_space_def)
  then have "trim_space (p @ i) = p @ i" using id_ok_ends [OF i] trim_space_core [of "[]" "[]" "p @ i"] by auto
  then show ?thesis
    using p by (auto simp: IsTelemostLink_def ya_url_forms_def ya_host_forms_def to_lower_def char_lower_def)
qed

lemma vk_forms_telemost:
  assumes i: "id_ok i" and p: "p \<in> set (vk_url_forms @ vk_host_forms)"
  shows "IsTelemostLink (p @ i) \<longleftrightarrow> str_contains (to_lower i) ''telemost.yandex.''"
proof -
  have "\<not> is_space (hd p) \<and> p \<noteq> []" using p by (auto simp: vk_url_forms_def vk_host_forms_def is_space_def)
  then have "trim_space (p @ i) = p @ i" using id_ok_ends [OF i] trim_space_core [of "[]" "[]" "p @ i"] by auto
  moreover have "to_lower p @ to_lower i = map char_lower p @ to_lower i" by (simp add: to_lower_def)
  ultimately show ?thesis
    using p by (auto simp: IsTelemostLink_def vk_url_forms_def vk_host_forms_def to_lower_def char_lower_def Let_def)
qed

section \<open>TURN URLs\<close>

definition host_ok :: "string \<Rightarrow> bool" where
  "host_ok h \<longleftrightarrow> h \<noteq> [] \<and> (\<forall>c \<in> set h. \<not> is_space c \<and> c \<notin> set '':[]?'')"

definition query_ok :: "string \<Rightarrow> bool" where
  "query_ok q \<longleftrightarrow> q = [] \<or> (hd q = CHR ''?'' \<and> \<not> is_space (last q))"

lemma drop_query_hit: "CHR ''?'' \<notin> set s \<Longrightarrow> query_ok q \<Longrightarrow> drop_query (s @ q) = s"
proof (cases q)
  case (Cons c t)
  assume "CHR ''?'' \<notin> set s" "query_ok q"
  with Cons index_byte_append [of "CHR ''?''" s t] show ?thesis by (simp add: query_ok_def drop_query_def)
qed (simp add: drop_query_def index_byte_None split: option.splits, metis index_byte_None option.distinct(1))

definition turn_schemes :: "string list" where
  "turn_schemes = [''turn:'', ''turns:'', ''stun:'', ''stuns:'']"

lemma drop_scheme_hit:
  "sch \<in> set turn_schemes \<Longrightarrow> drop_scheme [''turns:'', ''turn:'', ''stun:'', ''stuns:''] (sch @ t) = t"
  "sch \<in> set turn_schemes \<Longrightarrow> drop_scheme [''turns:'', ''turn:'', ''stuns:'', ''stun:''] (sch @ t) = t"
  by (auto simp: turn_schemes_def)

lemma digit_not_space: "digit_val c \<noteq> None \<Longrightarrow> \<not> is_space c"
  by (auto simp: digit_val_def is_space_def)

lemma turn_url_trim:
  assumes "sch \<in> set turn_schemes" and "query_ok q" and "p = [] \<and> q = [] \<or> p \<noteq> [] \<and> list_all (\<lambda>c. digit_val c \<noteq> None) p"
  shows "trim_space (sch @ h @ '':'' @ p @ q) = sch @ h @ '':'' @ p @ q"
proof -
  have "\<not> is_space (hd (sch @ h @ '':'' @ p @ q))" using assms(1) by (auto simp: turn_schemes_def is_space_def)
  moreover have "\<not> is_space (last (sch @ h @ '':'' @ p @ q))"
  proof (cases "q = []")
    case False
    with assms(2) show ?thesis by (simp add: query_ok_def)
  next
    case True
    have "\<not> is_space (last p)" if "p \<noteq> []"
    proof -
      have "last p \<in> set p" using that by simp
      with assms(3) that have "digit_val (last p) \<noteq> None" unfolding list_all_iff by metis
      then show ?thesis by (rule digit_not_space)
    qed
    with True show ?thesis by (cases "p = []") (simp_all add: is_space_def)
  qed
  ultimately show ?thesis using trim_space_core [of "[]" "[]" "sch @ h @ '':'' @ p @ q"] by simp
qed



end
