(* ===== verification/Cli_Config.thy ===== *)
theory Cli_Config
  imports Wg_Conf Client_Path Vk_Captcha Call_Link
begin

text \<open>
  What the command line tool decides before anything runs: the choice of provider, solver and
  configuration in \<open>cmd/wgturn-cli/main.go\<close>, the kernel configuration of \<open>connect.go\<close>, the backend of
  \<open>serve.go\<close>, the administration commands of \<open>provision_url.go\<close>, and the stub provider. Parsed flags
  are records; the contents of files, the outcome of starting a browser and what the standard input
  gives are arguments.
\<close>

section \<open>Definitions\<close>

subsection \<open>Providers\<close>

record stub_provider =
  sp_Creds :: credentials
  sp_Err :: "go_error option"
  sp_Calls :: nat

definition stub_Fetch :: "go_error option \<Rightarrow> stub_provider \<Rightarrow> credentials res \<times> stub_provider" where
  "stub_Fetch ctxErr p0 =
     (let p = p0\<lparr>sp_Calls := Suc (sp_Calls p0)\<rparr> in
      case sp_Err p of
        Some e \<Rightarrow> (Inl e, p)
      | None \<Rightarrow> (case ctxErr of Some e \<Rightarrow> (Inl e, p) | None \<Rightarrow> (Inr (sp_Creds p), p)))"

definition stub_New :: "string \<Rightarrow> string \<Rightarrow> string \<Rightarrow> stub_provider" where
  "stub_New user pass server =
     \<lparr>sp_Creds = \<lparr>Username = user, Password = pass, ServerAddr = server, ExpiresIn = 0\<rparr>, sp_Err = None, sp_Calls = 0\<rparr>"

record routed_provider =
  rp_vk :: provider
  rp_yandex :: provider

definition routed_Fetch :: "routed_provider \<Rightarrow> provider" where
  "routed_Fetch r hint streamID =
     (if IsTelemostLink hint then rp_yandex r hint streamID else rp_vk r hint streamID)"

definition splitLinks :: "string \<Rightarrow> string list" where
  "splitLinks raw =
     filter (\<lambda>p. p \<noteq> [])
       (map trim_space (fields_func (\<lambda>c. c = CHR '','' \<or> c = CHR '' '' \<or> c = CHR 0x09 \<or> c = newline) raw))"

subsection \<open>Captcha solvers\<close>

text \<open>What the prompt on the terminal meets: the context ends first, a line, or the end of the input
  with or without an error.\<close>

datatype stdin_outcome = StdinCtx go_error | StdinLine string | StdinEnd "go_error option"

definition stdio_Solve :: "stdin_outcome \<Rightarrow> solution res" where
  "stdio_Solve outc =
     (case outc of
        StdinCtx e \<Rightarrow> Inl e
      | StdinEnd (Some e) \<Rightarrow> Inl (wrapf ''read stdin: '' e)
      | StdinEnd None \<Rightarrow> Inl (errors_New ''empty captcha key'')
      | StdinLine l \<Rightarrow>
          (let key = trim_space l in
           if key = [] then Inl (errors_New ''empty captcha key'')
           else Inr \<lparr>sol_Key = key, sol_SuccessToken = []\<rparr>))"

datatype solver_choice = StdioSolver | CDPSolver string string

definition pickCaptchaSolver :: "string \<Rightarrow> string \<Rightarrow> solver_choice" where
  "pickCaptchaSolver chromeURL ua = (if chromeURL = [] then StdioSolver else CDPSolver chromeURL ua)"

text \<open>\<open>launch\<close> is the outcome of \<open>launchChrome\<close>: the URL of the started browser.\<close>

definition resolveChromeURL :: "string res \<Rightarrow> string \<Rightarrow> bool \<Rightarrow> (string \<times> bool) res" where
  "resolveChromeURL launch override auto =
     (if override \<noteq> [] then Inr (override, False)
      else if \<not> auto then Inr ([], False)
      else case launch of Inl e \<Rightarrow> Inl e | Inr url \<Rightarrow> Inr (url, True))"

subsection \<open>The tunnel's configuration\<close>

record build_args =
  ba_configPath :: string
  ba_peer :: string
  ba_listen :: string
  ba_streams :: int
  ba_peerType :: string
  ba_watchdog :: duration
  ba_udp :: bool
  ba_vkLink :: string
  ba_stubUser :: string
  ba_stubPass :: string
  ba_stubServer :: string

text \<open>The opened file: its contents and the error, if any, with which reading it ends.\<close>

type_synonym opened = "(string \<times> go_error option) res"

definition parseWGConfig :: "(nat \<Rightarrow> nat \<Rightarrow> nat \<Rightarrow> nat) \<Rightarrow> opened \<Rightarrow> settings res" where
  "parseWGConfig frac op =
     (case op of
        Inl e \<Rightarrow> Inl (wrapf ''open config: '' e)
      | Inr (text, readErr) \<Rightarrow>
          (case Parse frac text readErr of
             (s, Some e) \<Rightarrow> Inl (wrapf ''parse config: '' e)
           | (s, None) \<Rightarrow> Inr s))"

definition zero_config :: turn_config where
  "zero_config = \<lparr>tc_PeerAddr = [], tc_ListenAddr = [], tc_Streams = 0, tc_PeerType = [], tc_Mode = [], tc_Hint = [],
     tc_Hints = [], tc_UDP = False, tc_TURNHostOverride = [], tc_TURNPortOverride = 0, tc_StreamsPerCred = 0,
     tc_WatchdogTimeout = 0, tc_Provider = None, tc_Protector = None, tc_Logger = None\<rparr>"

definition base_config :: "(nat \<Rightarrow> nat \<Rightarrow> nat \<Rightarrow> nat) \<Rightarrow> (string \<Rightarrow> opened) \<Rightarrow> build_args \<Rightarrow> turn_config res" where
  "base_config frac files a =
     (if ba_configPath a \<noteq> [] then
        bind_res (parseWGConfig frac (files (ba_configPath a))) (\<lambda>s.
          case ToTunnelConfig s of
            Inl e \<Rightarrow> Inl (wrapf ''config -> tunnel: '' e)
          | Inr c \<Rightarrow> Inr (c\<lparr>tc_Logger := Some (), tc_Protector := Some ()\<rparr>))
      else Inr (zero_config\<lparr>tc_Logger := Some (), tc_Protector := Some (), tc_PeerAddr := ba_peer a, tc_ListenAddr := ba_listen a,
             tc_Streams := ba_streams a, tc_PeerType := ba_peerType a, tc_WatchdogTimeout := ba_watchdog a, tc_UDP := ba_udp a\<rparr>))"

definition noProvider :: go_error where
  "noProvider = errors_New (''no credentials provider configured: '' @
     ''pass -vk-link <url> for VK, or -stub-{user,pass,server} for tests, '' @
     ''or use a config file with #@wgt:Mode = vk_link + #@wgt:VkLink = ...'')"

definition with_links :: "string list \<Rightarrow> turn_config \<Rightarrow> turn_config res" where
  "with_links links c =
     (case links of
        [] \<Rightarrow> Inl (errors_New ''-vk-link is empty after parsing'')
      | [l] \<Rightarrow> Inr (c\<lparr>tc_Hint := l\<rparr>)
      | _ \<Rightarrow> Inr (c\<lparr>tc_Hints := links\<rparr>))"

text \<open>The provider: \<open>routed\<close> is the router over a new VK and a new Yandex provider, \<open>stub\<close> makes the stub
  provider's function from its three flags.\<close>

definition select_provider ::
    "provider \<Rightarrow> (string \<Rightarrow> string \<Rightarrow> string \<Rightarrow> provider) \<Rightarrow> build_args \<Rightarrow> turn_config \<Rightarrow> turn_config res" where
  "select_provider routed stub a c =
     (if ba_vkLink a \<noteq> [] then
        with_links (splitLinks (ba_vkLink a)) (c\<lparr>tc_Provider := Some routed, tc_Mode := ModeVKLink\<rparr>)
      else if ba_stubUser a \<noteq> [] \<or> ba_stubPass a \<noteq> [] \<or> ba_stubServer a \<noteq> [] then
        (if ba_stubUser a = [] \<or> ba_stubPass a = [] \<or> ba_stubServer a = []
         then Inl (errors_New ''stub provider requires -stub-user, -stub-pass, -stub-server together'')
         else Inr (c\<lparr>tc_Provider := Some (stub (ba_stubUser a) (ba_stubPass a) (ba_stubServer a)),
                     tc_Mode := (if tc_Mode c = [] then ModeStub else tc_Mode c)\<rparr>))
      else if tc_Hint c \<noteq> [] \<and> tc_Mode c = ModeVKLink then Inr (c\<lparr>tc_Provider := Some routed\<rparr>)
      else Inl noProvider)"

definition buildConfig ::
    "(nat \<Rightarrow> nat \<Rightarrow> nat \<Rightarrow> nat) \<Rightarrow> (string \<Rightarrow> opened) \<Rightarrow> provider \<Rightarrow> (string \<Rightarrow> string \<Rightarrow> string \<Rightarrow> provider) \<Rightarrow>
     build_args \<Rightarrow> turn_config res" where
  "buildConfig frac files routed stub a = bind_res (base_config frac files a) (select_provider routed stub a)"

text \<open>\<open>connect-url\<close>: the tunnel's configuration from a profile and the links of the command line.\<close>

definition url_tunnel_config :: "provider \<Rightarrow> profile \<Rightarrow> string \<Rightarrow> turn_config res" where
  "url_tunnel_config routed p vkLink =
     (let links = splitLinks vkLink in
      case links of
        [] \<Rightarrow> Inl (errors_New ''connect-url: --vk-link <url> is required (the URL itself does NOT carry it)'')
      | l # _ \<Rightarrow>
          (let c = (share_ToTunnelConfig p l)\<lparr>tc_Logger := Some (), tc_Protector := Some ()\<rparr>;
               c' = (if length links > 1 then c\<lparr>tc_Hint := [], tc_Hints := links\<rparr> else c)
           in Inr (c'\<lparr>tc_Provider := Some routed\<rparr>)))"

subsection \<open>The kernel's configuration\<close>

fun kernel_peers :: "nat \<Rightarrow> peer_section list \<Rightarrow> peer_config list res" where
  "kernel_peers i [] = Inr []"
| "kernel_peers i (p # ps) =
     (if ps_PublicKey p = [] then Inl (errors_New (''[Peer #'' @ show_nat i @ ''] PublicKey is required''))
      else bind_res (kernel_peers (Suc i) ps) (\<lambda>qs.
        Inr (\<lparr>pc_PublicKey = ps_PublicKey p, pc_PresharedKey = ps_PresharedKey p, pc_Endpoint = ps_Endpoint p,
              pc_AllowedIPs = ps_AllowedIPs p, pc_PersistentKeepalive = ps_PersistentKeepalive p\<rparr> # qs)))"

definition buildKernelConfig :: "settings \<Rightarrow> kernel_config res" where
  "buildKernelConfig s =
     (if if_PrivateKey (Iface s) = [] then Inl (errors_New ''[Interface] PrivateKey is required for the embedded kernel'')
      else if length (WGPeers s) = 0 then Inl (errors_New ''at least one [Peer] section is required'')
      else bind_res (kernel_peers 0 (WGPeers s)) (\<lambda>ps.
        Inr \<lparr>kc_PrivateKey = if_PrivateKey (Iface s), kc_Address = if_Address (Iface s), kc_ListenPort = if_ListenPort (Iface s),
             kc_MTU = if_MTU (Iface s), kc_DNS = if_DNS (Iface s), kc_Peers = ps\<rparr>))"

subsection \<open>The server's backend\<close>

definition buildServerBackend :: "string \<Rightarrow> string res" where
  "buildServerBackend spec =
     (case ParseBackendSpec spec of
        Inl e \<Rightarrow> Inl (wrapf ''serve: backend: '' e)
      | Inr (BackendUDP, addr) \<Rightarrow> Inr addr
      | Inr (BackendWGKernel, _) \<Rightarrow>
          Inl (errors_New (''serve: Backend=wgkernel is not yet wired into the CLI; '' @
            ''use Backend=udp:127.0.0.1:51820 with a separate wireguard-tools setup for now'')))"

text \<open>The part of \<open>runServe\<close> that resolves the file and the flags: listener and backend address.\<close>

definition serve_config :: "settings \<Rightarrow> string \<Rightarrow> string \<Rightarrow> (string \<times> string) res" where
  "serve_config s listenOverride backendOverride =
     (if \<not> EnableServer s then Inl (errors_New ''serve: #@wgt:EnableServer must be true in the config'')
      else (let listen = (if listenOverride \<noteq> [] then listenOverride else Listen s);
                spec = (if backendOverride \<noteq> [] then backendOverride else BackendSpec s)
            in if listen = [] then Inl (errors_New ''serve: #@wgt:Listen is required (or pass --listen)'')
               else bind_res (buildServerBackend spec) (\<lambda>addr. Inr (listen, addr))))"

subsection \<open>The administration commands\<close>

text \<open>The texts of \<open>netip\<close>'s errors.\<close>

record netip_errs =
  ne_prefix :: "string \<Rightarrow> string"
  ne_addr :: "string \<Rightarrow> string"

definition flag_tokens :: "string \<Rightarrow> string list" where
  "flag_tokens s = filter (\<lambda>t. t \<noteq> []) (map trim_space (fields_func (\<lambda>c. c = CHR '','' \<or> c = CHR '' '') s))"

definition parseCIDRList :: "netip_errs \<Rightarrow> string \<Rightarrow> prefix list res" where
  "parseCIDRList ne s =
     (if trim_space s = [] then Inr []
      else map_res (\<lambda>t. case parse_prefix t of
                        None \<Rightarrow> Inl (errors_New (''invalid CIDR '' @ quoted t @ '': '' @ ne_prefix ne t))
                      | Some p \<Rightarrow> Inr p) (flag_tokens s))"

definition parseIPList :: "netip_errs \<Rightarrow> string \<Rightarrow> addr list res" where
  "parseIPList ne s =
     (if trim_space s = [] then Inr []
      else map_res (\<lambda>t. case parse_addr t of
                        None \<Rightarrow> Inl (errors_New (''invalid IP '' @ quoted t @ '': '' @ ne_addr ne t))
                      | Some a \<Rightarrow> Inr a) (flag_tokens s))"

definition quick_lines :: "profile \<Rightarrow> string list" where
  "quick_lines p =
     [''# wgturn-name = '' @ pf_Label p, ''[Interface]'', ''PrivateKey = '' @ pf_ClientPrivateKey p,
      ''Address = '' @ show_prefix (pf_Address p)] @
     (if length (pf_DNS p) > 0 then [''DNS = '' @ str_join '', '' (map show_addr (pf_DNS p))] else []) @
     (if pf_MTU p > 0 then [''MTU = '' @ show_int (pf_MTU p)] else []) @
     [[], ''[Peer]'', ''PublicKey = '' @ pf_ServerPublicKey p] @
     (if pf_PresharedKey p \<noteq> [] then [''PresharedKey = '' @ pf_PresharedKey p] else []) @
     [''Endpoint = '' @ pf_Endpoint p] @
     (if length (pf_AllowedIPs p) > 0 then [''AllowedIPs = '' @ str_join '', '' (map show_prefix (pf_AllowedIPs p))] else []) @
     (if pf_PersistentKeepalive p > 0
      then [''PersistentKeepalive = '' @ show_int (go_div (pf_PersistentKeepalive p) second)] else []) @
     [[]]"

definition formatWGQuickConf :: "profile \<Rightarrow> string" where
  "formatWGQuickConf p = unlines (quick_lines p)"

record provision_flags =
  vf_conf :: string
  vf_interface :: string
  vf_subnet :: string
  vf_serverAddr :: string
  vf_endpoint :: string
  vf_allowed :: string
  vf_dns :: string
  vf_mtu :: int
  vf_keepalive :: duration
  vf_printConf :: bool

definition named :: "string \<Rightarrow> 'a res \<Rightarrow> 'a res" where
  "named pre r = (case r of Inl e \<Rightarrow> Inl (wrapf pre e) | Inr x \<Rightarrow> Inr x)"

definition provision_server :: "netip_errs \<Rightarrow> sync_command \<Rightarrow> provision_flags \<Rightarrow> string list \<Rightarrow> admin_server res" where
  "provision_server ne realSync f names =
     (if length names = 0 then Inl (errors_New ''provision-url: at least one name is required'')
      else if vf_endpoint f = [] then Inl (errors_New ''provision-url: --endpoint <host:port> is required'')
      else bind_res (case parse_prefix (vf_subnet f) of
                       None \<Rightarrow> Inl (errors_New (''provision-url: --subnet '' @ quoted (vf_subnet f) @ '': '' @ ne_prefix ne (vf_subnet f)))
                     | Some p \<Rightarrow> Inr p) (\<lambda>subnet.
        bind_res (named ''provision-url: --allowed: '' (parseCIDRList ne (vf_allowed f))) (\<lambda>allowed.
        bind_res (named ''provision-url: --dns: '' (parseIPList ne (vf_dns f))) (\<lambda>dns.
        bind_res (if vf_serverAddr f \<noteq> [] then
                    (case parse_addr (vf_serverAddr f) of
                       None \<Rightarrow> Inl (errors_New (''provision-url: --server-addr '' @ quoted (vf_serverAddr f) @ '': '' @ ne_addr ne (vf_serverAddr f)))
                     | Some a \<Rightarrow> Inr a)
                  else Inr AddrZero) (\<lambda>srvAddr.
        Inr (NewServer realSync
          \<lparr>as_ConfPath = vf_conf f, as_Interface = vf_interface f, as_Subnet = subnet, as_ServerAddress = srvAddr,
           as_Endpoint = vf_endpoint f, as_AllowedIPs = allowed, as_DNS = dns, as_MTU = vf_mtu f,
           as_PersistentKeepalive = vf_keepalive f, as_SyncCommand = None\<rparr>))))))"

text \<open>The loop over the names: each call of \<open>Provision\<close> has its own random bytes and its own outcomes of
  the file operations. The list is what is printed.\<close>

fun provision_loop ::
    "bool \<Rightarrow> admin_server \<Rightarrow> (string \<times> admin_io \<times> crypto_env) list \<Rightarrow> admin_world \<Rightarrow> string list \<times> go_error option \<times> admin_world" where
  "provision_loop printConf s [] w = ([], None, w)"
| "provision_loop printConf s ((name, io, cr) # ns) w =
     (case Provision io cr s name w of
        (Inl e, w1) \<Rightarrow> ([], Some (wrapf (''provision-url: '' @ name @ '': '') e), w1)
      | (Inr prof, w1) \<Rightarrow>
          (case Encode prof of
             Inl e \<Rightarrow> ([], Some (wrapf (''provision-url: '' @ name @ '' encode: '') e), w1)
           | Inr url \<Rightarrow>
               (case provision_loop printConf s ns w1 of
                  (out, r, w2) \<Rightarrow> ((url @ [newline]) # (if printConf then [formatWGQuickConf prof] else []) @ out, r, w2))))"

text \<open>\<open>revoke-url\<close> goes on after a failure and returns the first one.\<close>

fun revoke_loop ::
    "admin_server \<Rightarrow> (string \<times> admin_io) list \<Rightarrow> go_error option \<Rightarrow> admin_world \<Rightarrow> go_error option \<times> admin_world" where
  "revoke_loop s [] firstErr w = (firstErr, w)"
| "revoke_loop s ((name, io) # ns) firstErr w =
     (case Revoke io s name w of
        (Some e, w1) \<Rightarrow> revoke_loop s ns (case firstErr of None \<Rightarrow> Some e | Some f \<Rightarrow> Some f) w1
      | (None, w1) \<Rightarrow> revoke_loop s ns firstErr w1)"

subsection \<open>Subcommands\<close>

datatype subcommand = CmdVersion | CmdConnect "string list" | CmdConnectURL "string list" | CmdServe "string list"
  | CmdProvisionURL "string list" | CmdRevokeURL "string list" | CmdProxy "string list"

text \<open>The arguments behind the program's name.\<close>

definition dispatch :: "string list \<Rightarrow> subcommand" where
  "dispatch args =
     (case args of
        [] \<Rightarrow> CmdProxy []
      | c # rest \<Rightarrow>
          if c = ''version'' \<or> c = ''--version'' \<or> c = ''-version'' then CmdVersion
          else if c = ''connect'' then CmdConnect rest
          else if c = ''connect-url'' then CmdConnectURL rest
          else if c = ''serve'' then CmdServe rest
          else if c = ''provision-url'' then CmdProvisionURL rest
          else if c = ''revoke-url'' then CmdRevokeURL rest
          else CmdProxy args)"

section \<open>Links of the command line\<close>

lemma fields_join:
  assumes "\<forall>x \<in> set xs. x \<noteq> [] \<and> (\<forall>c \<in> set x. \<not> P c)" and "P (CHR '','')" and "P (CHR '' '')"
  shows "fields_func P (str_join '', '' xs) = xs"
  using assms(1)
proof (induction xs)
  case (Cons x xs)
  show ?case
  proof (cases xs)
    case Nil
    with Cons.prems show ?thesis by (simp add: fields_func_single)
  next
    case (Cons y ys)
    have "fields_func P (str_join '', '' (x # xs)) = x # fields_func P (str_join '', '' xs)"
      using Cons Cons.prems assms(2,3) fields_acc_run [of x P "[]" "'', '' @ str_join '', '' xs"] by (simp add: fields_func_def)
    with Cons.IH Cons.prems show ?thesis by simp
  qed
qed (simp add: fields_func_def)

lemma splitLinks_join:
  assumes "\<forall>l \<in> set ls. l \<noteq> [] \<and> (\<forall>c \<in> set l. \<not> is_space c \<and> c \<noteq> CHR '','')"
  shows "splitLinks (str_join '', '' ls) = ls"
proof -
  let ?P = "\<lambda>c. c = CHR '','' \<or> c = CHR '' '' \<or> c = CHR 0x09 \<or> c = newline"
  have "\<not> ?P c" if "\<not> is_space c" "c \<noteq> CHR '',''" for c using that by (auto simp: is_space_def newline_def)
  with assms have "fields_func ?P (str_join '', '' ls) = ls" by (intro fields_join) auto
  moreover have "map trim_space ls = ls" using assms by (intro map_idI trim_space_id) auto
  moreover have "filter (\<lambda>t. t \<noteq> []) ls = ls" using assms by (simp add: filter_id_conv)
  ultimately show ?thesis by (simp add: splitLinks_def)
qed

lemma splitLinks_not_Nil: "l \<in> set (splitLinks raw) \<Longrightarrow> l \<noteq> []"
  by (auto simp: splitLinks_def)

section \<open>Configurations that are accepted\<close>

lemma base_config_plain:
  assumes "base_config frac files a = Inr c"
  shows "tc_Hints c = []" and "tc_Provider c = None" and "tc_Protector c = Some ()" and "tc_Logger c = Some ()"
  using assms
  by (auto simp: base_config_def zero_config_def ToTunnelConfig_def parseWGConfig_def bind_res_Inr_iff
      split: if_splits sum.splits prod.splits option.splits)

lemma with_links_Inr:
  assumes "with_links links c = Inr c'" and "tc_Hints c = []" and "\<forall>l \<in> set links. l \<noteq> []"
  shows "hc_Hints (hub_config_of c') = links \<and> links \<noteq> [] \<and>
    c'\<lparr>tc_Hint := tc_Hint c, tc_Hints := tc_Hints c\<rparr> = c"
  using assms by (auto simp: with_links_def hub_config_of_def split: list.splits)

text \<open>What the flags of the hub-only mode mean. Over the settings of the file or of the flags, a
  configuration results exactly if \<open>-vk-link\<close> has a link in it, or else all three stub flags are set,
  or else no stub flag is set and the file has a link in mode \<open>vk_link\<close>; \<open>-vk-link\<close> wins over the stub
  flags and over the file's link. The hub then has as its hints the links of \<open>-vk-link\<close> in their
  order, else the file's link, and every other setting is the file's or the flags' unchanged; the
  provider and the protector are set, so the tunnel never rejects it for their lack.\<close>

theorem build_config_exact:
  assumes "base_config frac files a = Inr c0"
  shows "(\<not> is_err (buildConfig frac files routed stub a) \<longleftrightarrow>
       (if ba_vkLink a \<noteq> [] then splitLinks (ba_vkLink a) \<noteq> []
        else if ba_stubUser a = [] \<and> ba_stubPass a = [] \<and> ba_stubServer a = []
        then tc_Hint c0 \<noteq> [] \<and> tc_Mode c0 = ModeVKLink
        else ba_stubUser a \<noteq> [] \<and> ba_stubPass a \<noteq> [] \<and> ba_stubServer a \<noteq> [])) \<and>
    (\<forall>c. buildConfig frac files routed stub a = Inr c \<longrightarrow>
       tc_Provider c = Some (if ba_vkLink a = [] \<and> ba_stubUser a \<noteq> []
                             then stub (ba_stubUser a) (ba_stubPass a) (ba_stubServer a) else routed) \<and>
       hc_Hints (hub_config_of c) =
         (if ba_vkLink a \<noteq> [] then splitLinks (ba_vkLink a) else if tc_Hint c0 = [] then [] else [tc_Hint c0]) \<and>
       tc_Mode c = (if ba_vkLink a \<noteq> [] then ModeVKLink else if tc_Mode c0 = [] then ModeStub else tc_Mode c0) \<and>
       c\<lparr>tc_Provider := tc_Provider c0, tc_Mode := tc_Mode c0, tc_Hint := tc_Hint c0, tc_Hints := tc_Hints c0\<rparr> = c0 \<and>
       Validate shpErr c \<noteq> Some (invalid_config ''Provider is required''))"
proof -
  note b = base_config_plain [OF assms]
  have bc: "buildConfig frac files routed stub a = select_provider routed stub a c0" by (simp add: buildConfig_def assms)
  have v: "Validate shpErr c \<noteq> Some (invalid_config ''Provider is required'')" if "tc_Provider c \<noteq> None" for c
    using that by (auto simp: Validate_def invalid_config_def)
  show ?thesis
  proof (cases "ba_vkLink a = []")
    case True
    then show ?thesis
      using b v unfolding bc select_provider_def
      by (auto simp: hub_config_of_def ModeVKLink_def ModeStub_def noProvider_def)
  next
    case False
    let ?c = "c0\<lparr>tc_Provider := Some routed, tc_Mode := ModeVKLink\<rparr>"
    have e: "buildConfig frac files routed stub a = with_links (splitLinks (ba_vkLink a)) ?c"
      using False unfolding bc select_provider_def by simp
    have ok: "\<not> is_err (with_links ls ?c) \<longleftrightarrow> ls \<noteq> []" for ls by (auto simp: with_links_def split: list.splits)
    have r: "hc_Hints (hub_config_of c) = splitLinks (ba_vkLink a)" "tc_Provider c = Some routed" "tc_Mode c = ModeVKLink"
      "c\<lparr>tc_Provider := tc_Provider c0, tc_Mode := tc_Mode c0, tc_Hint := tc_Hint c0, tc_Hints := tc_Hints c0\<rparr> = c0"
      if "with_links (splitLinks (ba_vkLink a)) ?c = Inr c" for c
    proof -
      from with_links_Inr [OF that] splitLinks_not_Nil b(1)
      have h: "hc_Hints (hub_config_of c) = splitLinks (ba_vkLink a)" "c\<lparr>tc_Hint := tc_Hint c0, tc_Hints := tc_Hints c0\<rparr> = ?c" by auto
      show "hc_Hints (hub_config_of c) = splitLinks (ba_vkLink a)" by (rule h)
      have "tc_Provider (c\<lparr>tc_Hint := tc_Hint c0, tc_Hints := tc_Hints c0\<rparr>) = Some routed"
        "tc_Mode (c\<lparr>tc_Hint := tc_Hint c0, tc_Hints := tc_Hints c0\<rparr>) = ModeVKLink" unfolding h(2) by simp_all
      then show "tc_Provider c = Some routed" "tc_Mode c = ModeVKLink" by simp_all
      have "(c\<lparr>tc_Hint := tc_Hint c0, tc_Hints := tc_Hints c0\<rparr>)\<lparr>tc_Provider := tc_Provider c0, tc_Mode := tc_Mode c0\<rparr> = c0"
        unfolding h(2) by simp
      then show "c\<lparr>tc_Provider := tc_Provider c0, tc_Mode := tc_Mode c0, tc_Hint := tc_Hint c0, tc_Hints := tc_Hints c0\<rparr> = c0"
        by (cases c) simp
    qed
    show ?thesis unfolding e using False ok [of "splitLinks (ba_vkLink a)"] r v by auto
  qed
qed

definition demo_args :: build_args where
  "demo_args = \<lparr>ba_configPath = [], ba_peer = ''vpn:56000'', ba_listen = ''127.0.0.1:9000'', ba_streams = 24,
     ba_peerType = ''proxy_v2'', ba_watchdog = 0, ba_udp = False, ba_vkLink = ''a, b'', ba_stubUser = ''u'', ba_stubPass = [],
     ba_stubServer = []\<rparr>"

theorem build_config_exact_witness:
  "\<not> is_err (buildConfig (\<lambda>_ _ _. 0) (\<lambda>_. Inl (errors_New [])) (\<lambda>_ _. Inr zero_credentials) (\<lambda>_ _ _ _ _. Inr zero_credentials) demo_args)"
proof -
  have "splitLinks ''a, b'' = [''a'', ''b'']" by code_simp
  moreover obtain c0 where "base_config (\<lambda>_ _ _. 0) (\<lambda>_. Inl (errors_New [])) demo_args = Inr c0"
    by (simp add: base_config_def demo_args_def)
  note build_config_exact [OF this, of "\<lambda>_ _. Inr zero_credentials" "\<lambda>_ _ _ _ _. Inr zero_credentials"]
  ultimately show ?thesis by (simp add: demo_args_def)
qed

section \<open>Many names\<close>

text \<open>What each name would do on its own, one after the other.\<close>

fun revoke_each :: "admin_server \<Rightarrow> (string \<times> admin_io) list \<Rightarrow> admin_world \<Rightarrow> go_error option list \<times> admin_world" where
  "revoke_each s [] w = ([], w)"
| "revoke_each s ((name, io) # ns) w =
     (case Revoke io s name w of (e, w1) \<Rightarrow> (case revoke_each s ns w1 of (es, w2) \<Rightarrow> (e # es, w2)))"

lemma revoke_loop_each:
  "revoke_loop s ns first w =
     (case revoke_each s ns w of (es, w') \<Rightarrow> ((case first of Some e \<Rightarrow> Some e | None \<Rightarrow> Option.bind (find (\<lambda>e. e \<noteq> None) es) id), w'))"
  by (induction ns arbitrary: first w) (auto split: prod.splits option.splits)

end
