(* ===== verification/Quick_Conf.thy ===== *)
theory Quick_Conf
  imports Cli_Config
begin

text \<open>
  The wg-quick file that \<open>provision-url -print-conf\<close> prints, read by the tool's own parser: the sections
  of the parsed file are those of the profile, so \<open>connect\<close> configures the same WireGuard device from
  the file as \<open>connect-url\<close> does from the URL.
\<close>

section \<open>Lists of values\<close>

text \<open>Tokens of a list: no separators and no blanks.\<close>

definition token_ok :: "string \<Rightarrow> bool" where
  "token_ok t \<longleftrightarrow> t \<noteq> [] \<and> (\<forall>c \<in> set t. \<not> is_space c \<and> c \<notin> set '',;'')"

lemma token_sep: "token_ok t \<Longrightarrow> c \<in> set t \<Longrightarrow> \<not> list_sep c"
  by (auto simp: token_ok_def list_sep_def is_space_def newline_def)

lemma token_trim: "token_ok t \<Longrightarrow> trim_space t = t"
  by (rule trim_space_id) (auto simp: token_ok_def)

lemma splitListField_join: "\<forall>t \<in> set ts. token_ok t \<Longrightarrow> splitListField (str_join '', '' ts) = ts"
proof -
  assume ok: "\<forall>t \<in> set ts. token_ok t"
  have "fields_func list_sep (str_join '', '' ts) = ts"
  proof (rule fields_join)
    show "\<forall>x \<in> set ts. x \<noteq> [] \<and> (\<forall>c \<in> set x. \<not> list_sep c)"
    proof (intro ballI conjI)
      fix x assume "x \<in> set ts"
      with ok have x: "token_ok x" by blast
      then show "x \<noteq> []" by (simp add: token_ok_def)
      show "\<not> list_sep c" if "c \<in> set x" for c using x that by (rule token_sep)
    qed
  qed (simp_all add: list_sep_def)
  moreover have "map trim_space ts = ts" using ok token_trim by (simp add: map_idI)
  moreover have "filter (\<lambda>t. t \<noteq> []) ts = ts" using ok by (simp add: token_ok_def filter_id_conv)
  ultimately show ?thesis by (simp add: splitListField_def)
qed

lemma plain_not: "c \<in> set hex_digits \<or> digit_val c \<noteq> None \<or> c = CHR '':'' \<or> c = CHR ''.'' \<or> c = CHR ''/'' \<Longrightarrow>
  \<not> is_space c \<and> c \<notin> set '',;''"
  by (auto simp: hex_digits_def is_space_def digit_val_def)

lemma show_prefix_token: "prefix_ok p \<Longrightarrow> token_ok (show_prefix p)"
  unfolding token_ok_def using show_prefix_chars [of p] plain_not
  by (auto simp: show_prefix_def prefix_ok_def prefix_valid_def)

text \<open>Resolvers without an IPv6 zone.\<close>

definition no_zone :: "addr \<Rightarrow> bool" where
  "no_zone a \<longleftrightarrow> (case a of AddrZero \<Rightarrow> False | V4 w \<Rightarrow> True | V6 w z \<Rightarrow> z = [])"

lemma show_addr_token:
  assumes "no_zone a"
  shows "token_ok (show_addr a)"
proof -
  have p: "prefix_ok (prefix_from a (bit_len a))"
    using assms by (cases a) (auto simp: no_zone_def prefix_ok_def prefix_from_def prefix_valid_def)
  have "show_prefix (prefix_from a (bit_len a)) = show_addr a @ ''/'' @ show_int (bit_len a)"
    using assms by (cases a) (auto simp: no_zone_def show_prefix_def prefix_from_def prefix_valid_def)
  with show_prefix_token [OF p] have chars: "\<forall>c \<in> set (show_addr a). \<not> is_space c \<and> c \<notin> set '',;''" unfolding token_ok_def by simp
  have "parse_addr [] = None" by code_simp
  moreover have "a \<noteq> AddrZero" using assms by (auto simp: no_zone_def)
  ultimately have "show_addr a \<noteq> []" using parse_addr_show_addr [of a] by (metis option.distinct(1))
  then show ?thesis unfolding token_ok_def using chars by blast
qed

lemma map_res_show:
  assumes "\<And>x. x \<in> set xs \<Longrightarrow> f (g x) = Inr x"
  shows "map_res f (map g xs) = Inr xs"
  using assms by (induction xs) auto

lemma parsePrefixList_show: "\<forall>p \<in> set ps. prefix_ok p \<Longrightarrow> parsePrefixList (str_join '', '' (map show_prefix ps)) = Inr ps"
  unfolding parsePrefixList_def
  by (subst splitListField_join) (auto simp: show_prefix_token parse_cidr_def parse_prefix_show_prefix intro!: map_res_show)

lemma parseAddrList_show: "\<forall>a \<in> set as. no_zone a \<Longrightarrow> parseAddrList (str_join '', '' (map show_addr as)) = Inr as"
  unfolding parseAddrList_def
  by (subst splitListField_join) (auto simp: show_addr_token parse_addr_show_addr no_zone_def intro!: map_res_show split: addr.splits)

section \<open>Lines\<close>

text \<open>A value that a line \<open>key = value\<close> carries unchanged.\<close>

definition value_ok :: "string \<Rightarrow> bool" where
  "value_ok v \<longleftrightarrow> v \<noteq> [] \<and> \<not> is_space (hd v) \<and> \<not> is_space (last v) \<and> CHR '';'' \<notin> set v"

definition key_ok :: "string \<Rightarrow> bool" where
  "key_ok k \<longleftrightarrow> k \<noteq> [] \<and> list_all (\<lambda>c. \<not> is_space c \<and> c \<notin> set ''=;#['') k"

lemma value_join: "\<forall>t \<in> set ts. token_ok t \<Longrightarrow> ts \<noteq> [] \<Longrightarrow> value_ok (str_join '', '' ts)"
proof (induction ts)
  case (Cons t ts)
  have t: "t \<noteq> []" "\<not> is_space (hd t)" "\<not> is_space (last t)" "CHR '';'' \<notin> set t" using Cons.prems by (auto simp: token_ok_def)
  show ?case
  proof (cases ts)
    case Nil
    with t show ?thesis by (simp add: value_ok_def)
  next
    case (Cons u us)
    with Cons.IH Cons.prems(1) have v: "value_ok (str_join '', '' ts)" by simp
    have "str_join '', '' (t # ts) = t @ '', '' @ str_join '', '' ts" using Cons by simp
    with t v show ?thesis by (simp add: value_ok_def hd_append last_append)
  qed
qed simp

lemma key_value_line:
  assumes k: "key_ok k" and v: "value_ok v"
  shows "key_value (cut_comment (k @ '' = '' @ v)) = Some (k, v)"
proof -
  have chars: "\<forall>c \<in> set k. \<not> is_space c \<and> c \<noteq> CHR ''='' \<and> c \<noteq> CHR '';''" using k by (auto simp: key_ok_def list_all_iff)
  have "CHR '';'' \<notin> set (k @ '' = '' @ v)" using chars v by (auto simp: value_ok_def)
  then have c: "cut_comment (k @ '' = '' @ v) = k @ '' = '' @ v"
    unfolding cut_comment_def by (metis index_byte_None option.simps(4))
  have "CHR ''='' \<notin> set (k @ '' '')" using chars by auto
  then have i: "index_byte ((k @ '' '') @ CHR ''='' # ('' '' @ v)) (CHR ''='') = Some (length (k @ '' ''))" by (rule index_byte_append)
  have "trim_space (k @ '' '') = k"
    using trim_space_core [of "[]" "'' ''" k] chars k by (simp add: key_ok_def is_space_def)
  moreover have "trim_space ('' '' @ v) = v" using trim_space_core [of "'' ''" "[]" v] v by (simp add: value_ok_def is_space_def)
  ultimately show ?thesis unfolding c key_value_def using i by simp
qed

text \<open>A line of a section.\<close>

lemma section_line:
  assumes k: "key_ok k" and v: "value_ok v" and cur: "cur \<noteq> SectionNone"
  shows "parse_line frac n (k @ '' = '' @ v) cur s =
    (cur, at_line n (if cur = SectionInterface then setIface k v s else setPeer frac k v s))"
proof -
  let ?l = "k @ '' = '' @ v"
  obtain c k' where ck: "k = c # k'" "\<not> is_space c" "c \<noteq> CHR ''#''" "c \<noteq> CHR '';''" "c \<noteq> CHR ''[''"
    using k by (cases k) (auto simp: key_ok_def)
  have t: "trim_space ?l = ?l"
    using trim_space_core [of "[]" "[]" ?l] ck v by (simp add: value_ok_def)
  have "\<not> hasPrefixFold ?l MetaPrefix"
  proof -
    have "char_of (n + 32) \<noteq> CHR ''#''" if "65 \<le> n" "n \<le> 90" for n :: nat
    proof
      assume "char_of (n + 32) = CHR ''#''"
      then have "of_char (char_of (n + 32) :: char) = (of_char (CHR ''#'') :: nat)" by simp
      moreover have "of_char (char_of (n + 32) :: char) = n + 32" using that by simp
      ultimately show False using that by simp
    qed
    then have "char_lower c \<noteq> CHR ''#''" using ck(3) by (auto simp: char_lower_def Let_def split: if_splits)
    then show ?thesis using ck(1) by (simp add: hasPrefixFold_def MetaPrefix_def equal_fold_def to_lower_def char_lower_def)
  qed
  moreover have "\<not> has_prefix ?l ''#''" "\<not> has_prefix ?l '';''" "\<not> has_prefix ?l ''[''" using ck by simp_all
  moreover have "cut_comment ?l \<noteq> []"
  proof
    assume "cut_comment ?l = []"
    then have "key_value [] = Some (k, v)" using key_value_line [OF k v] by simp
    moreover have "key_value [] = None" by code_simp
    ultimately show False by simp
  qed
  ultimately show ?thesis
    using t cur ck key_value_line [OF k v]
    by (cases cur) (simp_all add: parse_line_def ini_line_def Let_def)
qed

text \<open>A piece of a file that parses, whatever follows it.\<close>

definition reads :: "(nat \<Rightarrow> nat \<Rightarrow> nat \<Rightarrow> nat) \<Rightarrow> string list \<Rightarrow> ini_section \<times> settings \<Rightarrow> ini_section \<times> settings \<Rightarrow> bool" where
  "reads frac ls a b \<longleftrightarrow>
     (\<forall>n rest. parse_lines frac n (ls @ rest) (fst a) (snd a) = parse_lines frac (n + length ls) rest (fst b) (snd b))"

lemma reads_append: "reads frac xs a b \<Longrightarrow> reads frac ys b c \<Longrightarrow> reads frac (xs @ ys) a c"
  by (simp add: reads_def add.assoc)

lemma reads_Nil: "reads frac [] a a"
  by (simp add: reads_def)

lemma reads_if: "(c \<Longrightarrow> reads frac ls a b) \<Longrightarrow> (\<not> c \<Longrightarrow> a = b) \<Longrightarrow> reads frac (if c then ls else []) a b"
  by (cases c) (simp_all add: reads_Nil)

lemma reads_one: "(\<And>n. parse_line frac n l cur s = (cur', s', None)) \<Longrightarrow> reads frac [l] (cur, s) (cur', s')"
  by (simp add: reads_def)

lemma reads_iface:
  assumes "key_ok k" and "value_ok v" and "setIface k v s = (s', None)"
  shows "reads frac [k @ '' = '' @ v] (SectionInterface, s) (SectionInterface, s')"
  using section_line [OF assms(1,2), of SectionInterface] assms(3) by (intro reads_one) (simp add: at_line_def)

lemma reads_peer:
  assumes "key_ok k" and "value_ok v" and "setPeer frac k v s = (s', None)"
  shows "reads frac [k @ '' = '' @ v] (SectionPeer, s) (SectionPeer, s')"
  using section_line [OF assms(1,2), of SectionPeer] assms(3) by (intro reads_one) (simp add: at_line_def)

section \<open>The printed file\<close>

text \<open>What a profile must have to be printed on lines: no line breaks in the label, and keys and an
  endpoint that a line carries unchanged.\<close>

definition printable :: "profile \<Rightarrow> bool" where
  "printable p \<longleftrightarrow> profile_wf p \<and> value_ok (pf_ClientPrivateKey p) \<and> value_ok (pf_ServerPublicKey p) \<and>
     (pf_PresharedKey p \<noteq> [] \<longrightarrow> value_ok (pf_PresharedKey p)) \<and> value_ok (pf_Endpoint p) \<and>
     (\<forall>a \<in> set (pf_DNS p). no_zone a) \<and> (\<forall>l \<in> set (quick_lines p). file_line l)"

definition quick_iface :: "profile \<Rightarrow> iface_section" where
  "quick_iface p = \<lparr>if_PrivateKey = pf_ClientPrivateKey p, if_Address = [pf_Address p], if_DNS = pf_DNS p,
     if_MTU = max 0 (pf_MTU p), if_ListenPort = 0\<rparr>"

definition quick_peer :: "profile \<Rightarrow> peer_section" where
  "quick_peer p = \<lparr>ps_PublicKey = pf_ServerPublicKey p, ps_PresharedKey = pf_PresharedKey p, ps_Endpoint = pf_Endpoint p,
     ps_AllowedIPs = pf_AllowedIPs p, ps_PersistentKeepalive = max 0 (whole_seconds (pf_PersistentKeepalive p))\<rparr>"

lemma quick_keys:
  "key_ok ''PrivateKey''" "key_ok ''Address''" "key_ok ''DNS''" "key_ok ''MTU''" "key_ok ''PublicKey''" "key_ok ''PresharedKey''"
  "key_ok ''Endpoint''" "key_ok ''AllowedIPs''" "key_ok ''PersistentKeepalive''"
  by code_simp+

lemma quick_lower:
  "to_lower ''PrivateKey'' = ''privatekey''" "to_lower ''Address'' = ''address''" "to_lower ''DNS'' = ''dns''" "to_lower ''MTU'' = ''mtu''"
  "to_lower ''PublicKey'' = ''publickey''" "to_lower ''PresharedKey'' = ''presharedkey''" "to_lower ''Endpoint'' = ''endpoint''"
  "to_lower ''AllowedIPs'' = ''allowedips''" "to_lower ''PersistentKeepalive'' = ''persistentkeepalive''"
  by code_simp+

lemma show_int_value: "0 \<le> n \<Longrightarrow> value_ok (show_int n)"
proof -
  assume n: "0 \<le> n"
  have d: "digit_val c \<noteq> None" if "c \<in> set (show_int n)" for c using that n show_nat_chars [of c "nat n"] by (simp add: show_int_def)
  have ne: "show_int n \<noteq> []" by (rule show_int_not_Nil)
  show ?thesis
    unfolding value_ok_def
    using ne digit_not_space [OF d [OF hd_in_set [OF ne]]] digit_not_space [OF d [OF last_in_set [OF ne]]] d [of "CHR '';''"] by auto
qed

lemma int_field_show: "0 \<le> n \<Longrightarrow> n \<le> hi \<Longrightarrow> int64_ok n \<Longrightarrow> int_field msg hi (show_int n) = Inr n"
  by (simp add: int_field_def atoi_show_int)

lemma whole_seconds_nonpos: "d \<le> 0 \<Longrightarrow> whole_seconds d \<le> 0"
  by (auto simp: whole_seconds_def go_div_def signed_divide_int_def second_def sgn_if mult_nonpos_nonneg)

text \<open>The two headers, the comment in front and the blank lines.\<close>

lemma reads_headers:
  "reads frac [''[Interface]''] (cur, s) (SectionInterface, s)"
  "reads frac [''[Peer]''] (cur, s) (SectionPeer, s\<lparr>WGPeers := WGPeers s @ [zero_peer]\<rparr>)"
  "reads frac [[]] (cur, s) (cur, s)"
proof -
  have h: "trim_space ''[Interface]'' = ''[Interface]''" "trim_space ''[Peer]'' = ''[Peer]''"
    "\<not> hasPrefixFold ''[Interface]'' MetaPrefix" "\<not> hasPrefixFold ''[Peer]'' MetaPrefix"
    "to_lower (trim_space (butlast (tl ''[Interface]''))) = ''interface''" "to_lower (trim_space (butlast (tl ''[Peer]''))) = ''peer''"
    "has_suffix ''[Interface]'' '']''" "has_suffix ''[Peer]'' '']''"
    by code_simp+
  show "reads frac [''[Interface]''] (cur, s) (SectionInterface, s)"
    by (intro reads_one) (unfold parse_line_def header_line_def Let_def h, simp add: h)
  show "reads frac [''[Peer]''] (cur, s) (SectionPeer, s\<lparr>WGPeers := WGPeers s @ [zero_peer]\<rparr>)"
    by (intro reads_one) (unfold parse_line_def header_line_def Let_def h, simp add: h)
  show "reads frac [[]] (cur, s) (cur, s)" by (intro reads_one) (simp add: parse_line_def)
qed

lemma reads_name: "reads frac [''# wgturn-name = '' @ label] (cur, s) (cur, s)"
proof (intro reads_one parse_line_comment)
  let ?l = "''# wgturn-name = '' @ label" and ?t = "trim_space (''# wgturn-name = '' @ label)"
  obtain v w where vw: "?l = v @ ?t @ w" "list_all is_space v" "list_all is_space w" using trim_space_split by blast
  have "v = []" using vw(1,2) by (cases v) (auto simp: is_space_def)
  with vw(1) have l: "?l = ?t @ w" by simp
  have ne: "?t \<noteq> []"
  proof
    assume "?t = []"
    with l have e: "?l = w" by simp
    have "CHR ''#'' \<in> set ?l" by simp
    then have "CHR ''#'' \<in> set w" unfolding e .
    with vw(3) have "is_space (CHR ''#'')" unfolding list_all_iff by blast
    then show False by (simp add: is_space_def)
  qed
  then have hash: "has_prefix ?t ''#''" using l by (cases ?t) auto
  have "\<not> hasPrefixFold ?t MetaPrefix"
  proof
    assume "hasPrefixFold ?t MetaPrefix"
    moreover have "length MetaPrefix = 6" by (simp add: MetaPrefix_def)
    ultimately have m: "6 \<le> length ?t" "equal_fold (take 6 ?t) MetaPrefix" unfolding hasPrefixFold_def by (auto split: if_splits)
    have "take 6 ?l = take 6 (?t @ w)" using l by (rule arg_cong)
    with m(1) have "take 6 ?t = take 6 ?l" by simp
    moreover have "take 6 ?l = ''# wgtu''" by simp
    ultimately have "take 6 ?t = ''# wgtu''" by (rule trans)
    with m(2) have "equal_fold ''# wgtu'' MetaPrefix" by (simp only:)
    moreover have "\<not> equal_fold ''# wgtu'' MetaPrefix" by code_simp
    ultimately show False by simp
  qed
  with hash show "is_comment ?l" by (simp add: is_comment_def is_meta_def)
qed

text \<open>The lines of the two sections, each on its own.\<close>

definition iface_state :: "profile \<Rightarrow> settings" where
  "iface_state p = zero_settings\<lparr>Iface := quick_iface p\<rparr>"

lemma upd_res_Inr [simp]: "upd_res (Inr v) f s = (f v, None)" "wrap_res pre (Inr v) = Inr v"
  by (simp_all add: upd_res_def wrap_res_def)

lemma quick_iface_reads:
  assumes "printable p"
  shows "reads frac
    ([''PrivateKey = '' @ pf_ClientPrivateKey p, ''Address = '' @ show_prefix (pf_Address p)] @
     (if length (pf_DNS p) > 0 then [''DNS = '' @ str_join '', '' (map show_addr (pf_DNS p))] else []) @
     (if pf_MTU p > 0 then [''MTU = '' @ show_int (pf_MTU p)] else []))
    (SectionInterface, zero_settings) (SectionInterface, iface_state p)"
proof -
  let ?s = "\<lambda>i. zero_settings\<lparr>Iface := i\<rparr>"
  let ?i0 = "Iface zero_settings"
  let ?i1 = "?i0\<lparr>if_PrivateKey := pf_ClientPrivateKey p\<rparr>"
  let ?i2 = "?i1\<lparr>if_Address := [pf_Address p]\<rparr>"
  let ?i3 = "?i2\<lparr>if_DNS := pf_DNS p\<rparr>"
  have wf: "profile_wf p" "value_ok (pf_ClientPrivateKey p)" "\<forall>a \<in> set (pf_DNS p). no_zone a" using assms by (simp_all add: printable_def)
  have addr: "prefix_ok (pf_Address p)" "int64_ok (pf_MTU p)" using wf(1) by (simp_all add: profile_wf_def)
  have r1: "reads frac [''PrivateKey = '' @ pf_ClientPrivateKey p] (SectionInterface, zero_settings) (SectionInterface, ?s ?i1)"
    using reads_iface [OF quick_keys(1) wf(2), of zero_settings "?s ?i1" frac] by (simp add: setIface_def quick_lower)
  have v2: "value_ok (show_prefix (pf_Address p))" using value_join [of "[show_prefix (pf_Address p)]"] show_prefix_token [OF addr(1)] by simp
  have p2: "parsePrefixList (show_prefix (pf_Address p)) = Inr [pf_Address p]" using parsePrefixList_show [of "[pf_Address p]"] addr by simp
  have r2: "reads frac [''Address = '' @ show_prefix (pf_Address p)] (SectionInterface, ?s ?i1) (SectionInterface, ?s ?i2)"
    using reads_iface [OF quick_keys(2) v2, of "?s ?i1" "?s ?i2" frac] by (simp add: setIface_def quick_lower p2)
  have r3: "reads frac (if length (pf_DNS p) > 0 then [''DNS = '' @ str_join '', '' (map show_addr (pf_DNS p))] else [])
    (SectionInterface, ?s ?i2) (SectionInterface, ?s ?i3)"
  proof (rule reads_if)
    assume "length (pf_DNS p) > 0"
    then have v: "value_ok (str_join '', '' (map show_addr (pf_DNS p)))" using wf(3) show_addr_token by (intro value_join) auto
    show "reads frac [''DNS = '' @ str_join '', '' (map show_addr (pf_DNS p))] (SectionInterface, ?s ?i2) (SectionInterface, ?s ?i3)"
      using reads_iface [OF quick_keys(3) v, of "?s ?i2" "?s ?i3" frac] by (simp add: setIface_def quick_lower parseAddrList_show [OF wf(3)])
  qed (simp add: zero_settings_def zero_iface_def)
  have r4: "reads frac (if pf_MTU p > 0 then [''MTU = '' @ show_int (pf_MTU p)] else [])
    (SectionInterface, ?s ?i3) (SectionInterface, iface_state p)"
  proof (rule reads_if)
    assume m: "pf_MTU p > 0"
    then have f: "int_field ''MTU: invalid integer '' max_int (show_int (pf_MTU p)) = Inr (pf_MTU p)"
      using addr(2) by (intro int_field_show) (simp_all add: max_int_def int64_ok_def)
    have v: "value_ok (show_int (pf_MTU p))" using m by (intro show_int_value) simp
    show "reads frac [''MTU = '' @ show_int (pf_MTU p)] (SectionInterface, ?s ?i3) (SectionInterface, iface_state p)"
      using reads_iface [OF quick_keys(4) v, of "?s ?i3" "iface_state p" frac] m
      by (simp add: setIface_def quick_lower f iface_state_def quick_iface_def zero_settings_def zero_iface_def)
  qed (simp add: iface_state_def quick_iface_def zero_settings_def zero_iface_def)
  show ?thesis using reads_append [OF r1 reads_append [OF r2 reads_append [OF r3 r4]]] by simp
qed

lemma setPeer_last:
  assumes "WGPeers s = [q]"
  shows "to_lower k = ''publickey'' \<Longrightarrow> setPeer frac k v s = (s\<lparr>WGPeers := [q\<lparr>ps_PublicKey := v\<rparr>]\<rparr>, None)"
    and "to_lower k = ''presharedkey'' \<Longrightarrow> setPeer frac k v s = (s\<lparr>WGPeers := [q\<lparr>ps_PresharedKey := v\<rparr>]\<rparr>, None)"
    and "to_lower k = ''endpoint'' \<Longrightarrow> setPeer frac k v s = (s\<lparr>WGPeers := [q\<lparr>ps_Endpoint := v\<rparr>]\<rparr>, None)"
    and "to_lower k = ''allowedips'' \<Longrightarrow> parsePrefixList v = Inr ps \<Longrightarrow>
      setPeer frac k v s = (s\<lparr>WGPeers := [q\<lparr>ps_AllowedIPs := ps\<rparr>]\<rparr>, None)"
    and "to_lower k = ''persistentkeepalive'' \<Longrightarrow> seconds_field frac ''PersistentKeepalive: invalid value '' v = Inr d \<Longrightarrow>
      setPeer frac k v s = (s\<lparr>WGPeers := [q\<lparr>ps_PersistentKeepalive := d\<rparr>]\<rparr>, None)"
  using assms by (simp_all add: setPeer_def)

lemma quick_peer_reads:
  assumes "printable p" and "WGPeers s = [zero_peer]"
  shows "reads frac
    ([''PublicKey = '' @ pf_ServerPublicKey p] @
     (if pf_PresharedKey p \<noteq> [] then [''PresharedKey = '' @ pf_PresharedKey p] else []) @
     [''Endpoint = '' @ pf_Endpoint p] @
     (if length (pf_AllowedIPs p) > 0 then [''AllowedIPs = '' @ str_join '', '' (map show_prefix (pf_AllowedIPs p))] else []) @
     (if pf_PersistentKeepalive p > 0
      then [''PersistentKeepalive = '' @ show_int (go_div (pf_PersistentKeepalive p) second)] else []))
    (SectionPeer, s) (SectionPeer, s\<lparr>WGPeers := [quick_peer p]\<rparr>)"
proof -
  let ?s = "\<lambda>q. s\<lparr>WGPeers := [q]\<rparr>"
  let ?q1 = "zero_peer\<lparr>ps_PublicKey := pf_ServerPublicKey p\<rparr>"
  let ?q2 = "?q1\<lparr>ps_PresharedKey := pf_PresharedKey p\<rparr>"
  let ?q3 = "?q2\<lparr>ps_Endpoint := pf_Endpoint p\<rparr>"
  let ?q4 = "?q3\<lparr>ps_AllowedIPs := pf_AllowedIPs p\<rparr>"
  have wf: "profile_wf p" "value_ok (pf_ServerPublicKey p)" "value_ok (pf_Endpoint p)" "pf_PresharedKey p \<noteq> [] \<Longrightarrow> value_ok (pf_PresharedKey p)"
    using assms(1) by (simp_all add: printable_def)
  have allowed: "\<forall>a \<in> set (pf_AllowedIPs p). prefix_ok a" and ka: "int64_ok (pf_PersistentKeepalive p)" using wf(1) by (simp_all add: profile_wf_def)
  have r1: "reads frac [''PublicKey = '' @ pf_ServerPublicKey p] (SectionPeer, s) (SectionPeer, ?s ?q1)"
    using reads_peer [OF quick_keys(5) wf(2) setPeer_last(1) [OF assms(2) quick_lower(5)]] by simp
  have r2: "reads frac (if pf_PresharedKey p \<noteq> [] then [''PresharedKey = '' @ pf_PresharedKey p] else [])
    (SectionPeer, ?s ?q1) (SectionPeer, ?s ?q2)"
  proof (rule reads_if)
    assume "pf_PresharedKey p \<noteq> []"
    then show "reads frac [''PresharedKey = '' @ pf_PresharedKey p] (SectionPeer, ?s ?q1) (SectionPeer, ?s ?q2)"
      using reads_peer [OF quick_keys(6) wf(4) setPeer_last(2) [of "?s ?q1", OF _ quick_lower(6)]] by simp
  qed (simp add: zero_peer_def)
  have r3: "reads frac [''Endpoint = '' @ pf_Endpoint p] (SectionPeer, ?s ?q2) (SectionPeer, ?s ?q3)"
    using reads_peer [OF quick_keys(7) wf(3) setPeer_last(3) [of "?s ?q2", OF _ quick_lower(7)]] by simp
  have r4: "reads frac (if length (pf_AllowedIPs p) > 0 then [''AllowedIPs = '' @ str_join '', '' (map show_prefix (pf_AllowedIPs p))] else [])
    (SectionPeer, ?s ?q3) (SectionPeer, ?s ?q4)"
  proof (rule reads_if)
    assume "length (pf_AllowedIPs p) > 0"
    then have v: "value_ok (str_join '', '' (map show_prefix (pf_AllowedIPs p)))" using allowed show_prefix_token by (intro value_join) auto
    show "reads frac [''AllowedIPs = '' @ str_join '', '' (map show_prefix (pf_AllowedIPs p))] (SectionPeer, ?s ?q3) (SectionPeer, ?s ?q4)"
      using reads_peer [OF quick_keys(8) v setPeer_last(4) [of "?s ?q3", OF _ quick_lower(8) parsePrefixList_show [OF allowed]]] by simp
  qed (simp add: zero_peer_def)
  have r5: "reads frac (if pf_PersistentKeepalive p > 0
      then [''PersistentKeepalive = '' @ show_int (go_div (pf_PersistentKeepalive p) second)] else [])
    (SectionPeer, ?s ?q4) (SectionPeer, ?s (quick_peer p))"
  proof (rule reads_if)
    let ?n = "go_div (pf_PersistentKeepalive p) second"
    assume pos: "pf_PersistentKeepalive p > 0"
    then have n: "0 \<le> ?n" "int64_ok ?n" "int64_ok (?n * second)" using ka go_div_bounds [of "pf_PersistentKeepalive p"] 
      by (auto simp: go_div_nonneg pos_imp_zdiv_nonneg_iff second_def)
    have f: "seconds_field frac ''PersistentKeepalive: invalid value '' (show_int ?n) = Inr (?n * second)"
      using seconds_field_bare [OF n(1,2)] n(3) by (simp add: int64_wrap_id)
    have "?q4\<lparr>ps_PersistentKeepalive := ?n * second\<rparr> = quick_peer p"
      using n(1) by (simp add: quick_peer_def zero_peer_def whole_seconds_def second_def)
    then show "reads frac [''PersistentKeepalive = '' @ show_int ?n] (SectionPeer, ?s ?q4) (SectionPeer, ?s (quick_peer p))"
      using reads_peer [OF quick_keys(9) show_int_value [OF n(1)] setPeer_last(5) [of "?s ?q4", OF _ quick_lower(9) f]] by simp
  next
    assume "\<not> pf_PersistentKeepalive p > 0"
    then show "(SectionPeer, ?s ?q4) = (SectionPeer, ?s (quick_peer p))"
      using whole_seconds_nonpos [of "pf_PersistentKeepalive p"] by (simp add: quick_peer_def zero_peer_def)
  qed
  show ?thesis using reads_append [OF r1 reads_append [OF r2 reads_append [OF r3 reads_append [OF r4 r5]]]] by simp
qed

text \<open>The whole file.\<close>

definition quick_settings :: "profile \<Rightarrow> settings" where
  "quick_settings p = zero_settings\<lparr>Iface := quick_iface p, WGPeers := [quick_peer p]\<rparr>"

lemma quick_file_reads:
  assumes "printable p"
  shows "ParseString frac (formatWGQuickConf p) = (quick_settings p, None)"
proof -
  let ?s = "iface_state p"
  let ?s1 = "?s\<lparr>WGPeers := [zero_peer]\<rparr>"
  have "WGPeers ?s = []" by (simp add: iface_state_def zero_settings_def)
  then have hdr: "reads frac [''[Peer]''] (SectionInterface, ?s) (SectionPeer, ?s1)"
    using reads_headers(2) [of frac SectionInterface ?s] by simp
  have st: "?s1\<lparr>WGPeers := [quick_peer p]\<rparr> = quick_settings p" by (simp add: iface_state_def quick_settings_def)
  have "WGPeers ?s1 = [zero_peer]" by simp
  note peer = quick_peer_reads [OF assms this, of frac, unfolded st]
  note all = reads_append [OF reads_name reads_append [OF reads_headers(1) reads_append [OF quick_iface_reads [OF assms]
    reads_append [OF reads_headers(3) reads_append [OF hdr reads_append [OF peer reads_headers(3)]]]]]]
  have "reads frac (quick_lines p) (SectionNone, zero_settings) (SectionPeer, quick_settings p)"
    unfolding quick_lines_def using all [of "pf_Label p" SectionNone] by simp
  then have "parse_lines frac 0 (quick_lines p @ []) SectionNone zero_settings =
      parse_lines frac (0 + length (quick_lines p)) [] SectionPeer (quick_settings p)"
    unfolding reads_def fst_conv snd_conv by blast
  then have "parse_lines frac 0 (quick_lines p) SectionNone zero_settings = (quick_settings p, None)" by simp
  then show ?thesis
    using ParseString_unlines [of "quick_lines p" frac] assms by (simp add: formatWGQuickConf_def printable_def)
qed

text \<open>C40: The wg-quick file that \<open>provision-url -print-conf\<close> prints for a profile is read back by the tool's own
  parser: it has one interface and one peer section with the profile's keys, address, resolvers,
  allowed networks, endpoint, MTU and whole seconds of keepalive, and no metadata. Hence \<open>connect\<close>
  builds from the printed file the device configuration that \<open>connect-url\<close> builds from the URL, up to
  the endpoint, which only the file names. (An empty list of networks stands for the default route in
  the URL and for no route in the file, so the list is not empty here.)\<close>

theorem quick_conf_round_trip:
  assumes "printable p" and "pf_MTU p \<ge> 0" and "pf_PersistentKeepalive p \<ge> 0" and "pf_AllowedIPs p \<noteq> []"
  shows "ParseString frac (formatWGQuickConf p) = (quick_settings p, None) \<and>
    parseWGConfig frac (Inr (formatWGQuickConf p, None)) = Inr (quick_settings p) \<and>
    (\<exists>kc q. buildKernelConfig (quick_settings p) = Inr kc \<and> kc_Peers kc = [q] \<and> pc_Endpoint q = pf_Endpoint p \<and>
      kc\<lparr>kc_Peers := [q\<lparr>pc_Endpoint := []\<rparr>]\<rparr> =
        ToKernelConfig (p\<lparr>pf_PersistentKeepalive := whole_seconds (pf_PersistentKeepalive p)\<rparr>))"
proof -
  have r: "ParseString frac (formatWGQuickConf p) = (quick_settings p, None)" by (rule quick_file_reads [OF assms(1)])
  have keys: "pf_ClientPrivateKey p \<noteq> []" "pf_ServerPublicKey p \<noteq> []" using assms(1) by (auto simp: printable_def value_ok_def)
  let ?kc = "\<lparr>kc_PrivateKey = pf_ClientPrivateKey p, kc_Address = [pf_Address p], kc_ListenPort = 0, kc_MTU = pf_MTU p, kc_DNS = pf_DNS p,
    kc_Peers = [\<lparr>pc_PublicKey = pf_ServerPublicKey p, pc_PresharedKey = pf_PresharedKey p, pc_Endpoint = pf_Endpoint p,
      pc_AllowedIPs = pf_AllowedIPs p, pc_PersistentKeepalive = whole_seconds (pf_PersistentKeepalive p)\<rparr>]\<rparr>"
  have "buildKernelConfig (quick_settings p) = Inr ?kc"
    using keys assms(2) whole_seconds_nonneg [OF assms(3)]
    by (simp add: buildKernelConfig_def quick_settings_def quick_iface_def quick_peer_def)
  moreover have "?kc\<lparr>kc_Peers := [(hd (kc_Peers ?kc))\<lparr>pc_Endpoint := []\<rparr>]\<rparr> =
      ToKernelConfig (p\<lparr>pf_PersistentKeepalive := whole_seconds (pf_PersistentKeepalive p)\<rparr>)"
    using assms(4) by (simp add: ToKernelConfig_def)
  ultimately have "\<exists>kc q. buildKernelConfig (quick_settings p) = Inr kc \<and> kc_Peers kc = [q] \<and> pc_Endpoint q = pf_Endpoint p \<and>
      kc\<lparr>kc_Peers := [q\<lparr>pc_Endpoint := []\<rparr>]\<rparr> =
        ToKernelConfig (p\<lparr>pf_PersistentKeepalive := whole_seconds (pf_PersistentKeepalive p)\<rparr>)"
    by (intro exI [of _ ?kc] exI [of _ "hd (kc_Peers ?kc)"]) simp
  with r show ?thesis by (simp add: parseWGConfig_def ParseString_def)
qed

definition demo_printed :: profile where
  "demo_printed = \<lparr>pf_Label = ''phone'', pf_ServerPublicKey = ''BBBB='', pf_ClientPrivateKey = ''AAAA='', pf_PresharedKey = [],
     pf_Endpoint = ''1.2.3.4:56000'', pf_Address = prefix_from (V4 0x0A2A0007) 32, pf_AllowedIPs = [prefix_from (V4 0) 0],
     pf_DNS = [V4 0x01010101], pf_MTU = 1280, pf_PersistentKeepalive = 25 * second\<rparr>"

lemma demo_printed_lines:
  "quick_lines demo_printed =
     [''# wgturn-name = phone'', ''[Interface]'', ''PrivateKey = AAAA='', ''Address = 10.42.0.7/32'', ''DNS = 1.1.1.1'', ''MTU = 1280'',
      [], ''[Peer]'', ''PublicKey = BBBB='', ''Endpoint = 1.2.3.4:56000'', ''AllowedIPs = 0.0.0.0/0'', ''PersistentKeepalive = 25'', []]"
proof -
  have c: "char_of (49::nat) = CHR ''1''" "char_of (50::nat) = CHR ''2''" "char_of (56::nat) = CHR ''8''" "char_of (48::nat) = CHR ''0''"
    "char_of (53::nat) = CHR ''5''" "char_of (51::nat) = CHR ''3''" "char_of (52::nat) = CHR ''4''" "char_of (55::nat) = CHR ''7''"
    by code_simp+
  have n: "show_int 1280 = ''1280''" "show_int (go_div 25000000000 1000000000) = ''25''"
    by (simp_all add: show_int_def show_nat.simps go_div_def signed_divide_int_def digit_char_def c)
  have a: "show_prefix (prefix_from (V4 0x0A2A0007) 32) = ''10.42.0.7/32''" "show_prefix (prefix_from (V4 0) 0) = ''0.0.0.0/0''"
    "show4 0x01010101 = ''1.1.1.1''"
    by (simp_all add: show_prefix_def prefix_from_def prefix_valid_def show4_def octet_def show_int_def show_nat.simps digit_char_def c)
  show ?thesis unfolding quick_lines_def demo_printed_def by (simp add: n a second_def)
qed

lemma demo_printed_ok: "printable demo_printed"
proof -
  have "\<forall>l \<in> set (quick_lines demo_printed). file_line l"
    unfolding demo_printed_lines by (simp add: file_line_def line_ok_def newline_def maxTokenSize_def)
  moreover have "profile_wf demo_printed"
    by (simp add: demo_printed_def profile_wf_def prefix_ok_def prefix_from_def prefix_valid_def int64_ok_def second_def)
  moreover have "value_ok (pf_ClientPrivateKey demo_printed)" "value_ok (pf_ServerPublicKey demo_printed)"
    "value_ok (pf_Endpoint demo_printed)" "pf_PresharedKey demo_printed = []" "\<forall>a \<in> set (pf_DNS demo_printed). no_zone a"
    by code_simp+
  ultimately show ?thesis by (simp add: printable_def)
qed

theorem quick_conf_round_trip_witness:
  "ParseString (\<lambda>_ _ _. 0) (formatWGQuickConf demo_printed) = (quick_settings demo_printed, None) \<and>
   if_MTU (Iface (quick_settings demo_printed)) = 1280"
  using quick_conf_round_trip [of demo_printed "\<lambda>_ _ _. 0"] demo_printed_ok
  by (simp add: demo_printed_def quick_settings_def quick_iface_def second_def)

end
