(* ===== verification/Host_Setup.thy ===== *)
theory Host_Setup
  imports Kernel_Config Wg_Subnet
begin

text \<open>
  The configuration of the host's interface in \<open>cmd/wgturn-cli/hostsetup.go\<close>: the interface is brought up,
  given its addresses and the routes of the peers, by commands of the tool \<open>ip\<close>, and a list of commands
  is kept that undoes them in the opposite order. The tool is a parameter: a function from its
  arguments and the host's state to its outcome and the new state.
\<close>

section \<open>Definitions\<close>

text \<open>Outcome of the program: the error of running it, if any, and what it printed.\<close>

type_synonym 'h ip_tool = "string list \<Rightarrow> 'h \<Rightarrow> (go_error option \<times> string) \<times> 'h"

definition runIP :: "'h ip_tool \<Rightarrow> string list \<Rightarrow> 'h \<Rightarrow> go_error option \<times> 'h" where
  "runIP ip args h =
     (case ip args h of
        ((None, _), h') \<Rightarrow> (None, h')
      | ((Some e, out), h') \<Rightarrow>
          (Some (GoError (''ip '' @ str_join '' '' args @ '': '' @ err_text e @ '' ('' @ trim_space out @ '')'') (err_chain e)), h'))"

text \<open>The closures that undo a command: each is the arguments of one call of \<open>ip\<close>, whose error is dropped.\<close>

definition rollback :: "'h ip_tool \<Rightarrow> string list list \<Rightarrow> 'h \<Rightarrow> 'h" where
  "rollback ip rollbacks h = fold (\<lambda>args h. snd (runIP ip args h)) (rev rollbacks) h"

definition isCoveredByConnectedRoute :: "prefix \<Rightarrow> prefix list \<Rightarrow> bool" where
  "isCoveredByConnectedRoute pfx addrs =
     (let want = masked pfx in
      list_ex (\<lambda>a. let ap = masked a in
        ap = want \<or>
        pfx_bits ap \<le> pfx_bits pfx \<and> pfx_contains ap (pfx_addr pfx) \<and> is4 (pfx_addr ap) = is4 (pfx_addr pfx)) addrs)"

fun addr_loop :: "'h ip_tool \<Rightarrow> string \<Rightarrow> prefix list \<Rightarrow> string list list \<Rightarrow> 'h \<Rightarrow> string list list res \<times> 'h" where
  "addr_loop ip iface [] rollbacks h = (Inr rollbacks, h)"
| "addr_loop ip iface (addr # as) rollbacks h =
     (case runIP ip [''addr'', ''add'', show_prefix addr, ''dev'', iface] h of
        (Some e, h1) \<Rightarrow> (Inl (wrapf (''addr add '' @ show_prefix addr @ '': '') e), rollback ip rollbacks h1)
      | (None, h1) \<Rightarrow> addr_loop ip iface as (rollbacks @ [[''addr'', ''del'', show_prefix addr, ''dev'', iface]]) h1)"

text \<open>The two nested loops over the peers and their networks share one map of prefixes already seen.\<close>

fun route_loop ::
    "'h ip_tool \<Rightarrow> string \<Rightarrow> prefix list \<Rightarrow> prefix list \<Rightarrow> prefix set \<Rightarrow> string list list \<Rightarrow> 'h \<Rightarrow> string list list res \<times> 'h" where
  "route_loop ip iface addrs [] seen rollbacks h = (Inr rollbacks, h)"
| "route_loop ip iface addrs (aip # as) seen rollbacks h =
     (if aip \<in> seen then route_loop ip iface addrs as seen rollbacks h
      else if isCoveredByConnectedRoute aip addrs then route_loop ip iface addrs as (insert aip seen) rollbacks h
      else case runIP ip [''route'', ''add'', show_prefix aip, ''dev'', iface] h of
             (Some e, h1) \<Rightarrow> (Inl (wrapf (''route add '' @ show_prefix aip @ '': '') e), rollback ip rollbacks h1)
           | (None, h1) \<Rightarrow> route_loop ip iface addrs as (insert aip seen)
                             (rollbacks @ [[''route'', ''del'', show_prefix aip, ''dev'', iface]]) h1)"

definition setupHostIfaceLinux :: "'h ip_tool \<Rightarrow> string \<Rightarrow> kernel_config \<Rightarrow> 'h \<Rightarrow> string list list res \<times> 'h" where
  "setupHostIfaceLinux ip iface cfg h =
     (case runIP ip [''link'', ''set'', iface, ''up''] h of
        (Some e, h1) \<Rightarrow> (Inl (wrapf ''link set up: '' e), rollback ip [] h1)
      | (None, h1) \<Rightarrow>
          (case addr_loop ip iface (kc_Address cfg) [[''link'', ''set'', iface, ''down'']] h1 of
             (Inl e, h2) \<Rightarrow> (Inl e, h2)
           | (Inr rollbacks, h2) \<Rightarrow>
               route_loop ip iface (kc_Address cfg) (concat (map pc_AllowedIPs (kc_Peers cfg))) {} rollbacks h2))"

definition errHostSetupUnsupported :: go_error where
  "errHostSetupUnsupported = GoError ''automatic host setup not implemented for this OS yet'' [ErrHostSetupUnsupported]"

definition setupHostIface :: "string \<Rightarrow> 'h ip_tool \<Rightarrow> string \<Rightarrow> kernel_config \<Rightarrow> 'h \<Rightarrow> string list list res \<times> 'h" where
  "setupHostIface goos ip iface cfg h =
     (if goos \<noteq> ''linux''
      then (Inl (GoError (err_text errHostSetupUnsupported @ '' (GOOS='' @ goos @ ''); after wgturn-cli connect, run manually:'' @ [newline] @
              ''  ip link set '' @ iface @ '' up                                # macOS: ifconfig '' @ iface @ '' up'' @ [newline] @
              ''  ip addr add <Address> dev '' @ iface @ ''                     # one per [Interface] Address'' @ [newline] @
              ''  ip route add <AllowedIPs> dev '' @ iface @ ''                 # one per peer AllowedIPs'')
              (err_chain errHostSetupUnsupported)), h)
      else setupHostIfaceLinux ip iface cfg h)"

section \<open>Covered networks\<close>

lemma masked_ok:
  assumes "prefix_ok p"
  shows "prefix_ok (masked p)" and "pfx_bits (masked p) = pfx_bits p" and "pfx_contains (masked p) = pfx_contains p"
proof -
  show ok: "prefix_ok (masked p)" and b: "pfx_bits (masked p) = pfx_bits p"
    using assms by (cases "pfx_addr p"; simp add: masked_def prefix_ok_def prefix_from_def prefix_valid_def)+
  have f: "same_family (pfx_addr (masked p)) (pfx_addr p)" and n: "addr_num (pfx_addr (masked p)) = lo_num p"
    using masked_addr [OF assms] by auto
  have h: "host_bits (masked p) = host_bits p"
    using f b by (cases "pfx_addr p"; cases "pfx_addr (masked p)") (auto simp: host_bits_def same_family_def)
  have l: "lo_num (masked p) = lo_num p" unfolding lo_num_def [of "masked p"] h n by (simp add: lo_num_def)
  have "pfx_contains (masked p) a = pfx_contains p a" for a
    using same_family_common f unfolding contains_iff [OF ok] contains_iff [OF assms] hi_num_def l h
    by (auto simp: same_family_def dest: is6_not_is4)
  then show "pfx_contains (masked p) = pfx_contains p" by blast
qed

lemma contains_own: "prefix_ok p \<Longrightarrow> pfx_contains p (pfx_addr p)"
  unfolding contains_iff lo_num_def hi_num_def
  using div_eq_interval [of "2 ^ host_bits p" "addr_num (pfx_addr p)" "addr_num (pfx_addr p)"]
  by (cases "pfx_addr p") (auto simp: same_family_def prefix_ok_def)

text \<open>A network is within another one exactly if that one is at least as broad and has its address.\<close>

lemma network_within:
  assumes a: "prefix_ok a" and p: "prefix_ok p"
  shows "pfx_bits a \<le> pfx_bits p \<and> pfx_contains a (pfx_addr p) \<longleftrightarrow> (\<forall>x. pfx_contains p x \<longrightarrow> pfx_contains a x)"
proof -
  let ?P = "addr_num (pfx_addr p)" and ?A = "addr_num (pfx_addr a)"
  have num: "pfx_contains q x \<longleftrightarrow>
      same_family x (pfx_addr q) \<and> addr_num x div 2 ^ host_bits q = addr_num (pfx_addr q) div 2 ^ host_bits q" if "prefix_ok q" for q x
    unfolding contains_iff [OF that] lo_num_def hi_num_def using div_eq_interval [of "2 ^ host_bits q"] by auto
  have fam: "host_bits p \<le> host_bits a \<longleftrightarrow> pfx_bits a \<le> pfx_bits p" if "same_family (pfx_addr p) (pfx_addr a)"
    using that a p by (cases "pfx_addr p"; cases "pfx_addr a") (auto simp: host_bits_def same_family_def prefix_ok_def prefix_valid_def)
  show ?thesis
  proof (intro iffI allI impI)
    fix x
    assume l: "pfx_bits a \<le> pfx_bits p \<and> pfx_contains a (pfx_addr p)" and x: "pfx_contains p x"
    then have f: "same_family (pfx_addr p) (pfx_addr a)" and e: "?P div 2 ^ host_bits a = ?A div 2 ^ host_bits a"
      using num [OF a] by auto
    have h: "host_bits p \<le> host_bits a" using fam [OF f] l by simp
    have "n div 2 ^ host_bits a = n div 2 ^ host_bits p div 2 ^ (host_bits a - host_bits p)" for n :: nat
      using h by (simp add: div_mult2_eq [symmetric] power_add [symmetric])
    then have "addr_num x div 2 ^ host_bits a = ?P div 2 ^ host_bits a" using x num [OF p] by simp
    moreover have "same_family x (pfx_addr a)"
      using x f num [OF p] by (auto simp: same_family_def dest: is6_not_is4)
    ultimately show "pfx_contains a x" using e num [OF a] by simp
  next
    assume r: "\<forall>x. pfx_contains p x \<longrightarrow> pfx_contains a x"
    then have own: "pfx_contains a (pfx_addr p)" using contains_own [OF p] by blast
    then have f: "same_family (pfx_addr p) (pfx_addr a)" using contains_iff [OF a] by blast
    have le: "lo_num p \<le> hi_num p" unfolding hi_num_def by (rule le_add1)
    have "lo_num a \<le> lo_num p" "hi_num p \<le> hi_num a"
      using r contains_num [OF p order_refl le] contains_num [OF p le order_refl] contains_iff [OF a] by metis+
    then have "(2::nat) ^ host_bits p - 1 \<le> 2 ^ host_bits a - 1" unfolding hi_num_def by linarith
    then have "(2::nat) ^ host_bits p \<le> 2 ^ host_bits a" by (simp add: le_diff_conv2)
    then have "host_bits p \<le> host_bits a" by simp
    then show "pfx_bits a \<le> pfx_bits p \<and> pfx_contains a (pfx_addr p)" using own fam [OF f] by simp
  qed
qed

text \<open>C38: The test whether a peer's network is already routed by an address of the interface is exact: it
  holds if and only if one of the connected networks has every address of the peer's network.\<close>

theorem covered_exact:
  assumes "prefix_ok p" and "\<forall>a \<in> set addrs. prefix_ok a"
  shows "isCoveredByConnectedRoute p addrs \<longleftrightarrow> (\<exists>a \<in> set addrs. \<forall>x. pfx_contains p x \<longrightarrow> pfx_contains a x)"
proof -
  have "(masked a = masked p \<or>
      pfx_bits (masked a) \<le> pfx_bits p \<and> pfx_contains (masked a) (pfx_addr p) \<and> is4 (pfx_addr (masked a)) = is4 (pfx_addr p)) \<longleftrightarrow>
      (\<forall>x. pfx_contains p x \<longrightarrow> pfx_contains a x)" if "a \<in> set addrs" for a
  proof -
    have a: "prefix_ok a" using that assms(2) by blast
    note m = masked_ok [OF a]
    have "is4 (pfx_addr (masked a)) = is4 (pfx_addr p)" if "pfx_contains (masked a) (pfx_addr p)"
      using that contains_iff [OF m(1)] by (auto simp: same_family_def dest: is6_not_is4)
    then have "(pfx_bits (masked a) \<le> pfx_bits p \<and> pfx_contains (masked a) (pfx_addr p) \<and> is4 (pfx_addr (masked a)) = is4 (pfx_addr p)) \<longleftrightarrow>
        (\<forall>x. pfx_contains p x \<longrightarrow> pfx_contains a x)"
      using network_within [OF a assms(1)] m(2,3) by metis
    moreover have "\<forall>x. pfx_contains p x \<longrightarrow> pfx_contains a x" if "masked a = masked p"
      using m(3) masked_ok(3) [OF assms(1)] that by simp
    ultimately show ?thesis by blast
  qed
  then show ?thesis unfolding isCoveredByConnectedRoute_def Let_def list_ex_iff by blast
qed

theorem covered_exact_witness:
  "isCoveredByConnectedRoute (prefix_from (V4 0x0A070080) 25) [prefix_from (V4 0x0A070002) 24] \<and>
   (\<exists>a \<in> {prefix_from (V4 0x0A070002) 24}. \<forall>x. pfx_contains (prefix_from (V4 0x0A070080) 25) x \<longrightarrow> pfx_contains a x)"
proof -
  have c: "isCoveredByConnectedRoute (prefix_from (V4 0x0A070080) 25) [prefix_from (V4 0x0A070002) 24]" by code_simp
  have ok: "prefix_ok (prefix_from (V4 0x0A070080) 25)" "prefix_ok (prefix_from (V4 0x0A070002) 24)" by (rule prefix_from_ok; simp)+
  show ?thesis using c covered_exact [of "prefix_from (V4 0x0A070080) 25" "[prefix_from (V4 0x0A070002) 24]"] ok by simp
qed

section \<open>All or nothing\<close>

text \<open>The commands in their order, each with the one that undoes it and the text in front of its error.\<close>

type_synonym host_step = "string list \<times> string list \<times> string"

definition link_step :: "string \<Rightarrow> host_step" where
  "link_step iface = ([''link'', ''set'', iface, ''up''], [''link'', ''set'', iface, ''down''], ''link set up: '')"

definition addr_step :: "string \<Rightarrow> prefix \<Rightarrow> host_step" where
  "addr_step iface a = ([''addr'', ''add'', show_prefix a, ''dev'', iface], [''addr'', ''del'', show_prefix a, ''dev'', iface],
     ''addr add '' @ show_prefix a @ '': '')"

definition route_step :: "string \<Rightarrow> prefix \<Rightarrow> host_step" where
  "route_step iface a = ([''route'', ''add'', show_prefix a, ''dev'', iface], [''route'', ''del'', show_prefix a, ''dev'', iface],
     ''route add '' @ show_prefix a @ '': '')"

text \<open>The networks that get a route: the first occurrences of those that no connected network covers.\<close>

fun new_routes :: "prefix list \<Rightarrow> prefix list \<Rightarrow> prefix set \<Rightarrow> prefix list" where
  "new_routes addrs [] seen = []"
| "new_routes addrs (a # as) seen =
     (if a \<in> seen then new_routes addrs as seen
      else if isCoveredByConnectedRoute a addrs then new_routes addrs as (insert a seen)
      else a # new_routes addrs as (insert a seen))"

definition host_plan :: "string \<Rightarrow> kernel_config \<Rightarrow> host_step list" where
  "host_plan iface cfg = link_step iface # map (addr_step iface) (kc_Address cfg) @
     map (route_step iface) (new_routes (kc_Address cfg) (concat (map pc_AllowedIPs (kc_Peers cfg))) {})"

fun run_plan :: "'h ip_tool \<Rightarrow> host_step list \<Rightarrow> string list list \<Rightarrow> 'h \<Rightarrow> string list list res \<times> 'h" where
  "run_plan ip [] undo h = (Inr undo, h)"
| "run_plan ip ((d, u, m) # ps) undo h =
     (case runIP ip d h of
        (Some e, h1) \<Rightarrow> (Inl (wrapf m e), rollback ip undo h1)
      | (None, h1) \<Rightarrow> run_plan ip ps (undo @ [u]) h1)"

lemma run_plan_append:
  "run_plan ip (ps @ qs) undo h =
     (case run_plan ip ps undo h of (Inl e, h1) \<Rightarrow> (Inl e, h1) | (Inr undo', h1) \<Rightarrow> run_plan ip qs undo' h1)"
  by (induction ip ps undo h rule: run_plan.induct) (auto split: prod.splits option.splits)

lemma addr_loop_plan: "addr_loop ip iface as undo h = run_plan ip (map (addr_step iface) as) undo h"
  by (induction as arbitrary: undo h) (auto simp: addr_step_def split: prod.splits option.splits)

lemma route_loop_plan: "route_loop ip iface addrs as seen undo h = run_plan ip (map (route_step iface) (new_routes addrs as seen)) undo h"
  by (induction as arbitrary: seen undo h) (auto simp: route_step_def split: prod.splits option.splits)

lemma setup_plan: "setupHostIfaceLinux ip iface cfg h = run_plan ip (host_plan iface cfg) [] h"
  by (auto simp: setupHostIfaceLinux_def host_plan_def link_step_def addr_loop_plan route_loop_plan run_plan_append
      split: prod.splits option.splits sum.splits)

lemma new_routes_set: "set (new_routes addrs as seen) = {a \<in> set as - seen. \<not> isCoveredByConnectedRoute a addrs} \<and>
  distinct (new_routes addrs as seen)"
  by (induction as arbitrary: seen) auto

lemma rollback_snoc: "rollback ip (undo @ [u]) h = rollback ip undo (snd (runIP ip u h))"
  by (simp add: rollback_def)

lemma rollback_Nil [simp]: "rollback ip [] h = h"
  by (simp add: rollback_def)

lemma runIP_state: "snd (runIP ip args h) = snd (ip args h)" "fst (runIP ip args h) = None \<longleftrightarrow> fst (fst (ip args h)) = None"
  by (auto simp: runIP_def split: prod.splits option.splits)

text \<open>What \<open>ip\<close> is relied on for: a command that fails changes nothing, and right after a command that
  succeeded its opposite restores the state.\<close>

definition ip_reverses :: "'h ip_tool \<Rightarrow> host_step list \<Rightarrow> bool" where
  "ip_reverses ip ps \<longleftrightarrow> (\<forall>(d, u, m) \<in> set ps. \<forall>h.
     (if fst (fst (ip d h)) = None then snd (ip u (snd (ip d h))) = h else snd (ip d h) = h))"

text \<open>The state after commands that all succeed.\<close>

definition all_done :: "'h ip_tool \<Rightarrow> host_step list \<Rightarrow> 'h \<Rightarrow> 'h" where
  "all_done ip ps h = fold (\<lambda>(d, u, m) h. snd (ip d h)) ps h"

lemma run_plan_reverses:
  assumes "ip_reverses ip ps" and "run_plan ip ps undo h = (r, h')"
  shows "case r of Inl e \<Rightarrow> h' = rollback ip undo h
    | Inr us \<Rightarrow> us = undo @ map (\<lambda>(d, u, m). u) ps \<and> h' = all_done ip ps h \<and> rollback ip us h' = rollback ip undo h"
  using assms
proof (induction ps arbitrary: undo h)
  case (Cons p ps)
  obtain d u m where p: "p = (d, u, m)" by (cases p) auto
  have ok: "if fst (fst (ip d h)) = None then snd (ip u (snd (ip d h))) = h else snd (ip d h) = h"
    using Cons.prems(1) p by (auto simp: ip_reverses_def)
  have "ip_reverses ip ps" using Cons.prems(1) by (simp add: ip_reverses_def)
  note IH = Cons.IH [OF this]
  show ?case
  proof (cases "fst (runIP ip d h)")
    case None
    then have "run_plan ip ps (undo @ [u]) (snd (ip d h)) = (r, h')"
      using Cons.prems(2) runIP_state(1) [of ip d h] p by (auto split: prod.splits)
    from IH [OF this] show ?thesis
      using None ok runIP_state [of ip d h] by (auto simp: p rollback_snoc runIP_state all_done_def split: sum.splits)
  next
    case (Some e)
    then have "r = Inl (wrapf m e)" "h' = rollback ip undo (snd (ip d h))"
      using Cons.prems(2) runIP_state(1) [of ip d h] p by (auto split: prod.splits)
    then show ?thesis using Some ok runIP_state(2) [of ip d h] by simp
  qed
qed (auto simp: all_done_def)

text \<open>The configuration of the host is all or nothing. It runs the commands of the plan: the interface
  up, one address per address of the interface, one route per distinct network of the peers that no
  connected network covers. If each command changes nothing when it fails and is undone by its
  opposite, then a failure at any point leaves the host as it was, and after a success the returned
  teardown, which undoes the commands in the opposite order, restores it.\<close>

theorem host_setup_all_or_nothing:
  assumes "ip_reverses ip (host_plan iface cfg)" and "setupHostIfaceLinux ip iface cfg h = (r, h')"
  shows "(case r of Inl e \<Rightarrow> h' = h
      | Inr us \<Rightarrow> us = map (\<lambda>(d, u, m). u) (host_plan iface cfg) \<and> h' = all_done ip (host_plan iface cfg) h \<and> rollback ip us h' = h) \<and>
    (\<exists>routes. host_plan iface cfg = link_step iface # map (addr_step iface) (kc_Address cfg) @ map (route_step iface) routes \<and>
       distinct routes \<and>
       set routes = {a. (\<exists>q \<in> set (kc_Peers cfg). a \<in> set (pc_AllowedIPs q)) \<and> \<not> isCoveredByConnectedRoute a (kc_Address cfg)})"
proof -
  have "case r of Inl e \<Rightarrow> h' = h
      | Inr us \<Rightarrow> us = map (\<lambda>(d, u, m). u) (host_plan iface cfg) \<and> h' = all_done ip (host_plan iface cfg) h \<and> rollback ip us h' = h"
    using run_plan_reverses [OF assms(1), of "[]" h r h'] assms(2) by (cases r) (auto simp: setup_plan)
  moreover have "host_plan iface cfg = link_step iface # map (addr_step iface) (kc_Address cfg) @
      map (route_step iface) (new_routes (kc_Address cfg) (concat (map pc_AllowedIPs (kc_Peers cfg))) {})"
    by (simp add: host_plan_def)
  moreover note new_routes_set [of "kc_Address cfg" "concat (map pc_AllowedIPs (kc_Peers cfg))" "{}"]
  ultimately show ?thesis by auto
qed

text \<open>A host that keeps the commands in force, and refuses one route.\<close>

definition demo_ip :: "string list list ip_tool" where
  "demo_ip args h =
     (if args \<in> {[''link'', ''set'', ''wg0'', ''down''], [''addr'', ''del'', ''10.7.0.2/24'', ''dev'', ''wg0''],
         [''route'', ''del'', ''0.0.0.0/0'', ''dev'', ''wg0'']} then ((None, []), tl h)
      else if args = [''route'', ''add'', ''172.16.0.0/12'', ''dev'', ''wg0''] then ((Some (errors_New ''exit status 2''), ''File exists''), h)
      else ((None, []), args # h))"

definition demo_host_cfg :: kernel_config where
  "demo_host_cfg = \<lparr>kc_PrivateKey = [], kc_Address = [prefix_from (V4 0x0A070002) 24], kc_ListenPort = 0, kc_MTU = 0, kc_DNS = [],
     kc_Peers = [\<lparr>pc_PublicKey = [], pc_PresharedKey = [], pc_Endpoint = [],
       pc_AllowedIPs = [prefix_from (V4 0) 0, prefix_from (V4 0xAC100000) 12], pc_PersistentKeepalive = 0\<rparr>]\<rparr>"

lemma demo_host_plan:
  "host_plan ''wg0'' demo_host_cfg =
     [([''link'', ''set'', ''wg0'', ''up''], [''link'', ''set'', ''wg0'', ''down''], ''link set up: ''),
      ([''addr'', ''add'', ''10.7.0.2/24'', ''dev'', ''wg0''], [''addr'', ''del'', ''10.7.0.2/24'', ''dev'', ''wg0''], ''addr add 10.7.0.2/24: ''),
      ([''route'', ''add'', ''0.0.0.0/0'', ''dev'', ''wg0''], [''route'', ''del'', ''0.0.0.0/0'', ''dev'', ''wg0''], ''route add 0.0.0.0/0: ''),
      ([''route'', ''add'', ''172.16.0.0/12'', ''dev'', ''wg0''], [''route'', ''del'', ''172.16.0.0/12'', ''dev'', ''wg0''], ''route add 172.16.0.0/12: '')]"
proof -
  have c: "char_of (49::nat) = CHR ''1''" "char_of (50::nat) = CHR ''2''" "char_of (48::nat) = CHR ''0''" "char_of (52::nat) = CHR ''4''"
    "char_of (54::nat) = CHR ''6''" "char_of (55::nat) = CHR ''7''" by code_simp+
  have a: "show_prefix (prefix_from (V4 0x0A070002) 24) = ''10.7.0.2/24''" "show_prefix (prefix_from (V4 0) 0) = ''0.0.0.0/0''"
    "show_prefix (prefix_from (V4 0xAC100000) 12) = ''172.16.0.0/12''"
    by (simp_all add: show_prefix_def prefix_from_def prefix_valid_def show4_def octet_def show_int_def show_nat.simps digit_char_def c)
  have "new_routes [prefix_from (V4 0x0A070002) 24] [prefix_from (V4 0) 0, prefix_from (V4 0xAC100000) 12] {} =
      [prefix_from (V4 0) 0, prefix_from (V4 0xAC100000) 12]" by code_simp
  then show ?thesis by (simp add: host_plan_def demo_host_cfg_def link_step_def addr_step_def route_step_def a)
qed

theorem host_setup_all_or_nothing_witness:
  "snd (setupHostIfaceLinux demo_ip ''wg0'' demo_host_cfg []) = [] \<and> is_err (fst (setupHostIfaceLinux demo_ip ''wg0'' demo_host_cfg []))"
proof -
  have rev: "ip_reverses demo_ip (host_plan ''wg0'' demo_host_cfg)"
    unfolding ip_reverses_def demo_host_plan by (simp add: demo_ip_def)
  have err: "is_err (fst (setupHostIfaceLinux demo_ip ''wg0'' demo_host_cfg []))"
    unfolding setup_plan demo_host_plan by (simp add: runIP_def demo_ip_def)
  moreover obtain r h' where r: "setupHostIfaceLinux demo_ip ''wg0'' demo_host_cfg [] = (r, h')" by (cases "setupHostIfaceLinux demo_ip ''wg0'' demo_host_cfg []") auto
  ultimately show ?thesis using host_setup_all_or_nothing [OF rev r] by (cases r) auto
qed

end
