(* ===== verification/Cli_Run.thy ===== *)
theory Cli_Run
  imports Quick_Conf Host_Setup
begin

text \<open>
  The two commands of the tool that bring a client up and down, \<open>runConnect\<close> in \<open>cmd/wgturn-cli/connect.go\<close>
  and \<open>runConnectURL\<close> in \<open>connect_url.go\<close>, with the browser they start, \<open>chrome.go\<close>. What the outside
  gives is a record: the browser's outcomes, the socket and certificate of the hub, how the wait for
  its first stream ends, the TUN device, the WireGuard device and the tool \<open>ip\<close>. A deferred call is
  the release after the rest of the function; between the start and the signal the state that the
  traffic meets is recorded.
\<close>

section \<open>The browser\<close>

definition chromePathCandidates :: "string list" where
  "chromePathCandidates = [''google-chrome'', ''google-chrome-stable'', ''chromium-browser'', ''chromium'']"

definition chromeMacOSAppBundles :: "string list" where
  "chromeMacOSAppBundles =
     [''/Applications/Google Chrome.app/Contents/MacOS/Google Chrome'', ''/Applications/Chromium.app/Contents/MacOS/Chromium'']"

definition chromeWindowsInstallPaths :: "string list" where
  "chromeWindowsInstallPaths =
     [''C:'' @ [bslash] @ ''Program Files'' @ [bslash] @ ''Google'' @ [bslash] @ ''Chrome'' @ [bslash] @ ''Application'' @ [bslash] @ ''chrome.exe'',
      ''C:'' @ [bslash] @ ''Program Files (x86)'' @ [bslash] @ ''Google'' @ [bslash] @ ''Chrome'' @ [bslash] @ ''Application'' @ [bslash] @ ''chrome.exe'',
      ''C:'' @ [bslash] @ ''Program Files'' @ [bslash] @ ''Chromium'' @ [bslash] @ ''Application'' @ [bslash] @ ''chrome.exe'']"

text \<open>\<open>look\<close> is \<open>exec.LookPath\<close>, \<open>is_file\<close> says that a path names something that is no directory, and
  \<open>embedded\<close> is the outcome of extracting the bundled browser in builds that have one.\<close>

record chrome_host =
  ch_goos :: string
  ch_look :: "string \<Rightarrow> string option"
  ch_is_file :: "string \<Rightarrow> bool"
  ch_embedded :: "string option option"

definition noChrome :: go_error where
  "noChrome = errors_New (''no Chrome / Chromium binary found in $PATH or standard install locations; '' @
     ''install Chrome / Chromium, or pass --vk-chrome-url pointing at a running instance'')"

definition extra_paths :: "string \<Rightarrow> string list" where
  "extra_paths goos = (if goos = ''darwin'' then chromeMacOSAppBundles else if goos = ''windows'' then chromeWindowsInstallPaths else [])"

definition findChromeOnPath :: "chrome_host \<Rightarrow> string res" where
  "findChromeOnPath h =
     (case List.map_filter (ch_look h) chromePathCandidates of
        p # _ \<Rightarrow> Inr p
      | [] \<Rightarrow>
          (case filter (ch_is_file h) (extra_paths (ch_goos h)) of
             p # _ \<Rightarrow> Inr p
           | [] \<Rightarrow> (case ch_embedded h of Some (Some p) \<Rightarrow> Inr p | _ \<Rightarrow> Inl noChrome)))"

text \<open>One round of the wait for the browser: the context's error at its start, the status of the
  probe if it was answered, the time after it, and the context's error if the wait for the next tick
  ends with it.\<close>

record probe_round =
  pr_ctx :: "go_error option"
  pr_status :: "int option"
  pr_now :: instant
  pr_wake :: "go_error option"

definition chromeReadyTimeout :: duration where "chromeReadyTimeout = 5 * second"

definition debugURL :: string where "debugURL = ''http://127.0.0.1:9222''"

text \<open>The result is \<open>None\<close> while the rounds given do not end the loop.\<close>

fun waitChromeReady :: "instant \<Rightarrow> probe_round list \<Rightarrow> go_error option option" where
  "waitChromeReady deadline [] = None"
| "waitChromeReady deadline (r # rs) =
     (case pr_ctx r of
        Some e \<Rightarrow> Some (Some e)
      | None \<Rightarrow>
          if pr_status r = Some 200 then Some None
          else if pr_now r > deadline
          then Some (Some (errors_New (''Chrome did not answer at '' @ debugURL @ '' within 5s'')))
          else case pr_wake r of Some e \<Rightarrow> Some (Some e) | None \<Rightarrow> waitChromeReady deadline rs)"

text \<open>What is left behind on the machine: scratch directories and browser processes.\<close>

record chrome_world =
  cw_dirs :: "string list"
  cw_procs :: nat

record chrome_io =
  io_mkdir :: "string res"
  io_start :: "go_error option"
  io_kill :: "go_error option"
  io_rm :: "go_error option"

definition remove_dir :: "chrome_io \<Rightarrow> string \<Rightarrow> chrome_world \<Rightarrow> chrome_world" where
  "remove_dir io dir w = (if io_rm io = None then w\<lparr>cw_dirs := filter (\<lambda>d. d \<noteq> dir) (cw_dirs w)\<rparr> else w)"

text \<open>\<open>Stop\<close> of a started browser: it is killed and reaped, an error of a process that has already
  ended does not count, and its directory is removed in any case.\<close>

definition chrome_Stop :: "chrome_io \<Rightarrow> string \<Rightarrow> chrome_world \<Rightarrow> go_error option \<times> chrome_world" where
  "chrome_Stop io dir w =
     (let firstErr = (case io_kill io of Some e \<Rightarrow> if errors_Is e ErrProcessDone then None else Some (wrapf ''kill chrome: '' e) | None \<Rightarrow> None);
          w1 = w\<lparr>cw_procs := cw_procs w - 1\<rparr>
      in if dir = [] then (firstErr, w1)
         else (case io_rm io of
                 Some e \<Rightarrow> ((case firstErr of None \<Rightarrow> Some (wrapf ''rm chrome data-dir: '' e) | Some f \<Rightarrow> Some f), w1)
               | None \<Rightarrow> (firstErr, remove_dir io dir w1)))"

definition launchChrome ::
    "chrome_host \<Rightarrow> chrome_io \<Rightarrow> instant \<Rightarrow> probe_round list \<Rightarrow> chrome_world \<Rightarrow> (string \<times> string) res option \<times> chrome_world" where
  "launchChrome h io now rounds w =
     (case findChromeOnPath h of
        Inl e \<Rightarrow> (Some (Inl (wrapf ''chrome auto-launch: '' e)), w)
      | Inr bin \<Rightarrow>
          (case io_mkdir io of
             Inl e \<Rightarrow> (Some (Inl (wrapf ''chrome auto-launch: scratch dir: '' e)), w)
           | Inr dir \<Rightarrow>
               (let w1 = w\<lparr>cw_dirs := dir # cw_dirs w\<rparr> in
                case io_start io of
                  Some e \<Rightarrow> (Some (Inl (wrapf (''chrome auto-launch: start '' @ quoted bin @ '': '') e)), remove_dir io dir w1)
                | None \<Rightarrow>
                    (let w2 = w1\<lparr>cw_procs := Suc (cw_procs w1)\<rparr> in
                     case waitChromeReady (now + chromeReadyTimeout) rounds of
                       None \<Rightarrow> (None, w2)
                     | Some (Some e) \<Rightarrow>
                         (Some (Inl (GoError (''chrome auto-launch: '' @ err_text e @
                              '' (if port 9222 is already taken by another Chrome instance, '' @
                              ''pass --vk-chrome-url http://127.0.0.1:9222 to use it directly)'') (err_chain e))),
                          snd (chrome_Stop io dir w2))
                     | Some None \<Rightarrow> (Some (Inr (debugURL, dir)), w2)))))"

section \<open>The client\<close>

record 'h run_env =
  re_shpErr :: "string \<Rightarrow> string"
  re_listen :: "string res"
  re_cert :: "go_error option"
  re_wait :: start_wait
  re_tun :: "nat res"
  re_b64Err :: "string \<Rightarrow> go_error"
  re_kctx :: "go_error option"
  re_ipcSet :: "string \<Rightarrow> go_error option"
  re_up :: "go_error option"
  re_goos :: string
  re_ip :: "'h ip_tool"
  re_routed :: "solver_choice \<Rightarrow> provider"

text \<open>What the command holds. \<open>rs_ready\<close> is what the traffic meets once everything is up: the tunnel, the
  kernel and the host.\<close>

record 'h run_state =
  rs_chrome :: bool
  rs_tunnel :: "tunnel option"
  rs_tun_open :: bool
  rs_kernel :: "kernel option"
  rs_host :: 'h
  rs_ready :: "(tunnel \<times> kernel \<times> 'h) option"

definition serve_traffic :: "tunnel \<Rightarrow> kernel \<Rightarrow> 'h run_state \<Rightarrow> 'h run_state" where
  "serve_traffic tn k s = s\<lparr>rs_ready := Some (tn, k, rs_host s)\<rparr>"

definition host_phase ::
    "'h run_env \<Rightarrow> string \<Rightarrow> string \<Rightarrow> kernel_config \<Rightarrow> tunnel \<Rightarrow> kernel \<Rightarrow> 'h run_state \<Rightarrow> go_error option \<times> 'h run_state" where
  "host_phase env pre iface cfg tn k s =
     (case setupHostIface (re_goos env) (re_ip env) iface cfg (rs_host s) of
        (Inl e, h) \<Rightarrow>
          if errors_Is e ErrHostSetupUnsupported then (None, serve_traffic tn k (s\<lparr>rs_host := h\<rparr>))
          else (Some (wrapf (pre @ ''host setup: '') e), s\<lparr>rs_host := h\<rparr>)
      | (Inr teardown, h) \<Rightarrow>
          (let s1 = serve_traffic tn k (s\<lparr>rs_host := h\<rparr>)
           in (None, s1\<lparr>rs_host := rollback (re_ip env) teardown (rs_host s1)\<rparr>)))"

definition started_kernel_phase ::
    "'h run_env \<Rightarrow> string \<Rightarrow> string \<Rightarrow> kernel_config \<Rightarrow> tunnel \<Rightarrow> nat \<Rightarrow> 'h run_state \<Rightarrow> go_error option \<times> 'h run_state" where
  "started_kernel_phase env pre iface cfg tn tun s =
     (case NewKernel (re_b64Err env) cfg (Some tun) [OptLogger (Some (HostLogger 0)), OptTurnTunnel (Some 0)] of
        Inl e \<Rightarrow> (Some (wrapf (pre @ ''new kernel: '') e), s)
      | Inr k \<Rightarrow>
          (case kernel_Start (re_b64Err env) (re_kctx env) (\<lambda>_. tn) (re_ipcSet env) (re_up env) k of
             (Some e, k1, dev) \<Rightarrow> (Some (wrapf (pre @ ''start kernel: '') e), s\<lparr>rs_kernel := Some k1\<rparr>)
           | (None, k1, dev) \<Rightarrow>
               (case host_phase env pre iface cfg tn k1 (s\<lparr>rs_kernel := Some k1\<rparr>) of
                  (err, s1) \<Rightarrow> (err, s1\<lparr>rs_kernel := map_option kernel_Stop (rs_kernel s1)\<rparr>))))"

definition kernel_phase ::
    "'h run_env \<Rightarrow> string \<Rightarrow> string \<Rightarrow> kernel_config \<Rightarrow> tunnel \<Rightarrow> 'h run_state \<Rightarrow> go_error option \<times> 'h run_state" where
  "kernel_phase env pre iface cfg tn s =
     (case re_tun env of
        Inl e \<Rightarrow> (Some (GoError (pre @ ''open TUN '' @ quoted iface @ '': '' @ err_text e @
                    '' (Linux/macOS need sudo; Windows needs wintun.dll next to the binary)'') (err_chain e)), s)
      | Inr tun \<Rightarrow>
          (case started_kernel_phase env pre iface cfg tn tun (s\<lparr>rs_tun_open := True\<rparr>) of
             (err, s1) \<Rightarrow> (err, s1\<lparr>rs_tun_open := False\<rparr>)))"

definition tunnel_phase ::
    "'h run_env \<Rightarrow> string \<Rightarrow> turn_config \<Rightarrow> (tunnel \<Rightarrow> 'h run_state \<Rightarrow> go_error option \<times> 'h run_state) \<Rightarrow>
     'h run_state \<Rightarrow> go_error option \<times> 'h run_state" where
  "tunnel_phase env pre cfg body s =
     (case NewTunnel (re_shpErr env) cfg of
        Inl e \<Rightarrow> (Some (wrapf (pre @ ''new tunnel: '') e), s)
      | Inr t \<Rightarrow>
          (case Start (re_listen env) (re_cert env) (re_wait env) t of
             (Some e, t1) \<Rightarrow> (Some (wrapf (pre @ ''start tunnel: '') e), s\<lparr>rs_tunnel := Some t1\<rparr>)
           | (None, t1) \<Rightarrow>
               (case body t1 (s\<lparr>rs_tunnel := Some t1\<rparr>) of
                  (err, s1) \<Rightarrow> (err, s1\<lparr>rs_tunnel := map_option Stop (rs_tunnel s1)\<rparr>))))"

definition chrome_phase ::
    "string res \<Rightarrow> string \<Rightarrow> bool \<Rightarrow> (string \<Rightarrow> 'h run_state \<Rightarrow> go_error option \<times> 'h run_state) \<Rightarrow> 'h run_state \<Rightarrow>
     go_error option \<times> 'h run_state" where
  "chrome_phase launch override auto body s =
     (case resolveChromeURL launch override auto of
        Inl e \<Rightarrow> (Some e, s)
      | Inr (url, owned) \<Rightarrow>
          (case body url (s\<lparr>rs_chrome := owned\<rparr>) of
             (err, s1) \<Rightarrow> (err, if owned then s1\<lparr>rs_chrome := False\<rparr> else s1)))"

text \<open>Parsed flags of the two commands: \<open>cf_source\<close> is the path of the file or the URL.\<close>

record connect_flags =
  cf_source :: string
  cf_positional :: "string list"
  cf_iface :: string
  cf_vkLink :: string
  cf_vkChromeURL :: string
  cf_vkChromeAuto :: bool
  cf_vkChromeUA :: string

definition source_arg :: "connect_flags \<Rightarrow> string" where
  "source_arg f = (if cf_source f = [] \<and> length (cf_positional f) = 1 then cf_positional f ! 0 else cf_source f)"

definition runConnect ::
    "'h run_env \<Rightarrow> (nat \<Rightarrow> nat \<Rightarrow> nat \<Rightarrow> nat) \<Rightarrow> (string \<Rightarrow> opened) \<Rightarrow> string res \<Rightarrow> connect_flags \<Rightarrow> 'h run_state \<Rightarrow>
     go_error option \<times> 'h run_state" where
  "runConnect env frac files launch f s =
     (let path = source_arg f in
      if path = [] then (Some (errors_New ''connect: config path is required (positional or -config)''), s)
      else case parseWGConfig frac (files path) of
        Inl e \<Rightarrow> (Some e, s)
      | Inr settings \<Rightarrow>
          (case ToTunnelConfig settings of
             Inl e \<Rightarrow> (Some (wrapf ''config -> turn: '' e), s)
           | Inr turnCfg \<Rightarrow>
               chrome_phase launch (cf_vkChromeURL f) (cf_vkChromeAuto f) (\<lambda>chromeURL s1.
                 tunnel_phase env []
                   (turnCfg\<lparr>tc_Logger := Some (), tc_Protector := Some (),
                      tc_Provider := Some (re_routed env (pickCaptchaSolver chromeURL (cf_vkChromeUA f)))\<rparr>)
                   (\<lambda>tn s2.
                      case buildKernelConfig settings of
                        Inl e \<Rightarrow> (Some (wrapf ''config -> kernel: '' e), s2)
                      | Inr kernelCfg \<Rightarrow> kernel_phase env [] (cf_iface f) kernelCfg tn s2) s1) s))"

definition runConnectURL ::
    "'h run_env \<Rightarrow> share_errs \<Rightarrow> string res \<Rightarrow> connect_flags \<Rightarrow> 'h run_state \<Rightarrow> go_error option \<times> 'h run_state" where
  "runConnectURL env se launch f s =
     (let urlArg = source_arg f in
      if urlArg = [] then (Some (errors_New ''connect-url: share URL is required (positional or -url)''), s)
      else case share_Parse se urlArg of
        Inl e \<Rightarrow> (Some (wrapf ''connect-url: parse URL: '' e), s)
      | Inr prof \<Rightarrow>
          if splitLinks (cf_vkLink f) = []
          then (Some (errors_New ''connect-url: --vk-link <url> is required (the URL itself does NOT carry it)''), s)
          else chrome_phase launch (cf_vkChromeURL f) (cf_vkChromeAuto f) (\<lambda>chromeURL s1.
                 case url_tunnel_config (re_routed env (pickCaptchaSolver chromeURL (cf_vkChromeUA f))) prof (cf_vkLink f) of
                   Inl e \<Rightarrow> (Some e, s1)
                 | Inr turnCfg \<Rightarrow>
                     tunnel_phase env ''connect-url: '' turnCfg
                       (\<lambda>tn s2. kernel_phase env ''connect-url: '' (cf_iface f) (ToKernelConfig prof) tn s2) s1) s)"

section \<open>A failed launch leaves nothing\<close>

lemma launch_failure_clean:
  assumes "launchChrome h io now rounds w = (Some (Inl e), w')" and "io_rm io = None" and "\<forall>dir. io_mkdir io = Inr dir \<longrightarrow> dir \<noteq> [] \<and> dir \<notin> set (cw_dirs w)"
  shows "w' = w"
proof -
  have f: "filter (\<lambda>d. d \<noteq> dir) (cw_dirs w) = cw_dirs w" if "io_mkdir io = Inr dir" for dir
    using assms(3) that by (auto simp: filter_id_conv)
  show ?thesis
    using assms(1,2,3) f
    by (auto simp: launchChrome_def remove_dir_def chrome_Stop_def Let_def split: sum.splits option.splits)
qed

text \<open>The wait ends: the first round past the deadline ends it, whatever the browser does.\<close>

lemma waitChromeReady_ends: "\<exists>r \<in> set rs. deadline < pr_now r \<Longrightarrow> waitChromeReady deadline rs \<noteq> None"
  by (induction rs) (auto split: option.splits)

section \<open>Everything that was brought up is taken down\<close>

text \<open>What a phase keeps: the browser, the TUN device and the host are as they were; the command has
  served traffic if and only if it returns no error.\<close>

definition restores :: "'h run_state \<Rightarrow> go_error option \<times> 'h run_state \<Rightarrow> bool" where
  "restores s r \<longleftrightarrow> rs_chrome (snd r) = rs_chrome s \<and> rs_tun_open (snd r) = rs_tun_open s \<and> rs_host (snd r) = rs_host s \<and>
     (fst r = None \<longleftrightarrow> rs_ready (snd r) \<noteq> None)"

text \<open>What the traffic met: a tunnel that runs, a kernel that runs, with its packets sent to the hub, and
  on Linux a host configured by the whole plan.\<close>

definition served :: "'h run_env \<Rightarrow> string \<Rightarrow> kernel_config \<Rightarrow> tunnel \<Rightarrow> 'h \<Rightarrow> (tunnel \<times> kernel \<times> 'h) option \<Rightarrow> bool" where
  "served env iface cfg tn h0 r \<longleftrightarrow>
     (\<forall>t k h. r = Some (t, k, h) \<longrightarrow> t = tn \<and> kn_state k = KernelStarted \<and> kn_cfg k = kc_withDefaults cfg \<and>
        (\<exists>dev addr ipc. kn_dev k = Some dev \<and> d_up dev \<and> LocalAddr tn = Some addr \<and>
           IPC (re_b64Err env) (rewrite_endpoints addr (kc_withDefaults cfg)) = Inr ipc \<and> d_ipc dev = ipc) \<and>
        (re_goos env = ''linux'' \<longrightarrow> h = all_done (re_ip env) (host_plan iface cfg) h0))"

lemma setupHostIface_reverses:
  assumes "ip_reverses ip (host_plan iface cfg)" and "setupHostIface goos ip iface cfg h = (r, h')"
  shows "case r of Inl e \<Rightarrow> h' = h
    | Inr us \<Rightarrow> rollback ip us h' = h \<and> goos = ''linux'' \<and> h' = all_done ip (host_plan iface cfg) h"
  using run_plan_reverses [OF assms(1), of "[]" h r h'] assms(2)
  by (cases r) (auto simp: setupHostIface_def setup_plan split: if_splits)

text \<open>The tool's own errors are not the one that says that the host's configuration is not supported.\<close>

definition ip_plain :: "'h ip_tool \<Rightarrow> bool" where
  "ip_plain ip \<longleftrightarrow> (\<forall>args h e. fst (fst (ip args h)) = Some e \<longrightarrow> \<not> errors_Is e ErrHostSetupUnsupported)"

lemma run_plan_error:
  assumes "ip_plain ip" and "run_plan ip ps undo h = (Inl e, h')"
  shows "\<not> errors_Is e ErrHostSetupUnsupported"
  using assms(2)
proof (induction ps arbitrary: undo h)
  case (Cons p ps)
  obtain d u m where p: "p = (d, u, m)" by (cases p) auto
  show ?case
  proof (cases "fst (runIP ip d h)")
    case None
    with Cons p show ?thesis by (auto split: prod.splits option.splits)
  next
    case (Some e1)
    then have "e = wrapf m e1" using Cons.prems p by (auto split: prod.splits)
    moreover from Some obtain e0 where "fst (fst (ip d h)) = Some e0" "err_chain e1 = err_chain e0"
      by (auto simp: runIP_def split: prod.splits option.splits)
    then have "\<not> errors_Is e1 ErrHostSetupUnsupported" using assms(1) unfolding ip_plain_def errors_Is_def by metis
    ultimately show ?thesis by simp
  qed
qed simp

lemma host_phase_restores:
  assumes "ip_reverses (re_ip env) (host_plan iface cfg)" and "ip_plain (re_ip env)"
    and "kn_state k = KernelStarted" and "rs_ready s = None"
  shows "restores s (host_phase env pre iface cfg tn k s) \<and>
    rs_tunnel (snd (host_phase env pre iface cfg tn k s)) = rs_tunnel s \<and>
    rs_kernel (snd (host_phase env pre iface cfg tn k s)) = rs_kernel s \<and>
    (\<forall>t k' h. rs_ready (snd (host_phase env pre iface cfg tn k s)) = Some (t, k', h) \<longrightarrow>
       t = tn \<and> k' = k \<and> (re_goos env = ''linux'' \<longrightarrow> h = all_done (re_ip env) (host_plan iface cfg) (rs_host s)))"
proof -
  obtain r h where r: "setupHostIface (re_goos env) (re_ip env) iface cfg (rs_host s) = (r, h)"
    by (cases "setupHostIface (re_goos env) (re_ip env) iface cfg (rs_host s)") auto
  note rev = setupHostIface_reverses [OF assms(1) r]
  show ?thesis
  proof (cases r)
    case (Inl e)
    have "\<not> errors_Is e ErrHostSetupUnsupported" if "re_goos env = ''linux''"
      using run_plan_error [OF assms(2)] that r Inl by (simp add: setupHostIface_def setup_plan)
    with rev Inl r assms(4) show ?thesis by (auto simp: host_phase_def restores_def serve_traffic_def)
  next
    case (Inr us)
    with rev r show ?thesis by (auto simp: host_phase_def restores_def serve_traffic_def Let_def)
  qed
qed

lemma started_kernel_phase_restores:
  assumes "ip_reverses (re_ip env) (host_plan iface cfg)" and "ip_plain (re_ip env)" and "rs_ready s = None" and "rs_kernel s = None"
    and "started_kernel_phase env pre iface cfg tn tun s = (err, s')"
  shows "restores s (err, s') \<and> rs_tunnel s' = rs_tunnel s \<and> served env iface cfg tn (rs_host s) (rs_ready s') \<and>
    (\<forall>k. rs_kernel s' = Some k \<longrightarrow> kn_state k \<noteq> KernelStarted \<and> (\<forall>d. kn_dev k = Some d \<longrightarrow> d_closed d))"
proof (cases "NewKernel (re_b64Err env) cfg (Some tun) [OptLogger (Some (HostLogger 0)), OptTurnTunnel (Some 0)]")
  case (Inl e)
  with assms(3-5) show ?thesis by (auto simp: started_kernel_phase_def restores_def served_def)
next
  case (Inr k)
  note k = NewKernel_ok [OF Inr]
  have tt: "kn_turnTun k = Some 0" using Inr by (auto simp: NewKernel_def WithTurnTunnel_def split: option.splits)
  obtain e k1 dev where st: "kernel_Start (re_b64Err env) (re_kctx env) (\<lambda>_. tn) (re_ipcSet env) (re_up env) k = (e, k1, dev)"
    by (cases "kernel_Start (re_b64Err env) (re_kctx env) (\<lambda>_. tn) (re_ipcSet env) (re_up env) k") auto
  show ?thesis
  proof (cases e)
    case (Some e1)
    have "k1 = k" using st Some k(3) by (auto simp: kernel_Start_def Let_def split: option.splits sum.splits)
    with Some Inr st assms(3-5) k(3,4) show ?thesis
      by (auto simp: started_kernel_phase_def restores_def served_def)
  next
    case None
    obtain d where d: "d_up d" "\<not> d_closed d" "k1 = k\<lparr>kn_dev := Some d, kn_state := KernelStarted\<rparr>" "dev = Some d"
      using kernel_Start_None [OF st [unfolded None] k(3)] by auto
    obtain addr ipc where a: "LocalAddr tn = Some addr" "IPC (re_b64Err env) (rewrite_endpoints addr (kc_withDefaults cfg)) = Inr ipc" "d_ipc d = ipc"
      using st None k(2,3) tt d(4) by (auto simp: kernel_Start_def started_config_def Let_def split: option.splits sum.splits)
    let ?s = "s\<lparr>rs_kernel := Some k1\<rparr>"
    have "kn_state k1 = KernelStarted" "rs_ready ?s = None" using d(3) assms(3) by simp_all
    note h = host_phase_restores [OF assms(1,2) this, of pre tn]
    obtain e2 s2 where hp: "host_phase env pre iface cfg tn k1 ?s = (e2, s2)" by (cases "host_phase env pre iface cfg tn k1 ?s") auto
    have r: "err = e2" "s' = s2\<lparr>rs_kernel := map_option kernel_Stop (rs_kernel s2)\<rparr>"
      using assms(5) Inr st None hp by (auto simp: started_kernel_phase_def)
    have "rs_kernel s2 = Some k1" using h hp by simp
    then have "rs_kernel s' = Some (kernel_Stop k1)" using r by simp
    moreover have "kn_state (kernel_Stop k1) \<noteq> KernelStarted \<and> (\<forall>d. kn_dev (kernel_Stop k1) = Some d \<longrightarrow> d_closed d)"
      using d(3) by (simp add: kernel_Stop_def)
    moreover have "restores s (err, s')" "rs_tunnel s' = rs_tunnel s" using h hp r by (auto simp: restores_def)
    moreover have "served env iface cfg tn (rs_host s) (rs_ready s')"
      using h hp r d a k(2) by (auto simp: served_def)
    ultimately show ?thesis by simp
  qed
qed

lemma kernel_phase_restores:
  assumes "ip_reverses (re_ip env) (host_plan iface cfg)" and "ip_plain (re_ip env)" and "rs_ready s = None" and "rs_kernel s = None"
    and "\<not> rs_tun_open s" and "kernel_phase env pre iface cfg tn s = (err, s')"
  shows "restores s (err, s') \<and> rs_tunnel s' = rs_tunnel s \<and> served env iface cfg tn (rs_host s) (rs_ready s') \<and>
    (\<forall>k. rs_kernel s' = Some k \<longrightarrow> kn_state k \<noteq> KernelStarted \<and> (\<forall>d. kn_dev k = Some d \<longrightarrow> d_closed d))"
proof (cases "re_tun env")
  case (Inl e)
  with assms(3,4,6) show ?thesis by (auto simp: kernel_phase_def restores_def served_def)
next
  case (Inr tun)
  obtain e s2 where p: "started_kernel_phase env pre iface cfg tn tun (s\<lparr>rs_tun_open := True\<rparr>) = (e, s2)"
    by (cases "started_kernel_phase env pre iface cfg tn tun (s\<lparr>rs_tun_open := True\<rparr>)") auto
  have "err = e" "s' = s2\<lparr>rs_tun_open := False\<rparr>" using assms(6) Inr p by (auto simp: kernel_phase_def)
  with started_kernel_phase_restores [OF assms(1,2) _ _ p] assms(3-5) show ?thesis by (auto simp: restores_def)
qed

lemma Start_failed_not_started: "Start listen cert wait t = (Some e, t1) \<Longrightarrow> t_state t = TunnelNew \<Longrightarrow> t_state t1 \<noteq> TunnelStarted"
  by (auto simp: Start_def split: sum.splits option.splits prod.splits start_wait.splits)

lemma tunnel_phase_restores:
  assumes "rs_ready s = None" and "rs_tunnel s = None" and "tunnel_phase env pre cfg body s = (err, s')"
    and body: "\<And>tn e2 s2. t_state tn = TunnelStarted \<Longrightarrow> body tn (s\<lparr>rs_tunnel := Some tn\<rparr>) = (e2, s2) \<Longrightarrow>
      restores s (e2, s2) \<and> rs_tunnel s2 = Some tn \<and> P tn s2"
    and P: "\<And>tn s2 t. P tn s2 \<Longrightarrow> P tn (s2\<lparr>rs_tunnel := t\<rparr>)"
  shows "restores s (err, s') \<and> (\<forall>t. rs_tunnel s' = Some t \<longrightarrow> t_state t \<noteq> TunnelStarted) \<and>
    (rs_kernel s' = rs_kernel s \<and> rs_ready s' = None \<or> (\<exists>tn. t_state tn = TunnelStarted \<and> P tn s'))"
proof (cases "NewTunnel (re_shpErr env) cfg")
  case (Inl e)
  with assms(1-3) show ?thesis by (auto simp: tunnel_phase_def restores_def)
next
  case (Inr t)
  then have new: "t_state t = TunnelNew" by (auto simp: NewTunnel_def split: option.splits)
  obtain e t1 where st: "Start (re_listen env) (re_cert env) (re_wait env) t = (e, t1)"
    by (cases "Start (re_listen env) (re_cert env) (re_wait env) t") auto
  show ?thesis
  proof (cases e)
    case (Some e1)
    with st have "t_state t1 \<noteq> TunnelStarted" using Start_failed_not_started new by blast
    with Some Inr st assms(1-3) show ?thesis by (auto simp: tunnel_phase_def restores_def)
  next
    case None
    with st new have t1: "t_state t1 = TunnelStarted"
      by (auto simp: Start_def split: sum.splits option.splits prod.splits start_wait.splits)
    obtain e2 s2 where b: "body t1 (s\<lparr>rs_tunnel := Some t1\<rparr>) = (e2, s2)" by (cases "body t1 (s\<lparr>rs_tunnel := Some t1\<rparr>)") auto
    have r: "err = e2" "s' = s2\<lparr>rs_tunnel := map_option Stop (rs_tunnel s2)\<rparr>"
      using assms(3) Inr st None b by (auto simp: tunnel_phase_def)
    have "restores s (err, s')" "rs_tunnel s' = Some (Stop t1)" "P t1 s'"
      using body [OF t1 b] r P by (auto simp: restores_def)
    moreover have "t_state (Stop t1) \<noteq> TunnelStarted" by (auto simp: Stop_def)
    ultimately show ?thesis using t1 by auto
  qed
qed

lemma chrome_phase_restores:
  assumes "chrome_phase launch override auto body s = (err, s')" and "\<not> rs_chrome s" and "rs_ready s = None" and "Q s"
    and body: "\<And>url own e2 s2. body url (s\<lparr>rs_chrome := own\<rparr>) = (e2, s2) \<Longrightarrow> restores (s\<lparr>rs_chrome := own\<rparr>) (e2, s2) \<and> Q s2"
    and Q: "\<And>s2 c. Q s2 \<Longrightarrow> Q (s2\<lparr>rs_chrome := c\<rparr>)"
  shows "restores s (err, s') \<and> Q s'"
proof (cases "resolveChromeURL launch override auto")
  case (Inl e)
  with assms show ?thesis by (auto simp: chrome_phase_def restores_def)
next
  case (Inr x)
  obtain url own where x: "x = (url, own)" by (cases x)
  obtain e2 s2 where b: "body url (s\<lparr>rs_chrome := own\<rparr>) = (e2, s2)" by (cases "body url (s\<lparr>rs_chrome := own\<rparr>)") auto
  with Inr x assms(1) have "err = e2" "s' = (if own then s2\<lparr>rs_chrome := False\<rparr> else s2)" by (auto simp: chrome_phase_def)
  with body [OF b] Q assms(2) show ?thesis by (auto simp: restores_def)
qed

text \<open>Nothing is held, and if traffic was served it was by a running tunnel and a running kernel of the
  given configuration.\<close>

definition taken_down :: "'h run_env \<Rightarrow> string \<Rightarrow> kernel_config option \<Rightarrow> 'h \<Rightarrow> 'h run_state \<Rightarrow> bool" where
  "taken_down env iface cfg h0 s \<longleftrightarrow>
     (\<forall>t. rs_tunnel s = Some t \<longrightarrow> t_state t \<noteq> TunnelStarted) \<and>
     (\<forall>k. rs_kernel s = Some k \<longrightarrow> kn_state k \<noteq> KernelStarted \<and> (\<forall>d. kn_dev k = Some d \<longrightarrow> d_closed d)) \<and>
     (rs_ready s \<noteq> None \<longrightarrow> (\<exists>tn c. cfg = Some c \<and> t_state tn = TunnelStarted \<and> served env iface c tn h0 (rs_ready s)))"

definition holds_nothing :: "'h run_state \<Rightarrow> bool" where
  "holds_nothing s \<longleftrightarrow> \<not> rs_chrome s \<and> \<not> rs_tun_open s \<and> rs_tunnel s = None \<and> rs_kernel s = None \<and> rs_ready s = None"

lemma taken_down_chrome: "taken_down env iface cfg h0 s \<Longrightarrow> taken_down env iface cfg h0 (s\<lparr>rs_chrome := c\<rparr>)"
  by (simp add: taken_down_def)

lemma client_phase_restores:
  fixes s :: "'a run_state"
  assumes "holds_nothing (s\<lparr>rs_chrome := False\<rparr>)" and "\<forall>c. cfg = Some c \<longrightarrow> ip_reverses (re_ip env) (host_plan iface c)" and "ip_plain (re_ip env)"
    and t: "tunnel_phase env pre tcfg (\<lambda>tn s2. case cfg of None \<Rightarrow> (Some e0, s2) | Some c \<Rightarrow> kernel_phase env pre iface c tn s2) s = (err, s')"
  shows "restores s (err, s') \<and> taken_down env iface cfg (rs_host s) s'"
proof -
  have s: "rs_ready s = None" "rs_tunnel s = None" "rs_kernel s = None" "\<not> rs_tun_open s" using assms(1) by (simp_all add: holds_nothing_def)
  define P where "P = (\<lambda>tn (s2 :: 'a run_state). (\<forall>k. rs_kernel s2 = Some k \<longrightarrow> kn_state k \<noteq> KernelStarted \<and> (\<forall>d. kn_dev k = Some d \<longrightarrow> d_closed d)) \<and>
    (rs_ready s2 \<noteq> None \<longrightarrow> (\<exists>c. cfg = Some c \<and> served env iface c tn (rs_host s) (rs_ready s2))))"
  have body: "restores s (e2, s2) \<and> rs_tunnel s2 = Some tn \<and> P tn s2"
    if b: "(case cfg of None \<Rightarrow> (Some e0, s\<lparr>rs_tunnel := Some tn\<rparr>) | Some c \<Rightarrow> kernel_phase env pre iface c tn (s\<lparr>rs_tunnel := Some tn\<rparr>)) = (e2, s2)" for tn e2 s2
  proof (cases cfg)
    case None
    with b s show ?thesis by (auto simp: restores_def P_def)
  next
    case (Some c)
    with kernel_phase_restores [of env iface c "s\<lparr>rs_tunnel := Some tn\<rparr>" pre tn e2 s2] b assms(2,3) s show ?thesis
      by (auto simp: restores_def P_def)
  qed
  have "P tn (s2\<lparr>rs_tunnel := t\<rparr>)" if "P tn s2" for tn s2 t using that by (simp add: P_def)
  from tunnel_phase_restores [OF s(1,2) t body this] show ?thesis
    using s(3) unfolding P_def taken_down_def by auto
qed

text \<open>The kernel's configuration of each command, when it gets that far.\<close>

definition file_kernel_config :: "(nat \<Rightarrow> nat \<Rightarrow> nat \<Rightarrow> nat) \<Rightarrow> (string \<Rightarrow> opened) \<Rightarrow> connect_flags \<Rightarrow> kernel_config option" where
  "file_kernel_config frac files f =
     (case bind_res (parseWGConfig frac (files (source_arg f))) buildKernelConfig of Inl e \<Rightarrow> None | Inr c \<Rightarrow> Some c)"

definition url_kernel_config :: "share_errs \<Rightarrow> connect_flags \<Rightarrow> kernel_config option" where
  "url_kernel_config se f = (case share_Parse se (source_arg f) of Inl e \<Rightarrow> None | Inr p \<Rightarrow> Some (ToKernelConfig p))"

lemma runConnect_restores:
  assumes s: "holds_nothing s" and ip: "\<forall>c. ip_reverses (re_ip env) (host_plan (cf_iface f) c)" "ip_plain (re_ip env)"
    and r: "runConnect env frac files launch f s = (err, s')"
  shows "restores s (err, s') \<and> taken_down env (cf_iface f) (file_kernel_config frac files f) (rs_host s) s'"
proof (cases "parseWGConfig frac (files (source_arg f))")
  case (Inl e)
  with s r show ?thesis by (auto simp: runConnect_def restores_def taken_down_def holds_nothing_def Let_def split: if_splits)
next
  case (Inr st)
  let ?cfg = "file_kernel_config frac files f"
  have cfg: "(case buildKernelConfig st of Inl e \<Rightarrow> (Some (wrapf ''config -> kernel: '' e), s2) | Inr c \<Rightarrow> kernel_phase env [] (cf_iface f) c tn s2) =
      (case ?cfg of None \<Rightarrow> (Some (wrapf ''config -> kernel: '' (projl (buildKernelConfig st))), s2) | Some c \<Rightarrow> kernel_phase env [] (cf_iface f) c tn s2)" for tn s2
    using Inr by (simp add: file_kernel_config_def split: sum.splits)
  show ?thesis
  proof (cases "source_arg f = [] \<or> is_err (ToTunnelConfig st)")
    case True
    with s r Inr show ?thesis
      by (auto simp: runConnect_def restores_def taken_down_def holds_nothing_def Let_def split: if_splits sum.splits)
  next
    case False
    then obtain tc where tc: "ToTunnelConfig st = Inr tc" "source_arg f \<noteq> []" by (cases "ToTunnelConfig st") auto
    show ?thesis
      using r unfolding runConnect_def Let_def Inr tc(1) if_not_P [OF tc(2)] sum.case cfg
    proof (rule chrome_phase_restores)
      show "\<not> rs_chrome s" "rs_ready s = None" "taken_down env (cf_iface f) ?cfg (rs_host s) s"
        using s by (auto simp: holds_nothing_def taken_down_def)
    next
      fix url own e2 s2
      assume t: "tunnel_phase env [] (tc\<lparr>tc_Logger := Some (), tc_Protector := Some (),
            tc_Provider := Some (re_routed env (pickCaptchaSolver url (cf_vkChromeUA f)))\<rparr>)
          (\<lambda>tn s2. case ?cfg of None \<Rightarrow> (Some (wrapf ''config -> kernel: '' (projl (buildKernelConfig st))), s2)
             | Some c \<Rightarrow> kernel_phase env [] (cf_iface f) c tn s2) (s\<lparr>rs_chrome := own\<rparr>) = (e2, s2)"
      have "holds_nothing (s\<lparr>rs_chrome := own, rs_chrome := False\<rparr>)" using s by (simp add: holds_nothing_def)
      from client_phase_restores [OF this _ ip(2) t] ip(1)
      show "restores (s\<lparr>rs_chrome := own\<rparr>) (e2, s2) \<and> taken_down env (cf_iface f) ?cfg (rs_host s) s2" by simp
    qed (rule taken_down_chrome)
  qed
qed

lemma runConnectURL_restores:
  assumes s: "holds_nothing s" and ip: "\<forall>c. ip_reverses (re_ip env) (host_plan (cf_iface f) c)" "ip_plain (re_ip env)"
    and r: "runConnectURL env se launch f s = (err, s')"
  shows "restores s (err, s') \<and> taken_down env (cf_iface f) (url_kernel_config se f) (rs_host s) s'"
proof (cases "share_Parse se (source_arg f)")
  case (Inl e)
  with s r show ?thesis by (auto simp: runConnectURL_def restores_def taken_down_def holds_nothing_def Let_def split: if_splits)
next
  case (Inr prof)
  let ?cfg = "url_kernel_config se f"
  have cfg: "?cfg = Some (ToKernelConfig prof)" using Inr by (simp add: url_kernel_config_def)
  show ?thesis
  proof (cases "source_arg f = [] \<or> splitLinks (cf_vkLink f) = []")
    case True
    with s r Inr show ?thesis
      by (auto simp: runConnectURL_def restores_def taken_down_def holds_nothing_def Let_def split: if_splits)
  next
    case False
    then have src: "source_arg f \<noteq> []" "splitLinks (cf_vkLink f) \<noteq> []" by simp_all
    show ?thesis
      using r unfolding runConnectURL_def Let_def Inr if_not_P [OF src(1)] if_not_P [OF src(2)] sum.case
    proof (rule chrome_phase_restores)
      show "\<not> rs_chrome s" "rs_ready s = None" "taken_down env (cf_iface f) ?cfg (rs_host s) s"
        using s by (auto simp: holds_nothing_def taken_down_def)
    next
      fix url own e2 s2
      let ?tc = "url_tunnel_config (re_routed env (pickCaptchaSolver url (cf_vkChromeUA f))) prof (cf_vkLink f)"
      assume t: "(case ?tc of Inl e \<Rightarrow> (Some e, s\<lparr>rs_chrome := own\<rparr>)
          | Inr turnCfg \<Rightarrow> tunnel_phase env ''connect-url: '' turnCfg
              (\<lambda>tn s2. kernel_phase env ''connect-url: '' (cf_iface f) (ToKernelConfig prof) tn s2) (s\<lparr>rs_chrome := own\<rparr>)) = (e2, s2)"
      obtain l ls where "splitLinks (cf_vkLink f) = l # ls" using src(2) by (cases "splitLinks (cf_vkLink f)") auto
      then obtain tc where tc: "?tc = Inr tc" by (auto simp: url_tunnel_config_def Let_def)
      have "holds_nothing (s\<lparr>rs_chrome := own, rs_chrome := False\<rparr>)" using s by (simp add: holds_nothing_def)
      from client_phase_restores [OF this _ ip(2), of ?cfg "cf_iface f" "''connect-url: ''" tc undefined e2 s2] ip(1) t
      show "restores (s\<lparr>rs_chrome := own\<rparr>) (e2, s2) \<and> taken_down env (cf_iface f) ?cfg (rs_host s) s2"
        by (simp add: cfg tc)
    qed (rule taken_down_chrome)
  qed
qed


section \<open>The client comes up\<close>

text \<open>An outside that cooperates: the hub gets its socket, a stream becomes ready, the devices work and
  every command of \<open>ip\<close> succeeds.\<close>

definition cooperates :: "'h run_env \<Rightarrow> string \<Rightarrow> bool" where
  "cooperates env addr \<longleftrightarrow> re_listen env = Inr addr \<and> addr \<noteq> [] \<and> line_ok addr \<and> re_cert env = None \<and> re_wait env = WaitReady \<and>
     (\<exists>tun. re_tun env = Inr tun) \<and> re_kctx env = None \<and> re_ipcSet env = (\<lambda>_. None) \<and> re_up env = None \<and>
     (\<forall>args h. fst (fst (re_ip env args h)) = None)"

lemma run_plan_succeeds: "\<forall>args h. fst (fst (ip args h)) = None \<Longrightarrow> \<exists>us h'. run_plan ip ps undo h = (Inr us, h')"
proof (induction ps arbitrary: undo h)
  case (Cons p ps)
  obtain d u m where p: "p = (d, u, m)" by (cases p) auto
  obtain h1 where "runIP ip d h = (None, h1)"
    using Cons.prems runIP_state(2) [of ip d h] by (cases "runIP ip d h") auto
  with Cons p show ?case by auto
qed simp

lemma host_phase_succeeds:
  assumes "\<forall>args h. fst (fst (re_ip env args h)) = None"
  shows "fst (host_phase env pre iface cfg tn k s) = None"
proof (cases "re_goos env = ''linux''")
  case True
  obtain us h' where "run_plan (re_ip env) (host_plan iface cfg) [] (rs_host s) = (Inr us, h')" using run_plan_succeeds [OF assms] by blast
  with True show ?thesis by (simp add: host_phase_def setupHostIface_def setup_plan Let_def)
next
  case False
  then show ?thesis by (simp add: host_phase_def setupHostIface_def errHostSetupUnsupported_def errors_Is_def)
qed

lemma Start_succeeds:
  assumes "NewTunnel shpErr cfg = Inr t"
  shows "\<exists>t1. Start (Inr addr) None WaitReady t = (None, t1) \<and> LocalAddr t1 = Some addr"
proof -
  have v: "Validate shpErr cfg = None" "t = \<lparr>t_cfg = withDefaults cfg, t_hub = None, t_cancelled = False, t_state = TunnelNew\<rparr>"
    using assms by (auto simp: NewTunnel_def split: option.splits)
  show ?thesis using NewHub_valid [OF v(1)] by (auto simp: Start_def v(2) hub_Start_def signalReady_def LocalAddr_def Let_def)
qed

text \<open>The keys of a profile are WireGuard keys.\<close>

definition keys_decode :: "(string \<Rightarrow> go_error) \<Rightarrow> profile \<Rightarrow> bool" where
  "keys_decode b64Err p \<longleftrightarrow> \<not> is_err (decodeWGKey b64Err (pf_ClientPrivateKey p)) \<and> \<not> is_err (decodeWGKey b64Err (pf_ServerPublicKey p)) \<and>
     (pf_PresharedKey p \<noteq> [] \<longrightarrow> \<not> is_err (decodeWGKey b64Err (pf_PresharedKey p)))"

lemma kernel_phase_succeeds:
  assumes "cooperates env addr" and "LocalAddr tn = Some addr" and "keys_decode (re_b64Err env) p" and "profile_wf p"
    and "0 \<le> pf_MTU p" and "0 \<le> pf_PersistentKeepalive p"
  shows "fst (kernel_phase env pre iface (ToKernelConfig p) tn s) = None"
proof -
  let ?cfg = "ToKernelConfig p" and ?e = "re_b64Err env"
  obtain tun where env: "re_tun env = Inr tun" "re_kctx env = None" "re_ipcSet env = (\<lambda>_. None)" "re_up env = None"
    "\<forall>args h. fst (fst (re_ip env args h)) = None" using assms(1) by (auto simp: cooperates_def)
  have val: "kc_Validate ?e ?cfg = None" using assms(3-6) by (intro ToKernelConfig_valid) (simp_all add: keys_decode_def)
  then obtain k where k: "NewKernel ?e ?cfg (Some tun) [OptLogger (Some (HostLogger 0)), OptTurnTunnel (Some 0)] = Inr k" by (simp add: NewKernel_def)
  note kn = NewKernel_ok [OF k]
  have sc: "started_config (\<lambda>_. tn) k = Inr (rewrite_endpoints addr (kc_withDefaults ?cfg))"
    using k kn(2) assms(2) by (auto simp: started_config_def NewKernel_def WithTurnTunnel_def split: option.splits)
  have "kc_Validate ?e (rewrite_endpoints addr (kc_withDefaults ?cfg)) = None" by (rule Validate_started [OF kn(1,2) sc])
  moreover have "\<forall>q \<in> set (kc_Peers (rewrite_endpoints addr (kc_withDefaults ?cfg))). endpoint_ok q \<and> (\<forall>a \<in> set (pc_AllowedIPs q). prefix_ok a)"
    using ToKernelConfig_allowed [OF assms(4)] assms(1) by (auto simp: rewrite_endpoints_def endpoint_ok_def cooperates_def)
  ultimately obtain ipc where "IPC ?e (rewrite_endpoints addr (kc_withDefaults ?cfg)) = Inr ipc" using IPC_denotes by blast
  then obtain k1 dev where "kernel_Start ?e None (\<lambda>_. tn) (\<lambda>_. None) None k = (None, k1, dev)"
    using sc kn(3) by (auto simp: kernel_Start_def Let_def)
  then have "fst (started_kernel_phase env pre iface ?cfg tn tun s1) = None" for s1
    using k env host_phase_succeeds [OF env(5), of pre iface ?cfg tn k1 "s1\<lparr>rs_kernel := Some k1\<rparr>"]
    by (simp add: started_kernel_phase_def case_prod_beta)
  then show ?thesis using env(1) by (simp add: kernel_phase_def case_prod_beta)
qed

lemma Validate_fields:
  assumes "tc_PeerAddr a = tc_PeerAddr b" and "tc_ListenAddr a = tc_ListenAddr b" and "tc_Streams a = tc_Streams b"
    and "tc_StreamsPerCred a = tc_StreamsPerCred b" and "tc_WatchdogTimeout a = tc_WatchdogTimeout b" and "tc_Provider a = tc_Provider b"
    and "tc_Protector a = tc_Protector b" and "tc_PeerType a = tc_PeerType b"
  shows "Validate e a = Validate e b"
  unfolding Validate_def assms ..


text \<open>A host that keeps the commands in force.\<close>

definition stack_ip :: "string list list ip_tool" where
  "stack_ip args h = ((None, []), if args ! 1 = ''del'' \<or> args ! 3 = ''down'' then tl h else args # h)"

definition demo_run_env :: "string list list run_env" where
  "demo_run_env = \<lparr>re_shpErr = (\<lambda>_. []), re_listen = Inr ''127.0.0.1:9000'', re_cert = None, re_wait = WaitReady, re_tun = Inr 3,
     re_b64Err = errors_New, re_kctx = None, re_ipcSet = (\<lambda>_. None), re_up = None, re_goos = ''linux'', re_ip = stack_ip,
     re_routed = (\<lambda>_ _ _. Inr zero_credentials)\<rparr>"

definition demo_flags :: "string \<Rightarrow> connect_flags" where
  "demo_flags url = \<lparr>cf_source = url, cf_positional = [], cf_iface = ''wg0'', cf_vkLink = ''https://vk.com/call/join/x'',
     cf_vkChromeURL = ''http://c:9222'', cf_vkChromeAuto = True, cf_vkChromeUA = []\<rparr>"

definition idle :: "string list list run_state" where
  "idle = \<lparr>rs_chrome = False, rs_tunnel = None, rs_tun_open = False, rs_kernel = None, rs_host = [], rs_ready = None\<rparr>"

lemma stack_ip_reverses: "ip_reverses stack_ip (host_plan ''wg0'' c)"
  by (auto simp: ip_reverses_def host_plan_def link_step_def addr_step_def route_step_def stack_ip_def)

lemma demo_cooperates: "cooperates demo_run_env ''127.0.0.1:9000''"
  by (simp add: cooperates_def demo_run_env_def line_ok_def newline_def stack_ip_def)



end
