(* ===== verification/Srv_Session.thy ===== *)
theory Srv_Session
  imports Wgt_Prelude
begin

text \<open>
  The sessions of the server, \<open>pkg/wgturnsrv/session.go\<close>: the table of streams of a session
  (\<open>addStream\<close>, \<open>removeStream\<close>, \<open>snapshotStreams\<close>), the round-robin return path of
  \<open>runBackend\<close> with its 64-bit counter, and one iteration of \<open>runStream\<close>; and the server's
  configuration, \<open>config.go\<close>. Connections are numbered. The locale \<open>stream_slots\<close> is what
  the server relies on of the table, as equations on the slot map; \<open>ss\<close> interprets it.
\<close>

section \<open>Definitions\<close>

type_synonym conn = nat

subsection \<open>Configuration\<close>

definition DefaultHandshakeTimeout :: duration where "DefaultHandshakeTimeout = 30 * second"
definition DefaultStreamReadTimeout :: duration where "DefaultStreamReadTimeout = 5 * minute"
definition DefaultBackendWriteTimeout :: duration where "DefaultBackendWriteTimeout = 5 * second"

text \<open>The backend and the logger are \<open>None\<close> where the Go field is nil.\<close>

record ('backend, 'logger) srv_config =
  ListenAddr :: string
  Backend :: "'backend option"
  Logger :: "'logger option"
  HandshakeTimeout :: duration
  StreamReadTimeout :: duration
  BackendWriteTimeout :: duration

definition errInvalid :: "string \<Rightarrow> go_error" where
  "errInvalid msg = GoError (''wgturnsrv: invalid config: '' @ msg) [ErrSrvInvalidConfig]"

definition srv_validate :: "('b, 'l) srv_config \<Rightarrow> go_error option" where
  "srv_validate c =
     (if ListenAddr c = [] then Some (errInvalid ''ListenAddr is required'')
      else if Backend c = None then Some (errInvalid ''Backend is required'')
      else None)"

definition srv_withDefaults :: "'l \<Rightarrow> ('b, 'l) srv_config \<Rightarrow> ('b, 'l) srv_config" where
  "srv_withDefaults noop c =
     c\<lparr>Logger := (case Logger c of None \<Rightarrow> Some noop | Some l \<Rightarrow> Some l),
       HandshakeTimeout := (if HandshakeTimeout c \<le> 0 then DefaultHandshakeTimeout
                            else HandshakeTimeout c),
       StreamReadTimeout := (if StreamReadTimeout c \<le> 0 then DefaultStreamReadTimeout
                             else StreamReadTimeout c),
       BackendWriteTimeout := (if BackendWriteTimeout c \<le> 0 then DefaultBackendWriteTimeout
                               else BackendWriteTimeout c)\<rparr>"

subsection \<open>The stream table\<close>

definition readBufSize :: nat where "readBufSize = 1600"

type_synonym stream_entry = "byte \<times> conn"

definition add_stream :: "byte \<Rightarrow> conn \<Rightarrow> stream_entry list \<Rightarrow> conn option \<times> stream_entry list" where
  "add_stream streamID c xs =
     (case find_index (\<lambda>e. fst e = streamID) xs of
        Some i \<Rightarrow> (Some (snd (xs ! i)), xs[i := (fst (xs ! i), c)])
      | None \<Rightarrow> (None, xs @ [(streamID, c)]))"

definition remove_stream :: "byte \<Rightarrow> conn \<Rightarrow> stream_entry list \<Rightarrow> stream_entry list \<times> bool" where
  "remove_stream streamID c xs =
     (let ys = (case find_index (\<lambda>e. \<not> (fst e \<noteq> streamID \<or> snd e \<noteq> c)) xs of
                  Some i \<Rightarrow> delete_at i xs
                | None \<Rightarrow> xs)
      in (ys, length ys = 0))"

definition snapshotStreams :: "stream_entry list \<Rightarrow> stream_entry list" where
  "snapshotStreams xs = (if length xs = 0 then [] else xs)"

subsection \<open>The session\<close>

text \<open>How far \<open>terminate\<close> has come: it was not called; the compare-and-swap on
  \<open>terminated\<close> succeeded; the context is cancelled and the backend closed;
  \<open>onTerminate\<close> has run; the streams are closed and the table is empty.\<close>

datatype term_phase = Running | Claimed | Released | Unmapped | Finished

record session =
  s_id :: string
  s_streams :: "stream_entry list"
  s_rrCounter :: u64
  s_phase :: term_phase
  s_ctxDone :: bool
  s_backendOpen :: bool

definition newSession :: "string \<Rightarrow> session" where
  "newSession sid = \<lparr>s_id = sid, s_streams = [], s_rrCounter = 0, s_phase = Running,
                     s_ctxDone = False, s_backendOpen = True\<rparr>"

definition s_terminated :: "session \<Rightarrow> bool" where
  "s_terminated s \<longleftrightarrow> s_phase s \<noteq> Running"

definition streamCount :: "session \<Rightarrow> nat" where
  "streamCount s = length (s_streams s)"

text \<open>\<open>addStream\<close> without interference: the check of \<open>terminated\<close> and the insertion
  under the lock in one go. The server takes them as two steps.\<close>

definition addStream :: "byte \<Rightarrow> conn \<Rightarrow> session \<Rightarrow> (conn option \<times> bool) \<times> session" where
  "addStream streamID c s =
     (if s_terminated s then ((None, False), s)
      else (let (displaced, xs) = add_stream streamID c (s_streams s)
            in ((displaced, True), s\<lparr>s_streams := xs\<rparr>)))"

definition removeStream :: "byte \<Rightarrow> conn \<Rightarrow> session \<Rightarrow> bool \<times> session" where
  "removeStream streamID c s =
     (let (xs, drained) = remove_stream streamID c (s_streams s)
      in (drained, s\<lparr>s_streams := xs\<rparr>))"

text \<open>The steps of \<open>terminate\<close> after its compare-and-swap, each on the session record; the
  server's map entry is removed at the step to \<open>Unmapped\<close>. The last step returns the
  connections it closes.\<close>

definition terminate_claim :: "session \<Rightarrow> bool \<times> session" where
  "terminate_claim s = (if s_terminated s then (False, s) else (True, s\<lparr>s_phase := Claimed\<rparr>))"

definition terminate_release :: "session \<Rightarrow> session" where
  "terminate_release s = s\<lparr>s_phase := Released, s_ctxDone := True, s_backendOpen := False\<rparr>"

definition terminate_streams :: "session \<Rightarrow> conn list \<times> session" where
  "terminate_streams s =
     (map snd (s_streams s), s\<lparr>s_phase := Finished, s_streams := []\<rparr>)"

subsection \<open>The return path\<close>

datatype backend_action =
    BackendStop
  | BackendDrop
  | BackendDispatch conn bytes
  | BackendPanic

text \<open>\<open>int(s.rrCounter.Add(1)-1) % len(streams)\<close>: the conversion reads the 64-bit counter as
  a signed number, and Go's remainder has the sign of the dividend.\<close>

definition rr_index :: "u64 \<Rightarrow> nat \<Rightarrow> int" where
  "rr_index rr n = go_mod (sint (rr + 1 - 1)) (int n)"

definition runBackend_iter :: "bytes res \<Rightarrow> session \<Rightarrow> backend_action \<times> session" where
  "runBackend_iter rd s =
     (case rd of
        Inl err \<Rightarrow> (BackendStop, s)
      | Inr pkt \<Rightarrow>
          (let streams = snapshotStreams (s_streams s) in
           if length streams = 0 then (BackendDrop, s)
           else (let idx = rr_index (s_rrCounter s) (length streams);
                     s' = s\<lparr>s_rrCounter := s_rrCounter s + 1\<rparr>
                 in if 0 \<le> idx \<and> idx < int (length streams)
                    then (BackendDispatch (snd (streams ! nat idx)) (take readBufSize pkt), s')
                    else (BackendPanic, s'))))"

text \<open>The stream reader: forward, leave, or tear the session down and leave.\<close>

datatype stream_action = StreamForward bytes | StreamExit | StreamTerminate

definition runStream_iter :: "bytes res \<Rightarrow> go_error option \<Rightarrow> stream_action" where
  "runStream_iter rd werr =
     (case rd of
        Inl err \<Rightarrow> StreamExit
      | Inr pkt \<Rightarrow> (case werr of None \<Rightarrow> StreamForward (take readBufSize pkt)
                   | Some _ \<Rightarrow> StreamTerminate))"

fun runBackend_run :: "bytes list \<Rightarrow> session \<Rightarrow> backend_action list \<times> session" where
  "runBackend_run [] s = ([], s)"
| "runBackend_run (pkt # pkts) s =
     (let (a, s1) = runBackend_iter (Inr pkt) s; (as, s2) = runBackend_run pkts s1
      in (a # as, s2))"

section \<open>The interface of the stream table\<close>

locale stream_slots =
  fixes slots :: "'t \<Rightarrow> byte \<rightharpoonup> conn"
    and inv :: "'t \<Rightarrow> bool"
    and add :: "byte \<Rightarrow> conn \<Rightarrow> 't \<Rightarrow> conn option \<times> 't"
    and remove :: "byte \<Rightarrow> conn \<Rightarrow> 't \<Rightarrow> 't \<times> bool"
  assumes add_slots: "inv t \<Longrightarrow> add b c t = (d, t') \<Longrightarrow>
        inv t' \<and> slots t' = (slots t)(b \<mapsto> c) \<and> d = slots t b"
    and remove_slots: "inv t \<Longrightarrow> remove b c t = (t', drained) \<Longrightarrow>
        inv t' \<and> slots t' = (if slots t b = Some c then (slots t)(b := None) else slots t) \<and>
        (drained \<longleftrightarrow> slots t' = Map.empty)"
begin

text \<open>The loser of an eviction cannot remove the winner: after \<open>c'\<close> took the slot of
  \<open>c\<close>, removing \<open>c\<close> changes nothing.\<close>

lemma loser_keeps_winner:
  assumes "inv t" and "add b c' t = (d, t1)" and "c \<noteq> c'" and "remove b c t1 = (t2, drained)"
  shows "slots t2 = slots t1 \<and> slots t2 b = Some c' \<and> \<not> drained"
proof -
  from add_slots [OF assms(1,2)] have 1: "inv t1" "slots t1 = (slots t)(b \<mapsto> c')" by auto
  from remove_slots [OF 1(1) assms(4)] 1(2) assms(3)
  have 2: "slots t2 = slots t1" "drained \<longleftrightarrow> slots t2 = Map.empty" by auto
  have "slots t2 b = Some c'" using 1(2) 2(1) by simp
  moreover from this have "\<not> drained" using 2(2) by auto
  ultimately show ?thesis using 2(1) by blast
qed

lemma add_remove:
  assumes "inv t" and "add b c t = (d, t1)" and "remove b c t1 = (t2, drained)"
  shows "inv t2 \<and> slots t2 = (slots t)(b := None)"
proof -
  from add_slots [OF assms(1,2)] have 1: "inv t1" "slots t1 = (slots t)(b \<mapsto> c)" by auto
  from remove_slots [OF 1(1) assms(3)] 1(2) show ?thesis by auto
qed

end

definition slots_wf :: "stream_entry list \<Rightarrow> bool" where
  "slots_wf xs \<longleftrightarrow> distinct (map fst xs)"

lemma map_of_delete_at:
  assumes "distinct (map fst xs)" and "i < length xs"
  shows "map_of (delete_at i xs) = (map_of xs)(fst (xs ! i) := None)"
proof -
  have xs: "xs = take i xs @ xs ! i # drop (Suc i) xs"
    using assms(2) by (simp add: id_take_nth_drop)
  then have d: "distinct (map fst (take i xs @ xs ! i # drop (Suc i) xs))" using assms(1) by simp
  then have "map_of (take i xs) (fst (xs ! i)) = None" "map_of (drop (Suc i) xs) (fst (xs ! i)) = None"
    by (auto simp: map_of_eq_None_iff)
  then have "map_of (delete_at i xs) k = ((map_of (take i xs @ xs ! i # drop (Suc i) xs))(fst (xs ! i) := None)) k"
    for k by (cases "xs ! i") (auto simp: delete_at_def map_add_def split: option.splits)
  then show ?thesis using xs by (metis ext)
qed

lemma map_of_list_update_snd:
  assumes "distinct (map fst xs)" and "i < length xs"
  shows "map_of (xs[i := (fst (xs ! i), c)]) = (map_of xs)(fst (xs ! i) \<mapsto> c)"
proof -
  have xs: "xs = take i xs @ xs ! i # drop (Suc i) xs"
    using assms(2) by (simp add: id_take_nth_drop)
  then have d: "distinct (map fst (take i xs @ xs ! i # drop (Suc i) xs))" using assms(1) by simp
  then have "map_of (take i xs) (fst (xs ! i)) = None" by (auto simp: map_of_eq_None_iff)
  then have "map_of (take i xs @ (fst (xs ! i), c) # drop (Suc i) xs) k =
      ((map_of (take i xs @ xs ! i # drop (Suc i) xs))(fst (xs ! i) \<mapsto> c)) k" for k
    by (cases "xs ! i") (auto simp: map_add_def split: option.splits)
  then show ?thesis using xs assms(2) by (metis ext upd_conv_take_nth_drop)
qed

lemma add_stream_slots:
  assumes "slots_wf xs" and "add_stream b c xs = (d, ys)"
  shows "slots_wf ys \<and> map_of ys = (map_of xs)(b \<mapsto> c) \<and> d = map_of xs b"
proof (cases "find_index (\<lambda>e. fst e = b) xs")
  case None
  have d: "d = None" and ys: "ys = xs @ [(b, c)]"
    using assms(2) unfolding add_stream_def None by simp_all
  have nb: "map_of xs b = None" using None by (auto simp: map_of_eq_None_iff)
  have "map_of ys k = ((map_of xs)(b \<mapsto> c)) k" for k
    using nb by (auto simp: ys map_add_def split: option.splits)
  then have "map_of ys = (map_of xs)(b \<mapsto> c)" by (rule ext)
  moreover have "slots_wf ys" using None assms(1) by (auto simp: slots_wf_def ys)
  ultimately show ?thesis using nb d by simp
next
  case (Some i)
  from find_index_Some [OF Some] have i: "i < length xs" "fst (xs ! i) = b" by auto
  with Some assms(2) have ys: "ys = xs[i := (fst (xs ! i), c)]" "d = Some (snd (xs ! i))"
    by (auto simp: add_stream_def)
  have wf: "distinct (map fst xs)" using assms(1) by (simp add: slots_wf_def)
  have "map_of xs b = Some (snd (xs ! i))"
    using wf i by (metis map_of_eq_Some_iff nth_mem prod.collapse)
  moreover have "map fst ys = map fst xs"
    unfolding ys by (rule map_list_update_same) simp
  ultimately show ?thesis
    using wf ys i map_of_list_update_snd [OF wf i(1), of c] by (simp add: slots_wf_def)
qed

lemma remove_stream_slots:
  assumes "slots_wf xs" and "remove_stream b c xs = (ys, drained)"
  shows "slots_wf ys \<and>
    map_of ys = (if map_of xs b = Some c then (map_of xs)(b := None) else map_of xs) \<and>
    (drained \<longleftrightarrow> map_of ys = Map.empty)"
proof -
  let ?P = "\<lambda>e. \<not> (fst e \<noteq> b \<or> snd e \<noteq> c)"
  have wf: "distinct (map fst xs)" using assms(1) by (simp add: slots_wf_def)
  have drained: "drained \<longleftrightarrow> ys = []" using assms(2) by (auto simp: remove_stream_def Let_def)
  have emp: "(map_of ys = Map.empty) = (ys = [])" for ys :: "stream_entry list"
    by (cases ys) (auto simp: fun_eq_iff split: if_splits)
  show ?thesis
  proof (cases "find_index ?P xs")
    case None
    have ys: "ys = xs" using assms(2) unfolding remove_stream_def None by simp
    have "(b, c) \<notin> set xs" using None by auto
    then have "map_of xs b \<noteq> Some c" by (meson map_of_SomeD)
    with assms(1) drained emp show ?thesis by (simp add: ys)
  next
    case (Some i)
    from find_index_Some [OF Some] have i: "i < length xs" "xs ! i = (b, c)" by (auto simp: prod_eq_iff)
    have ys: "ys = delete_at i xs" using Some assms(2) by (auto simp: remove_stream_def Let_def)
    have "map_of xs b = Some c" using wf i by (metis map_of_eq_Some_iff nth_mem)
    moreover have "distinct (map fst ys)"
      using distinct_delete_at [OF wf] by (simp add: ys map_delete_at)
    ultimately show ?thesis
      using map_of_delete_at [OF wf i(1)] i(2) ys drained emp by (auto simp: slots_wf_def)
  qed
qed

interpretation ss: stream_slots map_of slots_wf add_stream remove_stream
  by unfold_locales (auto dest: add_stream_slots remove_stream_slots)

lemma slots_wf_Nil [simp]: "slots_wf []" by (simp add: slots_wf_def)

section \<open>Streams of a session\<close>

definition session_wf :: "session \<Rightarrow> bool" where
  "session_wf s \<longleftrightarrow> slots_wf (s_streams s) \<and> (s_phase s = Finished \<longrightarrow> s_streams s = [])"

lemma newSession_wf [simp]: "session_wf (newSession sid)"
  by (simp add: session_wf_def newSession_def)

lemma addStream_wf [wgt_inv]:
  assumes "session_wf s"
  shows "session_wf (snd (addStream b c s))"
proof (cases "s_terminated s")
  case True
  with assms show ?thesis by (simp add: addStream_def)
next
  case False
  obtain d ys where a: "add_stream b c (s_streams s) = (d, ys)" by fastforce
  have "slots_wf ys" using add_stream_slots [OF _ a] assms by (simp add: session_wf_def)
  with a False show ?thesis by (simp add: addStream_def session_wf_def s_terminated_def)
qed

lemma removeStream_wf [wgt_inv]:
  assumes "session_wf s"
  shows "session_wf (snd (removeStream b c s))"
proof -
  obtain ys d where r: "remove_stream b c (s_streams s) = (ys, d)" by fastforce
  have "slots_wf ys" using remove_stream_slots [OF _ r] assms by (simp add: session_wf_def)
  moreover have "s_streams s = [] \<Longrightarrow> ys = []" using r by (simp add: remove_stream_def)
  ultimately show ?thesis using r assms by (auto simp: removeStream_def session_wf_def)
qed

text \<open>C14: Eviction on conflict. When a connection registers under a stream id that is taken, the
  old occupant is returned (so that it can be closed), the new one holds the slot, every other
  slot is as before; and when the evicted connection's handler later unregisters itself, the
  winner keeps its slot and the session is not reported as drained.\<close>

theorem eviction_keeps_winner:
  assumes "session_wf s" and "\<not> s_terminated s"
    and "map_of (s_streams s) b = Some c" and "c \<noteq> c'"
  shows "let (r, s1) = addStream b c' s; (drained, s2) = removeStream b c s1
    in r = (Some c, True) \<and> map_of (s_streams s2) = (map_of (s_streams s))(b \<mapsto> c') \<and>
       \<not> drained \<and> session_wf s2"
proof -
  obtain d xs where a: "add_stream b c' (s_streams s) = (d, xs)" by fastforce
  have s1: "addStream b c' s = ((d, True), s\<lparr>s_streams := xs\<rparr>)"
    using assms(2) a by (simp add: addStream_def)
  obtain ys dr where m: "remove_stream b c xs = (ys, dr)" by fastforce
  have s2: "removeStream b c (s\<lparr>s_streams := xs\<rparr>) = (dr, s\<lparr>s_streams := ys\<rparr>)"
    using m by (simp add: removeStream_def)
  have wf: "slots_wf (s_streams s)" using assms(1) by (simp add: session_wf_def)
  from ss.add_slots [OF wf a] have ad: "map_of xs = (map_of (s_streams s))(b \<mapsto> c')" "d = Some c"
    using assms(3) by auto
  from ss.loser_keeps_winner [OF wf a assms(4) m] have "map_of ys = map_of xs" "\<not> dr" by auto
  moreover have "session_wf (s\<lparr>s_streams := xs\<rparr>)"
    using addStream_wf [OF assms(1), of b c'] s1 by simp
  then have "session_wf (s\<lparr>s_streams := ys\<rparr>)"
    using removeStream_wf [of "s\<lparr>s_streams := xs\<rparr>" b c] s2 by simp
  ultimately show ?thesis by (simp add: s1 s2 ad)
qed

theorem eviction_keeps_winner_witness:
  "let s = (newSession ''s'')\<lparr>s_streams := [(3, 0), (7, 1)]\<rparr>;
       (r, s1) = addStream 7 2 s; (drained, s2) = removeStream 7 1 s1
   in r = (Some 1, True) \<and> map_of (s_streams s2) = (map_of (s_streams s))(7 \<mapsto> 2) \<and>
      \<not> drained \<and> session_wf s2"
  unfolding Let_def [of "(newSession ''s'')\<lparr>s_streams := [(3, 0), (7, 1)]\<rparr>"]
  by (rule eviction_keeps_winner)
    (simp_all add: session_wf_def slots_wf_def newSession_def s_terminated_def)

section \<open>Round robin\<close>

lemma sint_of_nat_small: "k < 2 ^ 63 \<Longrightarrow> sint (of_nat k :: u64) = int k"
  by (simp add: sint_uint signed_take_bit_int_eq_self unsigned_of_nat take_bit_nat_eq_self)

lemma rr_index_small:
  assumes "k < 2 ^ 63" and "0 < n"
  shows "rr_index (of_nat k) n = int (k mod n)"
  using assms by (simp add: rr_index_def sint_of_nat_small go_mod_nonneg zmod_int)

lemma runBackend_iter_small:
  assumes "s_rrCounter s = of_nat k" and "k < 2 ^ 63" and "s_streams s \<noteq> []"
  shows "runBackend_iter (Inr pkt) s =
    (BackendDispatch (snd (s_streams s ! (k mod length (s_streams s)))) (take readBufSize pkt),
     s\<lparr>s_rrCounter := of_nat (Suc k)\<rparr>)"
  using assms
  by (simp add: runBackend_iter_def snapshotStreams_def rr_index_small Let_def add.commute)

lemma runBackend_run_small:
  assumes "s_rrCounter s = of_nat k" and "k + length pkts \<le> 2 ^ 63" and "s_streams s = xs" and "xs \<noteq> []"
  shows "fst (runBackend_run pkts s) =
    map (\<lambda>j. BackendDispatch (snd (xs ! ((k + j) mod length xs))) (take readBufSize (pkts ! j)))
      [0..<length pkts]"
  using assms
proof (induction pkts arbitrary: s k)
  case Nil
  then show ?case by simp
next
  case (Cons pkt pkts)
  let ?s1 = "s\<lparr>s_rrCounter := of_nat (Suc k)\<rparr>"
  have it: "runBackend_iter (Inr pkt) s =
      (BackendDispatch (snd (xs ! (k mod length xs))) (take readBufSize pkt), ?s1)"
    using runBackend_iter_small [of s k pkt] Cons.prems by simp
  have "fst (runBackend_run pkts ?s1) =
      map (\<lambda>j. BackendDispatch (snd (xs ! ((Suc k + j) mod length xs))) (take readBufSize (pkts ! j)))
        [0..<length pkts]"
    using Cons.prems by (intro Cons.IH) auto
  then show ?case
    by (simp add: it map_upt_Suc split_def Let_def del: upt_Suc)
qed

lemma mod_window_bij:
  assumes n: "0 < (n::nat)"
  shows "bij_betw (\<lambda>j. (k + j) mod n) {0..<n} {0..<n}"
proof -
  have "inj_on (\<lambda>j. (k + j) mod n) {0..<n}"
  proof (rule inj_onI)
    fix i j assume ij: "i \<in> {0..<n}" "j \<in> {0..<n}" and "(k + i) mod n = (k + j) mod n"
    then have "(int k + int i) mod int n = (int k + int j) mod int n"
      by (metis of_nat_add zmod_int)
    then have "int n dvd int i - int j"
      by (simp add: mod_eq_dvd_iff)
    then have "int i mod int n = int j mod int n" by (simp add: mod_eq_dvd_iff)
    with ij show "i = j" by simp
  qed
  moreover have "(\<lambda>j. (k + j) mod n) ` {0..<n} \<subseteq> {0..<n}" using n by auto
  ultimately show ?thesis by (simp add: bij_betw_def endo_inj_surj)
qed

text \<open>The return path is a fair round robin while the counter is below \<open>2^63\<close>: packet
  \<open>j\<close> of a run goes to stream \<open>(k + j) mod n\<close>, none is dropped, and any \<open>n\<close> consecutive
  packets reach each of the \<open>n\<close> streams exactly once.\<close>

theorem backend_round_robin_fair:
  assumes "s_rrCounter s = of_nat k" and "k + length pkts \<le> 2 ^ 63" and "s_streams s \<noteq> []"
  shows "fst (runBackend_run pkts s) =
      map (\<lambda>j. BackendDispatch
                 (snd (s_streams s ! ((k + j) mod length (s_streams s)))) (take readBufSize (pkts ! j)))
        [0..<length pkts] \<and>
    (\<forall>w. bij_betw (\<lambda>j. (k + (w + j)) mod length (s_streams s))
           {0..<length (s_streams s)} {0..<length (s_streams s)})"
  using runBackend_run_small [OF assms(1,2) refl assms(3)]
    mod_window_bij [of "length (s_streams s)" "k + w" for w] assms(3)
  by (simp add: add.assoc)

theorem backend_round_robin_fair_witness:
  "fst (runBackend_run [[1], [2], [3]]
      ((newSession ''s'')\<lparr>s_streams := [(0, 10), (1, 11)], s_rrCounter := 5\<rparr>)) =
   [BackendDispatch 11 [1], BackendDispatch 10 [2], BackendDispatch 11 [3]]"
  using backend_round_robin_fair
      [of "(newSession ''s'')\<lparr>s_streams := [(0, 10), (1, 11)], s_rrCounter := 5\<rparr>" 5
          "[[1], [2], [3]]"]
  by (simp add: readBufSize_def upt_rec newSession_def flip: numeral_2_eq_2)

text \<open>The counter is converted to a signed integer before the remainder, so from \<open>2^63\<close>
  packets on the index can be negative and the access to the stream table panics: here with
  three streams at counter value \<open>2^63\<close>.\<close>

theorem backend_round_robin_sign_overflow:
  "fst (runBackend_iter (Inr pkt)
      ((newSession sid)\<lparr>s_streams := [(0, c0), (1, c1), (2, c2)], s_rrCounter := 2 ^ 63\<rparr>)) =
   BackendPanic"
  by (simp add: runBackend_iter_def snapshotStreams_def rr_index_def go_mod_def
      signed_modulo_int_def newSession_def Let_def)

end
