(* ===== verification/Srv_Server.thy ===== *)
theory Srv_Server
  imports Srv_Session Framing Go_Hex
begin

text \<open>
  The server, \<open>pkg/wgturnsrv/server.go\<close>, with the interleaving of its goroutines: one handler
  per accepted connection, one \<open>runBackend\<close> per session, the accept loop, and \<open>Stop\<close>.
  Sessions live behind pointers (indices of a heap); the session map, the lifecycle state and
  the set of closed connections are the shared state. Every event is one atomic action of the
  code: a critical section under \<open>sessMu\<close> or the session's \<open>mu\<close>, an atomic flag, or a
  \<open>Close\<close>. What the network and the backend do (handshake bytes, \<open>Backend.Open\<close>'s result,
  when a read ends) is in the event. \<open>srv_inv\<close> is the invariant of every reachable state.
\<close>

section \<open>Definitions\<close>

datatype srv_state = StateNew | StateStarted | StateStopped

text \<open>Where a handler (\<open>handleConn\<close>) is. The pointer is its session, the byte its stream id.\<close>

datatype hpc =
    HIdle
  | HHandshake
  | HLookup string byte
  | HCheck nat byte \<comment> \<open>about to load \<open>terminated\<close> in \<open>addStream\<close>\<close>
  | HAdding nat byte \<comment> \<open>about to insert under the session's lock\<close>
  | HEvict nat byte conn \<comment> \<open>about to close the displaced connection\<close>
  | HRun nat byte \<comment> \<open>in \<open>runStream\<close>\<close>
  | HTermRun nat byte \<comment> \<open>won \<open>terminate\<close> in \<open>runStream\<close>\<close>
  | HLeave nat byte \<comment> \<open>about to close its connection\<close>
  | HRemove nat byte \<comment> \<open>about to call \<open>removeStream\<close>\<close>
  | HDrained nat \<comment> \<open>about to call \<open>terminate\<close>\<close>
  | HTermEnd nat \<comment> \<open>won \<open>terminate\<close> after draining\<close>
  | HDone

datatype bpc = BRead | BTerm | BDone

datatype spc = SIdle | SCancelled | SNext "nat list" | STerm nat "nat list" | SWaiting | SReturned

record server =
  sv_state :: srv_state
  sv_cancelled :: bool
  sv_accepting :: bool
  sv_heap :: "session list"
  sv_bpc :: "bpc list"
  sv_sessions :: "(string \<times> nat) list"
  sv_closed :: "conn set"
  sv_accepted :: "conn list"
  sv_pc :: "conn \<Rightarrow> hpc"
  sv_stop :: spc

definition fresh_server :: server where
  "fresh_server = \<lparr>sv_state = StateNew, sv_cancelled = False, sv_accepting = False, sv_heap = [],
     sv_bpc = [], sv_sessions = [], sv_closed = {}, sv_accepted = [], sv_pc = (\<lambda>_. HIdle),
     sv_stop = SIdle\<rparr>"

text \<open>\<open>New\<close>: the certificate generator's result is an argument.\<close>

definition New :: "'l \<Rightarrow> unit res \<Rightarrow> ('b, 'l) srv_config \<Rightarrow> (('b, 'l) srv_config \<times> server) res" where
  "New noop gen cfg =
     (case srv_validate cfg of
        Some err \<Rightarrow> Inl err
      | None \<Rightarrow>
          (let cfg' = srv_withDefaults noop cfg in
           case gen of
             Inl err \<Rightarrow> Inl (wrapf ''wgturnsrv: generate cert: '' err)
           | Inr _ \<Rightarrow>
               Inr (cfg', fresh_server)))"

text \<open>\<open>Start\<close>: the results of \<open>net.ResolveUDPAddr\<close> and \<open>dtls.Listen\<close> are arguments.\<close>

definition srv_Start :: "string \<Rightarrow> unit res \<Rightarrow> unit res \<Rightarrow> server \<Rightarrow> go_error option \<times> server" where
  "srv_Start addr resolve listen sv =
     (if sv_state sv \<noteq> StateNew
      then (Some (GoError ''wgturnsrv: server already started'' [ErrSrvAlreadyStarted]), sv)
      else case resolve of
        Inl err \<Rightarrow> (Some (wrapf (''wgturnsrv: resolve '' @ quoted addr @ '': '') err), sv)
      | Inr _ \<Rightarrow>
          (case listen of
             Inl err \<Rightarrow> (Some (wrapf (''wgturnsrv: dtls listen '' @ addr @ '': '') err), sv)
           | Inr _ \<Rightarrow> (None, sv\<lparr>sv_state := StateStarted, sv_accepting := True\<rparr>)))"

definition set_pc :: "conn \<Rightarrow> hpc \<Rightarrow> server \<Rightarrow> server" where
  "set_pc c h sv = sv\<lparr>sv_pc := (sv_pc sv)(c := h)\<rparr>"

definition close_conn :: "conn \<Rightarrow> server \<Rightarrow> server" where
  "close_conn c sv = sv\<lparr>sv_closed := insert c (sv_closed sv)\<rparr>"

definition upd_sess :: "nat \<Rightarrow> session \<Rightarrow> server \<Rightarrow> server" where
  "upd_sess p s sv = sv\<lparr>sv_heap := (sv_heap sv)[p := s]\<rparr>"

text \<open>Cancelling the loop context cancels the contexts of the sessions, derived from it.\<close>

definition cancel_loop :: "server \<Rightarrow> server" where
  "cancel_loop sv =
     sv\<lparr>sv_cancelled := True, sv_heap := map (\<lambda>s. s\<lparr>s_ctxDone := True\<rparr>) (sv_heap sv)\<rparr>"

text \<open>\<open>acceptLoop\<close>: a connection, or an error that ends the loop.\<close>

definition accept_conn :: "conn \<Rightarrow> server \<Rightarrow> server option" where
  "accept_conn c sv =
     (if sv_accepting sv \<and> sv_pc sv c = HIdle
      then Some (set_pc c HHandshake (sv\<lparr>sv_accepted := c # sv_accepted sv\<rparr>))
      else None)"

definition accept_end :: "server \<Rightarrow> server option" where
  "accept_end sv = (if sv_accepting sv then Some (sv\<lparr>sv_accepting := False\<rparr>) else None)"

definition getOrCreateSession :: "string \<Rightarrow> unit res \<Rightarrow> server \<Rightarrow> (nat \<times> bool) res \<times> server" where
  "getOrCreateSession sidHex opn sv =
     (case map_of (sv_sessions sv) sidHex of
        Some p \<Rightarrow> (Inr (p, False), sv)
      | None \<Rightarrow>
          (case opn of
             Inl err \<Rightarrow> (Inl (wrapf ''backend open: '' err), sv)
           | Inr _ \<Rightarrow>
               (let p = length (sv_heap sv) in
                (Inr (p, True),
                 sv\<lparr>sv_heap := sv_heap sv @ [(newSession sidHex)\<lparr>s_ctxDone := sv_cancelled sv\<rparr>],
                    sv_bpc := sv_bpc sv @ [BRead],
                    sv_sessions := (sidHex, p) # sv_sessions sv\<rparr>))))"

definition removeSession :: "string \<Rightarrow> server \<Rightarrow> server" where
  "removeSession sidHex sv = sv\<lparr>sv_sessions := filter (\<lambda>e. fst e \<noteq> sidHex) (sv_sessions sv)\<rparr>"

text \<open>The steps of \<open>handleConn\<close>, in the order of the code.\<close>

definition hc_handshake :: "conn \<Rightarrow> (bytes \<times> byte) res \<Rightarrow> server \<Rightarrow> server option" where
  "hc_handshake c r sv =
     (case sv_pc sv c of
        HHandshake \<Rightarrow>
          (case r of
             Inl err \<Rightarrow> Some (set_pc c HDone (close_conn c sv))
           | Inr (sid, streamID) \<Rightarrow> Some (set_pc c (HLookup (hex_encode sid) streamID) sv))
      | _ \<Rightarrow> None)"

definition hc_lookup :: "conn \<Rightarrow> unit res \<Rightarrow> server \<Rightarrow> server option" where
  "hc_lookup c opn sv =
     (case sv_pc sv c of
        HLookup sidHex streamID \<Rightarrow>
          (case getOrCreateSession sidHex opn sv of
             (Inl err, sv') \<Rightarrow> Some (set_pc c HDone (close_conn c sv'))
           | (Inr (p, fresh), sv') \<Rightarrow> Some (set_pc c (HCheck p streamID) sv'))
      | _ \<Rightarrow> None)"

definition hc_addStream_check :: "conn \<Rightarrow> server \<Rightarrow> server option" where
  "hc_addStream_check c sv =
     (case sv_pc sv c of
        HCheck p streamID \<Rightarrow>
          (if s_terminated (sv_heap sv ! p) then Some (set_pc c HDone (close_conn c sv))
           else Some (set_pc c (HAdding p streamID) sv))
      | _ \<Rightarrow> None)"

definition hc_addStream_insert :: "conn \<Rightarrow> server \<Rightarrow> server option" where
  "hc_addStream_insert c sv =
     (case sv_pc sv c of
        HAdding p streamID \<Rightarrow>
          (let s = sv_heap sv ! p; (displaced, xs) = add_stream streamID c (s_streams s);
               sv' = upd_sess p (s\<lparr>s_streams := xs\<rparr>) sv
           in Some (set_pc c (case displaced of None \<Rightarrow> HRun p streamID
                              | Some d \<Rightarrow> HEvict p streamID d) sv'))
      | _ \<Rightarrow> None)"

definition hc_evict :: "conn \<Rightarrow> server \<Rightarrow> server option" where
  "hc_evict c sv =
     (case sv_pc sv c of
        HEvict p streamID d \<Rightarrow> Some (set_pc c (HRun p streamID) (close_conn d sv))
      | _ \<Rightarrow> None)"

text \<open>\<open>terminate\<close> up to its compare-and-swap: the winner goes to \<open>won\<close>, a loser to \<open>lost\<close>.\<close>

definition claim_as :: "conn \<Rightarrow> nat \<Rightarrow> hpc \<Rightarrow> hpc \<Rightarrow> server \<Rightarrow> server" where
  "claim_as c p won lost sv =
     (case terminate_claim (sv_heap sv ! p) of
        (True, s) \<Rightarrow> set_pc c won (upd_sess p s sv)
      | (False, s) \<Rightarrow> set_pc c lost sv)"

text \<open>\<open>runStream\<close> ends with a read error, or tears the session down after a write error.\<close>

definition hc_runStream_end :: "conn \<Rightarrow> stream_action \<Rightarrow> server \<Rightarrow> server option" where
  "hc_runStream_end c a sv =
     (case sv_pc sv c of
        HRun p b \<Rightarrow>
          (case a of
             StreamForward _ \<Rightarrow> Some sv
           | StreamExit \<Rightarrow> Some (set_pc c (HLeave p b) sv)
           | StreamTerminate \<Rightarrow> Some (claim_as c p (HTermRun p b) (HLeave p b) sv))
      | _ \<Rightarrow> None)"

definition hc_close :: "conn \<Rightarrow> server \<Rightarrow> server option" where
  "hc_close c sv =
     (case sv_pc sv c of
        HLeave p b \<Rightarrow> Some (set_pc c (HRemove p b) (close_conn c sv))
      | _ \<Rightarrow> None)"

definition hc_remove :: "conn \<Rightarrow> server \<Rightarrow> server option" where
  "hc_remove c sv =
     (case sv_pc sv c of
        HRemove p b \<Rightarrow>
          (let (drained, s) = removeStream b c (sv_heap sv ! p) in
           Some (set_pc c (if drained then HDrained p else HDone) (upd_sess p s sv)))
      | _ \<Rightarrow> None)"

definition hc_drained :: "conn \<Rightarrow> server \<Rightarrow> server option" where
  "hc_drained c sv =
     (case sv_pc sv c of
        HDrained p \<Rightarrow> Some (claim_as c p (HTermEnd p) HDone sv)
      | _ \<Rightarrow> None)"

text \<open>A winner goes on when its \<open>terminate\<close> has finished.\<close>

definition hc_terminated :: "conn \<Rightarrow> server \<Rightarrow> server option" where
  "hc_terminated c sv =
     (case sv_pc sv c of
        HTermRun p b \<Rightarrow>
          (if s_phase (sv_heap sv ! p) = Finished then Some (set_pc c (HLeave p b) sv) else None)
      | HTermEnd p \<Rightarrow>
          (if s_phase (sv_heap sv ! p) = Finished then Some (set_pc c HDone sv) else None)
      | _ \<Rightarrow> None)"

text \<open>\<open>runBackend\<close> leaves its loop and runs the deferred \<open>terminate\<close>.\<close>

definition backend_end :: "nat \<Rightarrow> server \<Rightarrow> server option" where
  "backend_end p sv =
     (if p < length (sv_heap sv) \<and> sv_bpc sv ! p = BRead
      then (case terminate_claim (sv_heap sv ! p) of
              (True, s) \<Rightarrow> Some (upd_sess p s (sv\<lparr>sv_bpc := (sv_bpc sv)[p := BTerm]\<rparr>))
            | (False, s) \<Rightarrow> Some (sv\<lparr>sv_bpc := (sv_bpc sv)[p := BDone]\<rparr>))
      else None)"

definition backend_done :: "nat \<Rightarrow> server \<Rightarrow> server option" where
  "backend_done p sv =
     (if p < length (sv_heap sv) \<and> sv_bpc sv ! p = BTerm \<and> s_phase (sv_heap sv ! p) = Finished
      then Some (sv\<lparr>sv_bpc := (sv_bpc sv)[p := BDone]\<rparr>)
      else None)"

text \<open>The body of \<open>terminate\<close>, run by whoever won: cancel the context and close the backend;
  \<open>onTerminate\<close>; close the streams that are left.\<close>

definition term_release :: "nat \<Rightarrow> server \<Rightarrow> server option" where
  "term_release p sv =
     (if p < length (sv_heap sv) \<and> s_phase (sv_heap sv ! p) = Claimed
      then Some (upd_sess p (terminate_release (sv_heap sv ! p)) sv) else None)"

definition term_unmap :: "nat \<Rightarrow> server \<Rightarrow> server option" where
  "term_unmap p sv =
     (if p < length (sv_heap sv) \<and> s_phase (sv_heap sv ! p) = Released
      then Some (removeSession (s_id (sv_heap sv ! p))
                   (upd_sess p ((sv_heap sv ! p)\<lparr>s_phase := Unmapped\<rparr>) sv)) else None)"

definition term_streams :: "nat \<Rightarrow> server \<Rightarrow> server option" where
  "term_streams p sv =
     (if p < length (sv_heap sv) \<and> s_phase (sv_heap sv ! p) = Unmapped
      then (let (cs, s) = terminate_streams (sv_heap sv ! p) in
            Some ((upd_sess p s sv)\<lparr>sv_closed := sv_closed sv \<union> set cs\<rparr>))
      else None)"

text \<open>\<open>Stop\<close>: the state change and \<open>cancel()\<close>; the snapshot of the map, in any order;
  \<open>terminate\<close> on each session; \<open>wg.Wait\<close>.\<close>

definition stop_begin :: "server \<Rightarrow> server option" where
  "stop_begin sv =
     (if sv_state sv = StateStarted
      then Some (cancel_loop (sv\<lparr>sv_state := StateStopped, sv_stop := SCancelled\<rparr>))
      else None)"

definition stop_snapshot :: "nat list \<Rightarrow> server \<Rightarrow> server option" where
  "stop_snapshot ps sv =
     (if sv_stop sv = SCancelled \<and> distinct ps \<and> set ps = snd ` set (sv_sessions sv)
      then Some (sv\<lparr>sv_stop := SNext ps\<rparr>) else None)"

definition stop_next :: "server \<Rightarrow> server option" where
  "stop_next sv =
     (case sv_stop sv of
        SNext [] \<Rightarrow> Some (sv\<lparr>sv_stop := SWaiting\<rparr>)
      | SNext (p # ps) \<Rightarrow>
          (case terminate_claim (sv_heap sv ! p) of
             (True, s) \<Rightarrow> Some (upd_sess p s (sv\<lparr>sv_stop := STerm p ps\<rparr>))
           | (False, s) \<Rightarrow> Some (sv\<lparr>sv_stop := SNext ps\<rparr>))
      | STerm p ps \<Rightarrow>
          (if s_phase (sv_heap sv ! p) = Finished then Some (sv\<lparr>sv_stop := SNext ps\<rparr>) else None)
      | _ \<Rightarrow> None)"

definition stop_return :: "server \<Rightarrow> server option" where
  "stop_return sv =
     (if sv_stop sv = SWaiting \<and> \<not> sv_accepting sv \<and>
         list_all (\<lambda>c. sv_pc sv c = HDone) (sv_accepted sv) \<and> list_all (\<lambda>b. b = BDone) (sv_bpc sv)
      then Some (sv\<lparr>sv_stop := SReturned\<rparr>) else None)"

text \<open>The context given to \<open>Start\<close> is cancelled.\<close>

definition ctx_cancel :: "server \<Rightarrow> server option" where
  "ctx_cancel sv = (if sv_state sv = StateNew then None else Some (cancel_loop sv))"

text \<open>\<open>Stats\<close>.\<close>

definition srv_Stats :: "server \<Rightarrow> (nat \<times> nat) res" where
  "srv_Stats sv =
     (if sv_state sv \<noteq> StateStarted
      then Inl (GoError ''wgturnsrv: server not started'' [ErrSrvNotStarted])
      else Inr (length (sv_sessions sv),
                sum_list (map (\<lambda>e. streamCount (sv_heap sv ! snd e)) (sv_sessions sv))))"

datatype event =
    EStart "unit res" "unit res" | ECtxCancel | EStopBegin | EStopSnapshot "nat list" | EStopNext
  | EStopReturn | EAccept conn | EAcceptEnd
  | EHandshake conn "(bytes \<times> byte) res" | ELookup conn "unit res" | ECheck conn | EInsert conn
  | EEvict conn | ERun conn stream_action | EClose conn | ERemove conn | EDrained conn
  | EHandlerTerminated conn | EBackendEnd nat | EBackendDone nat | ERelease nat | EUnmap nat
  | EStreams nat

fun sv_exec :: "event \<Rightarrow> server \<Rightarrow> server option" where
  "sv_exec (EStart r l) sv = Some (snd (srv_Start ''addr'' r l sv))"
| "sv_exec ECtxCancel sv = ctx_cancel sv"
| "sv_exec EStopBegin sv = stop_begin sv"
| "sv_exec (EStopSnapshot ps) sv = stop_snapshot ps sv"
| "sv_exec EStopNext sv = stop_next sv"
| "sv_exec EStopReturn sv = stop_return sv"
| "sv_exec (EAccept c) sv = accept_conn c sv"
| "sv_exec EAcceptEnd sv = accept_end sv"
| "sv_exec (EHandshake c r) sv = hc_handshake c r sv"
| "sv_exec (ELookup c opn) sv = hc_lookup c opn sv"
| "sv_exec (ECheck c) sv = hc_addStream_check c sv"
| "sv_exec (EInsert c) sv = hc_addStream_insert c sv"
| "sv_exec (EEvict c) sv = hc_evict c sv"
| "sv_exec (ERun c a) sv = hc_runStream_end c a sv"
| "sv_exec (EClose c) sv = hc_close c sv"
| "sv_exec (ERemove c) sv = hc_remove c sv"
| "sv_exec (EDrained c) sv = hc_drained c sv"
| "sv_exec (EHandlerTerminated c) sv = hc_terminated c sv"
| "sv_exec (EBackendEnd p) sv = backend_end p sv"
| "sv_exec (EBackendDone p) sv = backend_done p sv"
| "sv_exec (ERelease p) sv = term_release p sv"
| "sv_exec (EUnmap p) sv = term_unmap p sv"
| "sv_exec (EStreams p) sv = term_streams p sv"

fun sv_run :: "event list \<Rightarrow> server \<Rightarrow> server option" where
  "sv_run [] sv = Some sv"
| "sv_run (e # es) sv = (case sv_exec e sv of None \<Rightarrow> None | Some sv' \<Rightarrow> sv_run es sv')"

inductive sv_reachable :: "server \<Rightarrow> bool" where
  sv_init: "sv_reachable fresh_server"
| sv_step: "sv_reachable sv \<Longrightarrow> sv_exec e sv = Some sv' \<Longrightarrow> sv_reachable sv'"

section \<open>The invariant\<close>

definition live_phase :: "term_phase \<Rightarrow> bool" where
  "live_phase ph \<longleftrightarrow> ph = Running \<or> ph = Claimed \<or> ph = Released"

definition map_inv :: "server \<Rightarrow> bool" where
  "map_inv sv \<longleftrightarrow> distinct (map fst (sv_sessions sv)) \<and>
     (\<forall>k p. (k, p) \<in> set (sv_sessions sv) \<longleftrightarrow>
        p < length (sv_heap sv) \<and> s_id (sv_heap sv ! p) = k \<and> live_phase (s_phase (sv_heap sv ! p)))"

definition sess_inv :: "server \<Rightarrow> bool" where
  "sess_inv sv \<longleftrightarrow> length (sv_bpc sv) = length (sv_heap sv) \<and>
     (\<forall>p < length (sv_heap sv). slots_wf (s_streams (sv_heap sv ! p)) \<and>
        (s_backendOpen (sv_heap sv ! p) \<longleftrightarrow>
           s_phase (sv_heap sv ! p) = Running \<or> s_phase (sv_heap sv ! p) = Claimed))"

fun pc_sess :: "hpc \<Rightarrow> nat option" where
  "pc_sess (HCheck p b) = Some p"
| "pc_sess (HAdding p b) = Some p"
| "pc_sess (HEvict p b d) = Some p"
| "pc_sess (HRun p b) = Some p"
| "pc_sess (HTermRun p b) = Some p"
| "pc_sess (HLeave p b) = Some p"
| "pc_sess (HRemove p b) = Some p"
| "pc_sess (HDrained p) = Some p"
| "pc_sess (HTermEnd p) = Some p"
| "pc_sess _ = None"

fun stop_sess :: "spc \<Rightarrow> nat set" where
  "stop_sess (SNext ps) = set ps"
| "stop_sess (STerm p ps) = insert p (set ps)"
| "stop_sess _ = {}"

definition range_inv :: "server \<Rightarrow> bool" where
  "range_inv sv \<longleftrightarrow> (\<forall>c p. pc_sess (sv_pc sv c) = Some p \<longrightarrow> p < length (sv_heap sv)) \<and>
     (\<forall>p \<in> stop_sess (sv_stop sv). p < length (sv_heap sv))"

text \<open>The slot a handler has registered and not yet given up.\<close>

fun holds_slot :: "hpc \<Rightarrow> (nat \<times> byte) option" where
  "holds_slot (HEvict p b d) = Some (p, b)"
| "holds_slot (HRun p b) = Some (p, b)"
| "holds_slot (HTermRun p b) = Some (p, b)"
| "holds_slot (HLeave p b) = Some (p, b)"
| "holds_slot (HRemove p b) = Some (p, b)"
| "holds_slot _ = None"

definition owner_inv :: "server \<Rightarrow> bool" where
  "owner_inv sv \<longleftrightarrow>
     (\<forall>p b c. p < length (sv_heap sv) \<longrightarrow> (b, c) \<in> set (s_streams (sv_heap sv ! p)) \<longrightarrow>
        holds_slot (sv_pc sv c) = Some (p, b))"

fun pc_wins :: "hpc \<Rightarrow> nat option" where
  "pc_wins (HTermRun p b) = Some p"
| "pc_wins (HTermEnd p) = Some p"
| "pc_wins _ = None"

fun stop_wins :: "spc \<Rightarrow> nat option" where
  "stop_wins (STerm p ps) = Some p"
| "stop_wins _ = None"

text \<open>An unfinished termination has somebody running it, and an exited \<open>runBackend\<close> has
  terminated its session.\<close>

definition winner_inv :: "server \<Rightarrow> bool" where
  "winner_inv sv \<longleftrightarrow>
     (\<forall>p < length (sv_heap sv).
        (s_phase (sv_heap sv ! p) = Running \<longrightarrow> sv_bpc sv ! p \<noteq> BDone) \<and>
        (s_phase (sv_heap sv ! p) \<in> {Claimed, Released, Unmapped} \<longrightarrow>
           (\<exists>c. pc_wins (sv_pc sv c) = Some p) \<or> sv_bpc sv ! p = BTerm \<or>
           stop_wins (sv_stop sv) = Some p))"

fun attends :: "hpc \<Rightarrow> nat option" where
  "attends (HCheck p b) = Some p"
| "attends (HAdding p b) = Some p"
| "attends (HDrained p) = Some p"
| "attends _ = None"

definition attended :: "server \<Rightarrow> nat \<Rightarrow> bool" where
  "attended sv p \<longleftrightarrow> s_streams (sv_heap sv ! p) \<noteq> [] \<or> (\<exists>c. attends (sv_pc sv c) = Some p)"

definition attend_inv :: "server \<Rightarrow> bool" where
  "attend_inv sv \<longleftrightarrow>
     (\<forall>p < length (sv_heap sv). s_phase (sv_heap sv ! p) = Running \<longrightarrow> attended sv p)"

fun serves :: "hpc \<Rightarrow> (nat \<times> byte) option" where
  "serves (HEvict p b d) = Some (p, b)"
| "serves (HRun p b) = Some (p, b)"
| "serves (HTermRun p b) = Some (p, b)"
| "serves (HLeave p b) = Some (p, b)"
| "serves _ = None"

fun pc_closed :: "hpc \<Rightarrow> bool" where
  "pc_closed (HRemove p b) = True"
| "pc_closed (HDrained p) = True"
| "pc_closed (HTermEnd p) = True"
| "pc_closed HDone = True"
| "pc_closed _ = False"

fun evicts :: "hpc \<Rightarrow> conn option" where
  "evicts (HEvict p b d) = Some d"
| "evicts _ = None"

definition in_slot :: "server \<Rightarrow> nat \<Rightarrow> byte \<Rightarrow> conn \<Rightarrow> bool" where
  "in_slot sv p b c \<longleftrightarrow> p < length (sv_heap sv) \<and> (b, c) \<in> set (s_streams (sv_heap sv ! p))"

definition accounted :: "server \<Rightarrow> nat \<Rightarrow> byte \<Rightarrow> conn \<Rightarrow> bool" where
  "accounted sv p b c \<longleftrightarrow> c \<in> sv_closed sv \<or> in_slot sv p b c \<or> (\<exists>c'. evicts (sv_pc sv c') = Some c)"

definition closed_inv :: "server \<Rightarrow> bool" where
  "closed_inv sv \<longleftrightarrow>
     (\<forall>c. (pc_closed (sv_pc sv c) \<longrightarrow> c \<in> sv_closed sv) \<and>
        (\<forall>p b. serves (sv_pc sv c) = Some (p, b) \<longrightarrow> accounted sv p b c))"

definition life_inv :: "server \<Rightarrow> bool" where
  "life_inv sv \<longleftrightarrow>
     (\<forall>c. sv_pc sv c \<noteq> HIdle \<longrightarrow> c \<in> set (sv_accepted sv)) \<and>
     (sv_stop sv \<noteq> SIdle \<longrightarrow> sv_state sv = StateStopped) \<and>
     (sv_stop sv = SReturned \<longrightarrow> \<not> sv_accepting sv \<and>
        (\<forall>c \<in> set (sv_accepted sv). sv_pc sv c = HDone) \<and> (\<forall>b \<in> set (sv_bpc sv). b = BDone))"

section \<open>The steps as a relation\<close>

text \<open>One rule per branch of the events, with the guards of the code as premises; the proofs of
  the invariant go by cases of this relation.\<close>

inductive srv_step :: "server \<Rightarrow> server \<Rightarrow> bool" where
  st_noop: "srv_step sv sv"
| st_start: "sv_state sv = StateNew \<Longrightarrow> srv_step sv (sv\<lparr>sv_state := StateStarted, sv_accepting := True\<rparr>)"
| st_cancel: "sv_state sv \<noteq> StateNew \<Longrightarrow> srv_step sv (cancel_loop sv)"
| st_stop: "sv_state sv = StateStarted \<Longrightarrow>
    srv_step sv (cancel_loop (sv\<lparr>sv_state := StateStopped, sv_stop := SCancelled\<rparr>))"
| st_snapshot: "sv_stop sv = SCancelled \<Longrightarrow> set ps = snd ` set (sv_sessions sv) \<Longrightarrow>
    srv_step sv (sv\<lparr>sv_stop := SNext ps\<rparr>)"
| st_wait: "sv_stop sv = SNext [] \<Longrightarrow> srv_step sv (sv\<lparr>sv_stop := SWaiting\<rparr>)"
| st_stop_claim: "sv_stop sv = SNext (p # ps) \<Longrightarrow> s_phase (sv_heap sv ! p) = Running \<Longrightarrow>
    srv_step sv (upd_sess p ((sv_heap sv ! p)\<lparr>s_phase := Claimed\<rparr>) (sv\<lparr>sv_stop := STerm p ps\<rparr>))"
| st_stop_skip: "sv_stop sv = SNext (p # ps) \<Longrightarrow> s_phase (sv_heap sv ! p) \<noteq> Running \<Longrightarrow>
    srv_step sv (sv\<lparr>sv_stop := SNext ps\<rparr>)"
| st_stop_more: "sv_stop sv = STerm p ps \<Longrightarrow> s_phase (sv_heap sv ! p) = Finished \<Longrightarrow>
    srv_step sv (sv\<lparr>sv_stop := SNext ps\<rparr>)"
| st_return: "sv_stop sv = SWaiting \<Longrightarrow> \<not> sv_accepting sv \<Longrightarrow>
    \<forall>c \<in> set (sv_accepted sv). sv_pc sv c = HDone \<Longrightarrow> \<forall>b \<in> set (sv_bpc sv). b = BDone \<Longrightarrow>
    srv_step sv (sv\<lparr>sv_stop := SReturned\<rparr>)"
| st_accept: "sv_accepting sv \<Longrightarrow> sv_pc sv c = HIdle \<Longrightarrow>
    srv_step sv (set_pc c HHandshake (sv\<lparr>sv_accepted := c # sv_accepted sv\<rparr>))"
| st_accept_end: "sv_accepting sv \<Longrightarrow> srv_step sv (sv\<lparr>sv_accepting := False\<rparr>)"
| st_drop: "sv_pc sv c = HHandshake \<or> sv_pc sv c = HLookup k b \<Longrightarrow>
    srv_step sv (set_pc c HDone (close_conn c sv))"
| st_handshake: "sv_pc sv c = HHandshake \<Longrightarrow> srv_step sv (set_pc c (HLookup k b) sv)"
| st_join: "sv_pc sv c = HLookup k b \<Longrightarrow> map_of (sv_sessions sv) k = Some p \<Longrightarrow>
    srv_step sv (set_pc c (HCheck p b) sv)"
| st_create: "sv_pc sv c = HLookup k b \<Longrightarrow> map_of (sv_sessions sv) k = None \<Longrightarrow>
    srv_step sv (set_pc c (HCheck (length (sv_heap sv)) b)
      (sv\<lparr>sv_heap := sv_heap sv @ [(newSession k)\<lparr>s_ctxDone := sv_cancelled sv\<rparr>],
          sv_bpc := sv_bpc sv @ [BRead],
          sv_sessions := (k, length (sv_heap sv)) # sv_sessions sv\<rparr>))"
| st_refuse: "sv_pc sv c = HCheck p b \<Longrightarrow> s_phase (sv_heap sv ! p) \<noteq> Running \<Longrightarrow>
    srv_step sv (set_pc c HDone (close_conn c sv))"
| st_check: "sv_pc sv c = HCheck p b \<Longrightarrow> s_phase (sv_heap sv ! p) = Running \<Longrightarrow>
    srv_step sv (set_pc c (HAdding p b) sv)"
| st_insert: "sv_pc sv c = HAdding p b \<Longrightarrow> add_stream b c (s_streams (sv_heap sv ! p)) = (d, xs) \<Longrightarrow>
    h = (case d of None \<Rightarrow> HRun p b | Some c' \<Rightarrow> HEvict p b c') \<Longrightarrow>
    srv_step sv (set_pc c h (upd_sess p ((sv_heap sv ! p)\<lparr>s_streams := xs\<rparr>) sv))"
| st_evict: "sv_pc sv c = HEvict p b d \<Longrightarrow> srv_step sv (set_pc c (HRun p b) (close_conn d sv))"
| st_exit: "sv_pc sv c = HRun p b \<Longrightarrow> srv_step sv (set_pc c (HLeave p b) sv)"
| st_run_claim: "sv_pc sv c = HRun p b \<Longrightarrow> s_phase (sv_heap sv ! p) = Running \<Longrightarrow>
    srv_step sv (set_pc c (HTermRun p b) (upd_sess p ((sv_heap sv ! p)\<lparr>s_phase := Claimed\<rparr>) sv))"
| st_close: "sv_pc sv c = HLeave p b \<Longrightarrow> srv_step sv (set_pc c (HRemove p b) (close_conn c sv))"
| st_remove: "sv_pc sv c = HRemove p b \<Longrightarrow> remove_stream b c (s_streams (sv_heap sv ! p)) = (xs, d) \<Longrightarrow>
    srv_step sv (set_pc c (if d then HDrained p else HDone)
      (upd_sess p ((sv_heap sv ! p)\<lparr>s_streams := xs\<rparr>) sv))"
| st_end_claim: "sv_pc sv c = HDrained p \<Longrightarrow> s_phase (sv_heap sv ! p) = Running \<Longrightarrow>
    srv_step sv (set_pc c (HTermEnd p) (upd_sess p ((sv_heap sv ! p)\<lparr>s_phase := Claimed\<rparr>) sv))"
| st_end_skip: "sv_pc sv c = HDrained p \<Longrightarrow> s_phase (sv_heap sv ! p) \<noteq> Running \<Longrightarrow>
    srv_step sv (set_pc c HDone sv)"
| st_run_finished: "sv_pc sv c = HTermRun p b \<Longrightarrow> s_phase (sv_heap sv ! p) = Finished \<Longrightarrow>
    srv_step sv (set_pc c (HLeave p b) sv)"
| st_end_finished: "sv_pc sv c = HTermEnd p \<Longrightarrow> s_phase (sv_heap sv ! p) = Finished \<Longrightarrow>
    srv_step sv (set_pc c HDone sv)"
| st_backend_claim: "p < length (sv_heap sv) \<Longrightarrow> sv_bpc sv ! p = BRead \<Longrightarrow>
    s_phase (sv_heap sv ! p) = Running \<Longrightarrow>
    srv_step sv (upd_sess p ((sv_heap sv ! p)\<lparr>s_phase := Claimed\<rparr>) (sv\<lparr>sv_bpc := (sv_bpc sv)[p := BTerm]\<rparr>))"
| st_backend_done: "p < length (sv_heap sv) \<Longrightarrow>
    sv_bpc sv ! p = BRead \<and> s_phase (sv_heap sv ! p) \<noteq> Running \<or>
    sv_bpc sv ! p = BTerm \<and> s_phase (sv_heap sv ! p) = Finished \<Longrightarrow>
    srv_step sv (sv\<lparr>sv_bpc := (sv_bpc sv)[p := BDone]\<rparr>)"
| st_release: "p < length (sv_heap sv) \<Longrightarrow> s_phase (sv_heap sv ! p) = Claimed \<Longrightarrow>
    srv_step sv (upd_sess p ((sv_heap sv ! p)\<lparr>s_phase := Released, s_ctxDone := True,
      s_backendOpen := False\<rparr>) sv)"
| st_unmap: "p < length (sv_heap sv) \<Longrightarrow> s_phase (sv_heap sv ! p) = Released \<Longrightarrow>
    srv_step sv (removeSession (s_id (sv_heap sv ! p))
      (upd_sess p ((sv_heap sv ! p)\<lparr>s_phase := Unmapped\<rparr>) sv))"
| st_streams: "p < length (sv_heap sv) \<Longrightarrow> s_phase (sv_heap sv ! p) = Unmapped \<Longrightarrow>
    srv_step sv ((upd_sess p ((sv_heap sv ! p)\<lparr>s_phase := Finished, s_streams := []\<rparr>) sv)
      \<lparr>sv_closed := sv_closed sv \<union> snd ` set (s_streams (sv_heap sv ! p))\<rparr>)"

lemmas claim_simps = claim_as_def terminate_claim_def s_terminated_def

lemma sv_exec_step:
  assumes "sv_exec e sv = Some sv'"
  shows "srv_step sv sv'"
proof (cases e)
  case (EStart r l)
  with assms show ?thesis
    by (auto simp: srv_Start_def split: if_splits sum.splits intro: srv_step.intros)
next
  case ECtxCancel
  with assms show ?thesis by (auto simp: ctx_cancel_def split: if_splits intro: srv_step.intros)
next
  case EStopBegin
  with assms show ?thesis by (auto simp: stop_begin_def split: if_splits intro: srv_step.intros)
next
  case (EStopSnapshot ps)
  with assms show ?thesis by (auto simp: stop_snapshot_def split: if_splits intro: srv_step.intros)
next
  case EStopNext
  with assms show ?thesis
    by (auto simp: stop_next_def claim_simps split: if_splits spc.splits list.splits intro: srv_step.intros)
next
  case EStopReturn
  with assms show ?thesis
    by (auto simp: stop_return_def list_all_iff split: if_splits intro: srv_step.intros)
next
  case (EAccept c)
  with assms show ?thesis by (auto simp: accept_conn_def split: if_splits intro: srv_step.intros)
next
  case EAcceptEnd
  with assms show ?thesis by (auto simp: accept_end_def split: if_splits intro: srv_step.intros)
next
  case (EHandshake c r)
  with assms show ?thesis
    by (cases "sv_pc sv c") (auto simp: hc_handshake_def split: sum.splits intro: srv_step.intros)
next
  case (ELookup c opn)
  with assms show ?thesis
    by (cases "sv_pc sv c")
      (auto simp: hc_lookup_def getOrCreateSession_def Let_def split: sum.splits option.splits
        intro: srv_step.intros)
next
  case (ECheck c)
  with assms show ?thesis
    by (cases "sv_pc sv c")
      (auto simp: hc_addStream_check_def s_terminated_def split: if_splits intro: srv_step.intros)
next
  case (EInsert c)
  with assms show ?thesis
    by (cases "sv_pc sv c")
      (auto simp: hc_addStream_insert_def Let_def split: prod.splits intro: srv_step.intros)
next
  case (EEvict c)
  with assms show ?thesis
    by (cases "sv_pc sv c") (auto simp: hc_evict_def intro: srv_step.intros)
next
  case (ERun c a)
  with assms show ?thesis
    by (cases "sv_pc sv c"; cases a)
      (auto simp: hc_runStream_end_def claim_simps split: if_splits intro: srv_step.intros)
next
  case (EClose c)
  with assms show ?thesis
    by (cases "sv_pc sv c") (auto simp: hc_close_def intro: srv_step.intros)
next
  case (ERemove c)
  with assms show ?thesis
    by (cases "sv_pc sv c")
      (auto simp: hc_remove_def removeStream_def Let_def split: prod.splits intro: st_remove st_remove [where d = True, simplified] st_remove [where d = False, simplified])
next
  case (EDrained c)
  with assms show ?thesis
    by (cases "sv_pc sv c")
      (auto simp: hc_drained_def claim_simps split: if_splits intro: srv_step.intros)
next
  case (EHandlerTerminated c)
  with assms show ?thesis
    by (cases "sv_pc sv c") (auto simp: hc_terminated_def split: if_splits intro: srv_step.intros)
next
  case (EBackendEnd p)
  with assms show ?thesis
    by (auto simp: backend_end_def claim_simps split: if_splits intro: srv_step.intros)
next
  case (EBackendDone p)
  with assms show ?thesis by (auto simp: backend_done_def split: if_splits intro: srv_step.intros)
next
  case (ERelease p)
  with assms show ?thesis
    by (auto simp: term_release_def terminate_release_def split: if_splits intro: srv_step.intros)
next
  case (EUnmap p)
  with assms show ?thesis by (auto simp: term_unmap_def split: if_splits intro: srv_step.intros)
next
  case (EStreams p)
  with assms show ?thesis
    by (auto simp: term_streams_def terminate_streams_def split: if_splits intro: st_streams)
qed

section \<open>Preservation of the invariant\<close>

lemmas sv_upd = set_pc_def close_conn_def upd_sess_def removeSession_def cancel_loop_def newSession_def

lemma range_inv_step [wgt_inv]:
  "srv_step sv sv' \<Longrightarrow> map_inv sv \<Longrightarrow> range_inv sv \<Longrightarrow> range_inv sv'"
  by (erule srv_step.cases)
    (auto simp: sv_upd range_inv_def map_inv_def less_Suc_eq dest: map_of_SomeD split: option.splits,
     (metis pc_sess.simps)+)
lemma life_returned:
  assumes "life_inv sv" and "sess_inv sv" and "sv_stop sv = SReturned"
  shows "sv_pc sv c = HIdle \<or> sv_pc sv c = HDone" "p < length (sv_heap sv) \<Longrightarrow> sv_bpc sv ! p = BDone"
  using assms by (auto simp: life_inv_def sess_inv_def)

lemma life_inv_step [wgt_inv]:
  assumes "srv_step sv sv'" and "life_inv sv" and "sess_inv sv"
  shows "life_inv sv'"
proof (cases "sv_stop sv = SReturned")
  case True
  note r = life_returned [OF assms(2,3) True]
  from assms(1,2) True r show ?thesis
    by (cases rule: srv_step.cases) (auto simp: sv_upd life_inv_def, (metis hpc.distinct)+)
next
  case False
  from assms(1,2) False show ?thesis
    by (cases rule: srv_step.cases) (auto simp: sv_upd life_inv_def split: option.splits)
qed

lemma map_inv_frame:
  assumes "map_inv sv" and "sv_sessions sv' = sv_sessions sv"
    and "length (sv_heap sv') = length (sv_heap sv)"
    and "\<And>p. p < length (sv_heap sv) \<Longrightarrow> s_id (sv_heap sv' ! p) = s_id (sv_heap sv ! p) \<and>
      live_phase (s_phase (sv_heap sv' ! p)) = live_phase (s_phase (sv_heap sv ! p))"
  shows "map_inv sv'"
  using assms unfolding map_inv_def by metis

lemma map_inv_create:
  assumes "map_inv sv" and "map_of (sv_sessions sv) k = None"
    and "sv_sessions sv' = (k, length (sv_heap sv)) # sv_sessions sv"
    and "sv_heap sv' = sv_heap sv @ [s]" and "s_id s = k" and "s_phase s = Running"
  shows "map_inv sv'"
  using assms by (auto simp: map_inv_def map_of_eq_None_iff nth_append less_Suc_eq live_phase_def)

text \<open>\<open>removeSession\<close> removes the entry of the session that terminates and no other: an id has
  one live session at a time.\<close>

lemma map_inv_unmap:
  assumes inv: "map_inv sv" and p: "p < length (sv_heap sv)" "live_phase (s_phase (sv_heap sv ! p))"
    and sv': "sv_sessions sv' = filter (\<lambda>e. fst e \<noteq> s_id (sv_heap sv ! p)) (sv_sessions sv)"
      "sv_heap sv' = (sv_heap sv)[p := (sv_heap sv ! p)\<lparr>s_phase := Unmapped\<rparr>]"
  shows "map_inv sv'"
proof -
  have d: "distinct (map fst (sv_sessions sv))"
    and m: "\<And>k q. (k, q) \<in> set (sv_sessions sv) \<longleftrightarrow>
      q < length (sv_heap sv) \<and> s_id (sv_heap sv ! q) = k \<and> live_phase (s_phase (sv_heap sv ! q))"
    using inv by (auto simp: map_inv_def)
  have uniq: "q = p" if "(s_id (sv_heap sv ! p), q) \<in> set (sv_sessions sv)" for q
    using d that p m by (metis eq_key_imp_eq_value)
  have "(k, q) \<in> set (sv_sessions sv') \<longleftrightarrow> q < length (sv_heap sv') \<and>
      s_id (sv_heap sv' ! q) = k \<and> live_phase (s_phase (sv_heap sv' ! q))" for k q
  proof (cases "q = p")
    case True
    with m [of k p] p show ?thesis by (auto simp: sv' nth_upd live_phase_def)
  next
    case False
    with m [of k q] uniq [of q] p show ?thesis by (auto simp: sv' nth_upd)
  qed
  moreover have "distinct (map fst (sv_sessions sv'))"
    using d by (simp add: sv' distinct_map_filter)
  ultimately show ?thesis by (simp add: map_inv_def)
qed

lemma map_inv_step [wgt_inv]:
  assumes step: "srv_step sv sv'" and inv: "map_inv sv"
  shows "map_inv sv'"
  using step
proof cases
  case (st_create c k b)
  then show ?thesis using inv
    by (intro map_inv_create [OF inv st_create(3)]) (auto simp: sv_upd)
next
  case (st_unmap p)
  then show ?thesis
    by (intro map_inv_unmap [OF inv st_unmap(2)]) (auto simp: sv_upd live_phase_def)
qed (rule map_inv_frame [OF inv]; auto simp: sv_upd nth_upd live_phase_def)+

lemma sess_inv_step [wgt_inv]:
  "srv_step sv sv' \<Longrightarrow> sess_inv sv \<Longrightarrow> sess_inv sv'"
  by (erule srv_step.cases)
    (auto simp: sv_upd sess_inv_def nth_append nth_upd less_Suc_eq dest: add_stream_slots remove_stream_slots split: option.splits)

lemma owner_invD: "owner_inv sv \<Longrightarrow> in_slot sv p b c \<Longrightarrow> holds_slot (sv_pc sv c) = Some (p, b)"
  by (simp add: owner_inv_def in_slot_def)

lemma owner_frame:
  assumes "owner_inv sv"
    and "\<And>p b c. in_slot sv' p b c \<Longrightarrow>
      in_slot sv p b c \<and> (holds_slot (sv_pc sv' c) = holds_slot (sv_pc sv c) \<or> holds_slot (sv_pc sv c) = None) \<or>
      holds_slot (sv_pc sv' c) = Some (p, b)"
  shows "owner_inv sv'"
  using assms unfolding owner_inv_def in_slot_def by (metis option.distinct(1))

lemma slots_wf_iff: "slots_wf xs \<Longrightarrow> (b, c) \<in> set xs \<longleftrightarrow> map_of xs b = Some c"
  by (simp add: slots_wf_def map_of_eq_Some_iff)

lemma pc_range:
  "range_inv sv \<Longrightarrow> sv_pc sv c = h \<Longrightarrow> pc_sess h = Some p \<Longrightarrow> p < length (sv_heap sv)"
  by (auto simp: range_inv_def)

lemma set_add_stream:
  assumes "add_stream b c xs = (d, ys)" and "slots_wf xs"
  shows "set ys \<subseteq> insert (b, c) (set xs)" "(b, c) \<in> set ys"
    "\<And>b' c'. (b', c') \<in> set xs \<Longrightarrow> (b', c') \<in> set ys \<or> d = Some c'"
proof -
  from add_stream_slots [OF assms(2,1)]
  have y: "slots_wf ys" "map_of ys = (map_of xs)(b \<mapsto> c)" "d = map_of xs b" by auto
  have e: "(b', c') \<in> set ys \<longleftrightarrow> (if b' = b then c' = c else (b', c') \<in> set xs)" for b' c'
    using slots_wf_iff [OF y(1), of b' c'] slots_wf_iff [OF assms(2), of b' c'] y(2) by auto
  then show "set ys \<subseteq> insert (b, c) (set xs)" "(b, c) \<in> set ys" by (auto split: if_splits)
  show "(b', c') \<in> set ys \<or> d = Some c'" if "(b', c') \<in> set xs" for b' c'
    using that e [of b' c'] y(3) slots_wf_iff [OF assms(2), of b' c'] by (cases "b' = b") auto
qed

lemma set_remove_stream:
  assumes "remove_stream b c xs = (ys, d)" and "slots_wf xs"
  shows "set ys = set xs - {(b, c)}" "d \<longleftrightarrow> ys = []"
proof -
  from remove_stream_slots [OF assms(2,1)]
  have y: "slots_wf ys" "map_of ys = (if map_of xs b = Some c then (map_of xs)(b := None) else map_of xs)"
    by auto
  have "(b', c') \<in> set ys \<longleftrightarrow> (b', c') \<in> set xs \<and> (b', c') \<noteq> (b, c)" for b' c'
    using slots_wf_iff [OF y(1), of b' c'] slots_wf_iff [OF assms(2), of b' c'] y(2)
    by (auto split: if_splits)
  then show "set ys = set xs - {(b, c)}" by auto
  show "d \<longleftrightarrow> ys = []" using assms(1) by (auto simp: remove_stream_def Let_def)
qed

lemma sess_inv_wf: "sess_inv sv \<Longrightarrow> p < length (sv_heap sv) \<Longrightarrow> slots_wf (s_streams (sv_heap sv ! p))"
  by (simp add: sess_inv_def)

lemma owner_inv_step [wgt_inv]:
  assumes step: "srv_step sv sv'" and inv: "owner_inv sv" "sess_inv sv" "range_inv sv"
  shows "owner_inv sv'"
  using step
proof cases
  case (st_insert c p b d xs h)
  have p: "p < length (sv_heap sv)" using pc_range [OF inv(3) st_insert(2)] by simp
  note xs = set_add_stream [OF st_insert(3) sess_inv_wf [OF inv(2) p]]
  have "holds_slot h = Some (p, b)" by (simp add: st_insert(4) split: option.splits)
  with xs p st_insert(2) show ?thesis
    by (intro owner_frame [OF inv(1)]) (auto simp: st_insert(1) sv_upd in_slot_def nth_upd split: if_splits)
next
  case (st_remove c p b xs d)
  have p: "p < length (sv_heap sv)" using pc_range [OF inv(3) st_remove(2)] by simp
  note xs = set_remove_stream [OF st_remove(3) sess_inv_wf [OF inv(2) p]]
  have own: "in_slot sv q b' c \<Longrightarrow> q = p \<and> b' = b" for q b'
    using owner_invD [OF inv(1), of q b' c] st_remove(2) by auto
  have heap': "sv_heap sv' = (sv_heap sv)[p := (sv_heap sv ! p)\<lparr>s_streams := xs\<rparr>]"
    by (simp add: st_remove(1) sv_upd)
  have sub: "in_slot sv q b' c' \<and> (q, b', c') \<noteq> (p, b, c)" if i: "in_slot sv' q b' c'" for q b' c'
  proof (cases "q = p")
    case True
    with i p have "(b', c') \<in> set xs" by (simp add: in_slot_def heap')
    with xs(1) True p show ?thesis by (simp add: in_slot_def)
  next
    case False
    with i show ?thesis by (simp add: in_slot_def heap' nth_upd)
  qed
  show ?thesis
  proof (rule owner_frame [OF inv(1)])
    fix q b' c' assume i: "in_slot sv' q b' c'"
    then have "c' \<noteq> c" using own [of q b'] sub [OF i] by auto
    then have "sv_pc sv' c' = sv_pc sv c'" by (simp add: st_remove(1) sv_upd)
    with sub [OF i] show "in_slot sv q b' c' \<and> (holds_slot (sv_pc sv' c') = holds_slot (sv_pc sv c') \<or>
        holds_slot (sv_pc sv c') = None) \<or> holds_slot (sv_pc sv' c') = Some (q, b')" by simp
  qed
qed (rule owner_frame [OF inv(1)]; auto simp: sv_upd in_slot_def nth_append nth_upd less_Suc_eq split: if_splits)+

definition has_winner :: "server \<Rightarrow> nat \<Rightarrow> bool" where
  "has_winner sv p \<longleftrightarrow> (\<exists>c. pc_wins (sv_pc sv c) = Some p) \<or> sv_bpc sv ! p = BTerm \<or>
     stop_wins (sv_stop sv) = Some p"

definition terminating :: "term_phase \<Rightarrow> bool" where
  "terminating ph \<longleftrightarrow> ph = Claimed \<or> ph = Released \<or> ph = Unmapped"

lemma winner_inv_alt:
  "winner_inv sv \<longleftrightarrow> (\<forall>p < length (sv_heap sv).
     (s_phase (sv_heap sv ! p) = Running \<longrightarrow> sv_bpc sv ! p \<noteq> BDone) \<and>
     (terminating (s_phase (sv_heap sv ! p)) \<longrightarrow> has_winner sv p))"
  by (auto simp: winner_inv_def has_winner_def terminating_def)

lemma terminating_simps [simp]:
  "terminating Claimed" "terminating Released" "terminating Unmapped"
  "\<not> terminating Running" "\<not> terminating Finished"
  by (simp_all add: terminating_def)

lemma winner_frame:
  assumes "winner_inv sv" and "length (sv_heap sv') = length (sv_heap sv)"
    and "\<And>p. p < length (sv_heap sv) \<Longrightarrow> s_phase (sv_heap sv' ! p) = Running \<Longrightarrow>
      s_phase (sv_heap sv ! p) = Running \<and> (sv_bpc sv' ! p = BDone \<longrightarrow> sv_bpc sv ! p = BDone)"
    and "\<And>p. p < length (sv_heap sv) \<Longrightarrow> terminating (s_phase (sv_heap sv' ! p)) \<Longrightarrow>
      terminating (s_phase (sv_heap sv ! p)) \<and> (has_winner sv p \<longrightarrow> has_winner sv' p) \<or> has_winner sv' p"
  shows "winner_inv sv'"
  using assms unfolding winner_inv_alt by metis

lemma has_winner_mono:
  assumes "has_winner sv p" and "\<And>c. pc_wins (sv_pc sv c) = Some p \<Longrightarrow> pc_wins (sv_pc sv' c) = Some p"
    and "sv_bpc sv ! p = BTerm \<Longrightarrow> sv_bpc sv' ! p = BTerm"
    and "stop_wins (sv_stop sv) = Some p \<Longrightarrow> stop_wins (sv_stop sv') = Some p"
  shows "has_winner sv' p"
  using assms unfolding has_winner_def by blast

lemma winner_inv_step [wgt_inv]:
  assumes step: "srv_step sv sv'" and inv: "winner_inv sv" "sess_inv sv" "life_inv sv"
  shows "winner_inv sv'"
  using step
proof cases
  case st_stop
  then have "sv_stop sv = SIdle" using inv(3) by (auto simp: life_inv_def)
  with st_stop show ?thesis
    by (intro winner_frame [OF inv(1)]) (auto simp: sv_upd elim!: has_winner_mono)
next
  case (st_create c k b)
  have len: "length (sv_bpc sv) = length (sv_heap sv)" using inv(2) by (simp add: sess_inv_def)
  have "has_winner sv' q" if "q < length (sv_heap sv)" "has_winner sv q" for q
    using that(2) by (rule has_winner_mono) (use that(1) st_create len in \<open>auto simp: sv_upd nth_append\<close>)
  then show ?thesis
    using inv(1) len st_create
    by (simp add: winner_inv_alt sv_upd nth_append less_Suc_eq all_conj_distrib imp_conjL)
next
  case (st_run_finished c p b)
  then show ?thesis
    by (intro winner_frame [OF inv(1)])
      (auto simp: sv_upd elim!: has_winner_mono)
next
  case (st_insert c p b d xs h)
  then have "pc_wins h = None" by (simp split: option.splits)
  with st_insert show ?thesis
    by (intro winner_frame [OF inv(1)])
      (auto simp: sv_upd nth_upd split: if_splits elim!: has_winner_mono)
next
  case (st_run_claim c p b)
  then have "has_winner sv' p" by (auto simp: has_winner_def sv_upd)
  with st_run_claim show ?thesis
    by (intro winner_frame [OF inv(1)])
      (auto simp: sv_upd nth_upd split: if_splits elim!: has_winner_mono)
next
  case (st_end_claim c p)
  then have "has_winner sv' p" by (auto simp: has_winner_def sv_upd)
  with st_end_claim show ?thesis
    by (intro winner_frame [OF inv(1)])
      (auto simp: sv_upd nth_upd split: if_splits elim!: has_winner_mono)
next
  case (st_stop_claim p ps)
  then have "has_winner sv' p" by (auto simp: has_winner_def sv_upd)
  with st_stop_claim show ?thesis
    by (intro winner_frame [OF inv(1)])
      (auto simp: sv_upd nth_upd split: if_splits elim!: has_winner_mono)
next
  case (st_backend_claim p)
  then have "has_winner sv' p" using inv(2) by (auto simp: has_winner_def sv_upd sess_inv_def)
  with st_backend_claim inv(2) show ?thesis
    by (intro winner_frame [OF inv(1)])
      (auto simp: sv_upd nth_upd sess_inv_def split: if_splits elim!: has_winner_mono)
next
  case (st_backend_done p)
  then show ?thesis using inv(2)
    by (intro winner_frame [OF inv(1)])
      (auto simp: nth_upd sess_inv_def split: if_splits elim!: has_winner_mono)
qed (rule winner_frame [OF inv(1)];
     auto simp: sv_upd nth_upd split: if_splits elim!: has_winner_mono)+

lemma attend_frame:
  assumes "attend_inv sv" and "length (sv_heap sv') = length (sv_heap sv)"
    and "\<And>p. p < length (sv_heap sv) \<Longrightarrow> s_phase (sv_heap sv' ! p) = Running \<Longrightarrow>
      s_phase (sv_heap sv ! p) = Running \<and> (attended sv p \<longrightarrow> attended sv' p)"
  shows "attend_inv sv'"
  using assms unfolding attend_inv_def by metis

lemma attended_mono:
  assumes "attended sv p"
    and "s_streams (sv_heap sv ! p) \<noteq> [] \<Longrightarrow> s_streams (sv_heap sv' ! p) \<noteq> []"
    and "\<And>c. attends (sv_pc sv c) = Some p \<Longrightarrow>
      attends (sv_pc sv' c) = Some p \<or> s_streams (sv_heap sv' ! p) \<noteq> []"
  shows "attended sv' p"
  using assms unfolding attended_def by blast

lemma attend_inv_step [wgt_inv]:
  assumes step: "srv_step sv sv'" and inv: "attend_inv sv" "sess_inv sv" "range_inv sv"
  shows "attend_inv sv'"
  using step
proof cases
  case (st_create c k b)
  have "attended sv' q" if "q < length (sv_heap sv)" "attended sv q" for q
    using that(2) by (rule attended_mono) (use that(1) st_create in \<open>auto simp: sv_upd nth_append\<close>)
  moreover have "attended sv' (length (sv_heap sv))"
    using st_create by (auto simp: attended_def sv_upd)
  ultimately show ?thesis
    using inv(1) st_create(1)
    by (auto simp: attend_inv_def nth_append less_Suc_eq set_pc_def)
next
  case (st_insert c p b d xs h)
  have p: "p < length (sv_heap sv)" using pc_range [OF inv(3) st_insert(2)] by simp
  note xs = set_add_stream [OF st_insert(3) sess_inv_wf [OF inv(2) p]]
  have "xs \<noteq> []" using xs(2) by auto
  then show ?thesis
    using st_insert(1,2) p
    by (intro attend_frame [OF inv(1)])
      (auto simp: sv_upd nth_upd split: if_splits elim!: attended_mono)
next
  case (st_remove c p b xs d)
  have p: "p < length (sv_heap sv)" using pc_range [OF inv(3) st_remove(2)] by simp
  note xs = set_remove_stream [OF st_remove(3) sess_inv_wf [OF inv(2) p]]
  have "attended sv' p" if "attended sv p"
  proof (cases d)
    case True
    then show ?thesis using st_remove(1) by (auto simp: attended_def sv_upd)
  next
    case False
    then show ?thesis using st_remove(1) xs(2) p by (auto simp: attended_def sv_upd)
  qed
  with st_remove(1,2) show ?thesis
    by (intro attend_frame [OF inv(1)])
      (auto simp: sv_upd nth_upd split: if_splits elim!: attended_mono)
qed (rule attend_frame [OF inv(1)];
     auto simp: sv_upd nth_upd split: if_splits elim!: attended_mono)+

lemma closed_frame:
  assumes "closed_inv sv"
    and "\<And>c. pc_closed (sv_pc sv' c) \<Longrightarrow> (pc_closed (sv_pc sv c) \<and> sv_closed sv \<subseteq> sv_closed sv') \<or> c \<in> sv_closed sv'"
    and "\<And>c p b. serves (sv_pc sv' c) = Some (p, b) \<Longrightarrow>
      (serves (sv_pc sv c) = Some (p, b) \<and> (accounted sv p b c \<longrightarrow> accounted sv' p b c)) \<or> accounted sv' p b c"
  shows "closed_inv sv'"
  using assms unfolding closed_inv_def by (meson subsetD)

lemma accounted_mono:
  assumes "accounted sv p b c" and "sv_closed sv \<subseteq> sv_closed sv'"
    and "in_slot sv p b c \<Longrightarrow> accounted sv' p b c"
    and "\<And>c'. evicts (sv_pc sv c') = Some c \<Longrightarrow> evicts (sv_pc sv' c') = Some c \<or> c \<in> sv_closed sv'"
  shows "accounted sv' p b c"
  using assms unfolding accounted_def by blast

lemma closed_frame_keep:
  assumes "closed_inv sv" and "sv_closed sv \<subseteq> sv_closed sv'"
    and "\<And>p b c. in_slot sv p b c \<Longrightarrow> in_slot sv' p b c"
    and "\<And>c. pc_closed (sv_pc sv' c) \<Longrightarrow> pc_closed (sv_pc sv c) \<or> c \<in> sv_closed sv'"
    and "\<And>c x. serves (sv_pc sv' c) = Some x \<Longrightarrow> serves (sv_pc sv c) = Some x"
    and "\<And>c d. evicts (sv_pc sv c) = Some d \<Longrightarrow> evicts (sv_pc sv' c) = Some d \<or> d \<in> sv_closed sv'"
  shows "closed_inv sv'"
  using assms(2-5)
  by (intro closed_frame [OF assms(1)]) (auto simp: accounted_def, (metis assms(6))+)

lemma accounted_in_slot: "in_slot sv p b c \<Longrightarrow> accounted sv p b c"
  by (simp add: accounted_def)

lemma closed_inv_step [wgt_inv]:
  assumes step: "srv_step sv sv'" and inv: "closed_inv sv" "sess_inv sv" "range_inv sv"
  shows "closed_inv sv'"
  using step
proof cases
  case (st_create c k b)
  then have "in_slot sv q b' c' \<Longrightarrow> in_slot sv' q b' c'" for q b' c'
    by (auto simp: in_slot_def sv_upd nth_append)
  with st_create show ?thesis
    by (intro closed_frame [OF inv(1)])
      (auto simp: set_pc_def split: if_splits intro: accounted_in_slot elim!: accounted_mono)
next
  case (st_insert c p b d xs h)
  have p: "p < length (sv_heap sv)" using pc_range [OF inv(3) st_insert(2)] by simp
  note xs = set_add_stream [OF st_insert(3) sess_inv_wf [OF inv(2) p]]
  have self: "in_slot sv' p b c" "serves h = Some (p, b)" "\<not> pc_closed h"
    using xs(2) p st_insert(1,4) by (auto simp: in_slot_def sv_upd split: option.splits)
  have others: "accounted sv' q b' c'" if i: "in_slot sv q b' c'" for q b' c'
  proof (cases "q = p")
    case True
    with xs(3) [of b' c'] i consider "(b', c') \<in> set xs" | "d = Some c'" by (auto simp: in_slot_def)
    then show ?thesis
    proof cases
      case 1
      then show ?thesis using True p st_insert(1) by (auto simp: accounted_def in_slot_def sv_upd)
    next
      case 2
      then have "evicts (sv_pc sv' c) = Some c'" using st_insert(1,4) by (simp add: sv_upd)
      then show ?thesis by (auto simp: accounted_def)
    qed
  next
    case False
    with i st_insert(1) show ?thesis by (auto simp: accounted_def in_slot_def sv_upd nth_upd)
  qed
  have pc: "sv_pc sv' = (sv_pc sv)(c := h)" "sv_closed sv' = sv_closed sv"
    using st_insert(1) by (simp_all add: sv_upd)
  show ?thesis
    by (rule closed_frame [OF inv(1)])
      (use self others st_insert(2) in
        \<open>auto simp: pc split: if_splits intro: accounted_in_slot elim!: accounted_mono\<close>)
next
  case (st_remove c p b xs d)
  have p: "p < length (sv_heap sv)" using pc_range [OF inv(3) st_remove(2)] by simp
  note xs = set_remove_stream [OF st_remove(3) sess_inv_wf [OF inv(2) p]]
  have others: "in_slot sv' q b' c'" if "in_slot sv q b' c'" "c' \<noteq> c" for q b' c'
    using that xs(1) p st_remove(1) by (cases "q = p") (auto simp: in_slot_def sv_upd nth_upd)
  have c: "c \<in> sv_closed sv" using inv(1) st_remove(2) by (auto simp: closed_inv_def)
  have pc: "sv_pc sv' = (sv_pc sv)(c := if d then HDrained p else HDone)" "sv_closed sv' = sv_closed sv"
    using st_remove(1) by (simp_all add: sv_upd)
  show ?thesis
    by (rule closed_frame [OF inv(1)])
      (use others c st_remove(2) in
        \<open>auto simp: pc split: if_splits intro: accounted_in_slot elim!: accounted_mono\<close>)
next
  case (st_streams p)
  then have others: "accounted sv' q b' c'" if "in_slot sv q b' c'" for q b' c'
    using that by (cases "q = p") (auto simp: accounted_def in_slot_def sv_upd nth_upd intro: rev_image_eqI)
  have "sv_pc sv' = sv_pc sv" "sv_closed sv \<subseteq> sv_closed sv'"
    using st_streams(1) by (auto simp: sv_upd)
  with others show ?thesis
    by (intro closed_frame [OF inv(1)]) (auto elim!: accounted_mono)
qed (rule closed_frame_keep [OF inv(1)];
     auto simp: sv_upd in_slot_def nth_upd split: if_splits)+

definition srv_inv :: "server \<Rightarrow> bool" where
  "srv_inv sv \<longleftrightarrow> map_inv sv \<and> sess_inv sv \<and> range_inv sv \<and> owner_inv sv \<and> winner_inv sv \<and>
     attend_inv sv \<and> closed_inv sv \<and> life_inv sv"

lemma srv_inv_fresh: "srv_inv fresh_server"
  by (simp add: srv_inv_def map_inv_def sess_inv_def range_inv_def owner_inv_def winner_inv_def
      attend_inv_def closed_inv_def life_inv_def fresh_server_def)

lemma srv_inv_step: "srv_inv sv \<Longrightarrow> srv_step sv sv' \<Longrightarrow> srv_inv sv'"
  by (simp add: srv_inv_def wgt_inv)

lemma reachable_inv: "sv_reachable sv \<Longrightarrow> srv_inv sv"
  by (induction rule: sv_reachable.induct) (auto intro: srv_inv_fresh srv_inv_step sv_exec_step)

lemma sv_run_reachable: "sv_reachable sv \<Longrightarrow> sv_run es sv = Some sv' \<Longrightarrow> sv_reachable sv'"
  by (induction es arbitrary: sv) (auto split: option.splits intro: sv_step)

lemma map_empty_if_finished:
  assumes "map_inv sv" and "\<And>p. p < length (sv_heap sv) \<Longrightarrow> s_phase (sv_heap sv ! p) = Finished"
  shows "sv_sessions sv = []"
proof (rule ccontr)
  assume "sv_sessions sv \<noteq> []"
  then obtain k p where "(k, p) \<in> set (sv_sessions sv)" by (metis list.set_sel(1) prod.exhaust)
  with assms(1) have "p < length (sv_heap sv)" "live_phase (s_phase (sv_heap sv ! p))"
    by (auto simp: map_inv_def)
  with assms(2) [of p] show False by (simp add: live_phase_def)
qed

section \<open>Sessions and their streams\<close>

text \<open>A session opened and served: the events of connection 0 until it runs, and until it has
  left and the session is gone. The session id is the single byte 1, stream id 7.\<close>

definition ev_open :: "conn \<Rightarrow> event list" where
  "ev_open c = [EAccept c, EHandshake c (Inr ([1], 7)), ELookup c (Inr ()), ECheck c, EInsert c]"

definition ev_leave :: "event list" where
  "ev_leave = [ERun 0 StreamExit, EClose 0, ERemove 0, EDrained 0, ERelease 0, EUnmap 0, EStreams 0,
     EHandlerTerminated 0]"

definition ev_stop :: "event list" where
  "ev_stop = [EStopBegin, EStopSnapshot [], EStopNext, EAcceptEnd, EBackendEnd 0, EStopReturn]"

lemmas sv_eval = sv_upd srv_Start_def ctx_cancel_def stop_begin_def stop_snapshot_def
  stop_next_def stop_return_def accept_conn_def accept_end_def hc_handshake_def hc_lookup_def
  getOrCreateSession_def hc_addStream_check_def hc_addStream_insert_def hc_evict_def
  hc_runStream_end_def hc_close_def hc_remove_def hc_drained_def hc_terminated_def
  backend_end_def backend_done_def term_release_def term_unmap_def term_streams_def
  terminate_release_def terminate_streams_def removeStream_def remove_stream_def add_stream_def
  delete_at_def claim_simps fresh_server_def hex_encode_def hex_digits_def ev_open_def ev_leave_def
  ev_stop_def

definition demo_running :: server where
  "demo_running = the (sv_run (EStart (Inr ()) (Inr ()) # ev_open 0 @ ev_open 1 @ [EEvict 1]) fresh_server)"

lemma demo_running_eq:
  "sv_run (EStart (Inr ()) (Inr ()) # ev_open 0 @ ev_open 1 @ [EEvict 1]) fresh_server = Some demo_running"
  "sv_sessions demo_running = [(''01'', 0)]" "length (sv_heap demo_running) = 1"
  "sv_pc demo_running 0 = HRun 0 7" "sv_pc demo_running 1 = HRun 0 7"
  "sv_closed demo_running = {0}"
  by (simp_all add: demo_running_def sv_eval)

definition demo_stopped :: server where
  "demo_stopped =
     the (sv_run (EStart (Inr ()) (Inr ()) # ev_open 0 @ ev_leave @ ev_stop) fresh_server)"

lemma demo_stopped_eq:
  "sv_run (EStart (Inr ()) (Inr ()) # ev_open 0 @ ev_leave @ ev_stop) fresh_server = Some demo_stopped"
  "sv_stop demo_stopped = SReturned" "length (sv_heap demo_stopped) = 1" "sv_accepted demo_stopped = [0]"
  "sv_pc demo_stopped 0 = HDone" "sv_bpc demo_stopped = [BDone]"
  by (simp_all add: demo_stopped_def sv_eval)

lemmas demo_reachable =
  sv_run_reachable [OF sv_init demo_running_eq(1)] sv_run_reachable [OF sv_init demo_stopped_eq(1)]

text \<open>C1: The session map is exact and a session id has one backend. In every reachable state a
  session id is mapped to a session exactly when that session has this id and has not yet run
  its \<open>onTerminate\<close>; two sessions whose backend is open have different ids; so a terminating
  session never removes the map entry of another session.\<close>

theorem session_map_exact:
  assumes "sv_reachable sv"
  shows "(\<forall>k p. map_of (sv_sessions sv) k = Some p \<longleftrightarrow>
        p < length (sv_heap sv) \<and> s_id (sv_heap sv ! p) = k \<and> live_phase (s_phase (sv_heap sv ! p))) \<and>
    (\<forall>p q. p < length (sv_heap sv) \<longrightarrow> q < length (sv_heap sv) \<longrightarrow>
        s_backendOpen (sv_heap sv ! p) \<longrightarrow> s_backendOpen (sv_heap sv ! q) \<longrightarrow>
        s_id (sv_heap sv ! p) = s_id (sv_heap sv ! q) \<longrightarrow> p = q)"
proof -
  from reachable_inv [OF assms] have inv: "map_inv sv" "sess_inv sv" by (auto simp: srv_inv_def)
  have 1: "map_of (sv_sessions sv) k = Some p \<longleftrightarrow>
      p < length (sv_heap sv) \<and> s_id (sv_heap sv ! p) = k \<and> live_phase (s_phase (sv_heap sv ! p))" for k p
    using inv(1) by (simp add: map_inv_def map_of_eq_Some_iff)
  have "live_phase (s_phase (sv_heap sv ! p))"
    if "p < length (sv_heap sv)" "s_backendOpen (sv_heap sv ! p)" for p
    using inv(2) that by (auto simp: sess_inv_def live_phase_def)
  then have "p = q" if "p < length (sv_heap sv)" "q < length (sv_heap sv)"
    "s_backendOpen (sv_heap sv ! p)" "s_backendOpen (sv_heap sv ! q)"
    "s_id (sv_heap sv ! p) = s_id (sv_heap sv ! q)" for p q
    using that 1 [of "s_id (sv_heap sv ! p)" p] 1 [of "s_id (sv_heap sv ! p)" q] by auto
  with 1 show ?thesis by blast
qed

theorem session_map_exact_witness:
  "s_id (sv_heap demo_running ! 0) = ''01'' \<and> live_phase (s_phase (sv_heap demo_running ! 0))"
proof -
  have "map_of (sv_sessions demo_running) ''01'' = Some 0" by (simp add: demo_running_eq)
  then show ?thesis
    using session_map_exact [OF demo_reachable(1), THEN conjunct1, rule_format, of "''01''" 0] by blast
qed

lemma stopped_clean:
  assumes "sv_reachable sv" and "sv_stop sv = SReturned"
  shows "sv_sessions sv = [] \<and>
    (\<forall>s \<in> set (sv_heap sv). s_phase s = Finished \<and> \<not> s_backendOpen s) \<and>
    set (sv_accepted sv) \<subseteq> sv_closed sv"
proof -
  from reachable_inv [OF assms(1)]
  have inv: "map_inv sv" "sess_inv sv" "winner_inv sv" "closed_inv sv" "life_inv sv"
    by (auto simp: srv_inv_def)
  note r = life_returned [OF inv(5,2) assms(2)]
  have nw: "\<not> has_winner sv p" if "p < length (sv_heap sv)" for p
    using r(1) r(2) [OF that] assms(2) by (auto simp: has_winner_def) (metis pc_wins.simps option.distinct(1))
  have fin: "s_phase (sv_heap sv ! p) = Finished" if "p < length (sv_heap sv)" for p
    using inv(3) nw [OF that] r(2) [OF that] that
    by (cases "s_phase (sv_heap sv ! p)") (auto simp: winner_inv_alt)
  have "sv_sessions sv = []" by (rule map_empty_if_finished [OF inv(1) fin])
  moreover have "\<forall>s \<in> set (sv_heap sv). s_phase s = Finished \<and> \<not> s_backendOpen s"
    using fin inv(2) by (auto simp: sess_inv_def in_set_conv_nth)
  moreover have "set (sv_accepted sv) \<subseteq> sv_closed sv"
    using inv(4,5) assms(2) by (auto simp: life_inv_def closed_inv_def)
  ultimately show ?thesis by blast
qed

text \<open>C4: After \<open>Stop\<close> has returned nothing is left behind: every session is torn down, every
  backend is closed, the session map is empty and every accepted connection is closed.\<close>

theorem stop_leaves_nothing_behind:
  assumes "sv_reachable sv" and "sv_stop sv = SReturned"
  shows "sv_sessions sv = [] \<and>
    (\<forall>s \<in> set (sv_heap sv). s_phase s = Finished \<and> \<not> s_backendOpen s) \<and>
    set (sv_accepted sv) \<subseteq> sv_closed sv"
  by (rule stopped_clean [OF assms])

theorem stop_leaves_nothing_behind_witness:
  "sv_sessions demo_stopped = [] \<and> s_phase (sv_heap demo_stopped ! 0) = Finished \<and>
   0 \<in> sv_closed demo_stopped"
  using stop_leaves_nothing_behind [OF demo_reachable(2) demo_stopped_eq(2)] demo_stopped_eq(3,4)
  by simp

text \<open>C27: No session is left without somebody who will end it. When all handlers have returned,
  no session is still running, and once no \<open>terminate\<close> is in progress the map is empty and all
  backends are closed.\<close>

theorem no_session_outlives_its_streams:
  assumes "sv_reachable sv" and "\<forall>c \<in> set (sv_accepted sv). sv_pc sv c = HDone"
  shows "(\<forall>s \<in> set (sv_heap sv). s_phase s \<noteq> Running) \<and>
    ((\<forall>p < length (sv_heap sv). \<not> has_winner sv p) \<longrightarrow>
       sv_sessions sv = [] \<and> (\<forall>s \<in> set (sv_heap sv). s_phase s = Finished \<and> \<not> s_backendOpen s))"
proof -
  from reachable_inv [OF assms(1)]
  have inv: "map_inv sv" "sess_inv sv" "winner_inv sv" "attend_inv sv" "owner_inv sv" "life_inv sv"
    by (auto simp: srv_inv_def)
  have idle: "sv_pc sv c = HIdle \<or> sv_pc sv c = HDone" for c
    using inv(6) assms(2) by (auto simp: life_inv_def)
  have na: "\<not> attended sv p" if p: "p < length (sv_heap sv)" for p
  proof
    assume "attended sv p"
    then consider b c where "in_slot sv p b c" | c where "attends (sv_pc sv c) = Some p"
      using p by (cases "s_streams (sv_heap sv ! p)") (auto simp: attended_def in_slot_def)
    then show False
      using idle owner_invD [OF inv(5), of p] by cases (metis holds_slot.simps attends.simps option.distinct(1))+
  qed
  then have nr: "s_phase (sv_heap sv ! p) \<noteq> Running" if "p < length (sv_heap sv)" for p
    using inv(4) that by (auto simp: attend_inv_def)
  have fin: "s_phase (sv_heap sv ! p) = Finished" if "p < length (sv_heap sv)" "\<not> has_winner sv p" for p
    using inv(3) that nr [OF that(1)] by (cases "s_phase (sv_heap sv ! p)") (auto simp: winner_inv_alt)
  have "sv_sessions sv = []" if "\<forall>p < length (sv_heap sv). \<not> has_winner sv p"
    using that by (intro map_empty_if_finished [OF inv(1)] fin) auto
  with nr fin inv(2) show ?thesis by (auto simp: sess_inv_def in_set_conv_nth)
qed

theorem no_session_outlives_its_streams_witness:
  "length (sv_heap demo_stopped) = 1 \<and> s_phase (sv_heap demo_stopped ! 0) \<noteq> Running"
  using no_session_outlives_its_streams [OF demo_reachable(2)] demo_stopped_eq(3,4,5) by simp

text \<open>C28: Every connection that a handler serves is accounted for: it is closed, or it holds its
  slot in the session's table, or another handler is about to close it; and every slot is held
  by the handler of its connection. So an evicted connection cannot keep running unnoticed and
  no slot points to a connection nobody reads.\<close>

theorem served_streams_accounted_for:
  assumes "sv_reachable sv"
  shows "(\<forall>c p b. sv_pc sv c = HRun p b \<longrightarrow>
        c \<in> sv_closed sv \<or> in_slot sv p b c \<or> (\<exists>c' q b'. sv_pc sv c' = HEvict q b' c)) \<and>
    (\<forall>p b c. in_slot sv p b c \<longrightarrow> holds_slot (sv_pc sv c) = Some (p, b))"
proof -
  from reachable_inv [OF assms] have inv: "closed_inv sv" "owner_inv sv" by (auto simp: srv_inv_def)
  have "c \<in> sv_closed sv \<or> in_slot sv p b c \<or> (\<exists>c' q b'. sv_pc sv c' = HEvict q b' c)"
    if "sv_pc sv c = HRun p b" for c p b
  proof -
    have "accounted sv p b c" using inv(1) that by (simp add: closed_inv_def)
    moreover have "\<exists>q b'. h = HEvict q b' c" if "evicts h = Some c" for h
      using that by (cases h) auto
    ultimately show ?thesis by (auto simp: accounted_def)
  qed
  with owner_invD [OF inv(2)] show ?thesis by blast
qed

theorem served_streams_accounted_for_witness:
  "sv_pc demo_running 1 = HRun 0 7 \<and> in_slot demo_running 0 7 1"
  using served_streams_accounted_for [OF demo_reachable(1), THEN conjunct1, rule_format, of 1 0 7]
    demo_running_eq(4-6)
  by (auto simp: demo_running_def sv_eval in_slot_def split: if_splits)


section \<open>Races\<close>

text \<open>The events of a stream that passes the check of \<open>addStream\<close> just before \<open>Stop\<close> tears its
  session down, and inserts itself just after.\<close>

definition ev_late_stream :: "event list" where
  "ev_late_stream =
     EStart (Inr ()) (Inr ()) # ev_open 0 @
     [EAccept 1, EHandshake 1 (Inr ([1], 8)), ELookup 1 (Inr ()), ECheck 1,
      EStopBegin, EStopSnapshot [0], EStopNext, ERelease 0, EUnmap 0, EStreams 0, EInsert 1,
      EStopNext, EStopNext, EAcceptEnd]"

text \<open>\<open>addStream\<close> checks \<open>terminated\<close> before it takes the lock, so a stream can still be
  registered in a session whose \<open>terminate\<close> has finished: after this run \<open>Stop\<close> waits, the
  session is finished, and connection 1 is registered in it, is served, and is not closed by
  anybody; only its own read deadline ends the wait.\<close>

theorem late_stream_survives_terminate:
  "case sv_run ev_late_stream fresh_server of
     None \<Rightarrow> False
   | Some sv \<Rightarrow> sv_stop sv = SWaiting \<and> s_phase (sv_heap sv ! 0) = Finished \<and>
       in_slot sv 0 8 1 \<and> sv_pc sv 1 = HRun 0 8 \<and> 1 \<notin> sv_closed sv \<and> stop_return sv = None"
  by (simp add: ev_late_stream_def sv_eval in_slot_def)

text \<open>Cancelling the context given to \<open>Start\<close> does not end the sessions: no goroutine watches
  the sessions' contexts, so the session map, the backends, the streams and the handlers stay
  as they were, and the server is not stopped.\<close>

theorem ctx_cancel_keeps_sessions:
  assumes "sv_exec ECtxCancel sv = Some sv'"
  shows "sv_sessions sv' = sv_sessions sv \<and> sv_pc sv' = sv_pc sv \<and> sv_closed sv' = sv_closed sv \<and>
    sv_stop sv' = sv_stop sv \<and>
    list_all2 (\<lambda>s s'. s_phase s' = s_phase s \<and> s_backendOpen s' = s_backendOpen s \<and>
      s_streams s' = s_streams s) (sv_heap sv) (sv_heap sv')"
  using assms by (auto simp: ctx_cancel_def cancel_loop_def list_all2_conv_all_nth split: if_splits)

theorem ctx_cancel_keeps_sessions_witness:
  "case sv_exec ECtxCancel demo_running of
     None \<Rightarrow> False
   | Some sv \<Rightarrow> sv_cancelled sv \<and> sv_sessions sv = [(''01'', 0)] \<and> sv_pc sv 1 = HRun 0 7"
proof (cases "sv_exec ECtxCancel demo_running")
  case None
  then show ?thesis by (simp add: demo_running_def sv_eval split: if_splits)
next
  case (Some sv)
  then have "sv_cancelled sv" by (auto simp: ctx_cancel_def cancel_loop_def split: if_splits)
  with ctx_cancel_keeps_sessions [OF Some] Some demo_running_eq(2,5) show ?thesis by simp
qed
end
