(* ===== verification/Cli_Commands.thy ===== *)
theory Cli_Commands
  imports Cli_Run Srv_Server
begin

text \<open>
  The other commands of the tool, put together from the parts of \<open>Cli_Config\<close>: the hub-only mode
  \<open>runProxy\<close> of \<open>cmd/wgturn-cli/main.go\<close>, \<open>runServe\<close> of \<open>serve.go\<close>, and \<open>runProvisionURL\<close> and \<open>runRevokeURL\<close> of
  \<open>provision_url.go\<close>. The lemmas say what each command leaves behind.
\<close>

section \<open>Definitions\<close>

subsection \<open>The hub alone\<close>

text \<open>The result is the error, the tunnel the command holds at its end, and the tunnel that ran while it
  waited for the signal.\<close>

definition runProxy ::
    "'h run_env \<Rightarrow> (nat \<Rightarrow> nat \<Rightarrow> nat \<Rightarrow> nat) \<Rightarrow> (string \<Rightarrow> opened) \<Rightarrow> (string \<Rightarrow> string \<Rightarrow> string \<Rightarrow> provider) \<Rightarrow> string \<Rightarrow> string \<Rightarrow>
     build_args \<Rightarrow> go_error option \<times> tunnel option \<times> tunnel option" where
  "runProxy env frac files stub vkChromeURL vkChromeUA a =
     (case buildConfig frac files (re_routed env (pickCaptchaSolver vkChromeURL vkChromeUA)) stub a of
        Inl e \<Rightarrow> (Some (wrapf ''config: '' e), None, None)
      | Inr cfg \<Rightarrow>
          (case NewTunnel (re_shpErr env) cfg of
             Inl e \<Rightarrow> (Some (wrapf ''new: '' e), None, None)
           | Inr tn \<Rightarrow>
               (case Start (re_listen env) (re_cert env) (re_wait env) tn of
                  (Some e, t1) \<Rightarrow> (Some (wrapf ''start: '' e), Some t1, None)
                | (None, t1) \<Rightarrow> (None, Some (Stop t1), Some t1))))"

subsection \<open>The server\<close>

record serve_flags =
  sf_source :: string
  sf_positional :: "string list"
  sf_listen :: string
  sf_backend :: string

text \<open>\<open>runServe\<close> up to the started server: \<open>gen\<close> is the outcome of making the certificate, \<open>resolve\<close> and
  \<open>listenRes\<close> those of resolving and opening the listener. The backend is the address of \<open>UDPBackend\<close>.\<close>

definition runServe ::
    "'l \<Rightarrow> unit res \<Rightarrow> (nat \<Rightarrow> nat \<Rightarrow> nat \<Rightarrow> nat) \<Rightarrow> (string \<Rightarrow> opened) \<Rightarrow> unit res \<Rightarrow> unit res \<Rightarrow> serve_flags \<Rightarrow>
     ((string, 'l) srv_config \<times> server) res" where
  "runServe logger gen frac files resolve listenRes f =
     (let path = (if sf_source f = [] \<and> length (sf_positional f) = 1 then sf_positional f ! 0 else sf_source f) in
      if path = [] then Inl (errors_New ''serve: config path is required (positional or -config)'')
      else bind_res (parseWGConfig frac (files path)) (\<lambda>settings.
           bind_res (serve_config settings (sf_listen f) (sf_backend f)) (\<lambda>(listen, backend).
           case New logger gen \<lparr>ListenAddr = listen, Backend = Some backend, Logger = Some logger, HandshakeTimeout = 0,
                                StreamReadTimeout = 0, BackendWriteTimeout = 0\<rparr> of
             Inl e \<Rightarrow> Inl (wrapf ''serve: new: '' e)
           | Inr (cfg, srv) \<Rightarrow>
               (case srv_Start (ListenAddr cfg) resolve listenRes srv of
                  (Some e, _) \<Rightarrow> Inl (wrapf ''serve: start: '' e)
                | (None, srv1) \<Rightarrow> Inr (cfg, srv1)))))"

text \<open>\<open>UDPBackend.Open\<close>: \<open>dial\<close> is the outcome of the dialer for the address.\<close>

definition udp_Open :: "(string \<Rightarrow> 'c res) \<Rightarrow> string \<Rightarrow> 'c res" where
  "udp_Open dial addr =
     (if addr = [] then Inl (errors_New ''wgturnsrv: UDPBackend.Addr is empty'')
      else case dial addr of
        Inl e \<Rightarrow> Inl (wrapf (''wgturnsrv: backend dial '' @ addr @ '': '') e)
      | Inr c \<Rightarrow> Inr c)"

subsection \<open>The administration commands\<close>

definition runProvisionURL ::
    "netip_errs \<Rightarrow> sync_command \<Rightarrow> provision_flags \<Rightarrow> (string \<times> admin_io \<times> crypto_env) list \<Rightarrow> admin_world \<Rightarrow>
     string list \<times> go_error option \<times> admin_world" where
  "runProvisionURL ne realSync f names w =
     (case provision_server ne realSync f (map fst names) of
        Inl e \<Rightarrow> ([], Some e, w)
      | Inr srv \<Rightarrow> provision_loop (vf_printConf f) srv names w)"

definition runRevokeURL ::
    "sync_command \<Rightarrow> string \<Rightarrow> string \<Rightarrow> (string \<times> admin_io) list \<Rightarrow> admin_world \<Rightarrow> go_error option \<times> admin_world" where
  "runRevokeURL realSync conf iface names w =
     (if length names = 0 then (Some (errors_New ''revoke-url: at least one name is required''), w)
      else revoke_loop (NewServer realSync
             \<lparr>as_ConfPath = conf, as_Interface = iface, as_Subnet = prefix_from AddrZero 0, as_ServerAddress = AddrZero,
              as_Endpoint = [], as_AllowedIPs = [], as_DNS = [], as_MTU = 0, as_PersistentKeepalive = 0, as_SyncCommand = None\<rparr>)
             names None w)"

section \<open>What the commands leave behind\<close>

text \<open>The hub-only mode leaves no running tunnel, and waited with one exactly if it returns no error.\<close>

lemma runProxy_releases:
  assumes "runProxy env frac files stub vkChromeURL vkChromeUA a = (err, held, waited)"
  shows "(err = None \<longleftrightarrow> waited \<noteq> None) \<and> (\<forall>t. waited = Some t \<longrightarrow> t_state t = TunnelStarted) \<and>
    (\<forall>t. held = Some t \<longrightarrow> t_state t \<noteq> TunnelStarted)"
proof (cases "buildConfig frac files (re_routed env (pickCaptchaSolver vkChromeURL vkChromeUA)) stub a")
  case (Inl e)
  with assms show ?thesis by (auto simp: runProxy_def)
next
  case cfg: (Inr cfg)
  show ?thesis
  proof (cases "NewTunnel (re_shpErr env) cfg")
    case (Inl e)
    with cfg assms show ?thesis by (auto simp: runProxy_def)
  next
    case (Inr tn)
    then have new: "t_state tn = TunnelNew" by (auto simp: NewTunnel_def split: option.splits)
    obtain e t1 where st: "Start (re_listen env) (re_cert env) (re_wait env) tn = (e, t1)"
      by (cases "Start (re_listen env) (re_cert env) (re_wait env) tn") auto
    have "t_state t1 = TunnelStarted" if "e = None"
      using st that new by (auto simp: Start_def split: sum.splits option.splits prod.splits start_wait.splits)
    moreover have "t_state t1 \<noteq> TunnelStarted" if "e = Some e1" for e1
      using Start_failed_not_started st that new by blast
    moreover have "t_state (Stop t1) \<noteq> TunnelStarted" by (simp add: Stop_def)
    ultimately show ?thesis using assms cfg Inr st by (cases e) (auto simp: runProxy_def)
  qed
qed

text \<open>A server that \<open>serve\<close> started listens where the flag or the file says, dials a named backend, and is
  in a state from which every run is one of the server's own: when its deferred \<open>Stop\<close> has returned,
  whatever happened in between, no session, backend or connection is left.\<close>

lemma runServe_started:
  assumes "runServe logger gen frac files resolve listenRes f = Inr (cfg, srv)"
  shows "sv_state srv = StateStarted \<and> sv_accepting srv \<and> sv_reachable srv \<and> ListenAddr cfg \<noteq> [] \<and>
    (sf_listen f \<noteq> [] \<longrightarrow> ListenAddr cfg = sf_listen f) \<and> (\<exists>addr. Backend cfg = Some addr \<and> addr \<noteq> [])"
proof -
  let ?path = "if sf_source f = [] \<and> length (sf_positional f) = 1 then sf_positional f ! 0 else sf_source f"
  obtain settings listen backend where s: "serve_config settings (sf_listen f) (sf_backend f) = Inr (listen, backend)"
    and n: "(case New logger gen \<lparr>ListenAddr = listen, Backend = Some backend, Logger = Some logger, HandshakeTimeout = 0,
                StreamReadTimeout = 0, BackendWriteTimeout = 0\<rparr> of
             Inl e \<Rightarrow> Inl (wrapf ''serve: new: '' e)
           | Inr (cfg, srv) \<Rightarrow>
               (case srv_Start (ListenAddr cfg) resolve listenRes srv of
                  (Some e, _) \<Rightarrow> Inl (wrapf ''serve: start: '' e)
                | (None, srv1) \<Rightarrow> Inr (cfg, srv1))) = Inr (cfg, srv)"
    using assms by (auto simp: runServe_def Let_def bind_res_Inr_iff split: if_splits)
  have l: "listen \<noteq> []" "sf_listen f \<noteq> [] \<longrightarrow> listen = sf_listen f" "backend \<noteq> []"
    using s by (auto simp: serve_config_def buildServerBackend_def ParseBackendSpec_def Let_def bind_res_Inr_iff
        split: if_splits sum.splits prod.splits backend_kind.splits option.splits)
  obtain c where c: "srv_Start (ListenAddr c) resolve listenRes fresh_server = (None, srv)" "cfg = c" "ListenAddr c = listen" "Backend c = Some backend"
    using n by (auto simp: New_def srv_withDefaults_def Let_def split: option.splits sum.splits prod.splits)
  have "sv_exec (EStart resolve listenRes) fresh_server = Some srv"
    using c(1) by (auto simp: srv_Start_def split: if_splits sum.splits)
  then have "sv_reachable srv" by (rule sv_step [OF sv_init])
  moreover have "sv_state srv = StateStarted" "sv_accepting srv" using c(1) by (auto simp: srv_Start_def split: if_splits sum.splits)
  ultimately show ?thesis using c l by simp
qed

lemma serve_stops_clean:
  assumes "runServe logger gen frac files resolve listenRes f = Inr (cfg, srv)" and "sv_run evs srv = Some sv" and "sv_stop sv = SReturned"
  shows "sv_sessions sv = [] \<and> (\<forall>s \<in> set (sv_heap sv). s_phase s = Finished \<and> \<not> s_backendOpen s) \<and> set (sv_accepted sv) \<subseteq> sv_closed sv"
  using stopped_clean [OF sv_run_reachable [OF _ assms(2)] assms(3)] runServe_started [OF assms(1)] by blast

text \<open>The commands do nothing without names, and \<open>revoke-url\<close> tries every name it was given.\<close>

lemma admin_commands_need_names:
  "\<exists>e. runProvisionURL ne realSync f [] w = ([], Some e, w)" "\<exists>e. runRevokeURL realSync conf iface [] w = (Some e, w)"
  by (simp_all add: runProvisionURL_def provision_server_def runRevokeURL_def)

text \<open>\<open>provision-url\<close> appends to the file the peers of the names it got to, in their order, keeps the file
  readable, and drops none of them when a later name fails; if it returns no error, every name has
  its peer. A name at which it stopped may have its peer without a printed URL.\<close>

lemma provision_peer:
  assumes "conf_valid (aw_file w)" and "crypto_ok cr" and "clean_name name" and "prefix_ok (as_Subnet s)" and "is4 (pfx_addr (as_Subnet s))"
    and "Provision io cr s name w = (r, w1)"
  shows "(is_err r \<and> w1 = w) \<or> (\<exists>p. conf_valid (aw_file w1) \<and> conf_peers (aw_file w1) = conf_peers (aw_file w) @ [p] \<and> ap_Name p = name)"
proof (cases "is_err r \<and> w1 = w")
  case False
  then obtain st p prof where st: "provision_plan cr s name st = Inr (p, prof)" "aw_file w1 = conf_put p (aw_file w)"
    using Provision_file [OF assms(6)] by blast
  have p: "clean_peer p" "ap_Name p = name" using plan_peer [OF st(1) assms(2-5)] by (auto simp: planned_def)
  then show ?thesis using conf.put_valid [OF assms(1)] conf.put_peers [OF assms(1)] st(2) by auto
qed simp

lemma provision_loop_peers:
  assumes "conf_valid (aw_file w)" and "\<forall>(name, io, cr) \<in> set ns. clean_name name \<and> crypto_ok cr"
    and "prefix_ok (as_Subnet s)" and "is4 (pfx_addr (as_Subnet s))" and "provision_loop printConf s ns w = (out, r, w')"
  shows "\<exists>ps. conf_valid (aw_file w') \<and> conf_peers (aw_file w') = conf_peers (aw_file w) @ ps \<and>
    map ap_Name ps = map fst (take (length ps) ns) \<and> (r = None \<longrightarrow> length ps = length ns)"
  using assms(1,2,5)
proof (induction ns arbitrary: w out)
  case Nil
  then show ?case by auto
next
  case (Cons n ns)
  obtain name io cr where n: "n = (name, io, cr)" by (cases n) auto
  obtain r1 w1 where p: "Provision io cr s name w = (r1, w1)" by (cases "Provision io cr s name w") auto
  have ok: "clean_name name" "crypto_ok cr" using Cons.prems(2) n by auto
  note peer = provision_peer [OF Cons.prems(1) ok(2,1) assms(3,4) p]
  show ?case
  proof (cases "is_err r1 \<or> is_err (Encode (case r1 of Inr prof \<Rightarrow> prof | Inl _ \<Rightarrow> undefined))")
    case True
    then have e: "r \<noteq> None" "w' = w1" using Cons.prems(3) n p by (auto split: sum.splits)
    show ?thesis
    proof (cases "is_err r1 \<and> w1 = w")
      case True
      then show ?thesis using e Cons.prems(1) by (intro exI [of _ "[]"]) simp
    next
      case False
      with peer obtain q where "conf_valid (aw_file w1)" "conf_peers (aw_file w1) = conf_peers (aw_file w) @ [q]" "ap_Name q = name" by blast
      then show ?thesis using e n by (intro exI [of _ "[q]"]) auto
    qed
  next
    case False
    then obtain prof url where r1: "r1 = Inr prof" "Encode prof = Inr url" by (cases r1) (auto simp: is_err_def split: sum.splits)
    with peer obtain q where q: "conf_valid (aw_file w1)" "conf_peers (aw_file w1) = conf_peers (aw_file w) @ [q]" "ap_Name q = name" by auto
    obtain out' where l: "provision_loop printConf s ns w1 = (out', r, w')" using Cons.prems(3) n p r1 by (auto split: prod.splits)
    have "\<forall>(name, io, cr) \<in> set ns. clean_name name \<and> crypto_ok cr" using Cons.prems(2) by simp
    from Cons.IH [OF q(1) this l] obtain ps where "conf_valid (aw_file w')" "conf_peers (aw_file w') = conf_peers (aw_file w1) @ ps"
      "map ap_Name ps = map fst (take (length ps) ns)" "r = None \<longrightarrow> length ps = length ns" by blast
    with q n show ?thesis by (intro exI [of _ "q # ps"]) simp
  qed
qed

end
