(* ===== verification/Go_Path.thy ===== *)
theory Go_Path
  imports Go_Strings
begin

text \<open>
  What the repository uses of Go's \<open>path/filepath\<close> on systems with slashes: \<open>Clean\<close>, \<open>Join\<close>, \<open>Dir\<close> and \<open>IsAbs\<close>,
  by the elements of a path. A cleaned absolute path is a slash and a list of good elements.
\<close>

section \<open>Definitions\<close>

definition path_elems :: "string \<Rightarrow> string list" where
  "path_elems p = filter (\<lambda>e. e \<noteq> [] \<and> e \<noteq> ''.'') (str_split (CHR ''/'') p)"

definition filepath_IsAbs :: "string \<Rightarrow> bool" where
  "filepath_IsAbs p \<longleftrightarrow> p \<noteq> [] \<and> hd p = CHR ''/''"

text \<open>The elements kept so far are a stack; a step up takes one off, is dropped at the root, and is kept
  in front of a relative path.\<close>

fun clean_acc :: "bool \<Rightarrow> string list \<Rightarrow> string list \<Rightarrow> string list" where
  "clean_acc rooted st [] = rev st"
| "clean_acc rooted st (e # es) =
     (if e = ''..'' then
        (if st \<noteq> [] \<and> hd st \<noteq> ''..'' then clean_acc rooted (tl st) es
         else if rooted then clean_acc rooted st es
         else clean_acc rooted (e # st) es)
      else clean_acc rooted (e # st) es)"

definition clean_elems :: "string \<Rightarrow> string list" where
  "clean_elems p = clean_acc (filepath_IsAbs p) [] (path_elems p)"

definition filepath_Clean :: "string \<Rightarrow> string" where
  "filepath_Clean p =
     (if filepath_IsAbs p then CHR ''/'' # str_join ''/'' (clean_elems p)
      else if clean_elems p = [] then ''.'' else str_join ''/'' (clean_elems p))"

definition filepath_Join :: "string list \<Rightarrow> string" where
  "filepath_Join xs = (case dropWhile (\<lambda>e. e = []) xs of [] \<Rightarrow> [] | ys \<Rightarrow> filepath_Clean (str_join ''/'' ys))"

definition filepath_Dir :: "string \<Rightarrow> string" where
  "filepath_Dir p = filepath_Clean (rev (dropWhile (\<lambda>c. c \<noteq> CHR ''/'') (rev p)))"

section \<open>Elements\<close>

definition good_elem :: "string \<Rightarrow> bool" where
  "good_elem e \<longleftrightarrow> e \<noteq> [] \<and> CHR ''/'' \<notin> set e \<and> e \<noteq> ''.'' \<and> e \<noteq> ''..''"

definition abs_path :: "string list \<Rightarrow> string" where
  "abs_path es = CHR ''/'' # str_join ''/'' es"

lemma split_acc_append: "split_acc d acc (a @ d # b) = split_acc d acc a @ split_acc d [] b"
  by (induction a arbitrary: acc) auto

lemma path_elems_append: "path_elems (a @ CHR ''/'' # b) = path_elems a @ path_elems b"
  by (simp add: path_elems_def str_split_def split_acc_append)

lemma path_elems_slash: "path_elems (CHR ''/'' # b) = path_elems b"
  using path_elems_append [of "[]" b] by (simp add: path_elems_def str_split_def)

lemma path_elems_one: "good_elem e \<Longrightarrow> path_elems e = [e]"
  by (simp add: good_elem_def path_elems_def str_split_def split_acc_no_sep)

lemma str_join_cons: "str_join sep (x # xs) = (if xs = [] then x else x @ sep @ str_join sep xs)"
  by (cases xs) auto

lemma str_join_append: "xs \<noteq> [] \<Longrightarrow> ys \<noteq> [] \<Longrightarrow> str_join sep (xs @ ys) = str_join sep xs @ sep @ str_join sep ys"
  by (induction xs) (auto simp: str_join_cons)

lemma path_elems_join: "list_all good_elem es \<Longrightarrow> path_elems (str_join ''/'' es) = es"
proof (induction es)
  case Nil
  then show ?case by (simp add: path_elems_def str_split_def)
next
  case (Cons e es)
  then show ?case using path_elems_one [of e] path_elems_append [of e "str_join ''/'' es"] by (auto simp: str_join_cons)
qed

lemma path_elems_no_slash: "e \<in> set (path_elems p) \<Longrightarrow> e \<noteq> [] \<and> CHR ''/'' \<notin> set e \<and> e \<noteq> ''.''"
  using str_split_parts [of e "CHR ''/''" p] by (auto simp: path_elems_def)

lemma clean_acc_append: "clean_acc r st (xs @ ys) = clean_acc r (rev (clean_acc r st xs)) ys"
  by (induction r st xs rule: clean_acc.induct) auto

lemma clean_acc_good: "list_all good_elem es \<Longrightarrow> clean_acc r st es = rev st @ es"
  by (induction es arbitrary: st) (auto simp: good_elem_def)

lemma clean_acc_rooted: "list_all good_elem st \<Longrightarrow> \<forall>e \<in> set es. e \<noteq> [] \<and> CHR ''/'' \<notin> set e \<and> e \<noteq> ''.'' \<Longrightarrow> list_all good_elem (clean_acc True st es)"
proof (induction es arbitrary: st)
  case (Cons e es)
  have t: "list_all good_elem (tl st)" using Cons.prems(1) by (cases st) auto
  have "good_elem e" if "e \<noteq> ''..''" using Cons.prems(2) that by (simp add: good_elem_def)
  then have "list_all good_elem (e # st)" if "e \<noteq> ''..''" using Cons.prems(1) that by simp
  with Cons t show ?case by auto
qed (simp add: list_all_iff)

lemma clean_acc_relative:
  assumes "list_all good_elem gs" and "\<forall>e \<in> set es. e \<noteq> [] \<and> CHR ''/'' \<notin> set e \<and> e \<noteq> ''.''"
  shows "\<exists>k gs'. list_all good_elem gs' \<and> clean_acc False (gs @ replicate k0 ''..'') es = replicate k ''..'' @ gs'"
  using assms
proof (induction es arbitrary: gs k0)
  case Nil
  then have "clean_acc False (gs @ replicate k0 ''..'') [] = replicate k0 ''..'' @ rev gs" "list_all good_elem (rev gs)"
    by (simp_all add: list_all_iff)
  then show ?case by metis
next
  case (Cons e es)
  have es: "\<forall>e \<in> set es. e \<noteq> [] \<and> CHR ''/'' \<notin> set e \<and> e \<noteq> ''.''" using Cons.prems(2) by simp
  show ?case
  proof (cases "e = ''..''")
    case True
    show ?thesis
    proof (cases gs)
      case Nil
      have "clean_acc False (gs @ replicate k0 ''..'') (e # es) = clean_acc False ([] @ replicate (Suc k0) ''..'') es"
        using True Nil by (cases k0) auto
      then show ?thesis using Cons.IH [of "[]" "Suc k0"] es by simp
    next
      case (Cons g gs1)
      then have g: "g \<noteq> ''..''" "list_all good_elem gs1" using Cons.prems(1) by (simp_all, simp add: good_elem_def)
      have "clean_acc False (gs @ replicate k0 ''..'') (e # es) = clean_acc False (gs1 @ replicate k0 ''..'') es"
        using True Cons g(1) by simp
      then show ?thesis using Cons.IH [OF g(2) es, of k0] by simp
    qed
  next
    case False
    then have "good_elem e" using Cons.prems(2) by (simp add: good_elem_def)
    then have "list_all good_elem (e # gs)" using Cons.prems(1) by simp
    from Cons.IH [OF this es, of k0] False show ?thesis by simp
  qed
qed

lemma clean_elems_abs: "filepath_IsAbs p \<Longrightarrow> list_all good_elem (clean_elems p)"
  using clean_acc_rooted [of "[]" "path_elems p"] path_elems_no_slash [of _ p] by (simp add: clean_elems_def)

lemma clean_abs: "filepath_IsAbs p \<Longrightarrow> filepath_Clean p = abs_path (clean_elems p)"
  by (simp add: filepath_Clean_def abs_path_def)

lemma abs_path_IsAbs [simp]: "filepath_IsAbs (abs_path es)"
  by (simp add: abs_path_def filepath_IsAbs_def)

lemma clean_elems_abs_path: "list_all good_elem es \<Longrightarrow> clean_elems (abs_path es) = es"
  by (simp add: clean_elems_def abs_path_def filepath_IsAbs_def path_elems_slash path_elems_join clean_acc_good)

lemma clean_abs_path: "list_all good_elem es \<Longrightarrow> filepath_Clean (abs_path es) = abs_path es"
  using clean_abs [of "abs_path es"] by (simp add: clean_elems_abs_path)

text \<open>A cleaned name that is relative and does not begin with two dots stays below its directory.\<close>

lemma clean_name_elems:
  assumes "\<not> has_prefix (filepath_Clean n) ''..''" and "\<not> filepath_IsAbs (filepath_Clean n)"
  shows "list_all good_elem (path_elems (filepath_Clean n))"
proof -
  have rel: "\<not> filepath_IsAbs n" using assms(2) by (auto simp: filepath_Clean_def filepath_IsAbs_def)
  have ns: "\<forall>e \<in> set (path_elems n). e \<noteq> [] \<and> CHR ''/'' \<notin> set e \<and> e \<noteq> ''.''" using path_elems_no_slash by blast
  obtain k gs where g: "list_all good_elem gs" "clean_elems n = replicate k ''..'' @ gs"
    using clean_acc_relative [of "[]" "path_elems n" 0] ns rel by (auto simp: clean_elems_def)
  have c: "filepath_Clean n = (if clean_elems n = [] then ''.'' else str_join ''/'' (clean_elems n))"
    using rel by (simp add: filepath_Clean_def)
  have "k = 0"
  proof (rule ccontr)
    assume "k \<noteq> 0"
    then obtain es where es: "clean_elems n = ''..'' # es" using g(2) by (cases k) auto
    then have "has_prefix (filepath_Clean n) ''..''" using c by (simp add: str_join_cons has_prefix_Cons has_prefix_Nil)
    with assms(1) show False by simp
  qed
  then have "list_all good_elem (clean_elems n)" using g by simp
  moreover have "path_elems ''.'' = []" by code_simp
  ultimately show ?thesis using c path_elems_join by (auto split: if_splits)
qed

lemma join_below:
  assumes "filepath_IsAbs root" and "list_all good_elem (path_elems n)" and "n \<noteq> []"
  shows "filepath_Join [root, n] = abs_path (clean_elems root @ path_elems n)"
proof -
  have r: "root \<noteq> []" using assms(1) by (simp add: filepath_IsAbs_def)
  let ?p = "root @ CHR ''/'' # n"
  have a: "filepath_IsAbs ?p" using assms(1) by (simp add: filepath_IsAbs_def)
  have "clean_elems ?p = clean_acc True (rev (clean_acc True [] (path_elems root))) (path_elems n)"
    using a by (simp add: clean_elems_def path_elems_append clean_acc_append)
  also have "\<dots> = clean_elems root @ path_elems n"
    using assms(1) clean_acc_good [OF assms(2)] by (simp add: clean_elems_def)
  finally show ?thesis using r clean_abs [OF a] by (simp add: filepath_Join_def)
qed

lemma dir_abs_path:
  assumes "list_all good_elem es" and "good_elem e"
  shows "filepath_Dir (abs_path (es @ [e])) = abs_path es"
proof -
  have e: "takeWhile (\<lambda>c. c \<noteq> CHR ''/'') (rev e) = rev e" "dropWhile (\<lambda>c. c \<noteq> CHR ''/'') (rev e) = []"
    using assms(2) by (auto simp: good_elem_def takeWhile_eq_all_conv dropWhile_eq_Nil_conv)
  have cut: "rev (dropWhile (\<lambda>c. c \<noteq> CHR ''/'') (rev (a @ CHR ''/'' # e))) = a @ ''/''" for a
    using e assms(2) by (simp add: dropWhile_append3 good_elem_def)
  show ?thesis
  proof (cases "es = []")
    case True
    have "abs_path (es @ [e]) = [] @ CHR ''/'' # e" by (simp add: abs_path_def True)
    then have "filepath_Dir (abs_path (es @ [e])) = filepath_Clean ''/''" using cut [of "[]"] by (simp add: filepath_Dir_def)
    also have "\<dots> = ''/''" by code_simp
    finally show ?thesis by (simp add: True abs_path_def)
  next
    case False
    let ?a = "abs_path es"
    have "abs_path (es @ [e]) = ?a @ CHR ''/'' # e" by (simp add: abs_path_def False str_join_append)
    then have d: "filepath_Dir (abs_path (es @ [e])) = filepath_Clean (?a @ CHR ''/'' # [])" using cut [of ?a] by (simp add: filepath_Dir_def)
    have i: "filepath_IsAbs (?a @ CHR ''/'' # [])" by (simp add: abs_path_def filepath_IsAbs_def)
    have "path_elems [] = []" by code_simp
    then have "clean_elems (?a @ CHR ''/'' # []) = es"
      using i assms(1) by (simp add: clean_elems_def path_elems_append abs_path_def path_elems_slash path_elems_join clean_acc_good)
    then show ?thesis using d clean_abs [OF i] by simp
  qed
qed

end
