(* ===== verification/Chrome_Extract.thy ===== *)
theory Chrome_Extract
  imports Go_Path
begin

text \<open>
  The unpacking of the bundled browser, \<open>captchasolve/embedded/extract.go\<close>: the cache directory, the scratch
  directory that is renamed into place, and the checks on the names in the archive. The archive's
  entries and the file system are arguments: each operation is a function of the state of the files.
  What the code does to the files is recorded.
\<close>

section \<open>Definitions\<close>

record zip_entry =
  ze_Name :: string
  ze_IsDir :: bool
  ze_Perm :: nat

datatype fs_op = FMkdirAll string | FMkdirTemp string | FWrite string nat | FRename string string | FRemoveAll string

text \<open>\<open>fe_stat\<close> says that a path names something that is no directory.\<close>

record 'w fs_env =
  fe_stat :: "string \<Rightarrow> 'w \<Rightarrow> bool"
  fe_mkdirAll :: "string \<Rightarrow> 'w \<Rightarrow> go_error option \<times> 'w"
  fe_mkdirTemp :: "string \<Rightarrow> 'w \<Rightarrow> string res \<times> 'w"
  fe_openEntry :: "zip_entry \<Rightarrow> go_error option"
  fe_create :: "string \<Rightarrow> nat \<Rightarrow> 'w \<Rightarrow> go_error option \<times> 'w"
  fe_copy :: "zip_entry \<Rightarrow> string \<Rightarrow> 'w \<Rightarrow> go_error option \<times> 'w"
  fe_rename :: "string \<Rightarrow> string \<Rightarrow> 'w \<Rightarrow> go_error option \<times> 'w"
  fe_removeAll :: "string \<Rightarrow> 'w \<Rightarrow> 'w"

type_synonym 'w files = "fs_op list \<times> 'w"

definition do_op :: "fs_op \<Rightarrow> ('w \<Rightarrow> 'a \<times> 'w) \<Rightarrow> 'w files \<Rightarrow> 'a \<times> 'w files" where
  "do_op op f s = (case f (snd s) of (r, w) \<Rightarrow> (r, (fst s @ [op], w)))"

definition writeZipEntry :: "'w fs_env \<Rightarrow> zip_entry \<Rightarrow> string \<Rightarrow> nat \<Rightarrow> 'w files \<Rightarrow> go_error option \<times> 'w files" where
  "writeZipEntry fs f dst mode s =
     (case fe_openEntry fs f of
        Some e \<Rightarrow> (Some (wrapf (''open zip entry '' @ quoted (ze_Name f) @ '': '') e), s)
      | None \<Rightarrow>
          (case do_op (FWrite dst mode) (fe_create fs dst mode) s of
             (Some e, s1) \<Rightarrow> (Some (wrapf (''create '' @ quoted dst @ '': '') e), s1)
           | (None, s1) \<Rightarrow>
               (case fe_copy fs f dst (snd s1) of
                  (Some e, w) \<Rightarrow> (Some (wrapf (''copy '' @ quoted (ze_Name f) @ '': '') e), (fst s1, w))
                | (None, w) \<Rightarrow> (None, (fst s1, w)))))"

text \<open>The two checks on the name of an entry, and the path it is unpacked to.\<close>

definition entry_dst :: "string \<Rightarrow> zip_entry \<Rightarrow> string res" where
  "entry_dst dstRoot f =
     (let name = filepath_Clean (ze_Name f) in
      if has_prefix name ''..'' \<or> filepath_IsAbs name
      then Inl (errors_New (''zip entry '' @ quoted (ze_Name f) @ '' has unsafe path''))
      else (let dst = filepath_Join [dstRoot, name] in
            if \<not> has_prefix (filepath_Clean dst @ ''/'') (filepath_Clean dstRoot @ ''/'') \<and> filepath_Clean dst \<noteq> filepath_Clean dstRoot
            then Inl (errors_New (''zip entry '' @ quoted (ze_Name f) @ '' escapes destination''))
            else Inr dst))"

definition entry_mode :: "zip_entry \<Rightarrow> nat" where
  "entry_mode f = (if ze_Perm f = 0 then 420 else ze_Perm f)"

fun unzip_entries :: "'w fs_env \<Rightarrow> string \<Rightarrow> zip_entry list \<Rightarrow> 'w files \<Rightarrow> go_error option \<times> 'w files" where
  "unzip_entries fs dstRoot [] s = (None, s)"
| "unzip_entries fs dstRoot (f # zs) s =
     (case entry_dst dstRoot f of
        Inl e \<Rightarrow> (Some e, s)
      | Inr dst \<Rightarrow>
          if ze_IsDir f then
            (case do_op (FMkdirAll dst) (fe_mkdirAll fs dst) s of
               (Some e, s1) \<Rightarrow> (Some (wrapf (''mkdir '' @ quoted dst @ '': '') e), s1)
             | (None, s1) \<Rightarrow> unzip_entries fs dstRoot zs s1)
          else
            (case do_op (FMkdirAll (filepath_Dir dst)) (fe_mkdirAll fs (filepath_Dir dst)) s of
               (Some e, s1) \<Rightarrow> (Some (wrapf (''mkdir parent '' @ quoted (filepath_Dir dst) @ '': '') e), s1)
             | (None, s1) \<Rightarrow>
                 (case writeZipEntry fs f dst (entry_mode f) s1 of
                    (Some e, s2) \<Rightarrow> (Some e, s2)
                  | (None, s2) \<Rightarrow> unzip_entries fs dstRoot zs s2)))"

text \<open>\<open>archive\<close> is what \<open>zip.NewReader\<close> makes of the bytes.\<close>

definition unzip :: "'w fs_env \<Rightarrow> zip_entry list res \<Rightarrow> string \<Rightarrow> 'w files \<Rightarrow> go_error option \<times> 'w files" where
  "unzip fs archive dstRoot s =
     (case archive of
        Inl e \<Rightarrow> (Some (wrapf ''open zip: '' e), s)
      | Inr zs \<Rightarrow> unzip_entries fs dstRoot zs s)"

definition chromiumCacheRoot :: "string res \<Rightarrow> string res" where
  "chromiumCacheRoot userCacheDir =
     (case userCacheDir of Inl e \<Rightarrow> Inl e | Inr base \<Rightarrow> Inr (filepath_Join [base, ''wgturn'', ''chromium'']))"

text \<open>From the scratch directory on: whatever fails, the deferred call removes it.\<close>

definition fill_scratch :: "'w fs_env \<Rightarrow> zip_entry list res \<Rightarrow> string \<Rightarrow> string \<Rightarrow> string \<Rightarrow> string \<Rightarrow> 'w files \<Rightarrow> string res \<times> 'w files" where
  "fill_scratch fs archive scratch versionDir binaryPath binarySubpath s =
     (let remove = (\<lambda>(r, s1). (r, (fst s1 @ [FRemoveAll scratch], fe_removeAll fs scratch (snd s1)))) in
      case unzip fs archive scratch s of
        (Some e, s1) \<Rightarrow> remove (Inl (wrapf ''embedded: unzip: '' e), s1)
      | (None, s1) \<Rightarrow>
          if \<not> fe_stat fs (filepath_Join [scratch, binarySubpath]) (snd s1)
          then remove (Inl (errors_New (''embedded: extracted archive missing '' @ quoted binarySubpath @
                 '' (have you re-fetched after a Chromium version bump?)'')), s1)
          else (case do_op (FRename scratch versionDir) (fe_rename fs scratch versionDir) s1 of
                  (None, s2) \<Rightarrow> (Inr binaryPath, s2)
                | (Some e, s2) \<Rightarrow>
                    if fe_stat fs binaryPath (snd s2) then remove (Inr binaryPath, s2)
                    else remove (Inl (wrapf ''embedded: rename scratch into place: '' e), s2)))"

definition extractFrom ::
    "'w fs_env \<Rightarrow> string res \<Rightarrow> zip_entry list res \<Rightarrow> string \<Rightarrow> string \<Rightarrow> string \<Rightarrow> 'w files \<Rightarrow> string res \<times> 'w files" where
  "extractFrom fs userCacheDir archive version platformTag binarySubpath s =
     (case chromiumCacheRoot userCacheDir of
        Inl e \<Rightarrow> (Inl (wrapf ''embedded: cache dir: '' e), s)
      | Inr cacheRoot \<Rightarrow>
          (let versionDir = filepath_Join [cacheRoot, version @ ''-'' @ platformTag];
               binaryPath = filepath_Join [versionDir, binarySubpath]
           in if fe_stat fs binaryPath (snd s) then (Inr binaryPath, s)
              else (case do_op (FMkdirAll cacheRoot) (fe_mkdirAll fs cacheRoot) s of
                      (Some e, s1) \<Rightarrow> (Inl (wrapf ''embedded: mkdir cache root: '' e), s1)
                    | (None, s1) \<Rightarrow>
                        (case fe_mkdirTemp fs cacheRoot (snd s1) of
                           (Inl e, w) \<Rightarrow> (Inl (wrapf ''embedded: mktemp: '' e), (fst s1, w))
                         | (Inr scratch, w) \<Rightarrow>
                             fill_scratch fs archive scratch versionDir binaryPath binarySubpath (fst s1 @ [FMkdirTemp scratch], w)))))"

section \<open>Names stay below the destination\<close>

text \<open>The absolute path with the elements of a directory, cleaned, and then the given ones.\<close>

definition below :: "string \<Rightarrow> string list \<Rightarrow> string" where
  "below root es = abs_path (clean_elems root @ es)"

lemma below_Nil: "filepath_IsAbs root \<Longrightarrow> below root [] = filepath_Clean root"
  by (simp add: below_def clean_abs)

lemma below_text: "filepath_IsAbs root \<Longrightarrow> clean_elems root \<noteq> [] \<Longrightarrow> es \<noteq> [] \<Longrightarrow> below root es = filepath_Clean root @ ''/'' @ str_join ''/'' es"
  by (simp add: below_def clean_abs abs_path_def str_join_append)

lemma clean_name_not_Nil: "filepath_Clean n \<noteq> []"
proof -
  have "str_join ''/'' (clean_elems n) \<noteq> []" if ne: "clean_elems n \<noteq> []" and rel: "\<not> filepath_IsAbs n"
  proof -
    obtain e es where e: "clean_elems n = e # es" using ne by (cases "clean_elems n") auto
    obtain k gs where g: "list_all good_elem gs" "clean_elems n = replicate k ''..'' @ gs"
      using clean_acc_relative [of "[]" "path_elems n" 0] path_elems_no_slash [of _ n] rel by (auto simp: clean_elems_def)
    have "e \<noteq> []"
    proof (cases k)
      case 0
      then have "good_elem e" using g e by (metis append_Nil list.pred_inject(2) replicate_0)
      then show ?thesis by (simp add: good_elem_def)
    next
      case (Suc j)
      then show ?thesis using g(2) e by simp
    qed
    then show ?thesis using e by (simp add: str_join_cons)
  qed
  then show ?thesis by (auto simp: filepath_Clean_def)
qed

text \<open>Under an absolute directory other than the root the first check decides alone.\<close>

lemma entry_dst_below:
  assumes "filepath_IsAbs root" and "clean_elems root \<noteq> []"
  shows "entry_dst root f =
    (let name = filepath_Clean (ze_Name f) in
     if has_prefix name ''..'' \<or> filepath_IsAbs name
     then Inl (errors_New (''zip entry '' @ quoted (ze_Name f) @ '' has unsafe path''))
     else Inr (below root (path_elems name)))"
    and "entry_dst root f = Inr dst \<Longrightarrow> \<exists>es. list_all good_elem es \<and> dst = below root es"
proof -
  let ?name = "filepath_Clean (ze_Name f)"
  note rs = clean_elems_abs [OF assms(1)]
  have e: "filepath_Join [root, ?name] = below root (path_elems ?name)"
    "has_prefix (filepath_Clean (below root (path_elems ?name)) @ ''/'') (filepath_Clean root @ ''/'') \<or>
     filepath_Clean (below root (path_elems ?name)) = filepath_Clean root"
    if n: "list_all good_elem (path_elems ?name)"
  proof -
    show "filepath_Join [root, ?name] = below root (path_elems ?name)"
      using join_below [OF assms(1) n clean_name_not_Nil] by (simp add: below_def)
    have "list_all good_elem (clean_elems root @ path_elems ?name)" using rs n by simp
    then have c: "filepath_Clean (below root (path_elems ?name)) = below root (path_elems ?name)"
      unfolding below_def by (rule clean_abs_path)
    have "has_prefix ((filepath_Clean root @ ''/'' @ str_join ''/'' (path_elems ?name)) @ ''/'') (filepath_Clean root @ ''/'')"
      using has_prefix_append [of "filepath_Clean root @ ''/''" "str_join ''/'' (path_elems ?name) @ ''/''"] by simp
    then show "has_prefix (filepath_Clean (below root (path_elems ?name)) @ ''/'') (filepath_Clean root @ ''/'') \<or>
        filepath_Clean (below root (path_elems ?name)) = filepath_Clean root"
      unfolding c using below_text [OF assms, of "path_elems ?name"] below_Nil [OF assms(1)] by (cases "path_elems ?name = []") simp_all
  qed
  show eq: "entry_dst root f = (let name = filepath_Clean (ze_Name f) in
     if has_prefix name ''..'' \<or> filepath_IsAbs name
     then Inl (errors_New (''zip entry '' @ quoted (ze_Name f) @ '' has unsafe path''))
     else Inr (below root (path_elems name)))"
  proof (cases "has_prefix ?name ''..'' \<or> filepath_IsAbs ?name")
    case True
    then show ?thesis by (simp add: entry_dst_def Let_def)
  next
    case False
    then have "list_all good_elem (path_elems ?name)" using clean_name_elems by blast
    from e [OF this] False show ?thesis by (auto simp: entry_dst_def Let_def)
  qed
  show "\<exists>es. list_all good_elem es \<and> dst = below root es" if "entry_dst root f = Inr dst"
    using that clean_name_elems [of "ze_Name f"] unfolding eq by (auto simp: Let_def split: if_splits)
qed

text \<open>What unpacking may do: make directories and write files below the destination, and make the
  directory that holds it.\<close>

definition op_below :: "string \<Rightarrow> fs_op \<Rightarrow> bool" where
  "op_below root op \<longleftrightarrow> op = FMkdirAll (filepath_Dir (filepath_Clean root)) \<or>
     (\<exists>es. list_all good_elem es \<and> (op = FMkdirAll (below root es) \<or> (\<exists>mode. op = FWrite (below root es) mode)))"

lemma dir_below:
  assumes "filepath_IsAbs root" and "list_all good_elem es"
  shows "op_below root (FMkdirAll (filepath_Dir (below root es)))"
proof (cases es rule: rev_cases)
  case Nil
  then show ?thesis by (simp add: op_below_def below_Nil [OF assms(1)])
next
  case (snoc es1 e)
  then have g: "list_all good_elem es1" "good_elem e" using assms(2) by simp_all
  then have "list_all good_elem (clean_elems root @ es1)" using clean_elems_abs [OF assms(1)] by simp
  from dir_abs_path [OF this g(2)] have "filepath_Dir (below root es) = below root es1"
    unfolding below_def snoc by simp
  then show ?thesis using g(1) by (auto simp: op_below_def)
qed

definition ops_below :: "string \<Rightarrow> 'w files \<Rightarrow> 'w files \<Rightarrow> bool" where
  "ops_below root s s' \<longleftrightarrow> (\<exists>ops. fst s' = fst s @ ops \<and> list_all (op_below root) ops)"

lemma ops_below_refl [simp]: "fst s' = fst s \<Longrightarrow> ops_below root s s'"
  by (simp add: ops_below_def)

lemma ops_below_step: "op_below root op \<Longrightarrow> fst s1 = fst s @ [op] \<Longrightarrow> ops_below root s1 s' \<Longrightarrow> ops_below root s s'"
  by (fastforce simp: ops_below_def)

lemma do_op_fst: "do_op op f s = (r, s1) \<Longrightarrow> fst s1 = fst s @ [op]"
  by (auto simp: do_op_def split: prod.splits)

lemma writeZipEntry_below:
  assumes "list_all good_elem es" and "writeZipEntry fs f (below root es) mode s = (r, s')"
  shows "ops_below root s s'"
proof -
  have op: "op_below root (FWrite (below root es) mode)" using assms(1) by (auto simp: op_below_def)
  have "fst s' = fst s \<or> fst s' = fst s @ [FWrite (below root es) mode]"
    using assms(2) by (auto simp: writeZipEntry_def dest: do_op_fst split: option.splits prod.splits)
  then show ?thesis using ops_below_step [OF op, of s' s s'] by auto
qed

lemma ops_below_trans: "ops_below root s s1 \<Longrightarrow> ops_below root s1 s2 \<Longrightarrow> ops_below root s s2"
  by (fastforce simp: ops_below_def)

lemma unzip_entries_below:
  assumes "filepath_IsAbs root" and "clean_elems root \<noteq> []" and "unzip_entries fs root zs s = (r, s')"
  shows "ops_below root s s'"
  using assms(3)
proof (induction zs arbitrary: s)
  case (Cons f zs)
  show ?case
  proof (cases "entry_dst root f")
    case (Inl e)
    with Cons.prems show ?thesis by simp
  next
    case (Inr dst)
    from entry_dst_below(2) [OF assms(1,2) Inr] obtain es where es: "list_all good_elem es" "dst = below root es" by blast
    let ?d = "if ze_IsDir f then dst else filepath_Dir dst"
    have op: "op_below root (FMkdirAll ?d)"
    proof (cases "ze_IsDir f")
      case True
      then show ?thesis using es by (auto simp: op_below_def)
    next
      case False
      then show ?thesis using dir_below [OF assms(1) es(1)] es(2) by simp
    qed
    obtain r1 s1 where d: "do_op (FMkdirAll ?d) (fe_mkdirAll fs ?d) s = (r1, s1)" by (cases "do_op (FMkdirAll ?d) (fe_mkdirAll fs ?d) s") auto
    note s1 = do_op_fst [OF d]
    have "ops_below root s1 s'"
    proof (cases "r1 \<noteq> None \<or> ze_IsDir f")
      case True
      then show ?thesis using Cons.prems Inr d Cons.IH [of s1] by (cases r1; cases "ze_IsDir f") auto
    next
      case False
      obtain r2 s2 where w: "writeZipEntry fs f dst (entry_mode f) s1 = (r2, s2)" by (cases "writeZipEntry fs f dst (entry_mode f) s1") auto
      have "ops_below root s1 s2" using writeZipEntry_below [OF es(1), of fs f root "entry_mode f" s1] w es(2) by simp
      moreover have "s' = s2 \<or> unzip_entries fs root zs s2 = (r, s')" using Cons.prems Inr d False w by (auto split: option.splits)
      ultimately show ?thesis using Cons.IH ops_below_trans by blast
    qed
    with ops_below_step [OF op s1] show ?thesis by blast
  qed
qed simp

section \<open>The unpacking\<close>

text \<open>\<open>os.MkdirTemp\<close> returns a new name in the directory.\<close>

definition temp_ok :: "'w fs_env \<Rightarrow> bool" where
  "temp_ok fs \<longleftrightarrow> (\<forall>dir w d w'. filepath_IsAbs dir \<longrightarrow> fe_mkdirTemp fs dir w = (Inr d, w') \<longrightarrow> (\<exists>x. good_elem x \<and> d = below dir [x]))"

lemma fill_scratch_conduct:
  assumes "filepath_IsAbs scratch" and "clean_elems scratch \<noteq> []"
    and "fill_scratch fs archive scratch versionDir binaryPath binarySubpath s = (r, s')"
  shows "\<exists>ops fin. fst s' = fst s @ ops @ fin \<and> list_all (op_below scratch) ops \<and>
    (r = Inr binaryPath \<and> fin = [FRename scratch versionDir] \<or>
     (r = Inr binaryPath \<or> is_err r) \<and> (fin = [FRename scratch versionDir, FRemoveAll scratch] \<or> fin = [FRemoveAll scratch] \<and> is_err r))"
proof -
  obtain e s1 where u: "unzip fs archive scratch s = (e, s1)" by (cases "unzip fs archive scratch s") auto
  have "ops_below scratch s s1"
  proof (cases archive)
    case (Inl err)
    with u show ?thesis by (simp add: unzip_def)
  next
    case (Inr zs)
    then show ?thesis using unzip_entries_below [OF assms(1,2)] u by (simp add: unzip_def)
  qed
  then obtain ops where ops: "fst s1 = fst s @ ops" "list_all (op_below scratch) ops" by (auto simp: ops_below_def)
  obtain e2 s2 where rn: "do_op (FRename scratch versionDir) (fe_rename fs scratch versionDir) s1 = (e2, s2)"
    by (cases "do_op (FRename scratch versionDir) (fe_rename fs scratch versionDir) s1") auto
  note fst2 = do_op_fst [OF rn]
  note d = assms(3) [unfolded fill_scratch_def Let_def u prod.case rn]
  have "\<exists>fin. fst s' = fst s1 @ fin \<and>
    (r = Inr binaryPath \<and> fin = [FRename scratch versionDir] \<or>
     (r = Inr binaryPath \<or> is_err r) \<and> (fin = [FRename scratch versionDir, FRemoveAll scratch] \<or> fin = [FRemoveAll scratch] \<and> is_err r))"
    using d fst2 by (cases e; cases e2) (auto split: if_splits)
  then obtain fin where "fst s' = fst s1 @ fin"
    "r = Inr binaryPath \<and> fin = [FRename scratch versionDir] \<or>
     (r = Inr binaryPath \<or> is_err r) \<and> (fin = [FRename scratch versionDir, FRemoveAll scratch] \<or> fin = [FRemoveAll scratch] \<and> is_err r)" by blast
  then show ?thesis using ops by (intro exI [of _ ops] exI [of _ fin]) simp
qed

text \<open>C29: The bundled browser is unpacked in one step and nowhere else. For an absolute cache directory of
  the user, the code returns the path of the binary below its version's directory or an error. If
  the binary is there, nothing is touched. Otherwise the cache directory and a scratch directory in
  it are made, everything the archive asks for, whatever its names are, is made or written below the
  scratch directory (besides the making of the cache directory itself), and in the end the scratch
  directory has been renamed to the version's directory or is removed.\<close>

theorem extraction_contained:
  assumes "temp_ok fs" and "filepath_IsAbs base" and "extractFrom fs (Inr base) archive version platformTag binarySubpath ([], w) = (r, (tr, w'))"
  shows "let cacheRoot = below base [''wgturn'', ''chromium'']; versionDir = filepath_Join [cacheRoot, version @ ''-'' @ platformTag];
             binaryPath = filepath_Join [versionDir, binarySubpath]
    in (r = Inr binaryPath \<or> is_err r) \<and>
       (if fe_stat fs binaryPath w then tr = [] \<and> w' = w
        else tr = [FMkdirAll cacheRoot] \<and> is_err r \<or>
          (\<exists>x ops fin. good_elem x \<and> (let scratch = below cacheRoot [x] in
             tr = [FMkdirAll cacheRoot, FMkdirTemp scratch] @ ops @ fin \<and> list_all (op_below scratch) ops \<and>
             (fin = [FRename scratch versionDir] \<and> \<not> is_err r \<or>
              fin = [FRename scratch versionDir, FRemoveAll scratch] \<or> fin = [FRemoveAll scratch] \<and> is_err r))))"
proof -
  let ?cr = "below base [''wgturn'', ''chromium'']"
  let ?vd = "filepath_Join [?cr, version @ ''-'' @ platformTag]"
  let ?bp = "filepath_Join [?vd, binarySubpath]"
  have g: "list_all good_elem [''wgturn'', ''chromium'']" by code_simp
  have pe: "path_elems (str_join ''/'' [''wgturn'', ''chromium'']) = [''wgturn'', ''chromium'']" by (rule path_elems_join [OF g])
  have bn: "base \<noteq> []" using assms(2) by (simp add: filepath_IsAbs_def)
  have j: "filepath_Join [base, ''wgturn'', ''chromium''] = abs_path (clean_elems base @ [''wgturn'', ''chromium''])"
    using join_below [OF assms(2), of "str_join ''/'' [''wgturn'', ''chromium'']"] pe g bn by (simp add: filepath_Join_def)
  then have cr: "chromiumCacheRoot (Inr base) = Inr ?cr" by (simp add: chromiumCacheRoot_def below_def)
  have gc: "list_all good_elem (clean_elems base @ [''wgturn'', ''chromium''])" using clean_elems_abs [OF assms(2)] g by simp
  then have ce: "filepath_IsAbs ?cr" "clean_elems ?cr \<noteq> []" by (simp_all add: below_def clean_elems_abs_path)
  note d = assms(3) [unfolded extractFrom_def cr sum.case Let_def]
  show ?thesis
  proof (cases "fe_stat fs ?bp w")
    case True
    with d show ?thesis by (simp add: Let_def)
  next
    case False
    obtain e1 s1 where m: "do_op (FMkdirAll ?cr) (fe_mkdirAll fs ?cr) ([], w) = (e1, s1)"
      by (cases "do_op (FMkdirAll ?cr) (fe_mkdirAll fs ?cr) ([], w)") auto
    have s1: "fst s1 = [FMkdirAll ?cr]" using do_op_fst [OF m] by simp
    obtain t w1 where t: "fe_mkdirTemp fs ?cr (snd s1) = (t, w1)" by (cases "fe_mkdirTemp fs ?cr (snd s1)") auto
    show ?thesis
    proof (cases "e1 = None \<and> \<not> is_err t")
      case True
      then obtain scratch where sc: "t = Inr scratch" by (cases t) auto
      obtain x where x: "good_elem x" "scratch = below ?cr [x]" using assms(1) t sc ce(1) unfolding temp_ok_def by blast
      have sa: "filepath_IsAbs scratch" "clean_elems scratch \<noteq> []"
        using x gc by (simp_all add: below_def clean_elems_abs_path)
      have fl: "fill_scratch fs archive scratch ?vd ?bp binarySubpath ([FMkdirAll ?cr, FMkdirTemp scratch], w1) = (r, (tr, w'))"
        using d False True m t sc s1 by simp
      from fill_scratch_conduct [OF sa fl] show ?thesis using False x by (fastforce simp: Let_def)
    next
      case False
      then have "tr = [FMkdirAll ?cr] \<and> is_err r" using d \<open>\<not> fe_stat fs ?bp w\<close> m t s1 by (cases e1; cases t) auto
      then show ?thesis using \<open>\<not> fe_stat fs ?bp w\<close> by (simp add: Let_def)
    qed
  qed
qed

text \<open>An archive with an entry that would leave the directory; the state is the list of files.\<close>

definition demo_fs :: "string list fs_env" where
  "demo_fs = \<lparr>fe_stat = (\<lambda>p fl. p \<in> set fl), fe_mkdirAll = (\<lambda>p fl. (None, fl)), fe_mkdirTemp = (\<lambda>d fl. (Inr (below d [''.extract-1'']), fl)),
     fe_openEntry = (\<lambda>f. None), fe_create = (\<lambda>p m fl. (None, p # fl)), fe_copy = (\<lambda>f p fl. (None, fl)),
     fe_rename = (\<lambda>a b fl. (None, fl)), fe_removeAll = (\<lambda>p fl. filter (\<lambda>q. \<not> has_prefix q (p @ ''/'')) fl)\<rparr>"

definition demo_archive :: "string \<Rightarrow> zip_entry list res" where
  "demo_archive bad = Inr [\<lparr>ze_Name = ''sh/bin'', ze_IsDir = False, ze_Perm = 0\<rparr>, \<lparr>ze_Name = bad, ze_IsDir = False, ze_Perm = 0\<rparr>]"

theorem extraction_contained_witness:
  "\<exists>r tr w'. extractFrom demo_fs (Inr ''/c'') (demo_archive ''a/../../x'') ''1'' ''l'' ''sh/bin'' ([], []) = (r, (tr, w')) \<and>
     is_err r \<and> w' = [] \<and> last tr = FRemoveAll ''/c/wgturn/chromium/.extract-1'' \<and>
     (\<exists>x ops fin. good_elem x \<and> tr = [FMkdirAll ''/c/wgturn/chromium'', FMkdirTemp (below ''/c/wgturn/chromium'' [x])] @ ops @ fin \<and>
        list_all (op_below (below ''/c/wgturn/chromium'' [x])) ops)"
proof -
  let ?x = "extractFrom demo_fs (Inr ''/c'') (demo_archive ''a/../../x'') ''1'' ''l'' ''sh/bin'' ([], [])"
  let ?tr = "[FMkdirAll ''/c/wgturn/chromium'', FMkdirTemp ''/c/wgturn/chromium/.extract-1'',
    FMkdirAll ''/c/wgturn/chromium/.extract-1/sh'', FWrite ''/c/wgturn/chromium/.extract-1/sh/bin'' 420, FRemoveAll ''/c/wgturn/chromium/.extract-1'']"
  have good: "good_elem ''.extract-1''" by code_simp
  then have t: "temp_ok demo_fs" unfolding temp_ok_def demo_fs_def by auto
  have b: "below ''/c'' [''wgturn'', ''chromium''] = ''/c/wgturn/chromium''" by code_simp
  obtain r where x: "?x = (r, (?tr, []))" and e: "is_err r"
  proof -
    have "is_err (fst ?x) \<and> snd ?x = (?tr, [])" by code_simp
    then show thesis using that by (cases ?x) auto
  qed
  have a: "filepath_IsAbs ''/c''" by code_simp
  have st: "fe_stat demo_fs p [] = False" for p by (simp add: demo_fs_def)
  have "\<exists>x ops fin. good_elem x \<and> ?tr = [FMkdirAll ''/c/wgturn/chromium'', FMkdirTemp (below ''/c/wgturn/chromium'' [x])] @ ops @ fin \<and>
      list_all (op_below (below ''/c/wgturn/chromium'' [x])) ops"
    using extraction_contained [OF t a x] unfolding Let_def b st by auto
  with x e show ?thesis by (intro exI [of _ r] exI [of _ ?tr] exI [of _ "[]"]) simp
qed

end
