(* ===== verification/Cdp_Session.thy ===== *)
theory Cdp_Session
  imports Go_Json
begin

text \<open>
  The session of the browser-driving captcha solver, \<open>pkg/wgturn/provider/vk/captchasolve/cdp.go\<close>: calls
  that register a channel under a new id and wait for their reply, the loop that reads the frames of
  the socket and routes them, and the end of that loop, which answers all calls that still wait. The
  steps are the code's own: what happens between two acquisitions of the mutex or two channel
  operations is one step, and the steps of the calls and of the loop interleave freely. A channel
  and its call are named by the id; the counter of ids is 64 bits wide and taken not to run over.
  A raw message is the JSON value it holds, \<open>None\<close> when it is empty.
\<close>

section \<open>Definitions\<close>

subsection \<open>Frames\<close>

type_synonym raw_message = "jval option"

record cdp_error =
  ce_Code :: int
  ce_Message :: string

record envelope =
  env_ID :: int
  env_Result :: raw_message
  env_Error :: "cdp_error option"
  env_Method :: string
  env_Params :: raw_message

definition zero_envelope :: envelope where
  "zero_envelope = \<lparr>env_ID = 0, env_Result = None, env_Error = None, env_Method = [], env_Params = None\<rparr>"

definition error_member :: "string \<times> jval \<Rightarrow> cdp_error \<Rightarrow> cdp_error option" where
  "error_member kv r =
     (let k = to_lower (fst kv); v = snd kv in
      if k = ''code'' then map_option (\<lambda>x. r\<lparr>ce_Code := x\<rparr>) (int_into v (ce_Code r))
      else if k = ''message'' then map_option (\<lambda>x. r\<lparr>ce_Message := x\<rparr>) (str_into v (ce_Message r))
      else Some r)"

text \<open>A pointer field: \<open>null\<close> makes it \<open>nil\<close>, an object is stored into what it points to.\<close>

definition env_member :: "string \<times> jval \<Rightarrow> envelope \<Rightarrow> envelope option" where
  "env_member kv r =
     (let k = to_lower (fst kv); v = snd kv in
      if k = ''id'' then map_option (\<lambda>x. r\<lparr>env_ID := x\<rparr>) (int_into v (env_ID r))
      else if k = ''result'' then Some (r\<lparr>env_Result := Some v\<rparr>)
      else if k = ''error'' then
        (if v = JNull then Some (r\<lparr>env_Error := None\<rparr>)
         else map_option (\<lambda>x. r\<lparr>env_Error := Some x\<rparr>)
                (into_object error_member v (case env_Error r of None \<Rightarrow> \<lparr>ce_Code = 0, ce_Message = []\<rparr> | Some x \<Rightarrow> x)))
      else if k = ''method'' then map_option (\<lambda>x. r\<lparr>env_Method := x\<rparr>) (str_into v (env_Method r))
      else if k = ''params'' then Some (r\<lparr>env_Params := Some v\<rparr>)
      else Some r)"

definition decode_envelope :: "string \<Rightarrow> envelope option" where
  "decode_envelope raw = (case json_parse raw of None \<Rightarrow> None | Some v \<Rightarrow> into_object env_member v zero_envelope)"

text \<open>The messages that stand for an error: of a reply, and of the socket.\<close>

definition error_payload :: "cdp_error \<Rightarrow> raw_message" where
  "error_payload e = Some (JObj [(''_cdp_code'', JNum (show_int (ce_Code e))), (''_cdp_error'', JStr (ce_Message e))])"

definition fail_payload :: "go_error \<Rightarrow> raw_message" where
  "fail_payload e = Some (JObj [(''_cdp_error'', JStr (err_text e))])"

definition reply_payload :: "envelope \<Rightarrow> raw_message" where
  "reply_payload env = (case env_Error env of Some e \<Rightarrow> error_payload e | None \<Rightarrow> env_Result env)"

definition probe_reply_member :: "string \<times> jval \<Rightarrow> string \<times> int \<Rightarrow> (string \<times> int) option" where
  "probe_reply_member kv r =
     (let k = to_lower (fst kv); v = snd kv in
      if k = ''_cdp_error'' then map_option (\<lambda>x. (x, snd r)) (str_into v (fst r))
      else if k = ''_cdp_code'' then map_option (\<lambda>x. (fst r, x)) (int_into v (snd r))
      else Some r)"

text \<open>What a call makes of the message it gets.\<close>

definition call_result :: "string \<Rightarrow> raw_message \<Rightarrow> raw_message res" where
  "call_result method raw =
     (case raw of
        None \<Rightarrow> Inr None
      | Some v \<Rightarrow>
          (case into_object probe_reply_member v ([], 0) of
             Some (msg, code) \<Rightarrow>
               if msg \<noteq> [] then Inl (errors_New (method @ '': '' @ msg @ '' (code='' @ show_int code @ '')'')) else Inr (Some v)
           | None \<Rightarrow> Inr (Some v)))"

subsection \<open>The session\<close>

record cdp_chan =
  ch_buf :: "raw_message list"
  ch_closed :: bool

datatype call_pc = Writing string | Waiting string | Done string "raw_message res"

fun call_method :: "call_pc \<Rightarrow> string" where
  "call_method (Writing m) = m" | "call_method (Waiting m) = m" | "call_method (Done m r) = m"

text \<open>The reading loop: about to read, about to send a reply to the channel it took out of the map, or
  at its end.\<close>

datatype reader_pc = Reading | Sending nat raw_message | ReadEnd

record cdp_session =
  ss_nextID :: nat
  ss_pending :: "nat set"
  ss_chan :: "nat \<Rightarrow> cdp_chan"
  ss_call :: "nat \<Rightarrow> call_pc option"
  ss_reader :: reader_pc
  ss_tokens :: "string list"

definition newCDPSession :: cdp_session where
  "newCDPSession = \<lparr>ss_nextID = 0, ss_pending = {}, ss_chan = (\<lambda>_. \<lparr>ch_buf = [], ch_closed = False\<rparr>), ss_call = (\<lambda>_. None),
     ss_reader = Reading, ss_tokens = []\<rparr>"

text \<open>A send on a channel of capacity one: it blocks while the buffer is full, and panics when the
  channel is closed.\<close>

definition send_ok :: "nat \<Rightarrow> cdp_session \<Rightarrow> bool" where
  "send_ok i s \<longleftrightarrow> ch_buf (ss_chan s i) = [] \<and> \<not> ch_closed (ss_chan s i)"

definition put :: "nat \<Rightarrow> raw_message \<Rightarrow> cdp_session \<Rightarrow> cdp_session" where
  "put i m s = s\<lparr>ss_chan := (ss_chan s)(i := (ss_chan s i)\<lparr>ch_buf := ch_buf (ss_chan s i) @ [m]\<rparr>)\<rparr>"

definition set_call :: "nat \<Rightarrow> call_pc \<Rightarrow> cdp_session \<Rightarrow> cdp_session" where
  "set_call i p s = s\<lparr>ss_call := (ss_call s)(i \<mapsto> p)\<rparr>"

definition call_begin :: "string \<Rightarrow> cdp_session \<Rightarrow> cdp_session" where
  "call_begin method s =
     (let i = Suc (ss_nextID s) in
      set_call i (Writing method)
        (s\<lparr>ss_nextID := i, ss_pending := insert i (ss_pending s), ss_chan := (ss_chan s)(i := \<lparr>ch_buf = [], ch_closed = False\<rparr>)\<rparr>))"

definition call_written :: "nat \<Rightarrow> go_error option \<Rightarrow> cdp_session \<Rightarrow> cdp_session option" where
  "call_written i err s =
     (case ss_call s i of
        Some (Writing m) \<Rightarrow>
          Some (case err of
                  None \<Rightarrow> set_call i (Waiting m) s
                | Some e \<Rightarrow> set_call i (Done m (Inl (wrapf (''ws write '' @ m @ '': '') e))) (s\<lparr>ss_pending := ss_pending s - {i}\<rparr>))
      | _ \<Rightarrow> None)"

definition call_cancelled :: "nat \<Rightarrow> go_error \<Rightarrow> cdp_session \<Rightarrow> cdp_session option" where
  "call_cancelled i e s =
     (case ss_call s i of
        Some (Waiting m) \<Rightarrow> Some (set_call i (Done m (Inl (wrapf (m @ '': '') e))) s)
      | _ \<Rightarrow> None)"

text \<open>The receive: from the buffer, or, when the channel is closed and empty, the empty message.\<close>

definition call_receive :: "nat \<Rightarrow> cdp_session \<Rightarrow> cdp_session option" where
  "call_receive i s =
     (case ss_call s i of
        Some (Waiting m) \<Rightarrow>
          (case ch_buf (ss_chan s i) of
             x # xs \<Rightarrow> Some (set_call i (Done m (call_result m x)) (s\<lparr>ss_chan := (ss_chan s)(i := (ss_chan s i)\<lparr>ch_buf := xs\<rparr>)\<rparr>))
           | [] \<Rightarrow> if ch_closed (ss_chan s i) then Some (set_call i (Done m (call_result m None)) s) else None)
      | _ \<Rightarrow> None)"

text \<open>A frame that is no reply is passed to \<open>handleResponseReceived\<close>, whose own call is a call like any
  other; a frame that cannot be decoded is skipped.\<close>

definition reader_frame :: "string \<Rightarrow> cdp_session \<Rightarrow> cdp_session option" where
  "reader_frame raw s =
     (if ss_reader s \<noteq> Reading then None
      else case decode_envelope raw of
        None \<Rightarrow> Some s
      | Some env \<Rightarrow>
          if env_ID env \<noteq> 0 then
            (if env_ID env > 0 \<and> nat (env_ID env) \<in> ss_pending s
             then Some (s\<lparr>ss_pending := ss_pending s - {nat (env_ID env)}, ss_reader := Sending (nat (env_ID env)) (reply_payload env)\<rparr>)
             else Some s)
          else Some s)"

definition reader_send :: "cdp_session \<Rightarrow> cdp_session option" where
  "reader_send s =
     (case ss_reader s of
        Sending i m \<Rightarrow> if send_ok i s then Some (put i m s\<lparr>ss_reader := Reading\<rparr>) else None
      | _ \<Rightarrow> None)"

text \<open>\<open>failPending\<close>, in the order in which the map is walked.\<close>

fun failPending :: "go_error \<Rightarrow> nat list \<Rightarrow> cdp_session \<Rightarrow> cdp_session option" where
  "failPending e [] s = Some s"
| "failPending e (i # js) s =
     (if send_ok i s
      then (let s1 = put i (fail_payload e) s in
            failPending e js (s1\<lparr>ss_chan := (ss_chan s1)(i := (ss_chan s1 i)\<lparr>ch_closed := True\<rparr>), ss_pending := ss_pending s1 - {i}\<rparr>))
      else None)"

definition reader_fail :: "go_error \<Rightarrow> nat list \<Rightarrow> cdp_session \<Rightarrow> cdp_session option" where
  "reader_fail e order s =
     (if ss_reader s \<noteq> Reading \<or> distinct order = False \<or> set order \<noteq> ss_pending s then None
      else map_option (\<lambda>s'. s'\<lparr>ss_reader := ReadEnd\<rparr>) (failPending e order s))"

text \<open>A token is offered to a channel of capacity one and dropped when that is full.\<close>

definition offer_token :: "string \<Rightarrow> cdp_session \<Rightarrow> cdp_session" where
  "offer_token tok s = (if ss_tokens s = [] then s\<lparr>ss_tokens := [tok]\<rparr> else s)"

datatype cdp_event =
    CallBegin string | CallWritten nat "go_error option" | CallCancelled nat go_error | CallReceive nat
  | ReaderFrame string | ReaderSend | ReaderFail go_error "nat list" | OfferToken string

fun cdp_exec :: "cdp_event \<Rightarrow> cdp_session \<Rightarrow> cdp_session option" where
  "cdp_exec (CallBegin m) s = Some (call_begin m s)"
| "cdp_exec (CallWritten i err) s = call_written i err s"
| "cdp_exec (CallCancelled i e) s = call_cancelled i e s"
| "cdp_exec (CallReceive i) s = call_receive i s"
| "cdp_exec (ReaderFrame raw) s = reader_frame raw s"
| "cdp_exec ReaderSend s = reader_send s"
| "cdp_exec (ReaderFail e order) s = reader_fail e order s"
| "cdp_exec (OfferToken t) s = Some (offer_token t s)"

fun cdp_run :: "cdp_event list \<Rightarrow> cdp_session \<Rightarrow> cdp_session option" where
  "cdp_run [] s = Some s"
| "cdp_run (e # es) s = (case cdp_exec e s of None \<Rightarrow> None | Some s' \<Rightarrow> cdp_run es s')"

section \<open>The session's invariant\<close>

text \<open>A channel in the map is open and empty and its call has not been answered; the channel the loop
  is about to send to is out of the map, open and empty; a call that waits is still in the map, or
  about to be sent to, or has its answer.\<close>

definition waits :: "cdp_session \<Rightarrow> nat \<Rightarrow> bool" where
  "waits s i \<longleftrightarrow> (\<exists>m. ss_call s i = Some (Writing m) \<or> ss_call s i = Some (Waiting m))"

definition call_ok :: "cdp_session \<Rightarrow> nat \<Rightarrow> bool" where
  "call_ok s i \<longleftrightarrow>
     (i \<in> ss_pending s \<longrightarrow> i \<le> ss_nextID s \<and> send_ok i s) \<and>
     (\<forall>m. ss_reader s = Sending i m \<longrightarrow> i \<notin> ss_pending s \<and> i \<le> ss_nextID s \<and> send_ok i s) \<and>
     (ss_call s i \<noteq> None \<longrightarrow> i \<le> ss_nextID s) \<and> length (ch_buf (ss_chan s i)) \<le> 1 \<and>
     (waits s i \<longrightarrow> i \<in> ss_pending s \<or> (\<exists>m. ss_reader s = Sending i m) \<or> ch_buf (ss_chan s i) \<noteq> [])"

definition sess_ok :: "cdp_session \<Rightarrow> bool" where
  "sess_ok s \<longleftrightarrow> finite (ss_pending s) \<and> (\<forall>i. call_ok s i)"

lemma sess_ok_new: "sess_ok newCDPSession"
  by (simp add: sess_ok_def call_ok_def newCDPSession_def waits_def)

lemmas sess_defs = call_ok_def send_ok_def waits_def put_def set_call_def

lemma failPending_ok:
  assumes "distinct order" and "\<forall>i \<in> set order. send_ok i s"
  shows "\<exists>s'. failPending e order s = Some s' \<and> ss_pending s' = ss_pending s - set order \<and>
    ss_nextID s' = ss_nextID s \<and> ss_call s' = ss_call s \<and> ss_reader s' = ss_reader s \<and> ss_tokens s' = ss_tokens s \<and>
    ss_chan s' = (\<lambda>i. if i \<in> set order then \<lparr>ch_buf = [fail_payload e], ch_closed = True\<rparr> else ss_chan s i)"
  using assms
proof (induction order arbitrary: s)
  case (Cons i js)
  let ?s1 = "put i (fail_payload e) s"
  let ?s2 = "?s1\<lparr>ss_chan := (ss_chan ?s1)(i := (ss_chan ?s1 i)\<lparr>ch_closed := True\<rparr>), ss_pending := ss_pending ?s1 - {i}\<rparr>"
  have "\<forall>j \<in> set js. send_ok j ?s2" using Cons.prems by (auto simp: send_ok_def put_def)
  from Cons.IH [OF _ this] Cons.prems obtain s' where s': "failPending e js ?s2 = Some s'"
    "ss_pending s' = ss_pending ?s2 - set js" "ss_nextID s' = ss_nextID ?s2" "ss_call s' = ss_call ?s2" "ss_reader s' = ss_reader ?s2"
    "ss_tokens s' = ss_tokens ?s2"
    "ss_chan s' = (\<lambda>j. if j \<in> set js then \<lparr>ch_buf = [fail_payload e], ch_closed = True\<rparr> else ss_chan ?s2 j)" by auto
  have "ss_chan s i = \<lparr>ch_buf = [], ch_closed = False\<rparr>" using Cons.prems(2) by (cases "ss_chan s i") (simp add: send_ok_def)
  with s' Cons.prems show ?case by (auto simp: put_def fun_eq_iff Let_def)
qed auto

lemma id_okD:
  assumes "call_ok s i"
  shows "i \<in> ss_pending s \<Longrightarrow> i \<le> ss_nextID s \<and> send_ok i s" "ss_reader s = Sending i m \<Longrightarrow> i \<le> ss_nextID s \<and> send_ok i s"
    "ss_call s i \<noteq> None \<Longrightarrow> i \<le> ss_nextID s"
  using assms by (auto simp: call_ok_def)

lemma cdp_exec_id:
  assumes "sess_ok s" and "cdp_exec ev s = Some s'"
  shows "call_ok s' i"
proof -
  have i: "call_ok s j" for j using assms(1) by (simp add: sess_ok_def)
  show ?thesis
  proof (cases ev)
    case (CallBegin m)
    show ?thesis
    proof (cases "i = Suc (ss_nextID s)")
      case True
      then have "i \<notin> ss_pending s" "ss_reader s \<noteq> Sending i x" for x using id_okD [OF i [of i]] by auto
      with True assms(2) CallBegin show ?thesis by (auto simp: sess_defs call_begin_def Let_def)
    next
      case False
      with i [of i] assms(2) CallBegin show ?thesis by (auto simp: sess_defs call_begin_def Let_def)
    qed
  next
    case (ReaderFail e order)
    then have r: "ss_reader s = Reading" "distinct order" "set order = ss_pending s" using assms(2) by (auto simp: reader_fail_def split: if_splits)
    have "\<forall>j \<in> set order. send_ok j s" using i r(3) id_okD(1) by blast
    from failPending_ok [OF r(2) this, of e] obtain s1 where s1: "failPending e order s = Some s1" "ss_pending s1 = ss_pending s - set order"
      "ss_nextID s1 = ss_nextID s" "ss_call s1 = ss_call s"
      "ss_chan s1 = (\<lambda>i. if i \<in> set order then \<lparr>ch_buf = [fail_payload e], ch_closed = True\<rparr> else ss_chan s i)" by blast
    have "s' = s1\<lparr>ss_reader := ReadEnd\<rparr>" using assms(2) ReaderFail r s1(1) by (simp add: reader_fail_def)
    with i [of i] r s1 show ?thesis by (auto simp: sess_defs)
  next
    case (CallWritten j err)
    then obtain m where m: "ss_call s j = Some (Writing m)" using assms(2) by (auto simp: call_written_def split: option.splits call_pc.splits)
    show ?thesis
    proof (cases err)
      case None
      with m assms(2) CallWritten have "s' = set_call j (Waiting m) s" by (simp add: call_written_def)
      with i [of i] m show ?thesis by (cases "i = j") (auto simp: sess_defs)
    next
      case (Some e)
      with m assms(2) CallWritten obtain r where "s' = set_call j (Done m r) (s\<lparr>ss_pending := ss_pending s - {j}\<rparr>)" by (auto simp: call_written_def)
      with i [of i] m show ?thesis by (cases "i = j") (auto simp: sess_defs)
    qed
  next
    case (CallCancelled j e)
    then obtain m where m: "ss_call s j = Some (Waiting m)" using assms(2) by (auto simp: call_cancelled_def split: option.splits call_pc.splits)
    then obtain r where "s' = set_call j (Done m r) s" using assms(2) CallCancelled by (auto simp: call_cancelled_def)
    with i [of i] m show ?thesis by (cases "i = j") (auto simp: sess_defs)
  next
    case (CallReceive j)
    then obtain m where m: "ss_call s j = Some (Waiting m)" using assms(2) by (auto simp: call_receive_def split: option.splits call_pc.splits)
    have "ch_buf (ss_chan s j) = [] \<Longrightarrow> \<not> ch_closed (ss_chan s j)" using i [of j] m by (auto simp: call_ok_def waits_def send_ok_def)
    then obtain x xs where b: "ch_buf (ss_chan s j) = x # xs"
      "s' = set_call j (Done m (call_result m x)) (s\<lparr>ss_chan := (ss_chan s)(j := (ss_chan s j)\<lparr>ch_buf := xs\<rparr>)\<rparr>)"
      using m assms(2) CallReceive by (cases "ch_buf (ss_chan s j)") (auto simp: call_receive_def)
    moreover have "xs = []" using b(1) i [of j] by (simp add: call_ok_def)
    ultimately show ?thesis using i [of i] m by (cases "i = j") (auto simp: sess_defs)
  next
    case (ReaderFrame raw)
    show ?thesis
    proof (cases "s' = s")
      case False
      then obtain j p where "j \<in> ss_pending s" "ss_reader s = Reading" "s' = s\<lparr>ss_pending := ss_pending s - {j}, ss_reader := Sending j p\<rparr>"
        using assms(2) ReaderFrame by (auto simp: reader_frame_def split: option.splits if_splits)
      with i [of i] show ?thesis by (cases "i = j") (auto simp: sess_defs)
    qed (use i in simp)
  next
    case ReaderSend
    then obtain j p where "ss_reader s = Sending j p" "send_ok j s" "s' = put j p s\<lparr>ss_reader := Reading\<rparr>"
      using assms(2) by (auto simp: reader_send_def split: reader_pc.splits if_splits)
    with i [of i] show ?thesis by (cases "i = j") (auto simp: sess_defs)
  next
    case (OfferToken t)
    with assms(2) have "s' = s \<or> s' = s\<lparr>ss_tokens := [t]\<rparr>" by (auto simp: offer_token_def split: if_splits)
    with i [of i] show ?thesis by (elim disjE) (simp_all add: sess_defs)
  qed
qed

lemma cdp_exec_ok:
  assumes "sess_ok s" and "cdp_exec ev s = Some s'"
  shows "sess_ok s'"
proof -
  have f: "finite (ss_pending s)" using assms(1) by (simp add: sess_ok_def)
  have "ss_pending s' \<subseteq> insert (Suc (ss_nextID s)) (ss_pending s)"
  proof (cases ev)
    case (ReaderFail e order)
    then have r: "distinct order" "set order = ss_pending s" using assms(2) by (auto simp: reader_fail_def split: if_splits)
    have "\<forall>j \<in> set order. send_ok j s" using assms(1) r(2) by (auto simp: sess_ok_def call_ok_def)
    from failPending_ok [OF r(1) this, of e] assms(2) ReaderFail r show ?thesis by (auto simp: reader_fail_def split: if_splits)
  qed (use assms(2) in \<open>auto simp: sess_defs call_begin_def Let_def call_written_def call_cancelled_def call_receive_def reader_frame_def
      reader_send_def offer_token_def split: option.splits call_pc.splits list.splits reader_pc.splits if_splits\<close>)
  then have "finite (ss_pending s')" using f finite_subset by blast
  then show ?thesis using cdp_exec_id [OF assms] by (simp add: sess_ok_def)
qed

lemma cdp_run_ok: "sess_ok s \<Longrightarrow> cdp_run evs s = Some s' \<Longrightarrow> sess_ok s'"
  by (induction evs arbitrary: s) (auto split: option.splits dest: cdp_exec_ok)

section \<open>Where answers come from\<close>

definition came_from :: "cdp_event set \<Rightarrow> nat \<Rightarrow> raw_message \<Rightarrow> bool" where
  "came_from E i x \<longleftrightarrow>
     (\<exists>raw env. ReaderFrame raw \<in> E \<and> decode_envelope raw = Some env \<and> env_ID env = int i \<and> x = reply_payload env) \<or>
     (\<exists>e order. ReaderFail e order \<in> E \<and> i \<in> set order \<and> x = fail_payload e)"

definition result_from :: "cdp_event set \<Rightarrow> nat \<Rightarrow> string \<Rightarrow> raw_message res \<Rightarrow> bool" where
  "result_from E i m r \<longleftrightarrow> (\<exists>x. came_from E i x \<and> r = call_result m x) \<or>
     (\<exists>e. CallWritten i (Some e) \<in> E \<and> r = Inl (wrapf (''ws write '' @ m @ '': '') e)) \<or>
     (\<exists>e. CallCancelled i e \<in> E \<and> r = Inl (wrapf (m @ '': '') e))"

definition prov :: "cdp_event set \<Rightarrow> cdp_session \<Rightarrow> nat \<Rightarrow> bool" where
  "prov E s i \<longleftrightarrow> (\<forall>x \<in> set (ch_buf (ss_chan s i)). came_from E i x) \<and>
     (\<forall>x. ss_reader s = Sending i x \<longrightarrow> came_from E i x) \<and>
     (\<forall>m r. ss_call s i = Some (Done m r) \<longrightarrow> result_from E i m r)"

lemma prov_mono: "prov E s i \<Longrightarrow> E \<subseteq> F \<Longrightarrow> prov F s i"
  unfolding prov_def result_from_def came_from_def by blast

lemma prov_step:
  assumes ok: "sess_ok s" and ex: "cdp_exec ev s = Some s'" and p0: "\<forall>j. prov E s j"
  shows "prov (insert ev E) s' i"
proof -
  let ?E = "insert ev E"
  have p: "prov ?E s j" for j using p0 prov_mono [of E s j ?E] by blast
  have pi: "\<forall>x \<in> set (ch_buf (ss_chan s i)). came_from ?E i x" "\<And>x. ss_reader s = Sending i x \<Longrightarrow> came_from ?E i x"
    "\<And>m r. ss_call s i = Some (Done m r) \<Longrightarrow> result_from ?E i m r" using p [of i] by (auto simp: prov_def)
  show ?thesis
  proof (cases ev)
    case (CallBegin m)
    then have "s' = call_begin m s" using ex by simp
    with pi show ?thesis by (auto simp: prov_def call_begin_def set_call_def Let_def)
  next
    case (CallWritten j err)
    then obtain m where m: "ss_call s j = Some (Writing m)" using ex by (auto simp: call_written_def split: option.splits call_pc.splits)
    show ?thesis
    proof (cases err)
      case None
      with m ex CallWritten have "s' = set_call j (Waiting m) s" by (simp add: call_written_def)
      with pi show ?thesis by (auto simp: prov_def set_call_def)
    next
      case (Some e)
      let ?r = "Inl (wrapf (''ws write '' @ m @ '': '') e)"
      have s': "s' = set_call j (Done m ?r) (s\<lparr>ss_pending := ss_pending s - {j}\<rparr>)" using Some m ex CallWritten by (simp add: call_written_def)
      have "result_from ?E j m ?r" using CallWritten Some by (auto simp: result_from_def)
      with pi show ?thesis by (auto simp: prov_def set_call_def s')
    qed
  next
    case (CallCancelled j e)
    then obtain m where m: "ss_call s j = Some (Waiting m)" using ex by (auto simp: call_cancelled_def split: option.splits call_pc.splits)
    let ?r = "Inl (wrapf (m @ '': '') e)"
    have s': "s' = set_call j (Done m ?r) s" using m ex CallCancelled by (simp add: call_cancelled_def)
    have "result_from ?E j m ?r" using CallCancelled by (auto simp: result_from_def)
    with pi show ?thesis by (auto simp: prov_def set_call_def s')
  next
    case (CallReceive j)
    then obtain m where m: "ss_call s j = Some (Waiting m)" using ex by (auto simp: call_receive_def split: option.splits call_pc.splits)
    have "call_ok s j" using ok by (simp add: sess_ok_def)
    then have "ch_buf (ss_chan s j) = [] \<Longrightarrow> \<not> ch_closed (ss_chan s j)" using m by (auto simp: call_ok_def waits_def send_ok_def)
    then obtain x xs where b: "ch_buf (ss_chan s j) = x # xs"
      "s' = set_call j (Done m (call_result m x)) (s\<lparr>ss_chan := (ss_chan s)(j := (ss_chan s j)\<lparr>ch_buf := xs\<rparr>)\<rparr>)"
      using m ex CallReceive by (cases "ch_buf (ss_chan s j)") (auto simp: call_receive_def)
    have "came_from ?E j x" using p [of j] b(1) by (simp add: prov_def)
    then have "result_from ?E j m (call_result m x)" by (auto simp: result_from_def)
    with pi b show ?thesis by (auto simp: prov_def set_call_def)
  next
    case (ReaderFrame raw)
    show ?thesis
    proof (cases "s' = s")
      case False
      then obtain env where env: "decode_envelope raw = Some env" "env_ID env > 0"
        "s' = s\<lparr>ss_pending := ss_pending s - {nat (env_ID env)}, ss_reader := Sending (nat (env_ID env)) (reply_payload env)\<rparr>"
        using ex ReaderFrame by (auto simp: reader_frame_def split: option.splits if_splits)
      have "came_from ?E (nat (env_ID env)) (reply_payload env)" using env(1,2) ReaderFrame by (auto simp: came_from_def)
      with pi env(3) show ?thesis by (auto simp: prov_def)
    qed (use p in simp)
  next
    case ReaderSend
    then obtain j x where j: "ss_reader s = Sending j x" "s' = put j x s\<lparr>ss_reader := Reading\<rparr>"
      using ex by (auto simp: reader_send_def split: reader_pc.splits if_splits)
    have "came_from ?E j x" using p [of j] j(1) by (simp add: prov_def)
    with pi j(2) show ?thesis by (auto simp: prov_def put_def)
  next
    case (ReaderFail e order)
    then have r: "distinct order" "set order = ss_pending s" using ex by (auto simp: reader_fail_def split: if_splits)
    have "\<forall>j \<in> set order. send_ok j s" using ok r(2) by (auto simp: sess_ok_def call_ok_def)
    from failPending_ok [OF r(1) this, of e] ex ReaderFail
    have "ss_call s' = ss_call s" "ss_reader s' = ReadEnd"
      "ss_chan s' = (\<lambda>i. if i \<in> set order then \<lparr>ch_buf = [fail_payload e], ch_closed = True\<rparr> else ss_chan s i)"
      by (auto simp: reader_fail_def split: if_splits)
    moreover have "came_from ?E j (fail_payload e)" if "j \<in> set order" for j using that ReaderFail by (auto simp: came_from_def)
    ultimately show ?thesis using pi by (auto simp: prov_def)
  next
    case (OfferToken t)
    with ex have "s' = offer_token t s" by simp
    then have "ss_chan s' = ss_chan s" "ss_reader s' = ss_reader s" "ss_call s' = ss_call s" by (simp_all add: offer_token_def)
    with pi show ?thesis by (auto simp: prov_def)
  qed
qed

lemma prov_run:
  assumes "sess_ok s" and "\<forall>j. prov E s j" and "cdp_run evs s = Some s'"
  shows "\<forall>j. prov (E \<union> set evs) s' j"
  using assms
proof (induction evs arbitrary: s E)
  case (Cons ev evs)
  then obtain s1 where s1: "cdp_exec ev s = Some s1" "cdp_run evs s1 = Some s'" by (auto split: option.splits)
  have "\<forall>j. prov (insert ev E) s1 j" using prov_step [OF Cons.prems(1) s1(1) Cons.prems(2)] by blast
  from Cons.IH [OF cdp_exec_ok [OF Cons.prems(1) s1(1)] this s1(2)] show ?case by simp
qed simp

text \<open>C11: The session's channels are safe in every interleaving of its calls with the reading loop. No
  send blocks or meets a closed channel: the loop can always hand over the reply it has read, and
  when the socket fails it can always answer everything that is registered, in whatever order. No
  wakeup is lost: a call that waits is still registered, or about to be answered, or has its answer
  in the channel; so after the loop has ended every call that was registered can return.\<close>

theorem cdp_session_safe:
  assumes "cdp_run evs newCDPSession = Some s"
  shows "(\<forall>i m. ss_reader s = Sending i m \<longrightarrow> reader_send s \<noteq> None) \<and>
    (\<forall>e order. ss_reader s = Reading \<and> distinct order \<and> set order = ss_pending s \<longrightarrow>
       (\<exists>s'. reader_fail e order s = Some s' \<and> ss_pending s' = {} \<and>
          (\<forall>i m. ss_call s' i = Some (Waiting m) \<longrightarrow> call_receive i s' \<noteq> None))) \<and>
    (\<forall>i m. ss_call s i = Some (Waiting m) \<longrightarrow>
       i \<in> ss_pending s \<or> (\<exists>x. ss_reader s = Sending i x) \<or> call_receive i s \<noteq> None)"
proof -
  have ok: "sess_ok s" by (rule cdp_run_ok [OF sess_ok_new assms])
  then have i: "call_ok s j" for j by (simp add: sess_ok_def)
  have wait: "i \<in> ss_pending t \<or> (\<exists>x. ss_reader t = Sending i x) \<or> call_receive i t \<noteq> None"
    if "sess_ok t" "ss_call t i = Some (Waiting m)" for t i m
  proof -
    have "call_ok t i" using that(1) by (simp add: sess_ok_def)
    then show ?thesis using that(2) by (cases "ch_buf (ss_chan t i)") (auto simp: call_ok_def waits_def call_receive_def)
  qed
  have snd: "reader_send s \<noteq> None" if "ss_reader s = Sending j m" for j m
    using id_okD(2) [OF i that] that by (simp add: reader_send_def)
  have fl: "\<exists>s'. reader_fail e order s = Some s' \<and> ss_pending s' = {} \<and> (\<forall>i m. ss_call s' i = Some (Waiting m) \<longrightarrow> call_receive i s' \<noteq> None)"
    if o: "ss_reader s = Reading" "distinct order" "set order = ss_pending s" for e order
  proof -
    have "\<forall>j \<in> set order. send_ok j s" using i o(3) id_okD(1) by blast
    from failPending_ok [OF o(2) this, of e] obtain s1 where s1: "failPending e order s = Some s1" "ss_pending s1 = ss_pending s - set order" by blast
    let ?s = "s1\<lparr>ss_reader := ReadEnd\<rparr>"
    have f: "reader_fail e order s = Some ?s" using o s1(1) by (simp add: reader_fail_def)
    have "sess_ok ?s" using cdp_exec_ok [OF ok, of "ReaderFail e order"] f by simp
    from wait [OF this] s1(2) o(3) show ?thesis using f by auto
  qed
  show ?thesis using snd fl wait [OF ok] by blast
qed

text \<open>C39: Replies go to the call they belong to. Whatever a finished call returned it made of a frame of the
  socket that carried its own id, or of the error with which the socket failed while the call was
  registered, or it is the error of its own write or of its own context. In particular no call ever
  returns what was sent to another one.\<close>

theorem cdp_replies_routed:
  assumes "cdp_run evs newCDPSession = Some s" and "ss_call s i = Some (Done m r)"
  shows "(\<exists>raw env. ReaderFrame raw \<in> set evs \<and> decode_envelope raw = Some env \<and> env_ID env = int i \<and>
       r = call_result m (reply_payload env)) \<or>
    (\<exists>e order. ReaderFail e order \<in> set evs \<and> i \<in> set order \<and> r = call_result m (fail_payload e)) \<or>
    (\<exists>e. CallWritten i (Some e) \<in> set evs \<and> r = Inl (wrapf (''ws write '' @ m @ '': '') e)) \<or>
    (\<exists>e. CallCancelled i e \<in> set evs \<and> r = Inl (wrapf (m @ '': '') e))"
proof -
  have "\<forall>j. prov {} newCDPSession j" by (simp add: prov_def newCDPSession_def)
  from prov_run [OF sess_ok_new this assms(1)] have "prov (set evs) s i" by simp
  with assms(2) have "result_from (set evs) i m r" by (simp add: prov_def)
  then show ?thesis unfolding result_from_def came_from_def by blast
qed

text \<open>Two calls, the replies of which arrive in the opposite order.\<close>

definition demo_frames :: "cdp_event list" where
  "demo_frames = [CallBegin ''A'', CallBegin ''B'', CallWritten 1 None, CallWritten 2 None,
     ReaderFrame ''{\"id\":2,\"result\":{\"x\":7}}'', ReaderSend, ReaderFrame ''{\"id\":1,\"error\":{\"code\":-3,\"message\":\"no\"}}'',
     ReaderSend, CallReceive 1, CallReceive 2]"

lemma demo_frames_run:
  "map_option (\<lambda>s. (ss_call s 1, ss_call s 2, ss_reader s)) (cdp_run demo_frames newCDPSession) =
     Some (Some (Done ''A'' (Inl (errors_New ''A: no (code=-3)''))), Some (Done ''B'' (Inr (Some (JObj [(''x'', JNum ''7'')])))), Reading)"
  by code_simp

theorem cdp_session_safe_witness:
  "\<exists>s. cdp_run demo_frames newCDPSession = Some s \<and>
     (\<forall>e order. distinct order \<and> set order = ss_pending s \<longrightarrow> reader_fail e order s \<noteq> None)"
proof -
  obtain s where s: "cdp_run demo_frames newCDPSession = Some s" "ss_reader s = Reading" using demo_frames_run by auto
  from cdp_session_safe [OF s(1)] s(2) have "reader_fail e order s \<noteq> None" if "distinct order" "set order = ss_pending s" for e order
    using that by blast
  with s(1) show ?thesis by blast
qed

theorem cdp_replies_routed_witness:
  "\<exists>s. cdp_run demo_frames newCDPSession = Some s \<and> ss_call s 2 = Some (Done ''B'' (Inr (Some (JObj [(''x'', JNum ''7'')])))) \<and>
     (\<exists>raw env. ReaderFrame raw \<in> set demo_frames \<and> decode_envelope raw = Some env \<and> env_ID env = 2)"
proof -
  obtain s where s: "cdp_run demo_frames newCDPSession = Some s" "ss_call s 2 = Some (Done ''B'' (Inr (Some (JObj [(''x'', JNum ''7'')]))))"
    using demo_frames_run by auto
  from cdp_replies_routed [OF this] have "\<exists>raw env. ReaderFrame raw \<in> set demo_frames \<and> decode_envelope raw = Some env \<and> env_ID env = 2"
    by (auto simp: demo_frames_def)
  with s show ?thesis by blast
qed

end
