(* ===== verification/Url_Parse.thy ===== *)
theory Url_Parse
  imports Go_Hex
begin

text \<open>
  Go's \<open>url.Parse\<close>, as far as the scheme and the host of the result go: the scheme, the authority with
  its user information and port, the escapes, and every way to be rejected. What the library makes of
  a host with a bracket, an IP literal, differs between patch releases of the compiler's version and
  is a parameter. Nothing here models a file of the repository.
\<close>

section \<open>Definitions\<close>

definition url_letter :: "char \<Rightarrow> bool" where
  "url_letter c \<longleftrightarrow> (let n = of_char c :: nat in 65 \<le> n \<and> n \<le> 90 \<or> 97 \<le> n \<and> n \<le> 122)"

definition url_digit :: "char \<Rightarrow> bool" where
  "url_digit c \<longleftrightarrow> (let n = of_char c :: nat in 48 \<le> n \<and> n \<le> 57)"

definition scheme_char :: "char \<Rightarrow> bool" where
  "scheme_char c \<longleftrightarrow> url_letter c \<or> url_digit c \<or> c \<in> set ''+-.''"

text \<open>\<open>getScheme\<close>: the scheme and what is behind its colon, \<open>None\<close> for a colon in front.\<close>

definition getScheme :: "string \<Rightarrow> (string \<times> string) option" where
  "getScheme raw =
     (case raw of
        [] \<Rightarrow> Some ([], raw)
      | c # _ \<Rightarrow>
          if c = CHR '':'' then None
          else if \<not> url_letter c then Some ([], raw)
          else (case dropWhile scheme_char raw of
                  [] \<Rightarrow> Some ([], raw)
                | d # t \<Rightarrow> if d = CHR '':'' then Some (takeWhile scheme_char raw, t) else Some ([], raw)))"

text \<open>The escapes of a path, of user information and of a fragment are only checked.\<close>

fun escapes_ok :: "string \<Rightarrow> bool" where
  "escapes_ok [] = True"
| "escapes_ok (c # t) =
     (if c = CHR ''%'' then (case t of a # b # u \<Rightarrow> hex_val a \<noteq> None \<and> hex_val b \<noteq> None \<and> escapes_ok u | _ \<Rightarrow> False)
      else escapes_ok t)"

definition host_char :: "char \<Rightarrow> bool" where
  "host_char c \<longleftrightarrow> url_letter c \<or> url_digit c \<or> c \<in> set ''!$&()*+,;=:[]<>-_.~'' \<or> c = CHR 0x27 \<or> c = CHR 0x22 \<or> (128 :: nat) \<le> of_char c"

text \<open>In a host only bytes from 0x80 on may be escaped, and the percent sign itself.\<close>

fun host_unescape :: "string \<Rightarrow> string option" where
  "host_unescape [] = Some []"
| "host_unescape (c # t) =
     (if c = CHR ''%'' then
        (case t of
           a # b # u \<Rightarrow>
             (case (hex_val a, hex_val b) of
                (Some x, Some y) \<Rightarrow>
                  if x < 8 \<and> \<not> (x = 2 \<and> y = 5) then None else map_option ((#) (char_of (x * 16 + y))) (host_unescape u)
              | _ \<Rightarrow> None)
         | _ \<Rightarrow> None)
      else if host_char c then map_option ((#) c) (host_unescape t) else None)"

definition validOptionalPort :: "string \<Rightarrow> bool" where
  "validOptionalPort p \<longleftrightarrow> p = [] \<or> (hd p = CHR '':'' \<and> list_all url_digit (tl p))"

definition parseHost :: "(string \<Rightarrow> string option) \<Rightarrow> string \<Rightarrow> string option" where
  "parseHost ipLiteral host =
     (if CHR ''['' \<in> set host then ipLiteral host
      else case last_index_byte host (CHR '':'') of
        Some i \<Rightarrow> if validOptionalPort (drop i host) then host_unescape host else None
      | None \<Rightarrow> host_unescape host)"

definition userinfo_char :: "char \<Rightarrow> bool" where
  "userinfo_char c \<longleftrightarrow> url_letter c \<or> url_digit c \<or> c \<in> set ''-._:~!$&()*+,;=%@'' \<or> c = CHR 0x27"

definition parseAuthority :: "(string \<Rightarrow> string option) \<Rightarrow> string \<Rightarrow> string option" where
  "parseAuthority ipLiteral authority =
     (case last_index_byte authority (CHR ''@'') of
        None \<Rightarrow> parseHost ipLiteral authority
      | Some i \<Rightarrow>
          (case parseHost ipLiteral (drop (i + 1) authority) of
             None \<Rightarrow> None
           | Some h \<Rightarrow>
               if list_all userinfo_char (take i authority) \<and>
                  escapes_ok (takeWhile (\<lambda>c. c \<noteq> CHR '':'') (take i authority)) \<and>
                  escapes_ok (dropWhile (\<lambda>c. c \<noteq> CHR '':'') (take i authority))
               then Some h else None))"

definition url_ctl :: "char \<Rightarrow> bool" where
  "url_ctl c \<longleftrightarrow> (of_char c :: nat) < 32 \<or> c = CHR 0x7F"

text \<open>Scheme and host of a reference without its fragment.\<close>

definition parse_ref :: "(string \<Rightarrow> string option) \<Rightarrow> string \<Rightarrow> (string \<times> string) option" where
  "parse_ref ipLiteral raw =
     (if list_ex url_ctl raw then None
      else if raw = ''*'' then Some ([], [])
      else case getScheme raw of
        None \<Rightarrow> None
      | Some (sch, rest0) \<Rightarrow>
          (let scheme = to_lower sch; rest = takeWhile (\<lambda>c. c \<noteq> CHR ''?'') rest0 in
           if \<not> has_prefix rest ''/'' then
             (if scheme \<noteq> [] then Some (scheme, [])
              else if CHR '':'' \<in> set (takeWhile (\<lambda>c. c \<noteq> CHR ''/'') rest) then None
              else if escapes_ok rest then Some ([], []) else None)
           else if (scheme \<noteq> [] \<or> \<not> has_prefix rest ''///'') \<and> has_prefix rest ''//'' then
             (case parseAuthority ipLiteral (takeWhile (\<lambda>c. c \<noteq> CHR ''/'') (drop 2 rest)) of
                None \<Rightarrow> None
              | Some host \<Rightarrow> if escapes_ok (dropWhile (\<lambda>c. c \<noteq> CHR ''/'') (drop 2 rest)) then Some (scheme, host) else None)
           else if escapes_ok rest then Some (scheme, []) else None))"

definition url_Parse :: "(string \<Rightarrow> string option) \<Rightarrow> string \<Rightarrow> (string \<times> string) option" where
  "url_Parse ipLiteral raw =
     (case parse_ref ipLiteral (takeWhile (\<lambda>c. c \<noteq> CHR ''#'') raw) of
        None \<Rightarrow> None
      | Some u \<Rightarrow> if escapes_ok (dropWhile (\<lambda>c. c \<noteq> CHR ''#'') raw) then Some u else None)"

text \<open>\<open>Hostname\<close>: the host without its port and without brackets.\<close>

definition url_Hostname :: "string \<Rightarrow> string" where
  "url_Hostname hostPort =
     (let h = (case last_index_byte hostPort (CHR '':'') of
                 Some i \<Rightarrow> if validOptionalPort (drop i hostPort) then take i hostPort else hostPort
               | None \<Rightarrow> hostPort)
      in if has_prefix h ''['' \<and> has_suffix h '']'' then butlast (tl h) else h)"

section \<open>Shape of an accepted URL\<close>

lemma last_index_byte_None: "last_index_byte s c = None \<longleftrightarrow> c \<notin> set s"
  by (auto simp: last_index_byte_def)

lemma last_index_byte_split:
  assumes "last_index_byte s c = Some i"
  shows "s = take i s @ c # drop (i + 1) s \<and> c \<notin> set (drop (i + 1) s)"
proof -
  have "c \<in> set s" using assms last_index_byte_None [of s c] by auto
  then obtain a b where ab: "s = a @ c # b" "c \<notin> set b" using split_list_last by metis
  with assms have "i = length a" using last_index_byte_append by auto
  with ab show ?thesis by simp
qed

lemma hex_host_char: "hex_val a = Some x \<Longrightarrow> host_char a"
  by (auto simp: hex_val_def host_char_def url_letter_def url_digit_def Let_def split: if_splits)

lemma host_unescape_chars:
  assumes "host_unescape h = Some h'" and "c \<in> set h"
  shows "c = CHR ''%'' \<or> host_char c"
  using assms
proof (induction h arbitrary: h' rule: length_induct)
  case (1 h)
  show ?case
  proof (cases h)
    case (Cons d t)
    show ?thesis
    proof (cases "d = CHR ''%''")
      case True
      then obtain a b u x y h2 where u: "t = a # b # u" "hex_val a = Some x" "hex_val b = Some y" "host_unescape u = Some h2"
        using "1.prems"(1) Cons by (auto split: list.splits option.splits if_splits)
      have "c = CHR ''%'' \<or> host_char c" if "c \<in> set u"
        using "1.IH" [rule_format, of u h2] u(4) that Cons u(1) by simp
      with u "1.prems"(2) Cons True hex_host_char show ?thesis by auto
    next
      case False
      then obtain h2 where "host_unescape t = Some h2" "host_char d" using "1.prems"(1) Cons by (auto split: if_splits)
      with "1.IH" [rule_format, of t h2] "1.prems"(2) Cons show ?thesis by auto
    qed
  qed (use "1.prems" in simp)
qed

lemma host_unescape_plain:
  assumes "(of_char k :: nat) < 128" and "k \<noteq> CHR ''%''" and "host_unescape h = Some h'" and "k \<in> set h'"
  shows "k \<in> set h"
  using assms(3,4)
proof (induction h arbitrary: h' rule: length_induct)
  case (1 h)
  show ?case
  proof (cases h)
    case (Cons d t)
    show ?thesis
    proof (cases "d = CHR ''%''")
      case True
      then obtain a b u x y h2 where u: "t = a # b # u" "hex_val a = Some x" "hex_val b = Some y" "host_unescape u = Some h2"
        "h' = char_of (x * 16 + y) # h2" "\<not> (x < 8 \<and> \<not> (x = 2 \<and> y = 5))"
        using "1.prems"(1) Cons by (auto split: list.splits option.splits if_splits)
      have xy: "x < 16" "y < 16" using u(2,3) by (auto simp: hex_val_def Let_def split: if_splits)
      have "(char_of (x * 16 + y) :: char) \<noteq> k"
      proof
        assume k: "(char_of (x * 16 + y) :: char) = k"
        then have "(of_char (char_of (x * 16 + y) :: char) :: nat) = of_char k" by (rule arg_cong)
        then have n: "x * 16 + y = of_char k" using xy by simp
        show False
        proof (cases "x < 8")
          case True
          with u(6) have "x * 16 + y = 37" by simp
          then have "k = char_of (37 :: nat)" using k by simp
          also have "\<dots> = CHR ''%''" by code_simp
          finally show False using assms(2) by simp
        next
          case False
          with n assms(1) show False by simp
        qed
      qed
      with "1.IH" [rule_format, of u h2] u "1.prems"(2) Cons show ?thesis by auto
    next
      case False
      then obtain h2 where "host_unescape t = Some h2" "h' = d # h2" using "1.prems"(1) Cons by (auto split: if_splits)
      with "1.IH" [rule_format, of t h2] "1.prems"(2) Cons show ?thesis by auto
    qed
  qed (use "1.prems" in simp)
qed

lemma host_unescape_at:
  assumes "hex_val c = None" and "c \<noteq> CHR ''%''" and "host_char c"
  shows "host_unescape (a @ c # b) =
    (case host_unescape a of None \<Rightarrow> None | Some x \<Rightarrow> map_option (\<lambda>y. x @ c # y) (host_unescape b))"
proof (induction a rule: length_induct)
  case (1 a)
  show ?case
  proof (cases a)
    case Nil
    with assms show ?thesis by (simp add: fun_eq_iff map_option_case split: option.splits)
  next
    case (Cons d t)
    show ?thesis
    proof (cases "d = CHR ''%''")
      case True
      show ?thesis
      proof (cases t)
        case Nil
        with True Cons assms show ?thesis by (simp split: list.splits option.splits)
      next
        case (Cons p t2)
        note t = this
        show ?thesis
        proof (cases t2)
          case Nil
          with True \<open>a = d # t\<close> t assms show ?thesis by (simp split: option.splits)
        next
          case (Cons q u)
          have a: "a = CHR ''%'' # p # q # u" using True \<open>a = d # t\<close> t Cons by simp
          then have IH: "host_unescape (u @ c # b) =
              (case host_unescape u of None \<Rightarrow> None | Some x \<Rightarrow> map_option (\<lambda>y. x @ c # y) (host_unescape b))"
            using "1.IH" [rule_format, of u] by simp
          show ?thesis
          proof (cases "hex_val p = None \<or> hex_val q = None")
            case False
            then obtain x y where "hex_val p = Some x" "hex_val q = Some y" by auto
            then obtain r k where e: "\<And>w. host_unescape (CHR ''%'' # p # q # w) = (if r then None else map_option ((#) k) (host_unescape w))"
              by simp
            have l: "host_unescape (a @ c # b) = (if r then None else map_option ((#) k) (host_unescape (u @ c # b)))"
              unfolding a append_Cons by (rule e)
            have "host_unescape a = (if r then None else map_option ((#) k) (host_unescape u))" unfolding a by (rule e)
            then show ?thesis unfolding l IH by (cases "host_unescape u"; cases "host_unescape b"; cases r) simp_all
          next
            case True
            then have e: "host_unescape (CHR ''%'' # p # q # w) = None" for w by (auto split: option.splits)
            have "host_unescape (a @ c # b) = None" "host_unescape a = None" unfolding a append_Cons by (rule e)+
            then show ?thesis by simp
          qed
        qed
      qed
    next
      case False
      with "1.IH" [rule_format, of t] Cons show ?thesis
        by (cases "host_unescape t"; cases "host_unescape b") simp_all
    qed
  qed
qed

lemma host_unescape_digits: "list_all url_digit ds \<Longrightarrow> host_unescape ds = Some ds"
  by (induction ds) (auto simp: url_digit_def host_char_def)

text \<open>A host without a bracket: its name, the port, and what the name stands for.\<close>

lemma parseHost_plain:
  assumes "parseHost ipLiteral hp = Some h" and "CHR ''['' \<notin> set hp"
  obtains name port where "hp = name @ port" "validOptionalPort port" "host_unescape name = Some (url_Hostname h)"
proof -
  have nb: "\<not> has_prefix x ''[''" if "host_unescape y = Some x" "set y \<subseteq> set hp" for x y
    using host_unescape_plain [of "CHR ''[''" y x] that assms(2) by (cases x) auto
  show ?thesis
  proof (cases "last_index_byte hp (CHR '':'')")
    case None
    have u: "host_unescape hp = Some h" using assms unfolding parseHost_def None by simp
    have "CHR '':'' \<notin> set hp" using None by (simp add: last_index_byte_None)
    then have "CHR '':'' \<notin> set h" using host_unescape_plain [of "CHR '':''" hp h] u by auto
    then have "url_Hostname h = h" using nb [OF u] last_index_byte_None [of h "CHR '':''"] by (simp add: url_Hostname_def)
    with that [of hp "[]"] u show ?thesis by (simp add: validOptionalPort_def)
  next
    case (Some i)
    let ?a = "take i hp" and ?ds = "drop (i + 1) hp"
    have sp: "hp = ?a @ CHR '':'' # ?ds" using last_index_byte_split [OF Some] by simp
    have i: "i < length hp" using sp by (metis append_take_drop_id length_drop length_take linorder_not_less list.distinct(1) min.absorb2 same_append_eq drop_all)
    have d: "drop i hp = CHR '':'' # ?ds" using sp i by (metis append_take_drop_id same_append_eq)
    have v: "validOptionalPort (CHR '':'' # ?ds)" "host_unescape hp = Some h"
      using assms d unfolding parseHost_def Some by (auto split: if_splits)
    have ds: "list_all url_digit ?ds" using v(1) by (simp add: validOptionalPort_def)
    have "host_unescape (?a @ CHR '':'' # ?ds) = Some h" using v(2) sp by simp
    moreover have "hex_val (CHR '':'') = None" "host_char (CHR '':'')" by code_simp+
    ultimately obtain x where x: "host_unescape ?a = Some x" "h = x @ CHR '':'' # ?ds"
      using host_unescape_at [of "CHR '':''" ?a ?ds] host_unescape_digits [OF ds] by (auto split: option.splits)
    have "CHR '':'' \<notin> set ?ds" using ds by (auto simp: list_all_iff url_digit_def)
    then have "last_index_byte h (CHR '':'') = Some (length x)" unfolding x(2) by (rule last_index_byte_append)
    then have "url_Hostname h = x"
      using v(1) nb [OF x(1)] set_take_subset [of i hp] by (simp add: url_Hostname_def x(2))
    with that [of ?a "CHR '':'' # ?ds"] sp v(1) x(1) show ?thesis by simp
  qed
qed

end
