(* ===== verification/Go_Http.thy ===== *)
theory Go_Http
  imports Go_Strings
begin

text \<open>
  The outcome of an HTTP request as the credentials providers see it, and the limit they put on a
  body. The HTTP client itself is a parameter of the providers' models.
\<close>

text \<open>What comes back: a failure to build the request, a failure to send it, or an answer, whose body
  can fail to be read.\<close>

datatype http_outcome =
    BuildErr go_error
  | HttpErr go_error
  | HttpResp (status: int) (status_text: string) (body: "string res")

definition limit_read :: "string \<Rightarrow> string" where
  "limit_read b = (if int (length b) \<le> 2 ^ 20 then b else take (2 ^ 20) b)"

text \<open>\<open>strings.TrimRight\<close> with one character.\<close>

definition trim_right :: "string \<Rightarrow> char \<Rightarrow> string" where
  "trim_right s c = rev (dropWhile (\<lambda>x. x = c) (rev s))"

end
