(* ===== verification/Cdp_Solve.thy ===== *)
theory Cdp_Solve
  imports Cdp_Session Url_Parse Vk_Captcha Go_Http
begin

text \<open>
  The captcha solver that drives a browser, \<open>pkg/wgturn/provider/vk/captchasolve/cdp.go\<close>: the check of the
  page's address, the tab, the conversation over the session, and the search for the token in the
  page's traffic. A call of the session, the clock, the waits and the token's channel are functions of
  the outside's state; the trace records what the solver does to the browser.
\<close>

section \<open>Definitions\<close>

subsection \<open>The page's address\<close>

text \<open>\<open>strings.ToLower\<close> on UTF-8 as far as it can give an ASCII letter: besides the ASCII capitals these are
  the Kelvin sign and the capital I with a dot above. Other bytes from 0x80 on never become ASCII.\<close>

fun lower_utf8 :: "string \<Rightarrow> string" where
  "lower_utf8 s =
     (case s of
        [] \<Rightarrow> []
      | c # t \<Rightarrow>
          if take 3 s = [CHR 0xE2, CHR 0x84, CHR 0xAA] then CHR ''k'' # lower_utf8 (drop 2 t)
          else if take 2 s = [CHR 0xC4, CHR 0xB0] then CHR ''i'' # lower_utf8 (drop 1 t)
          else char_lower c # lower_utf8 t)"

declare lower_utf8.simps [simp del]

definition vk_name :: "string \<Rightarrow> bool" where
  "vk_name h \<longleftrightarrow> h = ''vk.ru'' \<or> h = ''vk.com'' \<or> has_suffix h ''.vk.ru'' \<or> has_suffix h ''.vk.com''"

definition assertVKHost :: "(string \<Rightarrow> string option) \<Rightarrow> (string \<Rightarrow> go_error) \<Rightarrow> string \<Rightarrow> go_error option" where
  "assertVKHost ipLiteral urlErr raw =
     (case url_Parse ipLiteral raw of
        None \<Rightarrow> Some (wrapf ''parse redirect_uri: '' (urlErr raw))
      | Some (scheme, host) \<Rightarrow>
          if scheme \<noteq> ''https'' then Some (errors_New (''redirect_uri scheme '' @ quoted scheme @ '' is not https''))
          else (let h = lower_utf8 (url_Hostname host) in
                if vk_name h then None else Some (errors_New (''redirect_uri host '' @ quoted h @ '' not in VK allowlist''))))"

subsection \<open>The tab\<close>

record tab_info =
  tab_ID :: string
  tab_WS :: string

definition tab_member :: "string \<times> jval \<Rightarrow> tab_info \<Rightarrow> tab_info option" where
  "tab_member kv r =
     (let k = to_lower (fst kv); v = snd kv in
      if k = ''id'' then map_option (\<lambda>x. r\<lparr>tab_ID := x\<rparr>) (str_into v (tab_ID r))
      else if k = ''websocketdebuggerurl'' then map_option (\<lambda>x. r\<lparr>tab_WS := x\<rparr>) (str_into v (tab_WS r))
      else Some r)"

text \<open>The decoder reads one value of the body and leaves the rest; a body that cannot be read has no value.\<close>

definition decode_tab :: "string \<Rightarrow> tab_info option" where
  "decode_tab b =
     (case jvalue (2 * length b + 2) 0 b of
        None \<Rightarrow> None
      | Some (v, r) \<Rightarrow> into_object tab_member v \<lparr>tab_ID = [], tab_WS = []\<rparr>)"

definition openTab :: "(string \<Rightarrow> go_error) \<Rightarrow> http_outcome \<Rightarrow> tab_info res" where
  "openTab jsonErr outc =
     (case outc of
        BuildErr e \<Rightarrow> Inl e
      | HttpErr e \<Rightarrow> Inl e
      | HttpResp st _ bd \<Rightarrow>
          if go_div st 100 \<noteq> 2
          then Inl (errors_New (''status '' @ show_int st @ '': '' @ (case bd of Inr b \<Rightarrow> take 1024 b | Inl _ \<Rightarrow> [])))
          else (case bd of
                  Inl e \<Rightarrow> Inl e
                | Inr b \<Rightarrow>
                    (case decode_tab b of
                       None \<Rightarrow> Inl (jsonErr b)
                     | Some t \<Rightarrow> if tab_WS t = [] then Inl (errors_New ''cdp: response missing webSocketDebuggerUrl'') else Inr t)))"

subsection \<open>The conversation\<close>

datatype cparam = PStr string | PInt int | PBool bool | PFloat f64

type_synonym cparams = "(string \<times> cparam) list"

datatype tab_event = TabOpened string | TabCall string cparams | SocketClosed | TabClosed string

datatype token_wait = TokCtx go_error | TokTimeout | TokGot string

record 'w cdp_env =
  cv_call :: "string \<Rightarrow> cparams \<Rightarrow> 'w \<Rightarrow> raw_message res \<times> 'w"
  cv_now :: "'w \<Rightarrow> instant"
  cv_pause :: "'w \<Rightarrow> go_error option \<times> 'w"
  cv_sleep :: "duration \<Rightarrow> 'w \<Rightarrow> 'w"
  cv_token :: "'w \<Rightarrow> token_wait \<times> 'w"
  cv_findCheckboxJS :: string

type_synonym 'w conv = "tab_event list \<times> 'w"

definition tcall :: "'w cdp_env \<Rightarrow> string \<Rightarrow> cparams \<Rightarrow> 'w conv \<Rightarrow> raw_message res \<times> 'w conv" where
  "tcall env m ps s = (case cv_call env m ps (snd s) of (r, w) \<Rightarrow> (r, (fst s @ [TabCall m ps], w)))"

record cdp_solver =
  sv_ChromeURL :: string
  sv_UserAgent :: string
  sv_ViewportWidth :: int
  sv_ViewportHeight :: int

fun enable_all :: "'w cdp_env \<Rightarrow> string list \<Rightarrow> 'w conv \<Rightarrow> go_error option \<times> 'w conv" where
  "enable_all env [] s = (None, s)"
| "enable_all env (m # ms) s =
     (case tcall env m [] s of
        (Inl e, s1) \<Rightarrow> (Some (wrapf (m @ '': '') e), s1)
      | (Inr _, s1) \<Rightarrow> enable_all env ms s1)"

definition cdp_setup :: "'w cdp_env \<Rightarrow> cdp_solver \<Rightarrow> 'w conv \<Rightarrow> go_error option \<times> 'w conv" where
  "cdp_setup env c s =
     (case enable_all env [''Network.enable'', ''Page.enable'', ''Runtime.enable''] s of
        (Some e, s1) \<Rightarrow> (Some e, s1)
      | (None, s1) \<Rightarrow>
          (case (if sv_UserAgent c \<noteq> [] then tcall env ''Network.setUserAgentOverride'' [(''userAgent'', PStr (sv_UserAgent c))] s1
                 else (Inr None, s1)) of
             (Inl e, s2) \<Rightarrow> (Some (wrapf ''Network.setUserAgentOverride: '' e), s2)
           | (Inr _, s2) \<Rightarrow>
               (let vw = (if sv_ViewportWidth c = 0 then 1280 else sv_ViewportWidth c);
                    vh = (if sv_ViewportHeight c = 0 then 800 else sv_ViewportHeight c)
                in case tcall env ''Emulation.setDeviceMetricsOverride''
                          [(''width'', PInt vw), (''height'', PInt vh), (''deviceScaleFactor'', PInt 1), (''mobile'', PBool False)] s2 of
                     (Inl e, s3) \<Rightarrow> (Some (wrapf ''Emulation.setDeviceMetricsOverride: '' e), s3)
                   | (Inr _, s3) \<Rightarrow> (None, s3))))"

text \<open>The answer of the page's script: the text in \<open>result.value\<close>, itself JSON with an error or the
  coordinates. The field of the rectangle has no tag and so takes the member \<open>rect\<close>.\<close>

definition float_into :: "jval \<Rightarrow> f64 \<Rightarrow> f64 option" where
  "float_into v old = (case v of JNum x \<Rightarrow> ParseFloat x | JNull \<Rightarrow> Some old | _ \<Rightarrow> None)"

definition rect_ok :: "jval \<Rightarrow> bool" where
  "rect_ok v = (case v of JArr vs \<Rightarrow> list_all (\<lambda>x. float_into x f64_zero \<noteq> None) (take 4 vs) | JNull \<Rightarrow> True | _ \<Rightarrow> False)"

definition checkbox_member :: "string \<times> jval \<Rightarrow> string \<times> f64 \<times> f64 \<Rightarrow> (string \<times> f64 \<times> f64) option" where
  "checkbox_member kv r =
     (let k = to_lower (fst kv); v = snd kv; (e, x, y) = r in
      if k = ''err'' then map_option (\<lambda>z. (z, x, y)) (str_into v e)
      else if k = ''x'' then map_option (\<lambda>z. (e, z, y)) (float_into v x)
      else if k = ''y'' then map_option (\<lambda>z. (e, x, z)) (float_into v y)
      else if k = ''rect'' then (if rect_ok v then Some r else None)
      else Some r)"

definition value_member :: "string \<times> jval \<Rightarrow> string \<Rightarrow> string option" where
  "value_member kv r = (if to_lower (fst kv) = ''value'' then str_into (snd kv) r else Some r)"

definition result_member :: "string \<times> jval \<Rightarrow> string \<Rightarrow> string option" where
  "result_member kv r = (if to_lower (fst kv) = ''result'' then into_object value_member (snd kv) r else Some r)"

definition checkbox_of :: "raw_message \<Rightarrow> (f64 \<times> f64) option" where
  "checkbox_of raw =
     (case raw of
        None \<Rightarrow> None
      | Some v \<Rightarrow>
          (case into_object result_member v [] of
             None \<Rightarrow> None
           | Some val \<Rightarrow>
               if val = [] then None
               else (case json_parse val of
                       None \<Rightarrow> None
                     | Some c \<Rightarrow>
                         (case into_object checkbox_member c ([], f64_zero, f64_zero) of
                            Some (err, x, y) \<Rightarrow> if err = [] \<and> fst x > 0 then Some (x, y) else None
                          | None \<Rightarrow> None))))"

text \<open>The polling loop takes fuel; \<open>None\<close> is a loop that is not over yet.\<close>

fun waitForCheckbox :: "nat \<Rightarrow> 'w cdp_env \<Rightarrow> instant \<Rightarrow> 'w conv \<Rightarrow> (f64 \<times> f64) res option \<times> 'w conv" where
  "waitForCheckbox 0 env deadline s = (None, s)"
| "waitForCheckbox (Suc n) env deadline s =
     (if cv_now env (snd s) > deadline then (Some (Inl (errors_New ''timeout waiting for checkbox to render'')), s)
      else case tcall env ''Runtime.evaluate'' [(''expression'', PStr (cv_findCheckboxJS env)), (''returnByValue'', PBool True)] s of
        (Inl e, s1) \<Rightarrow> (Some (Inl e), s1)
      | (Inr raw, s1) \<Rightarrow>
          (case checkbox_of raw of
             Some xy \<Rightarrow> (Some (Inr xy), s1)
           | None \<Rightarrow>
               (case cv_pause env (snd s1) of
                  (Some e, w) \<Rightarrow> (Some (Inl e), (fst s1, w))
                | (None, w) \<Rightarrow> waitForCheckbox n env deadline (fst s1, w))))"

text \<open>\<open>x - n\<close> on floats: the float next to the exact difference. It does not overflow for the small numbers
  subtracted here.\<close>

definition f64_minus :: "f64 \<Rightarrow> int \<Rightarrow> f64" where
  "f64_minus v n =
     (case v of (m, q) \<Rightarrow>
        let d = m * 2 ^ nat (- q) - n * 2 ^ nat q
        in case f64_of_ratio (d < 0) \<bar>d\<bar> (2 ^ nat q) of None \<Rightarrow> v | Some r \<Rightarrow> r)"

definition millisecond :: duration where "millisecond = 1000000"

definition mouse :: "string \<Rightarrow> f64 \<Rightarrow> f64 \<Rightarrow> cparams" where
  "mouse typ x y = [(''type'', PStr typ), (''x'', PFloat x), (''y'', PFloat y), (''button'', PStr ''left''), (''clickCount'', PInt 1)]"

definition hover :: "f64 \<Rightarrow> f64 \<Rightarrow> cparams" where
  "hover x y = [(''type'', PStr ''mouseMoved''), (''x'', PFloat x), (''y'', PFloat y), (''button'', PStr ''none'')]"

fun click_steps :: "'w cdp_env \<Rightarrow> (cparams \<times> duration) list \<Rightarrow> 'w conv \<Rightarrow> go_error option \<times> 'w conv" where
  "click_steps env [] s = (None, s)"
| "click_steps env ((ps, d) # steps) s =
     (case tcall env ''Input.dispatchMouseEvent'' ps s of
        (Inl e, s1) \<Rightarrow> (Some e, s1)
      | (Inr _, s1) \<Rightarrow> click_steps env steps (if steps = [] then s1 else (fst s1, cv_sleep env d (snd s1))))"

definition simulateHumanClick :: "'w cdp_env \<Rightarrow> f64 \<Rightarrow> f64 \<Rightarrow> 'w conv \<Rightarrow> go_error option \<times> 'w conv" where
  "simulateHumanClick env x y s =
     click_steps env
       [(hover (f64_minus x 50) (f64_minus y 30), 250 * millisecond), (hover x y, 150 * millisecond),
        (mouse ''mousePressed'' x y, 80 * millisecond), (mouse ''mouseReleased'' x y, 0)] s"

definition awaitSuccessToken :: "'w cdp_env \<Rightarrow> 'w conv \<Rightarrow> string res \<times> 'w conv" where
  "awaitSuccessToken env s =
     (case cv_token env (snd s) of
        (TokCtx e, w) \<Rightarrow> (Inl e, (fst s, w))
      | (TokTimeout, w) \<Rightarrow> (Inl (errors_New ''timeout waiting for success_token from captchaNotRobot.check''), (fst s, w))
      | (TokGot t, w) \<Rightarrow> (Inr t, (fst s, w)))"

subsection \<open>The token in the page's traffic\<close>

definition resp_member :: "string \<times> jval \<Rightarrow> string \<times> int \<Rightarrow> (string \<times> int) option" where
  "resp_member kv r =
     (let k = to_lower (fst kv); v = snd kv in
      if k = ''url'' then map_option (\<lambda>x. (x, snd r)) (str_into v (fst r))
      else if k = ''status'' then map_option (\<lambda>x. (fst r, x)) (int_into v (snd r))
      else Some r)"

definition received_member :: "string \<times> jval \<Rightarrow> string \<times> string \<times> int \<Rightarrow> (string \<times> string \<times> int) option" where
  "received_member kv r =
     (let k = to_lower (fst kv); v = snd kv in
      if k = ''requestid'' then map_option (\<lambda>x. (x, snd r)) (str_into v (fst r))
      else if k = ''response'' then map_option (\<lambda>x. (fst r, x)) (into_object resp_member v (snd r))
      else Some r)"

text \<open>The request whose body is fetched, if the event is a successful answer of the captcha's check.\<close>

definition watched_request :: "raw_message \<Rightarrow> string option" where
  "watched_request params =
     (case params of
        None \<Rightarrow> None
      | Some v \<Rightarrow>
          (case into_object received_member v ([], [], 0) of
             None \<Rightarrow> None
           | Some (req, url, st) \<Rightarrow> if \<not> str_contains url ''captchaNotRobot.check'' then None else if st \<noteq> 200 then None else Some req))"

definition body_member :: "string \<times> jval \<Rightarrow> string \<Rightarrow> string option" where
  "body_member kv r = (if to_lower (fst kv) = ''body'' then str_into (snd kv) r else Some r)"

definition token_member :: "string \<times> jval \<Rightarrow> string \<times> string \<Rightarrow> (string \<times> string) option" where
  "token_member kv r =
     (let k = to_lower (fst kv); v = snd kv in
      if k = ''status'' then map_option (\<lambda>x. (x, snd r)) (str_into v (fst r))
      else if k = ''success_token'' then map_option (\<lambda>x. (fst r, x)) (str_into v (snd r))
      else Some r)"

definition doc_member :: "string \<times> jval \<Rightarrow> string \<times> string \<Rightarrow> (string \<times> string) option" where
  "doc_member kv r = (if to_lower (fst kv) = ''response'' then into_object token_member (snd kv) r else Some r)"

definition token_of_body :: "raw_message \<Rightarrow> string option" where
  "token_of_body raw =
     (case raw of
        None \<Rightarrow> None
      | Some v \<Rightarrow>
          (case into_object body_member v [] of
             None \<Rightarrow> None
           | Some b \<Rightarrow>
               (case json_parse b of
                  None \<Rightarrow> None
                | Some d \<Rightarrow>
                    (case into_object doc_member d ([], []) of
                       None \<Rightarrow> None
                     | Some (st, tok) \<Rightarrow> if tok = [] then None else Some tok))))"

text \<open>\<open>handleResponseReceived\<close> in the session: the event of the frame, the result of the call for the body.
  The token that is offered to the channel.\<close>

definition handleResponseReceived :: "raw_message \<Rightarrow> raw_message res \<Rightarrow> string option" where
  "handleResponseReceived params fetched =
     (case watched_request params of
        None \<Rightarrow> None
      | Some req \<Rightarrow> (case fetched of Inl e \<Rightarrow> None | Inr raw \<Rightarrow> token_of_body raw))"

subsection \<open>Solving\<close>

text \<open>The tab is closed last, after the socket, when it has an id.\<close>

definition closeTab :: "string \<Rightarrow> 'w conv \<Rightarrow> 'w conv" where
  "closeTab tab s = (if tab = [] then s else (fst s @ [TabClosed tab], snd s))"

definition drive_page :: "(string \<Rightarrow> string option) \<Rightarrow> (string \<Rightarrow> go_error) \<Rightarrow> nat \<Rightarrow> 'w cdp_env \<Rightarrow> cdp_solver \<Rightarrow> string \<Rightarrow> 'w conv \<Rightarrow>
    solution res option \<times> 'w conv" where
  "drive_page ipLiteral urlErr fuel env c uri s =
     (case cdp_setup env c s of
        (Some e, s1) \<Rightarrow> (Some (Inl e), s1)
      | (None, s1) \<Rightarrow>
          (case assertVKHost ipLiteral urlErr uri of
             Some e \<Rightarrow> (Some (Inl (wrapf ''refusing to navigate Chrome: '' e)), s1)
           | None \<Rightarrow>
               (case tcall env ''Page.navigate'' [(''url'', PStr uri)] s1 of
                  (Inl e, s2) \<Rightarrow> (Some (Inl (wrapf ''Page.navigate: '' e)), s2)
                | (Inr _, s2) \<Rightarrow>
                    (case waitForCheckbox fuel env (cv_now env (snd s2) + 20 * second) s2 of
                       (None, s3) \<Rightarrow> (None, s3)
                     | (Some (Inl e), s3) \<Rightarrow> (Some (Inl (wrapf ''wait for checkbox: '' e)), s3)
                     | (Some (Inr (x, y)), s3) \<Rightarrow>
                         (case simulateHumanClick env x y s3 of
                            (Some e, s4) \<Rightarrow> (Some (Inl (wrapf ''click: '' e)), s4)
                          | (None, s4) \<Rightarrow>
                              (case awaitSuccessToken env s4 of
                                 (Inl e, s5) \<Rightarrow> (Some (Inl e), s5)
                               | (Inr tok, s5) \<Rightarrow> (Some (Inr \<lparr>sol_Key = [], sol_SuccessToken = tok\<rparr>), s5)))))))"

definition cdp_Solve :: "(string \<Rightarrow> string option) \<Rightarrow> (string \<Rightarrow> go_error) \<Rightarrow> (string \<Rightarrow> go_error) \<Rightarrow> http_outcome \<Rightarrow> go_error option \<Rightarrow>
    nat \<Rightarrow> 'w cdp_env \<Rightarrow> cdp_solver \<Rightarrow> challenge \<Rightarrow> 'w \<Rightarrow> solution res option \<times> 'w conv" where
  "cdp_Solve ipLiteral urlErr jsonErr opened dialErr fuel env c ch w =
     (if ch_RedirectURI ch = []
      then (Some (Inl (errors_New ''captchasolve cdp: challenge has no redirect_uri (slider mode required)'')), ([], w))
      else if trim_right (sv_ChromeURL c) (CHR ''/'') = []
      then (Some (Inl (errors_New ''captchasolve cdp: ChromeURL is required'')), ([], w))
      else case openTab jsonErr opened of
        Inl e \<Rightarrow> (Some (Inl (wrapf ''cdp open tab: '' e)), ([], w))
      | Inr tab \<Rightarrow>
          (let s = ([TabOpened (tab_ID tab)], w) in
           case dialErr of
             Some e \<Rightarrow> (Some (Inl (wrapf ''cdp ws dial: '' e)), closeTab (tab_ID tab) s)
           | None \<Rightarrow>
               (case drive_page ipLiteral urlErr fuel env c (ch_RedirectURI ch) s of
                  (r, s1) \<Rightarrow> (r, closeTab (tab_ID tab) (fst s1 @ [SocketClosed], snd s1)))))"

section \<open>Only VK's pages\<close>

lemma takeWhile_split: obtains b where "s = takeWhile (\<lambda>c. c \<noteq> d) s @ b" "b = [] \<or> hd b = d"
  using that [of "dropWhile (\<lambda>c. c \<noteq> d) s"] hd_dropWhile [of "\<lambda>c. c \<noteq> d" s] by auto

lemma takeWhile_not_in: "d \<notin> set (takeWhile (\<lambda>c. c \<noteq> d) s)"
  using set_takeWhileD [of d "\<lambda>c. c \<noteq> d" s] by blast

lemma getScheme_split: "getScheme u = Some (sch, rest) \<Longrightarrow> sch \<noteq> [] \<Longrightarrow> u = sch @ CHR '':'' # rest"
  by (auto simp: getScheme_def split: list.splits if_splits) (metis takeWhile_dropWhile_id list.simps(3))+

lemma two_slashes: "has_prefix r ''//'' \<Longrightarrow> r = ''//'' @ drop 2 r"
proof -
  assume p: "has_prefix r ''//''"
  then obtain c t where "r = c # t" by (cases r) auto
  with p obtain d v where "r = c # d # v" by (cases t) auto
  with p show ?thesis by auto
qed

lemma parse_ref_authority:
  assumes "parse_ref ipLiteral u = Some (scheme, host)" and "scheme \<noteq> []" and "host \<noteq> []"
  obtains sch auth tail where "u = sch @ ''://'' @ auth @ tail" "scheme = to_lower sch" "parseAuthority ipLiteral auth = Some host"
    "tail = [] \<or> hd tail \<in> set ''/?''" "\<forall>c \<in> set auth. c \<notin> set ''/?''"
proof -
  obtain sch rest0 where g: "getScheme u = Some (sch, rest0)" using assms by (auto simp: parse_ref_def split: if_splits option.splits)
  let ?rest = "takeWhile (\<lambda>c. c \<noteq> CHR ''?'') rest0"
  have star: "u \<noteq> ''*''" "\<not> list_ex url_ctl u" using assms by (auto simp: parse_ref_def split: if_splits)
  note pr = assms(1) [unfolded parse_ref_def if_not_P [OF star(2)] if_not_P [OF star(1)] g option.case prod.case Let_def]
  have sl: "has_prefix ?rest ''//''" "scheme = to_lower sch"
    and au: "parseAuthority ipLiteral (takeWhile (\<lambda>c. c \<noteq> CHR ''/'') (drop 2 ?rest)) = Some host"
    using pr assms(2,3) by (auto split: if_splits option.splits)
  let ?auth = "takeWhile (\<lambda>c. c \<noteq> CHR ''/'') (drop 2 ?rest)"
  have "sch \<noteq> []" using sl(2) assms(2) by (auto simp: to_lower_def)
  with getScheme_split [OF g] have u: "u = sch @ CHR '':'' # rest0" by blast
  obtain b where b: "rest0 = ?rest @ b" "b = [] \<or> hd b = CHR ''?''" by (rule takeWhile_split)
  obtain d where d: "drop 2 ?rest = ?auth @ d" "d = [] \<or> hd d = CHR ''/''" by (rule takeWhile_split)
  have r: "?rest = ''//'' @ drop 2 ?rest" by (rule two_slashes [OF sl(1)])
  have "u = sch @ ''://'' @ ?auth @ (d @ b)" using u b(1) r d(1) by (metis append.assoc append_Cons append_Nil)
  moreover have "d @ b = [] \<or> hd (d @ b) \<in> set ''/?''" using b(2) d(2) by (cases d) auto
  moreover have "c \<notin> set ''/?''" if "c \<in> set ?auth" for c
  proof -
    have "c \<noteq> CHR ''/''" using that takeWhile_not_in by metis
    moreover have "c \<in> set ?rest" using that set_takeWhileD in_set_dropD by metis
    then have "c \<noteq> CHR ''?''" using takeWhile_not_in by metis
    ultimately show ?thesis by simp
  qed
  ultimately show ?thesis using that [of sch ?auth "d @ b"] sl(2) au by blast
qed

lemma parseAuthority_shape:
  assumes "parseAuthority ipLiteral auth = Some host"
  obtains ui hp where "auth = ui @ hp" "ui = [] \<or> last ui = CHR ''@''" "list_all userinfo_char ui" "parseHost ipLiteral hp = Some host"
    "CHR ''@'' \<notin> set hp"
proof (cases "last_index_byte auth (CHR ''@'')")
  case None
  then have "CHR ''@'' \<notin> set auth" by (simp add: last_index_byte_None)
  with None assms that [of "[]" auth] show ?thesis by (simp add: parseAuthority_def)
next
  case (Some i)
  have sp: "auth = take i auth @ CHR ''@'' # drop (i + 1) auth" "CHR ''@'' \<notin> set (drop (i + 1) auth)"
    using last_index_byte_split [OF Some] by auto
  have "parseHost ipLiteral (drop (i + 1) auth) = Some host" "list_all userinfo_char (take i auth)"
    using assms Some by (auto simp: parseAuthority_def split: option.splits if_splits)
  moreover have "userinfo_char (CHR ''@'')" by code_simp
  ultimately show ?thesis using that [of "take i auth @ [CHR ''@'']" "drop (i + 1) auth"] sp by simp
qed

lemma vk_name_iff: "vk_name h \<longleftrightarrow> (\<exists>d \<in> {''vk.ru'', ''vk.com''}. h = d \<or> has_suffix h (''.'' @ d))"
  by (auto simp: vk_name_def)



text \<open>Refused: other hosts, VK's name in front of another host, VK's name as user information, no https.
  Accepted is a name that holds a colon: only the last colon is taken for the port's.\<close>

lemma vk_host_examples:
  "assertVKHost (\<lambda>_. None) errors_New ''https://vk.ru.evil.com/'' \<noteq> None"
  "assertVKHost (\<lambda>_. None) errors_New ''https://evilvk.ru/'' \<noteq> None"
  "assertVKHost (\<lambda>_. None) errors_New ''https://vk.ru@evil.com/'' \<noteq> None"
  "assertVKHost (\<lambda>_. None) errors_New ''http://vk.ru/'' \<noteq> None"
  "assertVKHost (\<lambda>_. None) errors_New ''//vk.ru/'' \<noteq> None"
  "assertVKHost (\<lambda>_. None) errors_New ''https://evil.com:80.vk.ru:443/'' = None"
  by code_simp+

section \<open>The solver's conduct\<close>

text \<open>Calls other than the navigation.\<close>

definition quiet :: "tab_event list \<Rightarrow> bool" where
  "quiet xs \<longleftrightarrow> (\<forall>e \<in> set xs. \<exists>m ps. e = TabCall m ps \<and> m \<noteq> ''Page.navigate'')"

definition extends :: "'w conv \<Rightarrow> 'w conv \<Rightarrow> bool" where
  "extends s s' \<longleftrightarrow> (\<exists>xs. fst s' = fst s @ xs \<and> quiet xs)"

lemma extends_refl [simp]: "extends s s" "extends s (fst s, w)"
  by (auto simp: extends_def quiet_def)

lemma extends_trans: "extends s t \<Longrightarrow> extends t u \<Longrightarrow> extends s u"
  by (fastforce simp: extends_def quiet_def)

lemma extends_same: "fst t = fst u \<Longrightarrow> extends s t \<Longrightarrow> extends s u"
  by (auto simp: extends_def)

lemma tcall_extends: "tcall env m ps s = (r, s') \<Longrightarrow> m \<noteq> ''Page.navigate'' \<Longrightarrow> extends s s'"
  by (auto simp: tcall_def extends_def quiet_def split: prod.splits)

lemma enable_all_extends: "enable_all env ms s = (r, s') \<Longrightarrow> ''Page.navigate'' \<notin> set ms \<Longrightarrow> extends s s'"
proof (induction ms arbitrary: s)
  case (Cons m ms)
  obtain x s1 where t: "tcall env m [] s = (x, s1)" by (cases "tcall env m [] s") auto
  have e: "extends s s1" using tcall_extends [OF t] Cons.prems(2) by auto
  show ?case
  proof (cases x)
    case (Inl e1)
    with t e Cons.prems show ?thesis by auto
  next
    case (Inr y)
    with t Cons.prems have "extends s1 s'" using Cons.IH by auto
    with e show ?thesis by (rule extends_trans)
  qed
qed auto

lemma waitForCheckbox_extends: "waitForCheckbox n env d s = (r, s') \<Longrightarrow> extends s s'"
proof (induction n arbitrary: s)
  case (Suc n)
  let ?ps = "[(''expression'', PStr (cv_findCheckboxJS env)), (''returnByValue'', PBool True)]"
  obtain x s1 where t: "tcall env ''Runtime.evaluate'' ?ps s = (x, s1)" by (cases "tcall env ''Runtime.evaluate'' ?ps s") auto
  have e: "extends s s1" using tcall_extends [OF t] by simp
  obtain p w where p: "cv_pause env (snd s1) = (p, w)" by (cases "cv_pause env (snd s1)") auto
  have "extends s1 s'" if "x = Inr raw" "checkbox_of raw = None" "p = None" "\<not> cv_now env (snd s) > d" for raw
  proof -
    have "waitForCheckbox n env d (fst s1, w) = (r, s')" using Suc.prems t p that by simp
    then have "extends (fst s1, w) s'" by (rule Suc.IH)
    then show ?thesis by (simp add: extends_def)
  qed
  with e Suc.prems t p show ?case
    by (cases x; cases p) (auto split: if_splits option.splits intro: extends_trans [OF e])
qed simp

lemma click_steps_extends: "click_steps env steps s = (r, s') \<Longrightarrow> extends s s'"
proof (induction steps arbitrary: s)
  case (Cons st steps)
  obtain ps d where st: "st = (ps, d)" by (cases st)
  obtain x s1 where t: "tcall env ''Input.dispatchMouseEvent'' ps s = (x, s1)" by (cases "tcall env ''Input.dispatchMouseEvent'' ps s") auto
  have e: "extends s s1" using tcall_extends [OF t] by simp
  show ?case
  proof (cases x)
    case (Inl e1)
    with t e Cons.prems st show ?thesis by auto
  next
    case (Inr y)
    let ?s = "if steps = [] then s1 else (fst s1, cv_sleep env d (snd s1))"
    have "click_steps env steps ?s = (r, s')" using Inr t Cons.prems st by simp
    then have "extends ?s s'" by (rule Cons.IH)
    then have "extends s1 s'" by (simp add: extends_def split: if_splits)
    with e show ?thesis by (rule extends_trans)
  qed
qed simp

lemma cdp_setup_extends: "cdp_setup env c s = (r, s') \<Longrightarrow> extends s s'"
proof -
  assume c: "cdp_setup env c s = (r, s')"
  let ?ms = "[''Network.enable'', ''Page.enable'', ''Runtime.enable'']"
  obtain r1 s1 where e: "enable_all env ?ms s = (r1, s1)" by (cases "enable_all env ?ms s") auto
  have e1: "extends s s1" using enable_all_extends [OF e] by simp
  let ?ua = "if sv_UserAgent c \<noteq> [] then tcall env ''Network.setUserAgentOverride'' [(''userAgent'', PStr (sv_UserAgent c))] s1 else (Inr None, s1)"
  obtain r2 s2 where u: "?ua = (r2, s2)" by (cases ?ua) auto
  have e2: "extends s1 s2" using u tcall_extends by (cases "sv_UserAgent c = []") fastforce+
  let ?m = "tcall env ''Emulation.setDeviceMetricsOverride''
     [(''width'', PInt (if sv_ViewportWidth c = 0 then 1280 else sv_ViewportWidth c)),
      (''height'', PInt (if sv_ViewportHeight c = 0 then 800 else sv_ViewportHeight c)), (''deviceScaleFactor'', PInt 1), (''mobile'', PBool False)] s2"
  obtain r3 s3 where m: "?m = (r3, s3)" by (cases ?m) auto
  have e3: "extends s2 s3" using tcall_extends [OF m] by simp
  have "s' \<in> {s1, s2, s3}"
    using c unfolding cdp_setup_def e prod.case u Let_def m by (auto split: option.splits sum.splits)
  with e1 e2 e3 show ?thesis using extends_trans by blast
qed

text \<open>The conversation of one page: calls, of which the navigation is to the vetted address.\<close>

definition page_calls :: "(string \<Rightarrow> string option) \<Rightarrow> (string \<Rightarrow> go_error) \<Rightarrow> string \<Rightarrow> tab_event list \<Rightarrow> bool" where
  "page_calls ipLiteral urlErr uri xs \<longleftrightarrow> (\<forall>e \<in> set xs. \<exists>m ps. e = TabCall m ps \<and>
     (m = ''Page.navigate'' \<longrightarrow> ps = [(''url'', PStr uri)] \<and> assertVKHost ipLiteral urlErr uri = None))"

definition page_extends :: "(string \<Rightarrow> string option) \<Rightarrow> (string \<Rightarrow> go_error) \<Rightarrow> string \<Rightarrow> 'w conv \<Rightarrow> 'w conv \<Rightarrow> bool" where
  "page_extends ipLiteral urlErr uri s s' \<longleftrightarrow> (\<exists>xs. fst s' = fst s @ xs \<and> page_calls ipLiteral urlErr uri xs)"

lemma extends_page: "extends s s' \<Longrightarrow> page_extends ipLiteral urlErr uri s s'"
  by (fastforce simp: extends_def page_extends_def quiet_def page_calls_def)

lemma page_extends_trans: "page_extends i u uri s t \<Longrightarrow> page_extends i u uri t v \<Longrightarrow> page_extends i u uri s v"
  by (fastforce simp: page_extends_def page_calls_def)

lemma drive_page_extends:
  assumes "drive_page ipLiteral urlErr fuel env c uri s = (r, s')"
  shows "page_extends ipLiteral urlErr uri s s'"
proof -
  let ?X = "page_extends ipLiteral urlErr uri"
  obtain r1 s1 where 1: "cdp_setup env c s = (r1, s1)" by (cases "cdp_setup env c s") auto
  have x1: "?X s s1" by (rule extends_page [OF cdp_setup_extends [OF 1]])
  obtain r2 s2 where 2: "tcall env ''Page.navigate'' [(''url'', PStr uri)] s1 = (r2, s2)" by (cases "tcall env ''Page.navigate'' [(''url'', PStr uri)] s1") auto
  obtain r3 s3 where 3: "waitForCheckbox fuel env (cv_now env (snd s2) + 20 * second) s2 = (r3, s3)"
    by (cases "waitForCheckbox fuel env (cv_now env (snd s2) + 20 * second) s2") auto
  have x3: "?X s2 s3" by (rule extends_page [OF waitForCheckbox_extends [OF 3]])
  have x4: "?X s3 s4" if "simulateHumanClick env x y s3 = (r4, s4)" for x y r4 s4
    using that extends_page [OF click_steps_extends] unfolding simulateHumanClick_def by blast
  have x5: "?X s4 s5" if "awaitSuccessToken env s4 = (r5, s5)" for s4 r5 s5
    using that by (auto simp: awaitSuccessToken_def page_extends_def page_calls_def split: prod.splits token_wait.splits)
  show ?thesis
  proof (cases "r1 \<noteq> None \<or> assertVKHost ipLiteral urlErr uri \<noteq> None")
    case True
    then have "s' = s1" using assms 1 by (auto simp: drive_page_def split: option.splits)
    with x1 show ?thesis by simp
  next
    case False
    then have a: "r1 = None" "assertVKHost ipLiteral urlErr uri = None" by auto
    have "?X s1 s2" using 2 a(2) by (auto simp: tcall_def page_extends_def page_calls_def split: prod.splits)
    with x1 have x2: "?X s s2" by (rule page_extends_trans)
    note d = assms [unfolded drive_page_def 1 a prod.case option.case 2 3]
    show ?thesis
    proof (cases "\<exists>x y. r2 \<noteq> Inl x \<and> r3 = Some (Inr y)")
      case False
      then have "s' = s2 \<or> s' = s3" using d by (auto split: sum.splits option.splits)
      with x2 x3 show ?thesis using page_extends_trans by blast
    next
      case True
      then obtain x y where xy: "r3 = Some (Inr (x, y))" by auto
      obtain r4 s4 where 4: "simulateHumanClick env x y s3 = (r4, s4)" by (cases "simulateHumanClick env x y s3") auto
      obtain r5 s5 where 5: "awaitSuccessToken env s4 = (r5, s5)" by (cases "awaitSuccessToken env s4") auto
      have "s' \<in> {s2, s4, s5}" using d xy 4 5 by (auto split: sum.splits option.splits)
      with x2 x3 x4 [OF 4] x5 [OF 5] show ?thesis using page_extends_trans by blast
    qed
  qed
qed


section \<open>The wait for the checkbox ends\<close>

text \<open>The clock does not run backwards over a call, and a pause that the context does not end lasts its
  500 milliseconds.\<close>

definition clock_ok :: "'w cdp_env \<Rightarrow> bool" where
  "clock_ok env \<longleftrightarrow> (\<forall>m ps w r w'. cv_call env m ps w = (r, w') \<longrightarrow> cv_now env w \<le> cv_now env w') \<and>
     (\<forall>w w'. cv_pause env w = (None, w') \<longrightarrow> cv_now env w + 500 * millisecond \<le> cv_now env w')"

lemma waitForCheckbox_ends:
  assumes "clock_ok env" and "deadline < cv_now env (snd s) + int n * (500 * millisecond)"
  shows "\<exists>r s'. waitForCheckbox (Suc n) env deadline s = (Some r, s') \<and> length (fst s') \<le> length (fst s) + n"
  using assms(2)
proof (induction n arbitrary: s)
  case (Suc n)
  let ?ps = "[(''expression'', PStr (cv_findCheckboxJS env)), (''returnByValue'', PBool True)]"
  obtain x s1 where t: "tcall env ''Runtime.evaluate'' ?ps s = (x, s1)" by (cases "tcall env ''Runtime.evaluate'' ?ps s") auto
  have l: "length (fst s1) = Suc (length (fst s))" using t by (auto simp: tcall_def split: prod.splits)
  have le: "cv_now env (snd s) \<le> cv_now env (snd s1)" using assms(1) t by (auto simp: clock_ok_def tcall_def split: prod.splits)
  obtain p w where p: "cv_pause env (snd s1) = (p, w)" by (cases "cv_pause env (snd s1)") auto
  show ?case
  proof (cases "\<not> cv_now env (snd s) > deadline \<and> (\<exists>raw. x = Inr raw \<and> checkbox_of raw = None) \<and> p = None")
    case True
    have "cv_now env (snd s1) + 500 * millisecond \<le> cv_now env w" using assms(1) p True by (auto simp: clock_ok_def)
    then have "deadline < cv_now env (snd (fst s1, w)) + int n * (500 * millisecond)"
      using Suc.prems le by (simp add: algebra_simps)
    from Suc.IH [OF this] obtain r s' where r: "waitForCheckbox (Suc n) env deadline (fst s1, w) = (Some r, s')" "length (fst s') \<le> length (fst s1) + n" by auto
    have "waitForCheckbox (Suc (Suc n)) env deadline s = waitForCheckbox (Suc n) env deadline (fst s1, w)"
      by (subst waitForCheckbox.simps) (use True t p in auto)
    then show ?thesis using r l by simp
  next
    case False
    then consider "cv_now env (snd s) > deadline" | e where "\<not> cv_now env (snd s) > deadline" "x = Inl e"
      | raw xy where "\<not> cv_now env (snd s) > deadline" "x = Inr raw" "checkbox_of raw = Some xy"
      | raw e where "\<not> cv_now env (snd s) > deadline" "x = Inr raw" "checkbox_of raw = None" "p = Some e"
      by (metis not_Some_eq sum.exhaust)
    then have "\<exists>r s'. waitForCheckbox (Suc (Suc n)) env deadline s = (Some r, s') \<and> fst s' \<in> {fst s, fst s1}"
      by cases (subst waitForCheckbox.simps(2), use t p in simp)+
    then obtain r s' where r: "waitForCheckbox (Suc (Suc n)) env deadline s = (Some r, s')" and "fst s' = fst s \<or> fst s' = fst s1"
      by blast
    then have "length (fst s') \<le> length (fst s) + Suc n" using l by (elim disjE) simp_all
    with r show ?thesis by (intro exI conjI)
  qed
qed auto

lemma drive_page_ends:
  assumes "clock_ok env"
  shows "fst (drive_page ipLiteral urlErr 42 env c uri s) \<noteq> None"
proof -
  obtain r1 s1 where 1: "cdp_setup env c s = (r1, s1)" by (cases "cdp_setup env c s") auto
  obtain r2 s2 where 2: "tcall env ''Page.navigate'' [(''url'', PStr uri)] s1 = (r2, s2)" by (cases "tcall env ''Page.navigate'' [(''url'', PStr uri)] s1") auto
  have "cv_now env (snd s2) + 20 * second < cv_now env (snd s2) + int 41 * (500 * millisecond)" by (simp add: second_def millisecond_def)
  from waitForCheckbox_ends [OF assms this] obtain r3 s3
    where 3: "waitForCheckbox 42 env (cv_now env (snd s2) + 20 * second) s2 = (Some r3, s3)" by auto
  show ?thesis
    unfolding drive_page_def 1 prod.case 2 3 by (auto split: option.splits sum.splits prod.splits)
qed

text \<open>Solving ends. If the clock does not run backwards and each pause lasts its 500 milliseconds, the
  page is asked for its checkbox at most 41 times in the 20 seconds of the wait, so 42 rounds are
  enough for the loop and for the whole solver to return a solution or an error.\<close>

theorem checkbox_poll_bounded:
  assumes "clock_ok env"
  shows "(\<exists>r s'. waitForCheckbox 42 env (cv_now env (snd s) + 20 * second) s = (Some r, s') \<and> length (fst s') \<le> length (fst s) + 41) \<and>
    fst (cdp_Solve ipLiteral urlErr jsonErr opened dialErr 42 env c ch w) \<noteq> None"
proof -
  have "cv_now env (snd s) + 20 * second < cv_now env (snd s) + int 41 * (500 * millisecond)" by (simp add: second_def millisecond_def)
  from waitForCheckbox_ends [OF assms this] have "\<exists>r s'. waitForCheckbox 42 env (cv_now env (snd s) + 20 * second) s = (Some r, s') \<and>
      length (fst s') \<le> length (fst s) + 41" by simp
  moreover have "fst (cdp_Solve ipLiteral urlErr jsonErr opened dialErr 42 env c ch w) \<noteq> None"
  proof -
    have d: "fst (case drive_page ipLiteral urlErr 42 env c (ch_RedirectURI ch) s' of (r, s1) \<Rightarrow> (r, f s1)) \<noteq> None" for s' and f
      using drive_page_ends [OF assms, of ipLiteral urlErr c "ch_RedirectURI ch" s'] by (simp add: case_prod_beta)
    show ?thesis unfolding cdp_Solve_def Let_def by (auto split: sum.split option.split simp del: not_None_eq intro: d [simplified not_None_eq])
  qed
  ultimately show ?thesis by simp
qed

text \<open>A browser that answers every call with an empty result; the state is its clock.\<close>

definition blank_browser :: "int cdp_env" where
  "blank_browser = \<lparr>cv_call = (\<lambda>m ps w. (Inr (Some (JObj [])), w)), cv_now = id, cv_pause = (\<lambda>w. (None, w + 500 * millisecond)),
     cv_sleep = (\<lambda>d w. w + d), cv_token = (\<lambda>w. (TokTimeout, w)), cv_findCheckboxJS = []\<rparr>"

definition demo_solver :: cdp_solver where
  "demo_solver = \<lparr>sv_ChromeURL = ''http://127.0.0.1:9222'', sv_UserAgent = [], sv_ViewportWidth = 0, sv_ViewportHeight = 0\<rparr>"

definition demo_challenge :: "string \<Rightarrow> challenge" where
  "demo_challenge uri = \<lparr>ch_SID = ''1'', ch_ImgURL = [], ch_RedirectURI = uri, ch_Attempt = 0, ch_TS = []\<rparr>"

lemma blank_browser_clock: "clock_ok blank_browser"
  by (simp add: clock_ok_def blank_browser_def)

theorem checkbox_poll_bounded_witness:
  "\<exists>r s'. waitForCheckbox 42 blank_browser (20 * second) ([], 0) = (Some r, s') \<and> length (fst s') \<le> 41"
  using checkbox_poll_bounded [OF blank_browser_clock, of "([], 0)"] by (simp add: blank_browser_def)

definition demo_tab :: http_outcome where
  "demo_tab = HttpResp 200 [] (Inr ''{\"id\":\"T\",\"webSocketDebuggerUrl\":\"ws\"}'')"

lemma demo_tab_opened:
  "openTab errors_New demo_tab = Inr \<lparr>tab_ID = ''T'', tab_WS = ''ws''\<rparr>"
proof -
  have d: "decode_tab ''{\"id\":\"T\",\"webSocketDebuggerUrl\":\"ws\"}'' = Some \<lparr>tab_ID = ''T'', tab_WS = ''ws''\<rparr>" by code_simp
  have "go_div 200 100 = 2" by (simp add: go_div_def)
  then show ?thesis by (simp add: openTab_def demo_tab_def d)
qed

lemma cdp_Solve_opens:
  assumes "openTab jsonErr opened = Inr tab" "ch_RedirectURI ch \<noteq> []" "trim_right (sv_ChromeURL c) (CHR ''/'') \<noteq> []"
    and "cdp_Solve ipLiteral urlErr jsonErr opened None fuel env c ch w = (r, (tr, w'))"
  shows "TabOpened (tab_ID tab) \<in> set tr"
proof -
  let ?s = "([TabOpened (tab_ID tab)], w)"
  obtain r1 s1 where p: "drive_page ipLiteral urlErr fuel env c (ch_RedirectURI ch) ?s = (r1, s1)"
    by (cases "drive_page ipLiteral urlErr fuel env c (ch_RedirectURI ch) ?s") auto
  from drive_page_extends [OF p] have "TabOpened (tab_ID tab) \<in> set (fst s1)" by (auto simp: page_extends_def)
  then show ?thesis using assms p by (auto simp: cdp_Solve_def closeTab_def split: if_splits)
qed


end
