(* ===== verification/Vk_Transport.thy ===== *)
theory Vk_Transport
  imports Go_Http
begin

text \<open>
  The HTTPS transport of the VK provider, \<open>provider/vk/utls_transport.go\<close>: one connection per request, the
  choice of the decompressor, and the body whose \<open>Close\<close> releases the connection. The outcomes of
  dialling, of the handshake and of the request are those of the libraries and given as arguments;
  what happens to the connection is recorded as a list of events.
\<close>

section \<open>Definitions\<close>

datatype conn_event = Delegated | Dialed string | RawClosed | DecoderClosed | BodyClosed | ConnClosed

datatype decoder = Plain | Gzip | Deflate | Brotli | Zstd

record response =
  rp_status :: int
  rp_header :: "(string \<times> string) list"
  rp_length :: int
  rp_decoder :: decoder

record utls_env =
  ue_fallback :: "response res"
  ue_dial :: "go_error option"
  ue_build :: "go_error option"
  ue_handshake :: "go_error option"
  ue_write :: "go_error option"
  ue_read :: "response res"
  ue_gzip :: "go_error option"
  ue_zstd :: "go_error option"
  ue_closeDecoder :: "go_error option"
  ue_closeBody :: "go_error option"
  ue_closeConn :: "go_error option"

definition header_get :: "string \<Rightarrow> response \<Rightarrow> string" where
  "header_get k r = (case map_of (rp_header r) k of Some v \<Rightarrow> v | None \<Rightarrow> [])"

definition header_del :: "string \<Rightarrow> response \<Rightarrow> response" where
  "header_del k r = r\<lparr>rp_header := filter (\<lambda>(k', _). k' \<noteq> k) (rp_header r)\<rparr>"

text \<open>\<open>wrapDecompressor\<close>: the readers of gzip and zstd read a header when they are made.\<close>

definition wrapDecompressor :: "utls_env \<Rightarrow> string \<Rightarrow> decoder res" where
  "wrapDecompressor env enc =
     (let e = trim_space enc in
      if e = ''gzip'' then (case ue_gzip env of Some err \<Rightarrow> Inl err | None \<Rightarrow> Inr Gzip)
      else if e = ''deflate'' then Inr Deflate
      else if e = ''br'' then Inr Brotli
      else if e = ''zstd'' then (case ue_zstd env of Some err \<Rightarrow> Inl err | None \<Rightarrow> Inr Zstd)
      else if e = ''identity'' \<or> e = [] then Inr Plain
      else Inl (errors_New (''unsupported Content-Encoding '' @ quoted enc)))"

text \<open>What is done with an answer that was read.\<close>

definition decoded_response :: "utls_env \<Rightarrow> response \<Rightarrow> response res" where
  "decoded_response env resp =
     (let enc = to_lower (header_get ''Content-Encoding'' resp) in
      if enc = [] then Inr (resp\<lparr>rp_decoder := Plain\<rparr>)
      else case wrapDecompressor env enc of
        Inl e \<Rightarrow> Inl (wrapf (''utls decompress '' @ enc @ '': '') e)
      | Inr d \<Rightarrow>
          Inr ((header_del ''Content-Length'' (header_del ''Content-Encoding'' resp))\<lparr>rp_length := -1, rp_decoder := d\<rparr>))"

definition RoundTrip :: "utls_env \<Rightarrow> string \<Rightarrow> string \<Rightarrow> string \<Rightarrow> response res \<times> conn_event list" where
  "RoundTrip env scheme host port0 =
     (if scheme \<noteq> ''https'' then (ue_fallback env, [Delegated])
      else
        (let port = (if port0 = [] then ''443'' else port0);
             addr = join_host_port host port
         in case ue_dial env of
              Some e \<Rightarrow> (Inl (wrapf (''utls dial '' @ addr @ '': '') e), [])
            | None \<Rightarrow>
                (case ue_build env of
                   Some e \<Rightarrow> (Inl (wrapf (''utls build state '' @ host @ '': '') e), [Dialed addr, RawClosed])
                 | None \<Rightarrow>
                     (case ue_handshake env of
                        Some e \<Rightarrow> (Inl (wrapf (''utls handshake '' @ host @ '': '') e), [Dialed addr, RawClosed])
                      | None \<Rightarrow>
                          (case ue_write env of
                             Some e \<Rightarrow> (Inl (wrapf ''utls write request: '' e), [Dialed addr, ConnClosed])
                           | None \<Rightarrow>
                               (case ue_read env of
                                  Inl e \<Rightarrow> (Inl (wrapf ''utls read response: '' e), [Dialed addr, ConnClosed])
                                | Inr resp \<Rightarrow>
                                    (case decoded_response env resp of
                                       Inl e \<Rightarrow> (Inl e, [Dialed addr, ConnClosed])
                                     | Inr r \<Rightarrow> (Inr r, [Dialed addr]))))))))"

text \<open>\<open>decompReadCloser.Close\<close>: the brotli reader has nothing to close, that of zstd returns no error; the
  body below is closed in any case and the first error counts.\<close>

fun decoder_close :: "utls_env \<Rightarrow> decoder \<Rightarrow> go_error option \<times> conn_event list" where
  "decoder_close env Plain = (ue_closeBody env, [BodyClosed])"
| "decoder_close env Brotli = (ue_closeBody env, [BodyClosed])"
| "decoder_close env Zstd = (ue_closeBody env, [DecoderClosed, BodyClosed])"
| "decoder_close env _ =
     ((case ue_closeDecoder env of Some e \<Rightarrow> Some e | None \<Rightarrow> ue_closeBody env), [DecoderClosed, BodyClosed])"

text \<open>\<open>utlsResponseBody\<close>: \<open>once\<close> and the remembered error.\<close>

record utls_body =
  ub_done :: bool
  ub_err :: "go_error option"

definition body_Close :: "utls_env \<Rightarrow> decoder \<Rightarrow> utls_body \<times> conn_event list \<Rightarrow> go_error option \<times> (utls_body \<times> conn_event list)" where
  "body_Close env d s =
     (let (b, tr) = s in
      if ub_done b then (ub_err b, s)
      else (let (e1, evs) = decoder_close env d;
                err = (case e1 of Some e \<Rightarrow> Some e | None \<Rightarrow> ue_closeConn env)
            in (err, (\<lparr>ub_done = True, ub_err = err\<rparr>, tr @ evs @ [ConnClosed]))))"

fun close_times :: "utls_env \<Rightarrow> decoder \<Rightarrow> nat \<Rightarrow> utls_body \<times> conn_event list \<Rightarrow> go_error option list \<times> (utls_body \<times> conn_event list)" where
  "close_times env d 0 s = ([], s)"
| "close_times env d (Suc n) s =
     (case body_Close env d s of (e, s1) \<Rightarrow> (case close_times env d n s1 of (es, s2) \<Rightarrow> (e # es, s2)))"

section \<open>Every connection is released\<close>

definition fresh_body :: utls_body where "fresh_body = \<lparr>ub_done = False, ub_err = None\<rparr>"

lemma close_times_done: "ub_done b \<Longrightarrow> close_times env d n (b, tr) = (replicate n (ub_err b), (b, tr))"
  by (induction n) (auto simp: body_Close_def)

lemma close_times_fresh:
  "\<exists>err b. close_times env d (Suc n) (fresh_body, tr) = (replicate (Suc n) err, (b, tr @ snd (decoder_close env d) @ [ConnClosed]))"
proof -
  obtain e1 evs where d: "decoder_close env d = (e1, evs)" by (cases "decoder_close env d") auto
  let ?err = "case e1 of Some e \<Rightarrow> Some e | None \<Rightarrow> ue_closeConn env"
  have "body_Close env d (fresh_body, tr) = (?err, (\<lparr>ub_done = True, ub_err = ?err\<rparr>, tr @ evs @ [ConnClosed]))"
    by (simp add: body_Close_def fresh_body_def d Let_def)
  then show ?thesis using close_times_done [of "\<lparr>ub_done = True, ub_err = ?err\<rparr>" env d n] by (simp add: d)
qed

lemma header_del_get: "header_get k (header_del k r) = []" "header_get k (header_del k' (header_del k r)) = []"
proof -
  have "map_of (filter (\<lambda>(x, _). x \<noteq> k) xs) k = None" for xs :: "(string \<times> string) list"
    by (auto simp: map_of_eq_None_iff)
  moreover have "map_of (filter (\<lambda>(x, _). x \<noteq> k') (filter (\<lambda>(x, _). x \<noteq> k) xs)) k = None" for xs :: "(string \<times> string) list"
    by (auto simp: map_of_eq_None_iff)
  ultimately show "header_get k (header_del k r) = []" "header_get k (header_del k' (header_del k r)) = []"
    by (simp_all add: header_get_def header_del_def)
qed

text \<open>The transport keeps no connection. A request that is not https goes to the standard transport.
  Otherwise one connection is dialled, to the host and the port of the URL or 443. If the request
  fails in any way, the connection, if there is one, is closed. If it succeeds, the connection is open and
  the body owns it: the first \<open>Close\<close> closes the decompressor, the body and then the connection, each
  once, and every later \<open>Close\<close> does nothing and returns the error of the first. The header of an
  answer that is decompressed says neither its encoding nor its length.\<close>

theorem transport_releases:
  assumes "RoundTrip env scheme host port = (r, tr)"
  shows "if scheme \<noteq> ''https'' then r = ue_fallback env \<and> tr = [Delegated]
    else (let addr = join_host_port host (if port = [] then ''443'' else port) in
      case r of
        Inl e \<Rightarrow> tr = [] \<or> tr = [Dialed addr, RawClosed] \<or> tr = [Dialed addr, ConnClosed]
      | Inr resp \<Rightarrow> tr = [Dialed addr] \<and>
          (rp_decoder resp \<noteq> Plain \<longrightarrow> header_get ''Content-Encoding'' resp = [] \<and> header_get ''Content-Length'' resp = [] \<and> rp_length resp = -1) \<and>
          (\<forall>n. \<exists>err b. close_times env (rp_decoder resp) (Suc n) (fresh_body, tr) =
             (replicate (Suc n) err, (b, tr @ (if rp_decoder resp \<in> {Plain, Brotli} then [] else [DecoderClosed]) @ [BodyClosed, ConnClosed]))))"
proof (cases "scheme = ''https''")
  case True
  let ?addr = "join_host_port host (if port = [] then ''443'' else port)"
  have "RoundTrip env ''https'' host port = (r, tr)" using assms True by simp
  note rt = this [unfolded RoundTrip_def Let_def, simplified]
  show ?thesis
  proof (cases r)
    case (Inl e)
    then have "tr = [] \<or> tr = [Dialed ?addr, RawClosed] \<or> tr = [Dialed ?addr, ConnClosed]"
      using rt by (auto split: option.splits sum.splits)
    with Inl True show ?thesis by simp
  next
    case (Inr resp)
    then obtain resp0 where d: "decoded_response env resp0 = Inr resp" and tr: "tr = [Dialed ?addr]"
      using rt by (auto split: option.splits sum.splits)
    have h: "rp_decoder resp \<noteq> Plain \<longrightarrow> header_get ''Content-Encoding'' resp = [] \<and> header_get ''Content-Length'' resp = [] \<and> rp_length resp = -1"
    proof
      assume np: "rp_decoder resp \<noteq> Plain"
      then obtain x where "resp = (header_del ''Content-Length'' (header_del ''Content-Encoding'' resp0))\<lparr>rp_length := -1, rp_decoder := x\<rparr>"
        using d by (auto simp: decoded_response_def Let_def split: if_splits sum.splits)
      then show "header_get ''Content-Encoding'' resp = [] \<and> header_get ''Content-Length'' resp = [] \<and> rp_length resp = -1"
        using header_del_get(1) [of "''Content-Length''" "header_del ''Content-Encoding'' resp0"] header_del_get(2) [of "''Content-Encoding''" "''Content-Length''" resp0]
        by (simp add: header_get_def)
    qed
    have "snd (decoder_close env (rp_decoder resp)) = (if rp_decoder resp \<in> {Plain, Brotli} then [] else [DecoderClosed]) @ [BodyClosed]"
      by (cases "rp_decoder resp") simp_all
    with close_times_fresh [of env "rp_decoder resp" _ tr] have
      "\<forall>n. \<exists>err b. close_times env (rp_decoder resp) (Suc n) (fresh_body, tr) =
         (replicate (Suc n) err, (b, tr @ (if rp_decoder resp \<in> {Plain, Brotli} then [] else [DecoderClosed]) @ [BodyClosed, ConnClosed]))"
      by simp
    with Inr True tr h show ?thesis by simp
  qed
next
  case False
  with assms show ?thesis by (simp add: RoundTrip_def)
qed

definition demo_utls :: utls_env where
  "demo_utls = \<lparr>ue_fallback = Inl (errors_New []), ue_dial = None, ue_build = None, ue_handshake = None, ue_write = None,
     ue_read = Inr \<lparr>rp_status = 200, rp_header = [(''Content-Encoding'', ''GZIP''), (''Content-Length'', ''9'')], rp_length = 9, rp_decoder = Plain\<rparr>,
     ue_gzip = None, ue_zstd = None, ue_closeDecoder = None, ue_closeBody = None, ue_closeConn = None\<rparr>"

theorem transport_releases_witness:
  "\<exists>resp. RoundTrip demo_utls ''https'' ''api.vk.ru'' [] = (Inr resp, [Dialed ''api.vk.ru:443'']) \<and> rp_length resp = -1 \<and>
     (\<exists>err b. close_times demo_utls (rp_decoder resp) 2 (fresh_body, [Dialed ''api.vk.ru:443'']) =
        (replicate 2 err, (b, [Dialed ''api.vk.ru:443'', DecoderClosed, BodyClosed, ConnClosed])))"
proof -
  let ?resp = "\<lparr>rp_status = 200, rp_header = [], rp_length = -1, rp_decoder = Gzip\<rparr>"
  have r: "RoundTrip demo_utls ''https'' ''api.vk.ru'' [] = (Inr ?resp, [Dialed ''api.vk.ru:443''])" by code_simp
  have a: "join_host_port ''api.vk.ru'' (if [] = ([] :: string) then ''443'' else []) = ''api.vk.ru:443''" by code_simp
  from transport_releases [OF r] have "\<forall>n. \<exists>err b. close_times demo_utls Gzip (Suc n) (fresh_body, [Dialed ''api.vk.ru:443'']) =
      (replicate (Suc n) err, (b, [Dialed ''api.vk.ru:443'', DecoderClosed, BodyClosed, ConnClosed]))"
    unfolding Let_def sum.case a by (simp del: close_times.simps replicate.simps)
  from spec [OF this, of 1] have "\<exists>err b. close_times demo_utls Gzip 2 (fresh_body, [Dialed ''api.vk.ru:443'']) =
      (replicate 2 err, (b, [Dialed ''api.vk.ru:443'', DecoderClosed, BodyClosed, ConnClosed]))"
    unfolding Suc_1 [symmetric] One_nat_def .
  with r show ?thesis by (intro exI [of _ ?resp] conjI) simp_all
qed

end
