(* ===== verification/Vk_Api.thy ===== *)
theory Vk_Api
  imports Vk_Captcha Call_Link Creds_Cache Go_Http
begin

text \<open>
  The VK provider: \<open>provider/vk/api.go\<close>, \<open>profiles.go\<close>, \<open>options.go\<close> and \<open>provider.go\<close>. The HTTP client
  and the captcha solver are functions on the state of the world; a run threads that state and
  the list of what was done: every request with its outcome and every call of the solver. Random
  choices (guest name, browser profile, device id) are arguments. The lemmas describe a run as a
  sequence of steps: which requests are sent in which order, how often, and how what one answer
  holds goes into the next request.
\<close>

section \<open>Definitions\<close>

subsection \<open>Requests\<close>

record browser_profile =
  bp_UserAgent :: string
  bp_SecChUa :: string
  bp_SecChUaMobile :: string
  bp_SecChUaPlatform :: string

definition browserProfiles :: "browser_profile list" where
  "browserProfiles =
     (let q = [dquote]; ch = (\<lambda>v w b. q @ ''Chromium'' @ q @ '';v='' @ q @ v @ q @ '', '' @ q @ ''Not-A.Brand'' @ q @
            '';v='' @ q @ w @ q @ '', '' @ q @ b @ q @ '';v='' @ q @ v @ q);
          ua = (\<lambda>os v. ''Mozilla/5.0 ('' @ os @ '') AppleWebKit/537.36 (KHTML, like Gecko) Chrome/'' @ v @ ''.0.0.0 Safari/537.36'') in
      [\<lparr>bp_UserAgent = ua ''Windows NT 10.0; Win64; x64'' ''146'', bp_SecChUa = ch ''146'' ''24'' ''Google Chrome'',
        bp_SecChUaMobile = ''?0'', bp_SecChUaPlatform = q @ ''Windows'' @ q\<rparr>,
       \<lparr>bp_UserAgent = ua ''Windows NT 10.0; Win64; x64'' ''145'' @ '' Edg/145.0.0.0'', bp_SecChUa = ch ''145'' ''99'' ''Microsoft Edge'',
        bp_SecChUaMobile = ''?0'', bp_SecChUaPlatform = q @ ''Windows'' @ q\<rparr>,
       \<lparr>bp_UserAgent = ua ''Macintosh; Intel Mac OS X 10_15_7'' ''146'', bp_SecChUa = ch ''146'' ''24'' ''Google Chrome'',
        bp_SecChUaMobile = ''?0'', bp_SecChUaPlatform = q @ ''macOS'' @ q\<rparr>,
       \<lparr>bp_UserAgent = ua ''X11; Linux x86_64'' ''146'', bp_SecChUa = ch ''146'' ''24'' ''Google Chrome'',
        bp_SecChUaMobile = ''?0'', bp_SecChUaPlatform = q @ ''Linux'' @ q\<rparr>])"

text \<open>\<open>pickProfile\<close> with the random index.\<close>

definition pickProfile :: "nat \<Rightarrow> browser_profile" where
  "pickProfile k = browserProfiles ! (k mod length browserProfiles)"

definition guestNames :: "string list" where
  "guestNames =
     [[CHR 0xD0, CHR 0x93, CHR 0xD0, CHR 0xBE, CHR 0xD1, CHR 0x81, CHR 0xD1, CHR 0x82, CHR 0xD1, CHR 0x8C],
      ''Anna'', ''Ivan'', ''Maxim'', ''Olga'', ''Sergey'', ''Maria'', ''Pavel'']"

definition pickGuestName :: "nat \<Rightarrow> string" where
  "pickGuestName k = guestNames ! (k mod length guestNames)"

record api_hosts =
  h_login :: string
  h_api :: string
  h_ok :: string

definition hostAPI :: string where "hostAPI = ''https://api.vk.ru''"
definition hostUserBase :: string where "hostUserBase = ''https://vk.com''"
definition apiVersion :: string where "apiVersion = ''5.275''"

definition defaultHosts :: api_hosts where
  "defaultHosts = \<lparr>h_login = ''https://login.vk.ru'', h_api = hostAPI, h_ok = ''https://calls.okcdn.ru''\<rparr>"

text \<open>A request as it is handed to the client; \<open>rq_captcha\<close> says that it runs under the 90 second
  context of the captcha loop.\<close>

record request =
  rq_URL :: string
  rq_Body :: string
  rq_Header :: "(string \<times> string) list"
  rq_captcha :: bool

type_synonym 'w http_client = "request \<Rightarrow> 'w \<Rightarrow> http_outcome \<times> 'w"

record 'w api_client =
  ac_http :: "'w http_client"
  ac_profile :: browser_profile
  ac_appID :: string
  ac_clientSec :: string
  ac_hosts :: api_hosts
  ac_captcha :: "'w solver option"

text \<open>What the libraries decide: the text of a JSON error and the conversion of large numbers.\<close>

record vk_libs =
  vl_json :: "string \<Rightarrow> string"
  vl_far :: "f64 \<Rightarrow> int"

datatype vk_event = EvPost request http_outcome | EvSolve challenge "solution res"

type_synonym 'w io = "'w \<times> vk_event list"

definition bytesPreview :: "string \<Rightarrow> string" where
  "bytesPreview b =
     (if int (length b) \<le> 200 then trim_space b else trim_space (take 200 b) @ ''...(truncated)'')"

definition post_header :: "browser_profile \<Rightarrow> (string \<times> string) list" where
  "post_header p =
     [(''Content-Type'', ''application/x-www-form-urlencoded''), (''User-Agent'', bp_UserAgent p),
      (''sec-ch-ua'', bp_SecChUa p), (''sec-ch-ua-mobile'', bp_SecChUaMobile p), (''sec-ch-ua-platform'', bp_SecChUaPlatform p),
      (''Accept'', ''application/json, text/plain, */*''), (''Accept-Language'', ''en-US,en;q=0.9,ru;q=0.8''),
      (''Accept-Encoding'', ''gzip, deflate, br, zstd''), (''Origin'', ''https://vk.com''), (''Referer'', ''https://vk.com/''),
      (''Sec-Fetch-Site'', ''cross-site''), (''Sec-Fetch-Mode'', ''cors''), (''Sec-Fetch-Dest'', ''empty''), (''DNT'', ''1'')]"

text \<open>The part of \<open>post\<close> behind the request.\<close>

definition post_result :: "vk_libs \<Rightarrow> http_outcome \<Rightarrow> vk_error + any_map" where
  "post_result lb out =
     (case out of
        BuildErr e \<Rightarrow> Inl (VkError (wrapf ''build request: '' e))
      | HttpErr e \<Rightarrow> Inl (VkError (wrapf ''http: '' e))
      | HttpResp st stt (Inl e) \<Rightarrow> Inl (VkError (wrapf ''read body: '' e))
      | HttpResp st stt (Inr b0) \<Rightarrow>
          (let b = limit_read b0 in
           if st = 401 \<or> st = 403
           then Inl (VkError (auth_failure ('': HTTP '' @ show_int st @ '' '' @ bytesPreview b)))
           else if st \<ge> 400
           then Inl (VkError (errors_New (''HTTP '' @ show_int st @ '' '' @ stt @ '': '' @ bytesPreview b)))
           else case unmarshal_map b of
             None \<Rightarrow> Inl (VkError (errors_New (''decode JSON: '' @ vl_json lb b @ '' (body preview: '' @ bytesPreview b @ '')'')))
           | Some m \<Rightarrow> (case detectVKError (vl_far lb) m of Some e \<Rightarrow> Inl e | None \<Rightarrow> Inr m)))"

definition make_request :: "'w api_client \<Rightarrow> bool \<Rightarrow> string \<Rightarrow> form \<Rightarrow> request" where
  "make_request c cap url f =
     \<lparr>rq_URL = url, rq_Body = form_encode f, rq_Header = post_header (ac_profile c), rq_captcha = cap\<rparr>"

definition post ::
    "vk_libs \<Rightarrow> 'w api_client \<Rightarrow> bool \<Rightarrow> string \<Rightarrow> form \<Rightarrow> 'w io \<Rightarrow> (vk_error + any_map) \<times> 'w io" where
  "post lb c cap url f io =
     (let rq = make_request c cap url f; (out, w) = ac_http c rq (fst io)
      in (post_result lb out, (w, snd io @ [EvPost rq out])))"

subsection \<open>Walking an answer\<close>

fun any_type :: "any \<Rightarrow> string" where
  "any_type ANil = ''<nil>''"
| "any_type (ABool b) = ''bool''"
| "any_type (AFloat v) = ''float64''"
| "any_type (AString s) = ''string''"
| "any_type (ASlice xs) = ''[]interface {}''"
| "any_type (AMap m) = ''map[string]interface {}''"

definition show_keys :: "string list \<Rightarrow> string" where
  "show_keys ks = ''['' @ str_join '' '' ks @ '']''"

fun dig_from :: "string list \<Rightarrow> nat \<Rightarrow> any \<Rightarrow> string list \<Rightarrow> any res" where
  "dig_from all i cur [] = Inr cur"
| "dig_from all i cur (k # ks) =
     (case cur of
        AMap m \<Rightarrow>
          (case aget m k of
             None \<Rightarrow> Inl (errors_New (''path '' @ show_keys all @ '': missing key '' @ quoted k))
           | Some v \<Rightarrow> dig_from all (Suc i) v ks)
      | _ \<Rightarrow> Inl (errors_New (''path '' @ show_keys all @ '': segment '' @ show_nat i @ '' is '' @ any_type cur @ '' not object'')))"

definition dig :: "any_map \<Rightarrow> string list \<Rightarrow> any res" where
  "dig resp ks = dig_from ks 0 (AMap resp) ks"

definition digString :: "any_map \<Rightarrow> string list \<Rightarrow> string res" where
  "digString resp ks =
     bind_res (dig resp ks) (\<lambda>v. case v of
        AString s \<Rightarrow> Inr s
      | _ \<Rightarrow> Inl (errors_New (''field '' @ show_keys ks @ '' is not a string (got '' @ any_type v @ '')'')))"

definition digSlice :: "any_map \<Rightarrow> string list \<Rightarrow> any list res" where
  "digSlice resp ks =
     bind_res (dig resp ks) (\<lambda>v. case v of
        ASlice xs \<Rightarrow> Inr xs
      | _ \<Rightarrow> Inl (errors_New (''field '' @ show_keys ks @ '' is not an array (got '' @ any_type v @ '')'')))"

subsection \<open>The five steps\<close>

text \<open>A mandatory request: its failure is returned with the step's name in front.\<close>

definition step ::
    "vk_libs \<Rightarrow> 'w api_client \<Rightarrow> string \<Rightarrow> string \<Rightarrow> form \<Rightarrow> 'w io \<Rightarrow> any_map res \<times> 'w io" where
  "step lb c name url f io =
     (case post lb c False url f io of
        (Inl e, io') \<Rightarrow> (Inl (wrapf name (to_error e)), io')
      | (Inr m, io') \<Rightarrow> (Inr m, io'))"

definition then_io :: "'a res \<times> 'w io \<Rightarrow> ('a \<Rightarrow> 'w io \<Rightarrow> 'b res \<times> 'w io) \<Rightarrow> 'b res \<times> 'w io" where
  "then_io r f = (case r of (Inl e, io) \<Rightarrow> (Inl e, io) | (Inr x, io) \<Rightarrow> f x io)"

definition name_err :: "string \<Rightarrow> 'a res \<Rightarrow> 'a res" where
  "name_err name r = (case r of Inl e \<Rightarrow> Inl (wrapf name e) | Inr x \<Rightarrow> Inr x)"

definition login_form :: "'w api_client \<Rightarrow> form" where
  "login_form c = [(''client_id'', ac_appID c), (''token_type'', ''messages''), (''client_secret'', ac_clientSec c),
     (''version'', ''1''), (''app_id'', ac_appID c)]"

definition login_url :: "'w api_client \<Rightarrow> string" where
  "login_url c = h_login (ac_hosts c) @ ''/?act=get_anonym_token''"

definition previewLink :: "'w api_client \<Rightarrow> string \<Rightarrow> string" where
  "previewLink c callID =
     (if h_api (ac_hosts c) = hostAPI then ''https://vk.ru/call/join/'' @ callID
      else hostUserBase @ ''/call/join/'' @ callID)"

definition preview_url :: "'w api_client \<Rightarrow> string" where
  "preview_url c = h_api (ac_hosts c) @ ''/method/calls.getCallPreview?v='' @ apiVersion @ ''&client_id='' @ ac_appID c"

definition preview_form :: "'w api_client \<Rightarrow> string \<Rightarrow> string \<Rightarrow> form" where
  "preview_form c callID token1 =
     [(''vk_join_link'', previewLink c callID), (''fields'', ''photo_200''), (''access_token'', token1)]"

definition step3_form :: "string \<Rightarrow> string \<Rightarrow> string \<Rightarrow> form" where
  "step3_form callID name token1 =
     [(''vk_join_link'', hostUserBase @ ''/call/join/'' @ callID), (''name'', name), (''access_token'', token1)]"

definition step3_url :: "'w api_client \<Rightarrow> string" where
  "step3_url c = h_api (ac_hosts c) @ ''/method/calls.getAnonymousToken?v='' @ apiVersion @ ''&client_id='' @ ac_appID c"

definition maxCaptchaAttempts :: nat where "maxCaptchaAttempts = 3"

text \<open>The captcha loop, with the attempts left and the error of the last one.\<close>

fun captcha_loop ::
    "vk_libs \<Rightarrow> 'w api_client \<Rightarrow> nat \<Rightarrow> go_error \<Rightarrow> form \<Rightarrow> 'w io \<Rightarrow> any_map res \<times> 'w io" where
  "captcha_loop lb c 0 err f io =
     (Inl (wrapf (''step3 anon token after '' @ show_nat maxCaptchaAttempts @ '' captcha attempts: '') err), io)"
| "captcha_loop lb c (Suc n) err f io =
     (case post lb c True (step3_url c) f io of
        (Inr m, io1) \<Rightarrow> (Inr m, io1)
      | (Inl (VkError e), io1) \<Rightarrow> (Inl (wrapf ''step3 anon token: '' e), io1)
      | (Inl (CaptchaErr ch p), io1) \<Rightarrow>
          (case ac_captcha c of
             None \<Rightarrow> (Inl (wrapf ''step3 anon token: '' (captcha_required [])), io1)
           | Some solve \<Rightarrow>
               (case solve ch (fst io1) of
                  (Inl e, w) \<Rightarrow> (Inl (wrapf ''step3 captcha solver: '' e), (w, snd io1 @ [EvSolve ch (Inl e)]))
                | (Inr sol, w) \<Rightarrow>
                    (let io2 = (w, snd io1 @ [EvSolve ch (Inr sol)]) in
                     case applySolution f ch sol of
                       Inl e \<Rightarrow> (Inl (wrapf ''step3 captcha apply: '' e), io2)
                     | Inr f' \<Rightarrow> captcha_loop lb c n (to_error (CaptchaErr ch p)) f' io2))))"

definition ok_url :: "'w api_client \<Rightarrow> string" where
  "ok_url c = h_ok (ac_hosts c) @ ''/fb.do''"

definition ok_login_form :: "string \<Rightarrow> form" where
  "ok_login_form deviceID =
     (let q = [dquote] in
      [(''session_data'', ''{'' @ q @ ''version'' @ q @ '':2,'' @ q @ ''device_id'' @ q @ '':'' @ q @ deviceID @ q @ '','' @
          q @ ''client_version'' @ q @ '':1.1,'' @ q @ ''client_type'' @ q @ '':'' @ q @ ''SDK_JS'' @ q @ ''}''),
       (''method'', ''auth.anonymLogin''), (''format'', ''JSON''), (''application_key'', ''CGMMEJLGDIHBABABA'')])"

definition join_form :: "string \<Rightarrow> string \<Rightarrow> string \<Rightarrow> form" where
  "join_form callID token2 sessionKey =
     [(''joinLink'', callID), (''isVideo'', ''false''), (''protocolVersion'', ''5''), (''capabilities'', ''2F7F''),
      (''anonymToken'', token2), (''method'', ''vchat.joinConversationByLink''), (''format'', ''JSON''),
      (''application_key'', ''CGMMEJLGDIHBABABA''), (''session_key'', sessionKey)]"

text \<open>The credentials in the last answer.\<close>

definition turn_of :: "any_map \<Rightarrow> (string \<times> string \<times> string) res" where
  "turn_of resp =
     bind_res (name_err ''step5 username: '' (digString resp [''turn_server'', ''username''])) (\<lambda>user.
     bind_res (name_err ''step5 credential: '' (digString resp [''turn_server'', ''credential''])) (\<lambda>pass.
     bind_res (name_err ''step5 urls: '' (digSlice resp [''turn_server'', ''urls''])) (\<lambda>urls.
       case urls of
         [] \<Rightarrow> Inl (errors_New ''step5: empty turn_server.urls'')
       | u # _ \<Rightarrow>
           (case u of
              AString rawURL \<Rightarrow> bind_res (name_err ''step5 url: '' (vk_parseTurnURL rawURL)) (\<lambda>addr. Inr (user, pass, addr))
            | _ \<Rightarrow> Inl (errors_New ''step5: turn_server.urls[0] is not a string'')))))"

text \<open>Steps 4 and 5, with the call's token.\<close>

definition join_call ::
    "vk_libs \<Rightarrow> string \<Rightarrow> 'w api_client \<Rightarrow> string \<Rightarrow> string \<Rightarrow> 'w io \<Rightarrow> (string \<times> string \<times> string) res \<times> 'w io" where
  "join_call lb deviceID c callID token2 io =
     then_io (step lb c ''step4 ok login: '' (ok_url c) (ok_login_form deviceID) io) (\<lambda>m4 io4.
     then_io (name_err ''step4: '' (digString m4 [''session_key'']), io4) (\<lambda>sessionKey io4.
     then_io (step lb c ''step5 vchat: '' (ok_url c) (join_form callID token2 sessionKey) io4) (\<lambda>m5 io5.
       (turn_of m5, io5))))"

record vk_random =
  vr_name :: nat
  vr_profile :: nat
  vr_device :: string

definition vk_fetchTurn ::
    "vk_libs \<Rightarrow> vk_random \<Rightarrow> 'w api_client \<Rightarrow> string \<Rightarrow> 'w io \<Rightarrow> (string \<times> string \<times> string) res \<times> 'w io" where
  "vk_fetchTurn lb rnd c callID io =
     then_io (step lb c ''step1 anonym token: '' (login_url c) (login_form c) io) (\<lambda>m1 io1.
     then_io (name_err ''step1: '' (digString m1 [''data'', ''access_token'']), io1) (\<lambda>token1 io1.
     (let io2 = snd (post lb c False (preview_url c) (preview_form c callID token1) io1) in
      then_io (captcha_loop lb c maxCaptchaAttempts (errors_New [])
                 (step3_form callID (pickGuestName (vr_name rnd)) token1) io2) (\<lambda>m3 io3.
      then_io (name_err ''step3: '' (digString m3 [''response'', ''token'']), io3) (\<lambda>token2 io3.
        join_call lb (vr_device rnd) c callID token2 io3)))))"

subsection \<open>The provider\<close>

record 'w vk_provider =
  vp_http :: "'w http_client option"
  vp_appID :: string
  vp_clientSec :: string
  vp_hosts :: api_hosts
  vp_captcha :: "'w solver"

type_synonym 'w vk_option = "'w vk_provider \<Rightarrow> 'w vk_provider"

text \<open>\<open>dflt\<close> is \<open>newDefaultHTTPClient\<close>: the network behind a client with an optional protector.\<close>

definition vk_WithHTTPClient :: "'w http_client option \<Rightarrow> 'w vk_option" where
  "vk_WithHTTPClient c p = p\<lparr>vp_http := c\<rparr>"

definition vk_WithProtector :: "('sp option \<Rightarrow> 'w http_client) \<Rightarrow> 'sp option \<Rightarrow> 'w vk_option" where
  "vk_WithProtector dflt sp p = p\<lparr>vp_http := Some (dflt sp)\<rparr>"

definition WithAppCredentials :: "string \<Rightarrow> string \<Rightarrow> 'w vk_option" where
  "WithAppCredentials appID clientSecret p = p\<lparr>vp_appID := appID, vp_clientSec := clientSecret\<rparr>"

definition vk_WithHostsForTest :: "string \<Rightarrow> string \<Rightarrow> string \<Rightarrow> 'w vk_option" where
  "vk_WithHostsForTest login api ok p =
     (let h0 = vp_hosts p;
          h1 = (if login \<noteq> [] then h0\<lparr>h_login := login\<rparr> else h0);
          h2 = (if api \<noteq> [] then h1\<lparr>h_api := api\<rparr> else h1);
          h3 = (if ok \<noteq> [] then h2\<lparr>h_ok := ok\<rparr> else h2)
      in p\<lparr>vp_hosts := h3\<rparr>)"

definition WithCaptchaSolver :: "'w solver option \<Rightarrow> 'w vk_option" where
  "WithCaptchaSolver s p = (case s of Some x \<Rightarrow> p\<lparr>vp_captcha := x\<rparr> | None \<Rightarrow> p)"

definition vk_New :: "('sp option \<Rightarrow> 'w http_client) \<Rightarrow> 'w vk_option list \<Rightarrow> 'w vk_provider" where
  "vk_New dflt opts =
     (let p0 = \<lparr>vp_http = None, vp_appID = ''6287487'', vp_clientSec = ''QbYic1K3lEV5kTGiqlq2'',
                vp_hosts = defaultHosts, vp_captcha = rejectingSolver\<rparr>;
          p1 = fold (\<lambda>o' p. o' p) opts p0
      in case vp_http p1 of None \<Rightarrow> p1\<lparr>vp_http := Some (dflt None)\<rparr> | Some _ \<Rightarrow> p1)"

text \<open>\<open>Fetch\<close>; the provider's client is the one \<open>New\<close> made sure of, so a missing one is a nil
  pointer.\<close>

definition api_of :: "vk_random \<Rightarrow> 'w vk_provider \<Rightarrow> 'w http_client \<Rightarrow> 'w api_client" where
  "api_of rnd p hc =
     \<lparr>ac_http = hc, ac_profile = pickProfile (vr_profile rnd), ac_appID = vp_appID p, ac_clientSec = vp_clientSec p,
      ac_hosts = vp_hosts p, ac_captcha = Some (vp_captcha p)\<rparr>"

definition creds_of :: "string \<times> string \<times> string \<Rightarrow> credentials" where
  "creds_of upa = (case upa of (user, pass, addr) \<Rightarrow>
     \<lparr>Username = user, Password = pass, ServerAddr = addr, ExpiresIn = 0\<rparr>)"

definition vk_Fetch ::
    "vk_libs \<Rightarrow> vk_random \<Rightarrow> 'w vk_provider \<Rightarrow> string \<Rightarrow> 'w io \<Rightarrow> (credentials res \<times> 'w io) option" where
  "vk_Fetch lb rnd p hint io =
     (case vk_extractCallID hint of
        Inl e \<Rightarrow> Some (Inl (wrapf (''vk: parse hint '' @ quoted hint @ '': '') e), io)
      | Inr callID \<Rightarrow>
          (case vp_http p of
             None \<Rightarrow> None
           | Some hc \<Rightarrow> Some (then_io (vk_fetchTurn lb rnd (api_of rnd p hc) callID io) (\<lambda>upa io'. (Inr (creds_of upa), io')))))"

section \<open>Runs\<close>

fun is_post :: "vk_event \<Rightarrow> bool" where
  "is_post (EvPost rq out) = True"
| "is_post (EvSolve ch r) = False"

definition posts :: "vk_event list \<Rightarrow> nat" where "posts evs = length (filter is_post evs)"
definition solves :: "vk_event list \<Rightarrow> nat" where "solves evs = length (filter (\<lambda>e. \<not> is_post e) evs)"

lemma posts_simps [simp]:
  "posts [] = 0" "posts (EvPost rq o' # evs) = Suc (posts evs)" "posts (EvSolve ch r # evs) = posts evs"
  "posts (a @ b) = posts a + posts b"
  "solves [] = 0" "solves (EvPost rq o' # evs) = solves evs" "solves (EvSolve ch r # evs) = Suc (solves evs)"
  "solves (a @ b) = solves a + solves b"
  by (simp_all add: posts_def solves_def)

lemma post_event: "post lb c cap url f io = (r, io') \<Longrightarrow>
  \<exists>out w. io' = (w, snd io @ [EvPost (make_request c cap url f) out]) \<and> r = post_result lb out"
  by (auto simp: post_def Let_def split: prod.splits)

lemma then_io_Inr: "then_io r f = (Inr y, io') \<Longrightarrow> \<exists>x io1. r = (Inr x, io1) \<and> f x io1 = (Inr y, io')"
  by (auto simp: then_io_def split: prod.splits sum.splits)

lemma name_err_Inr [simp]: "name_err n r = Inr x \<longleftrightarrow> r = Inr x"
  by (auto simp: name_err_def split: sum.splits)

lemma step_Inr: "step lb c name url f io = (Inr m, io') \<Longrightarrow>
  \<exists>out w. io' = (w, snd io @ [EvPost (make_request c False url f) out]) \<and> post_result lb out = Inr m"
  by (auto simp: step_def split: prod.splits sum.splits dest!: post_event)

text \<open>What a form keeps through the captcha loop.\<close>

definition captcha_keys :: "string set" where
  "captcha_keys = {''captcha_sid'', ''success_token'', ''captcha_key'', ''is_sound_captcha'', ''captcha_ts'', ''captcha_attempt''}"

definition same_call :: "form \<Rightarrow> form \<Rightarrow> bool" where
  "same_call f g \<longleftrightarrow> (\<forall>k. k \<notin> captcha_keys \<longrightarrow> form_get g k = form_get f k)"

lemma same_call_refl [simp]: "same_call f f"
  by (simp add: same_call_def)

lemma same_call_apply: "applySolution f ch sol = Inr f' \<Longrightarrow> same_call f' g \<Longrightarrow> same_call f g"
  using applySolution_fields(5) by (simp add: same_call_def captcha_keys_def)

text \<open>The events of a loop with \<open>n\<close> attempts: at most \<open>n\<close> requests and \<open>n\<close> calls of the solver; on
  success the last event is the accepted request, behind at most \<open>n - 1\<close> rounds.\<close>

lemma captcha_loop_events:
  "captcha_loop lb c n err f io = (r, io') \<Longrightarrow>
   \<exists>evs. snd io' = snd io @ evs \<and> posts evs \<le> n \<and> solves evs \<le> n \<and>
     (\<forall>m. r = Inr m \<longrightarrow> (\<exists>pre f' out. evs = pre @ [EvPost (make_request c True (step3_url c) f') out] \<and>
        post_result lb out = Inr m \<and> same_call f f' \<and> posts pre < n \<and> solves pre < n))"
proof (induction n arbitrary: err f io)
  case 0
  then show ?case by auto
next
  case (Suc n)
  obtain r1 io1 where p: "post lb c True (step3_url c) f io = (r1, io1)" by (cases "post lb c True (step3_url c) f io")
  then obtain out w where out: "io1 = (w, snd io @ [EvPost (make_request c True (step3_url c) f) out])" "post_result lb out = r1"
    using post_event by blast
  let ?one = "[EvPost (make_request c True (step3_url c) f) out]"
  note loop = Suc.prems [unfolded captcha_loop.simps p out(1) prod.case]
  show ?case
  proof (cases r1)
    case (Inr m)
    with loop out(2) show ?thesis by (intro exI [of _ ?one]) auto
  next
    case (Inl x)
    show ?thesis
    proof (cases x)
      case (VkError e)
      with loop Inl show ?thesis by (intro exI [of _ ?one]) auto
    next
      case (CaptchaErr ch pe)
      show ?thesis
      proof (cases "ac_captcha c")
        case None
        with loop Inl CaptchaErr show ?thesis by (intro exI [of _ ?one]) auto
      next
        case (Some solve)
        obtain sr w' where sv: "solve ch w = (sr, w')" by (cases "solve ch w")
        let ?two = "[EvPost (make_request c True (step3_url c) f) out, EvSolve ch sr]"
        let ?io2 = "(w', snd io @ ?two)"
        show ?thesis
        proof (cases "\<exists>sol f'. sr = Inr sol \<and> applySolution f ch sol = Inr f'")
          case False
          with loop Inl CaptchaErr Some sv show ?thesis
            by (intro exI [of _ ?two]) (auto simp: Let_def split: sum.splits)
        next
          case True
          then obtain sol f' where a: "sr = Inr sol" "applySolution f ch sol = Inr f'" by blast
          have "captcha_loop lb c n (to_error (CaptchaErr ch pe)) f' ?io2 = (r, io')"
            using loop Inl CaptchaErr Some sv a by simp
          from Suc.IH [OF this] obtain evs where e: "snd io' = snd ?io2 @ evs" "posts evs \<le> n" "solves evs \<le> n"
            "\<forall>m. r = Inr m \<longrightarrow> (\<exists>pre g out. evs = pre @ [EvPost (make_request c True (step3_url c) g) out] \<and>
               post_result lb out = Inr m \<and> same_call f' g \<and> posts pre < n \<and> solves pre < n)"
            by (elim exE conjE) (rule that)
          have "\<exists>pre g o2. ?two @ evs = pre @ [EvPost (make_request c True (step3_url c) g) o2] \<and>
               post_result lb o2 = Inr m \<and> same_call f g \<and> posts pre < Suc n \<and> solves pre < Suc n" if m: "r = Inr m" for m
          proof -
            from e(4) m obtain pre g o2 where *: "evs = pre @ [EvPost (make_request c True (step3_url c) g) o2]"
              "post_result lb o2 = Inr m" "same_call f' g" "posts pre < n" "solves pre < n" by blast
            with same_call_apply [OF a(2)] show ?thesis
              by (intro exI [of _ "?two @ pre"] exI [of _ g] exI [of _ o2]) simp
          qed
          with e(1-3) show ?thesis by (intro exI [of _ "?two @ evs"]) simp
        qed
      qed
    qed
  qed
qed

text \<open>Every step only adds events, at most so many of each kind.\<close>

definition adds :: "nat \<Rightarrow> nat \<Rightarrow> 'w io \<Rightarrow> 'w io \<Rightarrow> bool" where
  "adds np ns io io' \<longleftrightarrow> (\<exists>evs. snd io' = snd io @ evs \<and> posts evs \<le> np \<and> solves evs \<le> ns)"

lemma adds_refl [simp]: "adds np ns io io"
  by (simp add: adds_def)

lemma adds_trans: "adds a b x y \<Longrightarrow> adds c d y z \<Longrightarrow> adds (a + c) (b + d) x z"
  unfolding adds_def by (metis add_mono append.assoc posts_simps(4,8))

lemma adds_post: "adds 1 0 io (snd (post lb c cap url f io))"
  using post_event [of lb c cap url f io] by (cases "post lb c cap url f io") (fastforce simp: adds_def)

lemma adds_step: "adds 1 0 io (snd (step lb c name url f io))"
  using adds_post [of io lb c False url f]
  by (cases "post lb c False url f io"; cases "fst (post lb c False url f io)") (simp_all add: step_def)

lemma adds_then:
  assumes "adds a b io (snd r)" and "\<And>x io1. adds c d io1 (snd (f x io1))"
  shows "adds (a + c) (b + d) io (snd (then_io r f))"
proof -
  obtain x io1 where r: "r = (x, io1)" by (cases r) auto
  show ?thesis
  proof (cases x)
    case (Inl e)
    with r assms(1) show ?thesis by (auto simp: then_io_def adds_def)
  next
    case (Inr y)
    with r adds_trans [OF _ assms(2), of a b io io1] assms(1) show ?thesis by (simp add: then_io_def)
  qed
qed

lemma adds_captcha: "adds n n io (snd (captcha_loop lb c n err f io))"
  using captcha_loop_events [of lb c n err f io] by (cases "captcha_loop lb c n err f io") (fastforce simp: adds_def)

lemma adds_join: "adds 2 0 io (snd (join_call lb dev c callID t2 io))"
proof -
  have "adds (1 + (0 + (1 + 0))) (0 + (0 + (0 + 0))) io (snd (join_call lb dev c callID t2 io))"
    unfolding join_call_def by (intro adds_then adds_step) simp_all
  then show ?thesis by (simp add: numeral_2_eq_2)
qed

lemma adds_fetch: "adds 7 3 io (snd (vk_fetchTurn lb rnd c callID io))"
proof -
  have "adds (3 + (0 + 2)) (3 + (0 + 0)) x (snd (then_io (captcha_loop lb c maxCaptchaAttempts e f x) (\<lambda>m3 io3.
      then_io (name_err ''step3: '' (digString m3 [''response'', ''token'']), io3) (\<lambda>token2 io3.
        join_call lb (vr_device rnd) c callID token2 io3))))" for x e f
    using adds_captcha [of 3] by (intro adds_then adds_join) (simp_all add: maxCaptchaAttempts_def)
  then have tail: "adds (1 + 5) (0 + 3) io1 (snd (let io2 = snd (post lb c False (preview_url c) (preview_form c callID t1) io1) in
      then_io (captcha_loop lb c maxCaptchaAttempts (errors_New []) (step3_form callID (pickGuestName (vr_name rnd)) t1) io2) (\<lambda>m3 io3.
      then_io (name_err ''step3: '' (digString m3 [''response'', ''token'']), io3) (\<lambda>token2 io3.
        join_call lb (vr_device rnd) c callID token2 io3))))" for io1 t1
    unfolding Let_def by (intro adds_trans [OF adds_post]) simp
  have "adds (1 + (0 + (1 + 5))) (0 + (0 + (0 + 3))) io (snd (vk_fetchTurn lb rnd c callID io))"
    unfolding vk_fetchTurn_def by (intro adds_then adds_step tail) simp
  then show ?thesis by simp
qed

lemma vk_New_client: "\<exists>hc. vp_http (vk_New dflt opts) = Some hc"
  unfolding vk_New_def Let_def by (simp split: option.split)

lemma join_call_Inr:
  assumes "join_call lb dev c callID t2 io = (Inr upa, io')"
  shows "\<exists>o4 m4 sk o5 m5. snd io' = snd io @ [EvPost (make_request c False (ok_url c) (ok_login_form dev)) o4,
       EvPost (make_request c False (ok_url c) (join_form callID t2 sk)) o5] \<and>
    post_result lb o4 = Inr m4 \<and> digString m4 [''session_key''] = Inr sk \<and> post_result lb o5 = Inr m5 \<and> turn_of m5 = Inr upa"
  using assms unfolding join_call_def
  by (auto dest!: then_io_Inr step_Inr)

lemma turn_of_Inr:
  assumes "turn_of m = Inr (user, pass, addr)"
  shows "digString m [''turn_server'', ''username''] = Inr user" and "digString m [''turn_server'', ''credential''] = Inr pass"
    and "\<exists>raw rest. digSlice m [''turn_server'', ''urls''] = Inr (AString raw # rest) \<and> vk_parseTurnURL raw = Inr addr"
    and "split_host_port addr \<noteq> None"
proof -
  obtain u p urls where d: "digString m [''turn_server'', ''username''] = Inr u" "digString m [''turn_server'', ''credential''] = Inr p"
    "digSlice m [''turn_server'', ''urls''] = Inr urls"
    and t: "(case urls of [] \<Rightarrow> Inl (errors_New ''step5: empty turn_server.urls'')
       | x # _ \<Rightarrow>
           (case x of
              AString rawURL \<Rightarrow> bind_res (name_err ''step5 url: '' (vk_parseTurnURL rawURL)) (\<lambda>addr. Inr (u, p, addr))
            | _ \<Rightarrow> Inl (errors_New ''step5: turn_server.urls[0] is not a string''))) = Inr (user, pass, addr)"
    using assms unfolding turn_of_def bind_res_Inr_iff name_err_Inr by blast
  from t obtain raw rest where r: "urls = AString raw # rest"
    "bind_res (name_err ''step5 url: '' (vk_parseTurnURL raw)) (\<lambda>addr. Inr (u, p, addr)) = Inr (user, pass, addr)"
    by (cases urls; cases "hd urls") simp_all
  then have e: "vk_parseTurnURL raw = Inr addr" "u = user" "p = pass" by (auto simp: bind_res_Inr_iff)
  with d r(1) show "digString m [''turn_server'', ''username''] = Inr user" "digString m [''turn_server'', ''credential''] = Inr pass"
    "\<exists>raw rest. digSlice m [''turn_server'', ''urls''] = Inr (AString raw # rest) \<and> vk_parseTurnURL raw = Inr addr"
    by simp_all
  from e(1) show "split_host_port addr \<noteq> None"
    by (auto simp: vk_parseTurnURL_def Let_def split: if_splits option.splits)
qed

section \<open>Properties\<close>

text \<open>C22: whatever VK answers and whatever the solver does, one \<open>Fetch\<close> ends, sends at most seven
  requests and asks the solver at most three times; a provider made by \<open>New\<close> always has an HTTP
  client, so \<open>Fetch\<close> does not run into a nil pointer, and a hint that is no call link sends
  nothing.\<close>

theorem vk_fetch_bounded:
  "\<exists>r io' evs. vk_Fetch lb rnd (vk_New dflt opts) hint io = Some (r, io') \<and>
     snd io' = snd io @ evs \<and> posts evs \<le> 7 \<and> solves evs \<le> 3 \<and>
     (is_err (vk_extractCallID hint) \<longrightarrow> evs = [] \<and> (\<exists>e. r = Inl e \<and> errors_Is e ErrVkInvalidLink))"
proof -
  let ?p = "vk_New dflt opts"
  obtain hc where hc: "vp_http ?p = Some hc" using vk_New_client by blast
  show ?thesis
  proof (cases "vk_extractCallID hint")
    case (Inl e)
    then have "errors_Is e ErrVkInvalidLink"
      by (auto simp: vk_extractCallID_def vk_invalid_def errors_Is_def Let_def dest: after_marker_Inl split: if_splits)
    with Inl show ?thesis by (simp add: vk_Fetch_def)
  next
    case (Inr i)
    obtain r io1 where f: "vk_fetchTurn lb rnd (api_of rnd ?p hc) i io = (r, io1)" by (cases "vk_fetchTurn lb rnd (api_of rnd ?p hc) i io")
    then have "adds 7 3 io io1" using adds_fetch [of io lb rnd "api_of rnd ?p hc" i] by simp
    with Inr hc f show ?thesis by (cases r) (auto simp: vk_Fetch_def then_io_def adds_def)
  qed
qed

theorem vk_fetch_bounded_witness:
  "\<exists>r io'. vk_Fetch \<lparr>vl_json = id, vl_far = fst\<rparr> \<lparr>vr_name = 0, vr_profile = 0, vr_device = []\<rparr>
      (vk_New (\<lambda>sp :: unit option. \<lambda>rq (w :: unit). (HttpErr (errors_New ''down''), w)) []) ''https://example.org/'' ((), []) =
      Some (r, io') \<and> snd io' = []"
proof -
  have "is_err (vk_extractCallID ''https://example.org/'')" by code_simp
  with vk_fetch_bounded [where lb = "\<lparr>vl_json = id, vl_far = fst\<rparr>" and rnd = "\<lparr>vr_name = 0, vr_profile = 0, vr_device = []\<rparr>"
      and dflt = "\<lambda>sp :: unit option. \<lambda>rq (w :: unit). (HttpErr (errors_New ''down''), w)" and opts = "[]"
      and hint = "''https://example.org/''" and io = "((), [])"]
  show ?thesis by auto
qed


text \<open>A server that answers from a script, for the witnesses.\<close>

definition scripted :: "string list http_client" where
  "scripted rq w = (case w of [] \<Rightarrow> (HttpErr (errors_New ''closed''), []) | b # bs \<Rightarrow> (HttpResp 200 ''OK'' (Inr b), bs))"

definition script_client :: "string list api_client" where
  "script_client = \<lparr>ac_http = scripted, ac_profile = pickProfile 0, ac_appID = ''1'', ac_clientSec = ''s'', ac_hosts = defaultHosts,
     ac_captcha = Some (\<lambda>ch w. (Inr \<lparr>sol_Key = ''k'', sol_SuccessToken = []\<rparr>, w))\<rparr>"

definition demo_libs :: vk_libs where "demo_libs = \<lparr>vl_json = id, vl_far = fst\<rparr>"

lemma post_script:
  "post demo_libs script_client cap url f (b # bs, evs) =
     (post_result demo_libs (HttpResp 200 ''OK'' (Inr b)),
      (bs, evs @ [EvPost (make_request script_client cap url f) (HttpResp 200 ''OK'' (Inr b))]))"
  by (simp add: post_def script_client_def scripted_def)

definition demo_bodies :: "string list" where
  "demo_bodies =
     [''{\"data\":{\"access_token\":\"t1\"}}'', ''null'',
      ''{\"error\":{\"error_code\":14,\"captcha_sid\":\"9\"}}'',
      ''{\"response\":{\"token\":\"t2\"}}'', ''{\"session_key\":\"sk\"}'',
      ''{\"turn_server\":{\"username\":\"u\",\"credential\":\"p\",\"urls\":[\"turn:h:1?x\"]}}'']"

lemma demo_results:
  "post_result demo_libs (HttpResp 200 ''OK'' (Inr (demo_bodies ! 0))) = Inr [(''data'', AMap [(''access_token'', AString ''t1'')])]"
  "post_result demo_libs (HttpResp 200 ''OK'' (Inr (demo_bodies ! 2))) =
     Inl (CaptchaErr \<lparr>ch_SID = ''9'', ch_ImgURL = [], ch_RedirectURI = [], ch_Attempt = 1, ch_TS = []\<rparr>
       (captcha_required ('': '' @ code_msg fst (14 * 2 ^ 49, 49) [])))"
  "post_result demo_libs (HttpResp 200 ''OK'' (Inr (demo_bodies ! 3))) = Inr [(''response'', AMap [(''token'', AString ''t2'')])]"
  "post_result demo_libs (HttpResp 200 ''OK'' (Inr (demo_bodies ! 4))) = Inr [(''session_key'', AString ''sk'')]"
  "post_result demo_libs (HttpResp 200 ''OK'' (Inr (demo_bodies ! 5))) =
     Inr [(''turn_server'', AMap [(''username'', AString ''u''), (''credential'', AString ''p''), (''urls'', ASlice [AString ''turn:h:1?x''])])]"
  by code_simp+

lemma demo_bodies_list: "demo_bodies = [demo_bodies ! 0, demo_bodies ! 1, demo_bodies ! 2, demo_bodies ! 3, demo_bodies ! 4, demo_bodies ! 5]"
  by (simp add: demo_bodies_def)

lemma demo_digs:
  "digString [(''data'', AMap [(''access_token'', AString ''t1'')])] [''data'', ''access_token''] = Inr ''t1''"
  "digString [(''response'', AMap [(''token'', AString ''t2'')])] [''response'', ''token''] = Inr ''t2''"
  "digString [(''session_key'', AString ''sk'')] [''session_key''] = Inr ''sk''"
  "turn_of [(''turn_server'', AMap [(''username'', AString ''u''), (''credential'', AString ''p''), (''urls'', ASlice [AString ''turn:h:1?x''])])]
     = Inr (''u'', ''p'', ''h:1'')"
  by code_simp+

lemma demo_run:
  "\<exists>evs. vk_fetchTurn demo_libs \<lparr>vr_name = 1, vr_profile = 0, vr_device = ''d''\<rparr> script_client ''call'' (demo_bodies, []) =
     (Inr (''u'', ''p'', ''h:1''), ([], evs)) \<and> posts evs = 6 \<and> solves evs = 1"
proof -
  have cap: "ac_captcha script_client = Some (\<lambda>ch w. (Inr \<lparr>sol_Key = ''k'', sol_SuccessToken = []\<rparr>, w))"
    by (simp add: script_client_def)
  have ap: "\<exists>f'. applySolution f \<lparr>ch_SID = ''9'', ch_ImgURL = [], ch_RedirectURI = [], ch_Attempt = 1, ch_TS = []\<rparr>
       \<lparr>sol_Key = ''k'', sol_SuccessToken = []\<rparr> = Inr f'" for f
    by (simp add: applySolution_def Let_def)
  obtain f' where f': "applySolution (step3_form ''call'' (pickGuestName 1) ''t1'')
      \<lparr>ch_SID = ''9'', ch_ImgURL = [], ch_RedirectURI = [], ch_Attempt = 1, ch_TS = []\<rparr>
       \<lparr>sol_Key = ''k'', sol_SuccessToken = []\<rparr> = Inr f'" using ap by blast
  have three: "maxCaptchaAttempts = Suc (Suc (Suc 0))" by (simp add: maxCaptchaAttempts_def)
  show ?thesis
    by (subst demo_bodies_list)
       (simp add: vk_fetchTurn_def join_call_def step_def then_io_def name_err_def post_script demo_results demo_digs
         three cap f' del: One_nat_def)
qed


section \<open>Captchas that stay unsolved\<close>

lemma post_captcha:
  assumes "post_result lb out = Inl (CaptchaErr ch p)"
  shows "errors_Is (to_error (CaptchaErr ch p)) ErrCaptchaRequired"
  using assms detect_captcha(1) [of "vl_far lb" _ ch p]
  by (auto simp: post_result_def Let_def split: http_outcome.splits sum.splits if_splits option.splits)

text \<open>VK answers every request for the call's token with a captcha that has a session id.\<close>

definition always_asks :: "vk_libs \<Rightarrow> 'w api_client \<Rightarrow> bool" where
  "always_asks lb c \<longleftrightarrow> (\<forall>f w. \<exists>ch p. post_result lb (fst (ac_http c (make_request c True (step3_url c) f) w)) = Inl (CaptchaErr ch p) \<and>
     ch_SID ch \<noteq> [])"

definition always_solves :: "'w solver \<Rightarrow> bool" where
  "always_solves sv \<longleftrightarrow> (\<forall>ch w. \<exists>sol. fst (sv ch w) = Inr sol \<and> (sol_SuccessToken sol \<noteq> [] \<or> sol_Key sol \<noteq> []))"

lemma captcha_loop_exhausted:
  assumes ask: "always_asks lb c" and sv: "ac_captcha c = Some sv" "always_solves sv"
  shows "\<exists>e io' evs. captcha_loop lb c n err f io = (Inl e, io') \<and> snd io' = snd io @ evs \<and> posts evs = n \<and> solves evs = n \<and>
    (0 < n \<longrightarrow> errors_Is e ErrCaptchaRequired \<and> \<not> is_post (last evs)) \<and>
    (n = 0 \<longrightarrow> (\<forall>t. errors_Is e t \<longleftrightarrow> errors_Is err t))"
proof (induction n arbitrary: err f io)
  case 0
  show ?case by (intro exI [of _ "wrapf (''step3 anon token after '' @ show_nat maxCaptchaAttempts @ '' captcha attempts: '') err"]
    exI [of _ io] exI [of _ "[]"]) simp
next
  case (Suc n)
  let ?rq = "make_request c True (step3_url c) f"
  obtain out w where o: "ac_http c ?rq (fst io) = (out, w)" by (cases "ac_http c ?rq (fst io)")
  then obtain ch p where ch: "post_result lb out = Inl (CaptchaErr ch p)" "ch_SID ch \<noteq> []"
    using ask unfolding always_asks_def by (metis fst_conv)
  obtain sol w' where sol: "sv ch w = (Inr sol, w')" "sol_SuccessToken sol \<noteq> [] \<or> sol_Key sol \<noteq> []"
    using sv(2) unfolding always_solves_def by (metis fst_conv surj_pair)
  have "\<exists>f'. applySolution f ch sol = Inr f'" using ch(2) sol(2) by (simp add: applySolution_def Let_def)
  then obtain f' where f': "applySolution f ch sol = Inr f'" by blast
  let ?two = "[EvPost ?rq out, EvSolve ch (Inr sol)]"
  let ?err = "to_error (CaptchaErr ch p)"
  from Suc.IH [of ?err f' "(w', snd io @ ?two)"] obtain e io' evs where
    IH: "captcha_loop lb c n ?err f' (w', snd io @ ?two) = (Inl e, io')" "snd io' = (snd io @ ?two) @ evs"
      "posts evs = n" "solves evs = n" "0 < n \<longrightarrow> errors_Is e ErrCaptchaRequired \<and> \<not> is_post (last evs)"
      "n = 0 \<longrightarrow> (\<forall>t. errors_Is e t \<longleftrightarrow> errors_Is ?err t)" by auto
  have "captcha_loop lb c (Suc n) err f io = (Inl e, io')"
    using IH(1) ch(1) sol(1) f' sv(1) o by (simp add: post_def)
  moreover have "errors_Is e ErrCaptchaRequired" using IH(5,6) post_captcha [OF ch(1)] by (cases "n = 0") auto
  moreover have "\<not> is_post (last (?two @ evs))"
  proof (cases "n = 0")
    case True
    then have "evs = []" using IH(3,4) by (cases evs; cases "hd evs") auto
    then show ?thesis by simp
  next
    case False
    then have "evs \<noteq> []" using IH(3) by auto
    with False IH(5) show ?thesis by simp
  qed
  ultimately show ?case using IH(2-4) by (intro exI [of _ e] exI [of _ io'] exI [of _ "?two @ evs"]) simp
qed

lemma captcha_loop_rejected:
  assumes ask: "always_asks lb c" and sv: "ac_captcha c = Some rejectingSolver"
  shows "\<exists>e io' evs. captcha_loop lb c (Suc n) err f io = (Inl e, io') \<and> snd io' = snd io @ evs \<and> posts evs = 1 \<and>
    errors_Is e ErrCaptchaRequired"
proof -
  let ?rq = "make_request c True (step3_url c) f"
  obtain out w where o: "ac_http c ?rq (fst io) = (out, w)" by (cases "ac_http c ?rq (fst io)")
  then obtain ch p where ch: "post_result lb out = Inl (CaptchaErr ch p)"
    using ask unfolding always_asks_def by (metis fst_conv)
  with o sv show ?thesis by (simp add: post_def rejectingSolver_def captcha_required_def errors_Is_def)
qed

text \<open>Captchas that VK keeps asking for. With a solver that answers each of them, the provider
  sends three requests, has three captchas solved, and fails with \<open>ErrCaptchaRequired\<close>; its last act
  is to have a captcha solved whose solution it never sends. Without a configured solver it sends one
  request and fails with \<open>ErrCaptchaRequired\<close>.\<close>

theorem vk_captcha_unsolved:
  assumes ask: "always_asks lb c"
  shows "(\<forall>sv. ac_captcha c = Some sv \<and> always_solves sv \<longrightarrow>
      (\<exists>e io' evs. captcha_loop lb c maxCaptchaAttempts err f io = (Inl e, io') \<and> snd io' = snd io @ evs \<and>
         posts evs = 3 \<and> solves evs = 3 \<and> errors_Is e ErrCaptchaRequired \<and> \<not> is_post (last evs))) \<and>
    (ac_captcha c = Some rejectingSolver \<longrightarrow>
      (\<exists>e io' evs. captcha_loop lb c maxCaptchaAttempts err f io = (Inl e, io') \<and> snd io' = snd io @ evs \<and>
         posts evs = 1 \<and> errors_Is e ErrCaptchaRequired))"
proof (intro conjI allI impI)
  fix sv assume "ac_captcha c = Some sv \<and> always_solves sv"
  with captcha_loop_exhausted [OF ask, of sv maxCaptchaAttempts err f io]
  show "\<exists>e io' evs. captcha_loop lb c maxCaptchaAttempts err f io = (Inl e, io') \<and> snd io' = snd io @ evs \<and>
         posts evs = 3 \<and> solves evs = 3 \<and> errors_Is e ErrCaptchaRequired \<and> \<not> is_post (last evs)"
    by (auto simp: maxCaptchaAttempts_def)
next
  assume "ac_captcha c = Some rejectingSolver"
  with captcha_loop_rejected [OF ask, of 2 err f io]
  show "\<exists>e io' evs. captcha_loop lb c maxCaptchaAttempts err f io = (Inl e, io') \<and> snd io' = snd io @ evs \<and>
         posts evs = 1 \<and> errors_Is e ErrCaptchaRequired"
    by (simp add: maxCaptchaAttempts_def numeral_3_eq_3)
qed

definition asking_client :: "unit api_client" where
  "asking_client = \<lparr>ac_http = (\<lambda>rq w. (HttpResp 200 ''OK'' (Inr (demo_bodies ! 2)), w)), ac_profile = pickProfile 0, ac_appID = ''1'',
     ac_clientSec = ''s'', ac_hosts = defaultHosts, ac_captcha = Some rejectingSolver\<rparr>"

theorem vk_captcha_unsolved_witness:
  "\<exists>e io'. captcha_loop demo_libs asking_client maxCaptchaAttempts (errors_New []) [] ((), []) = (Inl e, io') \<and>
     errors_Is e ErrCaptchaRequired \<and> posts (snd io') = 1"
proof -
  have "always_asks demo_libs asking_client" by (simp add: always_asks_def asking_client_def demo_results(2))
  from vk_captcha_unsolved [OF this, of "errors_New []" "[]" "((), [])"] show ?thesis
    by (auto simp: asking_client_def)
qed

end
