(* ===== verification/Yandex_Api.thy ===== *)
theory Yandex_Api
  imports Go_Any Go_Http Go_Url Call_Link Creds_Cache
begin

text \<open>
  The Yandex Telemost provider: \<open>provider/yandex/api.go\<close>, \<open>ws.go\<close>, \<open>options.go\<close> and \<open>provider.go\<close>.
  The HTTP client and the WebSocket are arguments: the outcome of the one request, and what the
  socket does, frame by frame, with the clock at each turn of the read loop. Go visits the members
  of a map in any order, so the search through a frame gives the list of the results it may return.
\<close>

section \<open>Definitions\<close>

subsection \<open>The conference\<close>

record ice_server =
  ice_Urls :: "string list"
  ice_Username :: string
  ice_Credential :: string

definition zero_ice :: ice_server where
  "zero_ice = \<lparr>ice_Urls = [], ice_Username = [], ice_Credential = []\<rparr>"

text \<open>A slice that a decoder fills again keeps what its array held: the pair is the slice and what
  lies behind it.\<close>

type_synonym ice_slice = "ice_server list \<times> ice_server list"

record client_conf =
  cc_MediaServerURL :: string
  cc_ServiceName :: string
  cc_IceServers :: ice_slice

record conference =
  cf_RoomID :: string
  cf_PeerID :: string
  cf_SessionID :: string
  cf_PeerSessionID :: string
  cf_URI :: string
  cf_MediaPlatform :: string
  cf_Credentials :: string
  cf_WSURI :: string
  cf_ConnectionType :: string
  cf_Client :: client_conf
  cf_IceServers :: ice_slice

definition zero_conference :: conference where
  "zero_conference = \<lparr>cf_RoomID = [], cf_PeerID = [], cf_SessionID = [], cf_PeerSessionID = [], cf_URI = [],
     cf_MediaPlatform = [], cf_Credentials = [], cf_WSURI = [], cf_ConnectionType = [],
     cf_Client = \<lparr>cc_MediaServerURL = [], cc_ServiceName = [], cc_IceServers = ([], [])\<rparr>, cf_IceServers = ([], [])\<rparr>"

text \<open>Decoding: a value of another type is an error, \<open>null\<close> leaves a string or an object as it is and
  empties a slice. Keys are compared without case.\<close>

fun url_list :: "jval list \<Rightarrow> string list option" where
  "url_list [] = Some []"
| "url_list (v # vs) = (case (str_into v [], url_list vs) of (Some x, Some xs) \<Rightarrow> Some (x # xs) | _ \<Rightarrow> None)"

definition UnmarshalJSON_urls :: "jval \<Rightarrow> string list option" where
  "UnmarshalJSON_urls v = (case v of JStr s \<Rightarrow> Some [s] | JArr vs \<Rightarrow> url_list vs | JNull \<Rightarrow> Some [] | _ \<Rightarrow> None)"

definition ice_member :: "string \<times> jval \<Rightarrow> ice_server \<Rightarrow> ice_server option" where
  "ice_member kv r =
     (let k = to_lower (fst kv); v = snd kv in
      if k = ''urls'' then map_option (\<lambda>x. r\<lparr>ice_Urls := x\<rparr>) (UnmarshalJSON_urls v)
      else if k = ''username'' then map_option (\<lambda>x. r\<lparr>ice_Username := x\<rparr>) (str_into v (ice_Username r))
      else if k = ''credential'' then map_option (\<lambda>x. r\<lparr>ice_Credential := x\<rparr>) (str_into v (ice_Credential r))
      else Some r)"

fun ice_elems :: "jval list \<Rightarrow> ice_server list \<Rightarrow> ice_server list option" where
  "ice_elems [] old = Some []"
| "ice_elems (v # vs) old =
     (case into_object ice_member v (case old of [] \<Rightarrow> zero_ice | x # _ \<Rightarrow> x) of
        None \<Rightarrow> None
      | Some x \<Rightarrow> map_option ((#) x) (ice_elems vs (tl old)))"

definition into_ice :: "jval \<Rightarrow> ice_slice \<Rightarrow> ice_slice option" where
  "into_ice v sl =
     (case v of
        JArr vs \<Rightarrow>
          if vs = [] then Some ([], [])
          else map_option (\<lambda>xs. (xs, drop (length xs) (fst sl @ snd sl))) (ice_elems vs (fst sl @ snd sl))
      | JNull \<Rightarrow> Some ([], [])
      | _ \<Rightarrow> None)"

definition client_member :: "string \<times> jval \<Rightarrow> client_conf \<Rightarrow> client_conf option" where
  "client_member kv r =
     (let k = to_lower (fst kv); v = snd kv in
      if k = ''media_server_url'' then map_option (\<lambda>x. r\<lparr>cc_MediaServerURL := x\<rparr>) (str_into v (cc_MediaServerURL r))
      else if k = ''service_name'' then map_option (\<lambda>x. r\<lparr>cc_ServiceName := x\<rparr>) (str_into v (cc_ServiceName r))
      else if k = ''ice_servers'' then map_option (\<lambda>x. r\<lparr>cc_IceServers := x\<rparr>) (into_ice v (cc_IceServers r))
      else Some r)"

definition conf_member :: "string \<times> jval \<Rightarrow> conference \<Rightarrow> conference option" where
  "conf_member kv r =
     (let k = to_lower (fst kv); v = snd kv in
      if k = ''room_id'' then map_option (\<lambda>x. r\<lparr>cf_RoomID := x\<rparr>) (str_into v (cf_RoomID r))
      else if k = ''peer_id'' then map_option (\<lambda>x. r\<lparr>cf_PeerID := x\<rparr>) (str_into v (cf_PeerID r))
      else if k = ''session_id'' then map_option (\<lambda>x. r\<lparr>cf_SessionID := x\<rparr>) (str_into v (cf_SessionID r))
      else if k = ''peer_session_id'' then map_option (\<lambda>x. r\<lparr>cf_PeerSessionID := x\<rparr>) (str_into v (cf_PeerSessionID r))
      else if k = ''uri'' then map_option (\<lambda>x. r\<lparr>cf_URI := x\<rparr>) (str_into v (cf_URI r))
      else if k = ''media_platform'' then map_option (\<lambda>x. r\<lparr>cf_MediaPlatform := x\<rparr>) (str_into v (cf_MediaPlatform r))
      else if k = ''credentials'' then map_option (\<lambda>x. r\<lparr>cf_Credentials := x\<rparr>) (str_into v (cf_Credentials r))
      else if k = ''ws_uri'' then map_option (\<lambda>x. r\<lparr>cf_WSURI := x\<rparr>) (str_into v (cf_WSURI r))
      else if k = ''connection_type'' then map_option (\<lambda>x. r\<lparr>cf_ConnectionType := x\<rparr>) (str_into v (cf_ConnectionType r))
      else if k = ''client_configuration'' then map_option (\<lambda>x. r\<lparr>cf_Client := x\<rparr>) (into_object client_member v (cf_Client r))
      else if k = ''ice_servers'' then map_option (\<lambda>x. r\<lparr>cf_IceServers := x\<rparr>) (into_ice v (cf_IceServers r))
      else Some r)"

definition unmarshal_conference :: "string \<Rightarrow> conference option" where
  "unmarshal_conference b = (case json_parse b of None \<Rightarrow> None | Some v \<Rightarrow> into_object conf_member v zero_conference)"

text \<open>The first TURN server of the answer: user, password and address.\<close>

type_synonym turn_creds = "string \<times> string \<times> string"

fun turn_urls :: "string list \<Rightarrow> string option" where
  "turn_urls [] = None"
| "turn_urls (raw # us) =
     (if \<not> isTurnURL raw then turn_urls us
      else case ya_parseTurnURL raw of Inl _ \<Rightarrow> turn_urls us | Inr addr \<Rightarrow> Some addr)"

fun turn_pool :: "ice_server list \<Rightarrow> turn_creds option" where
  "turn_pool [] = None"
| "turn_pool (s # ss) =
     (case turn_urls (ice_Urls s) of
        Some addr \<Rightarrow> Some (ice_Username s, ice_Credential s, addr)
      | None \<Rightarrow> turn_pool ss)"

definition turnFromConference :: "conference \<Rightarrow> turn_creds option" where
  "turnFromConference c =
     (case turn_pool (fst (cf_IceServers c)) of
        Some r \<Rightarrow> Some r
      | None \<Rightarrow> turn_pool (fst (cc_IceServers (cf_Client c))))"

subsection \<open>Searching a frame\<close>

text \<open>The first URL of a list of values that is a string and a usable TURN URL.\<close>

fun any_urls :: "any list \<Rightarrow> string option" where
  "any_urls [] = None"
| "any_urls (e # es) =
     (case e of
        AString s \<Rightarrow>
          (if \<not> isTurnURL s then any_urls es
           else case ya_parseTurnURL s of Inl _ \<Rightarrow> any_urls es | Inr addr \<Rightarrow> Some addr)
      | _ \<Rightarrow> any_urls es)"

definition entry_urls :: "any_map \<Rightarrow> any" where
  "entry_urls m =
     (case aget m ''urls'' of Some v \<Rightarrow> v | None \<Rightarrow> (case aget m ''url'' of Some v \<Rightarrow> v | None \<Rightarrow> ANil))"

definition tryICEEntry :: "any \<Rightarrow> turn_creds option" where
  "tryICEEntry v =
     (case v of
        AMap m \<Rightarrow>
          (let urls = entry_urls m; username = get_string m ''username''; credential = get_string m ''credential'' in
           if urls = ANil then None
           else if username = [] \<or> credential = [] then None
           else case urls of
             AString u \<Rightarrow>
               (if \<not> isTurnURL u then None
                else case ya_parseTurnURL u of Inl _ \<Rightarrow> None | Inr addr \<Rightarrow> Some (username, credential, addr))
           | ASlice us \<Rightarrow> map_option (\<lambda>addr. (username, credential, addr)) (any_urls us)
           | _ \<Rightarrow> None)
      | _ \<Rightarrow> None)"

fun first_entry :: "any list \<Rightarrow> turn_creds option" where
  "first_entry [] = None"
| "first_entry (e # es) = (case tryICEEntry e of Some r \<Rightarrow> Some r | None \<Rightarrow> first_entry es)"

text \<open>The members a map keeps: of several with one key, the last.\<close>

fun kept :: "(string \<times> 'a) list \<Rightarrow> (string \<times> 'a) list" where
  "kept [] = []"
| "kept ((k, v) # m) = (if k \<in> fst ` set m then kept m else (k, v) # kept m)"

fun first_hits :: "'a list list \<Rightarrow> 'a list" where
  "first_hits [] = []"
| "first_hits (x # xs) = (if x \<noteq> [] then x else first_hits xs)"

definition ice_keys :: "string list" where
  "ice_keys = [''iceServers'', ''ice_servers'', ''iceServer'', ''ice_server'']"

definition key_hits :: "(string \<times> 'a list) list \<Rightarrow> string \<Rightarrow> 'a list" where
  "key_hits ws k = (case aget ws k of Some h \<Rightarrow> h | None \<Rightarrow> [])"

fun walkForTurn :: "any \<Rightarrow> turn_creds list"
and walk_elems :: "any list \<Rightarrow> turn_creds list list"
and walk_members :: "any_map \<Rightarrow> (string \<times> turn_creds list) list" where
  "walkForTurn (ASlice xs) =
     (case first_entry xs of Some r \<Rightarrow> [r] | None \<Rightarrow> first_hits (walk_elems xs))"
| "walkForTurn (AMap m) =
     (let ws = walk_members m; hits = first_hits (map (key_hits ws) ice_keys) in
      if hits \<noteq> [] then hits
      else case tryICEEntry (AMap m) of Some r \<Rightarrow> [r] | None \<Rightarrow> concat (map snd (kept ws)))"
| "walkForTurn ANil = []"
| "walkForTurn (ABool b) = []"
| "walkForTurn (AFloat x) = []"
| "walkForTurn (AString s) = []"
| "walk_elems [] = []"
| "walk_elems (x # xs) = walkForTurn x # walk_elems xs"
| "walk_members [] = []"
| "walk_members ((k, v) # m) = (k, walkForTurn v) # walk_members m"

definition scanFrameForTurn :: "string \<Rightarrow> turn_creds list" where
  "scanFrameForTurn b = (case unmarshal_any b of None \<Rightarrow> [] | Some v \<Rightarrow> walkForTurn v)"

subsection \<open>The WebSocket\<close>

definition json_bool :: "bool \<Rightarrow> string" where "json_bool b = (if b then ''true'' else ''false'')"

text \<open>The hello frame; a map is printed with its keys in order.\<close>

definition hello_frame :: "string \<Rightarrow> string \<Rightarrow> conference \<Rightarrow> string" where
  "hello_frame helloUID sdkID conf =
     (let service = (if cc_ServiceName (cf_Client conf) = [] then ''telemost'' else cc_ServiceName (cf_Client conf));
          attrs = [(''description'', json_quote []), (''name'', json_quote ''Guest''), (''role'', json_quote ''SPEAKER'')]
      in json_object
          [(''hello'', json_object
             [(''capabilitiesOffer'', ''{}''),
              (''credentials'', json_quote (cf_Credentials conf)),
              (''participantAttributes'', json_object attrs),
              (''participantId'', json_quote (cf_PeerID conf)),
              (''participantMeta'', json_object (attrs @ [(''sendAudio'', json_bool False), (''sendVideo'', json_bool False)])),
              (''roomId'', json_quote (cf_RoomID conf)),
              (''sdkInfo'', json_object [(''implementation'', json_quote ''browser''), (''version'', json_quote ''1.0.0'')]),
              (''sdkInitializationId'', json_quote sdkID),
              (''sendAudio'', json_bool False), (''sendSharing'', json_bool False), (''sendVideo'', json_bool False),
              (''serviceName'', json_quote service)]),
           (''uid'', json_quote helloUID)])"

definition ack_frame :: "string \<Rightarrow> string" where
  "ack_frame uid =
     json_object
       [(''ack'', json_object [(''status'', json_object [(''code'', json_quote ''OK''), (''description'', json_quote [])])]),
        (''uid'', json_quote uid)]"

text \<open>The probe of a frame: its uid, and whether it has an acknowledgement of any value. Decoding
  errors are ignored, and a field of a wrong type stays as it was.\<close>

definition probe_member :: "string \<times> jval \<Rightarrow> string \<times> bool \<Rightarrow> string \<times> bool" where
  "probe_member kv pr =
     (let k = to_lower (fst kv) in
      if k = ''uid'' then (case snd kv of JStr x \<Rightarrow> (x, snd pr) | _ \<Rightarrow> pr)
      else if k = ''ack'' then (fst pr, True) else pr)"

definition probe_frame :: "string \<Rightarrow> string \<times> bool" where
  "probe_frame raw = (case json_parse raw of Some (JObj kvs) \<Rightarrow> fold probe_member kvs ([], False) | _ \<Rightarrow> ([], False))"

definition needs_ack :: "string \<Rightarrow> string \<Rightarrow> string option" where
  "needs_ack helloUID raw =
     (case probe_frame raw of (uid, ack) \<Rightarrow> if uid \<noteq> [] \<and> \<not> ack \<and> uid \<noteq> helloUID then Some uid else None)"

text \<open>One turn of the read loop: the clock, what the socket gives, and which of the results a search
  may return is taken.\<close>

record ws_turn =
  wt_now :: instant
  wt_read :: "string res"
  wt_pick :: nat

text \<open>The read loop: the result, or \<open>None\<close> while the loop has more to read than the turns given, and
  the frames written. A failed write of an acknowledgement only gives a log line.\<close>

fun ws_loop :: "instant \<Rightarrow> string \<Rightarrow> ws_turn list \<Rightarrow> turn_creds res option \<times> string list" where
  "ws_loop deadline helloUID [] = (None, [])"
| "ws_loop deadline helloUID (t # ts) =
     (if \<not> wt_now t < deadline then (Some (Inl (errors_New ''ws: no turn ice_servers within deadline'')), [])
      else case wt_read t of
        Inl e \<Rightarrow> (Some (Inl (wrapf ''ws read: '' e)), [])
      | Inr raw \<Rightarrow>
          (let acks = (case needs_ack helloUID raw of Some uid \<Rightarrow> [ack_frame uid] | None \<Rightarrow> []);
               hits = scanFrameForTurn raw
           in if hits \<noteq> [] then (Some (Inr (hits ! (wt_pick t mod length hits))), acks)
              else (case ws_loop deadline helloUID ts of (r, w) \<Rightarrow> (r, acks @ w))))"

record ws_script =
  wss_dial :: "go_error option"
  wss_hello :: "go_error option"
  wss_start :: instant
  wss_turns :: "ws_turn list"

definition wsDeadline :: duration where "wsDeadline = 15 * second"

definition wsFetchTurn :: "string \<Rightarrow> string \<Rightarrow> conference \<Rightarrow> ws_script \<Rightarrow> turn_creds res option \<times> string list" where
  "wsFetchTurn helloUID sdkID conf sc =
     (if cc_MediaServerURL (cf_Client conf) = [] then (Some (Inl (errors_New ''media_server_url is empty'')), [])
      else case wss_dial sc of
        Some e \<Rightarrow> (Some (Inl (wrapf ''ws dial: '' e)), [])
      | None \<Rightarrow>
          (case wss_hello sc of
             Some e \<Rightarrow> (Some (Inl (wrapf ''ws write hello: '' e)), [hello_frame helloUID sdkID conf])
           | None \<Rightarrow>
               (case ws_loop (wss_start sc + wsDeadline) helloUID (wss_turns sc) of
                  (r, w) \<Rightarrow> (r, hello_frame helloUID sdkID conf # w))))"

subsection \<open>The request\<close>

definition cloudAPIHost :: string where "cloudAPIHost = ''https://cloud-api.yandex.ru''"

text \<open>\<open>url.PathEscape\<close>: what a path segment need not escape.\<close>

definition path_plain :: "char \<Rightarrow> bool" where
  "path_plain c \<longleftrightarrow> url_unreserved c \<or> c \<in> set ''$&+:=@''"

definition PathEscape :: "string \<Rightarrow> string" where
  "PathEscape s = concat (map (\<lambda>c. if path_plain c then [c]
     else [CHR ''%'', upper_hex ! (of_char c div 16), upper_hex ! (of_char c mod 16)]) s)"

definition conference_url :: "string \<Rightarrow> string \<Rightarrow> string" where
  "conference_url base0 callID =
     trim_right (if base0 = [] then cloudAPIHost else base0) (CHR ''/'') @
     ''/telemost_front/v2/telemost/conferences/'' @ PathEscape (''https://telemost.yandex.ru/j/'' @ callID) @
     ''/connection?next_gen_media_platform_allowed=false''"

definition ya_bytesPreview :: "string \<Rightarrow> string" where
  "ya_bytesPreview b =
     (if int (length b) \<le> 200 then trim_space b else trim_space (take 200 b) @ ''...(truncated)'')"

text \<open>The members of an API error, as far as they decode.\<close>

definition api_error_member :: "string \<times> jval \<Rightarrow> string \<times> string \<Rightarrow> string \<times> string" where
  "api_error_member kv ed =
     (case snd kv of
        JStr x \<Rightarrow>
          (let k = to_lower (fst kv) in
           if k = ''error'' then (x, snd ed) else if k = ''description'' then (fst ed, x) else ed)
      | _ \<Rightarrow> ed)"

definition api_error :: "string \<Rightarrow> string \<times> string" where
  "api_error b = (case json_parse b of Some (JObj kvs) \<Rightarrow> fold api_error_member kvs ([], []) | _ \<Rightarrow> ([], []))"

definition ya_auth_failure :: "string \<Rightarrow> go_error" where
  "ya_auth_failure suf = GoError (''wgturn: credentials rejected (auth failure)'' @ suf) [ErrAuthFailure]"

text \<open>The answer of the first step: its conference or an error. \<open>jsonErr\<close> is the decoder's error.\<close>

definition step1_result :: "(string \<Rightarrow> string) \<Rightarrow> http_outcome \<Rightarrow> conference res" where
  "step1_result jsonErr out =
     (case out of
        BuildErr e \<Rightarrow> Inl (wrapf ''build step1 request: '' e)
      | HttpErr e \<Rightarrow> Inl (wrapf ''step1 http: '' e)
      | HttpResp st stt (Inl e) \<Rightarrow> Inl (wrapf ''step1 read: '' e)
      | HttpResp st stt (Inr b0) \<Rightarrow>
          (let b = limit_read b0 in
           if st = 200 then
             (case unmarshal_conference b of
                None \<Rightarrow> Inl (errors_New (''step1 decode: '' @ jsonErr b @ '' (body='' @ ya_bytesPreview b @ '')''))
              | Some c \<Rightarrow> Inr c)
           else if st = 404 then
             (case api_error b of (err, desc) \<Rightarrow>
                Inl (ya_auth_failure ('': telemost: '' @ err @ '' '' @ [CHR 0xE2, CHR 0x80, CHR 0x94] @ '' '' @ desc)))
           else if st = 401 \<or> st = 403
           then Inl (ya_auth_failure ('': HTTP '' @ show_int st @ '' '' @ ya_bytesPreview b))
           else Inl (errors_New (''step1 HTTP '' @ show_int st @ '': '' @ ya_bytesPreview b))))"

text \<open>What a run of \<open>fetchTurn\<close> meets: the HTTP client on the request's URL, the socket on the
  conference, and the random ids.\<close>

record ya_env =
  ye_http :: "string \<Rightarrow> http_outcome"
  ye_ws :: "conference \<Rightarrow> ws_script"
  ye_helloUID :: string
  ye_sdkID :: string
  ye_jsonErr :: "string \<Rightarrow> string"

definition ya_fetchTurn :: "ya_env option \<Rightarrow> string \<Rightarrow> string \<Rightarrow> turn_creds res option \<times> string list" where
  "ya_fetchTurn hc base callID =
     (case hc of
        None \<Rightarrow> (Some (Inl (errors_New ''yandex: http client is nil'')), [])
      | Some env \<Rightarrow>
          (case step1_result (ye_jsonErr env) (ye_http env (conference_url base callID)) of
             Inl e \<Rightarrow> (Some (Inl e), [])
           | Inr conf \<Rightarrow>
               (case turnFromConference conf of
                  Some r \<Rightarrow> (Some (Inr r), [])
                | None \<Rightarrow>
                    if cc_MediaServerURL (cf_Client conf) = []
                    then (Some (Inl (errors_New ''yandex: step1 missing client_configuration.media_server_url and no inline TURN creds'')), [])
                    else (case wsFetchTurn (ye_helloUID env) (ye_sdkID env) conf (ye_ws env conf) of
                            (None, w) \<Rightarrow> (None, w)
                          | (Some (Inl e), w) \<Rightarrow> (Some (Inl (wrapf ''step2 ws: '' e)), w)
                          | (Some (Inr r), w) \<Rightarrow> (Some (Inr r), w)))))"

subsection \<open>The provider\<close>

record ya_provider =
  yp_http :: "ya_env option"
  yp_cloudAPI :: string

type_synonym ya_option = "ya_provider \<Rightarrow> ya_provider"

definition ya_WithHTTPClient :: "ya_env option \<Rightarrow> ya_option" where
  "ya_WithHTTPClient c p = p\<lparr>yp_http := c\<rparr>"

definition ya_WithProtector :: "('sp option \<Rightarrow> ya_env) \<Rightarrow> 'sp option \<Rightarrow> ya_option" where
  "ya_WithProtector dflt sp p = p\<lparr>yp_http := Some (dflt sp)\<rparr>"

definition ya_WithHostsForTest :: "string \<Rightarrow> ya_option" where
  "ya_WithHostsForTest cloudAPI p = (if cloudAPI \<noteq> [] then p\<lparr>yp_cloudAPI := cloudAPI\<rparr> else p)"

definition ya_New :: "('sp option \<Rightarrow> ya_env) \<Rightarrow> ya_option list \<Rightarrow> ya_provider" where
  "ya_New dflt opts =
     (let p1 = fold (\<lambda>o' p. o' p) opts \<lparr>yp_http = None, yp_cloudAPI = cloudAPIHost\<rparr>
      in case yp_http p1 of None \<Rightarrow> p1\<lparr>yp_http := Some (dflt None)\<rparr> | Some _ \<Rightarrow> p1)"

definition ya_Fetch :: "ya_provider \<Rightarrow> string \<Rightarrow> credentials res option \<times> string list" where
  "ya_Fetch p hint =
     (case ya_extractCallID hint of
        Inl e \<Rightarrow> (Some (Inl (wrapf (''yandex: parse hint '' @ quoted hint @ '': '') e)), [])
      | Inr callID \<Rightarrow>
          (case ya_fetchTurn (yp_http p) (yp_cloudAPI p) callID of
             (None, w) \<Rightarrow> (None, w)
           | (Some (Inl e), w) \<Rightarrow> (Some (Inl e), w)
           | (Some (Inr (user, pass, addr)), w) \<Rightarrow>
               (Some (Inr \<lparr>Username = user, Password = pass, ServerAddr = addr, ExpiresIn = 0\<rparr>), w)))"

section \<open>The search finds what there is\<close>

text \<open>The parts of a value: the value, the elements of its slices and the members of its maps.\<close>

inductive part_of :: "any \<Rightarrow> any \<Rightarrow> bool" where
  self: "part_of v v"
| elem: "x \<in> set xs \<Longrightarrow> part_of x w \<Longrightarrow> part_of (ASlice xs) w"
| member: "aget m k = Some x \<Longrightarrow> part_of x w \<Longrightarrow> part_of (AMap m) w"

inductive_simps part_of_simps:
  "part_of (ASlice xs) w" "part_of (AMap m) w" "part_of ANil w" "part_of (ABool b) w" "part_of (AFloat x) w" "part_of (AString s) w"

lemma walk_elems_map: "walk_elems xs = map walkForTurn xs"
  by (induction xs) simp_all

lemma walk_members_map: "walk_members m = map (\<lambda>(k, v). (k, walkForTurn v)) m"
  by (induction m) auto

lemma aget_map: "aget (map (\<lambda>(k, v). (k, f v)) m) k = map_option f (aget m k)"
  by (simp add: aget_def rev_map map_of_map)

lemma kept_iff: "(k, v) \<in> set (kept m) \<longleftrightarrow> aget m k = Some v"
proof (induction m rule: kept.induct)
  case (2 j u m)
  have dom: "j \<in> fst ` set m \<longleftrightarrow> aget m j \<noteq> None" by (simp add: aget_def map_of_eq_None_iff)
  have "aget ((j, u) # m) k = (case aget m k of None \<Rightarrow> if k = j then Some u else None | Some x \<Rightarrow> Some x)"
    by (auto simp: aget_def map_add_def split: option.splits)
  with 2 dom show ?case by (cases "aget m j"; cases "aget m k") auto
qed (simp add: aget_def)

lemma first_hits_in: "r \<in> set (first_hits xs) \<Longrightarrow> \<exists>x \<in> set xs. r \<in> set x"
  by (induction xs) (auto split: if_splits)

lemma first_hits_Nil: "first_hits xs = [] \<longleftrightarrow> (\<forall>x \<in> set xs. x = [])"
  by (induction xs) auto

lemma first_entry_Some: "first_entry xs = Some r \<Longrightarrow> \<exists>x \<in> set xs. tryICEEntry x = Some r"
  by (induction xs) (auto split: option.splits)

lemma first_entry_None: "first_entry xs = None \<longleftrightarrow> (\<forall>x \<in> set xs. tryICEEntry x = None)"
  by (induction xs) (auto split: option.splits)

lemma tryICE_map: "tryICEEntry v = Some r \<Longrightarrow> \<exists>m. v = AMap m"
  by (auto simp: tryICEEntry_def split: any.splits)

definition finds :: "any \<Rightarrow> bool" where
  "finds v \<longleftrightarrow> (\<forall>r \<in> set (walkForTurn v). \<exists>w. part_of v w \<and> tryICEEntry w = Some r) \<and>
     (walkForTurn v = [] \<longrightarrow> (\<forall>w. part_of v w \<longrightarrow> tryICEEntry w = None))"

lemma finds_slice:
  assumes IH: "\<And>x. x \<in> set xs \<Longrightarrow> finds x"
  shows "finds (ASlice xs)"
proof (cases "first_entry xs")
  case (Some r)
  then have "\<exists>w. part_of (ASlice xs) w \<and> tryICEEntry w = Some r"
    using first_entry_Some by (blast intro: part_of.intros)
  with Some show ?thesis by (simp add: finds_def)
next
  case None
  have hits: "walkForTurn (ASlice xs) = first_hits (map walkForTurn xs)" using None by (simp add: walk_elems_map)
  have "\<exists>w. part_of (ASlice xs) w \<and> tryICEEntry w = Some r" if r: "r \<in> set (first_hits (map walkForTurn xs))" for r
  proof -
    from first_hits_in [OF r] obtain x where "x \<in> set xs" "r \<in> set (walkForTurn x)" by auto
    with IH show ?thesis unfolding finds_def by (blast intro: part_of.intros)
  qed
  moreover have "tryICEEntry w = None" if "first_hits (map walkForTurn xs) = []" "part_of (ASlice xs) w" for w
    using that IH by (auto simp: part_of_simps first_hits_Nil finds_def tryICEEntry_def)
  ultimately show ?thesis unfolding finds_def hits by blast
qed

lemma finds_map:
  assumes IH: "\<And>k x. aget m k = Some x \<Longrightarrow> finds x"
  shows "finds (AMap m)"
proof -
  let ?ws = "map (\<lambda>(k, v). (k, walkForTurn v)) m"
  have key: "key_hits ?ws k = (case aget m k of Some x \<Rightarrow> walkForTurn x | None \<Rightarrow> [])" for k
    by (simp add: key_hits_def aget_map split: option.splits)
  have mem: "h \<in> snd ` set (kept ?ws) \<longleftrightarrow> (\<exists>k x. aget m k = Some x \<and> h = walkForTurn x)" for h
  proof -
    have "h \<in> snd ` set (kept ?ws) \<longleftrightarrow> (\<exists>k. (k, h) \<in> set (kept ?ws))" by force
    then show ?thesis by (simp only: kept_iff aget_map map_option_eq_Some) blast
  qed
  have sub: "\<exists>w. part_of (AMap m) w \<and> tryICEEntry w = Some r" if "aget m k = Some x" "r \<in> set (walkForTurn x)" for k x r
    using that IH unfolding finds_def by (blast intro: part_of.intros)
  have walk: "walkForTurn (AMap m) =
     (if first_hits (map (key_hits ?ws) ice_keys) \<noteq> [] then first_hits (map (key_hits ?ws) ice_keys)
      else case tryICEEntry (AMap m) of Some r \<Rightarrow> [r] | None \<Rightarrow> concat (map snd (kept ?ws)))"
    by (simp add: walk_members_map Let_def)
  have sound: "\<exists>w. part_of (AMap m) w \<and> tryICEEntry w = Some r" if r: "r \<in> set (walkForTurn (AMap m))" for r
  proof (cases "first_hits (map (key_hits ?ws) ice_keys) \<noteq> []")
    case True
    with r obtain k where "r \<in> set (key_hits ?ws k)" unfolding walk using first_hits_in by fastforce
    then obtain x where "aget m k = Some x" "r \<in> set (walkForTurn x)" unfolding key by (cases "aget m k") auto
    then show ?thesis by (rule sub)
  next
    case False
    show ?thesis
    proof (cases "tryICEEntry (AMap m)")
      case None
      with r False have "r \<in> \<Union> (set ` snd ` set (kept ?ws))" unfolding walk by auto
      then obtain h where h: "h \<in> snd ` set (kept ?ws)" "r \<in> set h" by blast
      obtain k x where "aget m k = Some x" "h = walkForTurn x" using iffD1 [OF mem h(1)] by blast
      with h(2) have "aget m k = Some x" "r \<in> set (walkForTurn x)" by simp_all
      then show ?thesis by (rule sub)
    next
      case (Some r')
      with r False show ?thesis unfolding walk by (auto intro: part_of.self)
    qed
  qed
  have "tryICEEntry w = None" if e: "walkForTurn (AMap m) = []" and p: "part_of (AMap m) w" for w
  proof -
    from e have none: "first_hits (map (key_hits ?ws) ice_keys) = []" "tryICEEntry (AMap m) = None" "concat (map snd (kept ?ws)) = []"
      unfolding walk by (auto split: if_splits option.splits)
    have "walkForTurn x = []" if "aget m k = Some x" for k x
      using none(3) mem [of "walkForTurn x"] that by auto
    with p none(2) IH show ?thesis by (auto simp: part_of_simps finds_def)
  qed
  with sound show ?thesis unfolding finds_def by blast
qed

lemma finds_any: "finds v"
proof (induction v)
  case (ASlice xs)
  then show ?case by (rule finds_slice)
next
  case (AMap m)
  have "finds x" if "aget m k = Some x" for k x
    using AMap [of "(k, x)" x] aget_in [OF that] by simp
  then show ?case by (rule finds_map)
qed (simp_all add: finds_def part_of_simps tryICEEntry_def)

section \<open>Addresses\<close>

definition addr_ok :: "string \<Rightarrow> bool" where
  "addr_ok a \<longleftrightarrow> (\<exists>g p k. split_host_port a = Some (g, p) \<and> g \<noteq> [] \<and> atoi p = Some k \<and> 1 \<le> k \<and> k \<le> 65535)"

lemma parse_addr_ok: "ya_parseTurnURL u = Inr a \<Longrightarrow> addr_ok a"
  by (auto simp: ya_parseTurnURL_def addr_ok_def Let_def split: if_splits option.splits prod.splits)

lemma any_urls_ok: "any_urls us = Some a \<Longrightarrow> \<exists>u. AString u \<in> set us \<and> isTurnURL u \<and> ya_parseTurnURL u = Inr a"
proof (induction us)
  case (Cons e es)
  show ?case
  proof (cases "\<exists>s. e = AString s \<and> isTurnURL s \<and> ya_parseTurnURL s = Inr a")
    case False
    with Cons.prems have "any_urls es = Some a" by (auto split: any.splits if_splits sum.splits)
    with Cons.IH show ?thesis by auto
  qed auto
qed simp

text \<open>What an entry must have: a user, a password, and a TURN URL, alone or in a slice, with a host and a
  port.\<close>

lemma tryICE_result:
  assumes "tryICEEntry v = Some (u, p, a)"
  shows "u \<noteq> [] \<and> p \<noteq> [] \<and> addr_ok a"
proof -
  obtain m where v: "v = AMap m" using tryICE_map [OF assms] by blast
  from assms [unfolded v tryICEEntry_def] have up: "u = get_string m ''username''" "p = get_string m ''credential''" "u \<noteq> []" "p \<noteq> []"
    and a: "(\<exists>s. entry_urls m = AString s \<and> ya_parseTurnURL s = Inr a) \<or> (\<exists>us. entry_urls m = ASlice us \<and> any_urls us = Some a)"
    by (auto simp: Let_def split: if_splits any.splits sum.splits)
  from a have "addr_ok a" using parse_addr_ok any_urls_ok by blast
  with up show ?thesis by simp
qed

lemma turn_urls_ok: "turn_urls us = Some a \<Longrightarrow> addr_ok a"
  by (induction us) (auto split: if_splits sum.splits dest: parse_addr_ok)

lemma turn_pool_ok: "turn_pool ss = Some (u, p, a) \<Longrightarrow> addr_ok a"
  by (induction ss) (auto split: option.splits dest: turn_urls_ok)

lemma scan_result:
  assumes "(u, p, a) \<in> set (scanFrameForTurn raw)"
  shows "u \<noteq> [] \<and> p \<noteq> [] \<and> addr_ok a"
proof -
  from assms obtain v where "(u, p, a) \<in> set (walkForTurn v)" by (auto simp: scanFrameForTurn_def split: option.splits)
  with finds_any [of v] obtain w where "tryICEEntry w = Some (u, p, a)" unfolding finds_def by blast
  then show ?thesis by (rule tryICE_result)
qed

section \<open>Properties\<close>

text \<open>C23: the search through a frame finds credentials exactly when some object in the frame, at any
  depth, is a usable entry: it has a user, a password and a TURN URL with a host and a port from 1
  to 65535. Every result it may return, whatever the order in which Go visits the maps, is that of
  such an entry.\<close>

theorem frame_search_exact:
  "(walkForTurn v \<noteq> [] \<longleftrightarrow> (\<exists>w r. part_of v w \<and> tryICEEntry w = Some r)) \<and>
   (\<forall>r \<in> set (walkForTurn v). \<exists>w. part_of v w \<and> tryICEEntry w = Some r) \<and>
   (\<forall>w u p a. tryICEEntry w = Some (u, p, a) \<longrightarrow> u \<noteq> [] \<and> p \<noteq> [] \<and> addr_ok a)"
proof -
  have f: "finds v" by (rule finds_any)
  have "\<exists>w r. part_of v w \<and> tryICEEntry w = Some r" if "walkForTurn v \<noteq> []"
  proof -
    from that obtain r where "r \<in> set (walkForTurn v)" by (meson list.set_sel(1))
    with f show ?thesis unfolding finds_def by blast
  qed
  with f tryICE_result show ?thesis unfolding finds_def by fastforce
qed

theorem frame_search_exact_witness:
  "walkForTurn (AMap [(''x'', ASlice [ABool True, AMap [(''urls'', AString ''turn:h:1''), (''username'', AString ''u''), (''credential'', AString ''p'')]])]) \<noteq> []
   \<and> addr_ok ''h:1''"
proof -
  let ?e = "AMap [(''urls'', AString ''turn:h:1''), (''username'', AString ''u''), (''credential'', AString ''p'')]"
  let ?v = "AMap [(''x'', ASlice [ABool True, ?e])]"
  have t: "tryICEEntry ?e = Some (''u'', ''p'', ''h:1'')" by code_simp
  have "part_of (ASlice [ABool True, ?e]) ?e" by (rule part_of.elem [of ?e]) (simp_all add: part_of.self)
  then have "part_of ?v ?e" by (rule part_of.member [rotated]) (simp add: aget_def)
  with t frame_search_exact [of ?v] show ?thesis by blast
qed

text \<open>The frames that are acknowledged before the loop returns.\<close>

fun acked :: "instant \<Rightarrow> string \<Rightarrow> ws_turn list \<Rightarrow> string list" where
  "acked deadline h [] = []"
| "acked deadline h (t # ts) =
     (if \<not> wt_now t < deadline then []
      else case wt_read t of
        Inl e \<Rightarrow> []
      | Inr raw \<Rightarrow> (case needs_ack h raw of Some uid \<Rightarrow> [uid] | None \<Rightarrow> []) @
          (if scanFrameForTurn raw \<noteq> [] then [] else acked deadline h ts))"

lemma ws_loop_acks: "snd (ws_loop deadline h ts) = map ack_frame (acked deadline h ts)"
  by (induction ts) (auto simp: Let_def split: sum.splits option.splits prod.splits)

lemma ws_loop_ends: "t \<in> set ts \<Longrightarrow> \<not> wt_now t < deadline \<Longrightarrow> fst (ws_loop deadline h ts) \<noteq> None"
  by (induction ts) (auto simp: Let_def split: sum.splits prod.splits)

lemma ws_loop_Inr:
  "fst (ws_loop deadline h ts) = Some (Inr c) \<Longrightarrow>
   \<exists>pre t post raw. ts = pre @ t # post \<and> wt_now t < deadline \<and> wt_read t = Inr raw \<and> c \<in> set (scanFrameForTurn raw) \<and>
     (\<forall>s \<in> set pre. \<exists>b. wt_read s = Inr b \<and> scanFrameForTurn b = [])"
proof (induction ts)
  case (Cons t ts)
  from Cons.prems have now: "wt_now t < deadline" by (auto split: if_splits)
  from Cons.prems now obtain raw where raw: "wt_read t = Inr raw" by (auto split: sum.splits)
  show ?case
  proof (cases "scanFrameForTurn raw = []")
    case False
    with Cons.prems now raw have "c = scanFrameForTurn raw ! (wt_pick t mod length (scanFrameForTurn raw))" by (simp add: Let_def)
    with False have "c \<in> set (scanFrameForTurn raw)" by simp
    with now raw show ?thesis by (intro exI [of _ "[]"] exI [of _ t] exI [of _ ts] exI [of _ raw]) simp
  next
    case True
    with Cons.prems now raw have "fst (ws_loop deadline h ts) = Some (Inr c)" by (simp add: Let_def split: prod.splits)
    from Cons.IH [OF this] obtain pre t' post raw' where
      *: "ts = pre @ t' # post" "wt_now t' < deadline" "wt_read t' = Inr raw'" "c \<in> set (scanFrameForTurn raw')"
        "\<forall>s \<in> set pre. \<exists>b. wt_read s = Inr b \<and> scanFrameForTurn b = []" by blast
    with raw True show ?thesis by (intro exI [of _ "t # pre"] exI [of _ t'] exI [of _ post] exI [of _ raw']) simp
  qed
qed simp



lemma ya_New_client: "\<exists>env. yp_http (ya_New dflt opts) = Some env"
  unfolding ya_New_def Let_def by (simp split: option.split)

lemma ya_fetchTurn_ok:
  assumes "ya_fetchTurn hc base i = (Some (Inr (u, p, a)), w)"
  shows "addr_ok a"
proof -
  obtain env where hc: "hc = Some env" using assms by (cases hc) (auto simp: ya_fetchTurn_def)
  obtain conf where conf: "step1_result (ye_jsonErr env) (ye_http env (conference_url base i)) = Inr conf"
    using assms hc by (auto simp: ya_fetchTurn_def split: sum.splits)
  show ?thesis
  proof (cases "turnFromConference conf")
    case (Some r)
    with assms hc conf have "turnFromConference conf = Some (u, p, a)" by (simp add: ya_fetchTurn_def)
    then show ?thesis using turn_pool_ok by (auto simp: turnFromConference_def split: option.splits)
  next
    case None
    let ?ws = "wsFetchTurn (ye_helloUID env) (ye_sdkID env) conf (ye_ws env conf)"
    from assms hc conf None have "fst ?ws = Some (Inr (u, p, a))"
      by (auto simp: ya_fetchTurn_def split: if_splits prod.splits option.splits sum.splits)
    then have "\<exists>dl ts. fst (ws_loop dl (ye_helloUID env) ts) = Some (Inr (u, p, a))"
      by (auto simp: wsFetchTurn_def split: if_splits option.splits prod.splits) (metis fst_conv)
    then obtain raw where "(u, p, a) \<in> set (scanFrameForTurn raw)" using ws_loop_Inr by blast
    then show ?thesis using scan_result by blast
  qed
qed

text \<open>C25: what a \<open>Fetch\<close> of the Telemost provider returns. Credentials always have an address with a
  host and a port from 1 to 65535; a hint that is no Telemost link gives \<open>ErrInvalidLink\<close> and an
  answer 401, 403 or 404 gives \<open>ErrAuthFailure\<close>, both without a word to the media server.\<close>

theorem telemost_fetch_outcomes:
  "(\<forall>c w. ya_Fetch (ya_New dflt opts) hint = (Some (Inr c), w) \<longrightarrow> addr_ok (ServerAddr c)) \<and>
   (is_err (ya_extractCallID hint) \<longrightarrow>
      (\<exists>e. ya_Fetch (ya_New dflt opts) hint = (Some (Inl e), []) \<and> errors_Is e ErrYandexInvalidLink)) \<and>
   (\<forall>i env st stt b. ya_extractCallID hint = Inr i \<and> yp_http (ya_New dflt opts) = Some env \<and>
      ye_http env (conference_url (yp_cloudAPI (ya_New dflt opts)) i) = HttpResp st stt (Inr b) \<and> st \<in> {401, 403, 404} \<longrightarrow>
      (\<exists>e. ya_Fetch (ya_New dflt opts) hint = (Some (Inl e), []) \<and> errors_Is e ErrAuthFailure))"
proof (intro conjI allI impI)
  fix c w assume f: "ya_Fetch (ya_New dflt opts) hint = (Some (Inr c), w)"
  then obtain i where i: "ya_extractCallID hint = Inr i" by (auto simp: ya_Fetch_def split: sum.splits)
  obtain u p a where t: "ya_fetchTurn (yp_http (ya_New dflt opts)) (yp_cloudAPI (ya_New dflt opts)) i = (Some (Inr (u, p, a)), w)"
    and c: "ServerAddr c = a"
    using f i by (auto simp: ya_Fetch_def split: prod.splits option.splits sum.splits)
  show "addr_ok (ServerAddr c)" unfolding c by (rule ya_fetchTurn_ok [OF t])
next
  assume "is_err (ya_extractCallID hint)"
  then obtain e where "ya_extractCallID hint = Inl e" by (auto simp: is_err_def split: sum.splits)
  moreover from this have "errors_Is e ErrYandexInvalidLink"
    by (auto simp: ya_extractCallID_def ya_invalid_def errors_Is_def Let_def dest: after_marker_Inl split: if_splits)
  ultimately show "\<exists>e. ya_Fetch (ya_New dflt opts) hint = (Some (Inl e), []) \<and> errors_Is e ErrYandexInvalidLink"
    by (simp add: ya_Fetch_def)
next
  fix i env st stt b
  assume a: "ya_extractCallID hint = Inr i \<and> yp_http (ya_New dflt opts) = Some env \<and>
      ye_http env (conference_url (yp_cloudAPI (ya_New dflt opts)) i) = HttpResp st stt (Inr b) \<and> st \<in> {401, 403, 404}"
  then have "\<exists>e. step1_result (ye_jsonErr env) (HttpResp st stt (Inr b)) = Inl e \<and> errors_Is e ErrAuthFailure"
    by (auto simp: step1_result_def ya_auth_failure_def errors_Is_def Let_def split: prod.splits)
  with a show "\<exists>e. ya_Fetch (ya_New dflt opts) hint = (Some (Inl e), []) \<and> errors_Is e ErrAuthFailure"
    by (auto simp: ya_Fetch_def ya_fetchTurn_def)
qed

definition refusing_env :: ya_env where
  "refusing_env = \<lparr>ye_http = (\<lambda>u. HttpResp 403 ''Forbidden'' (Inr ''no'')),
     ye_ws = (\<lambda>c. \<lparr>wss_dial = None, wss_hello = None, wss_start = 0, wss_turns = []\<rparr>), ye_helloUID = ''h'', ye_sdkID = ''s'', ye_jsonErr = id\<rparr>"

theorem telemost_fetch_outcomes_witness:
  "\<exists>e. ya_Fetch (ya_New (\<lambda>sp :: unit option. refusing_env) []) ''telemost:12345'' = (Some (Inl e), []) \<and> errors_Is e ErrAuthFailure"
proof -
  have i: "ya_extractCallID ''telemost:12345'' = Inr ''12345''" by code_simp
  have h: "yp_http (ya_New (\<lambda>sp :: unit option. refusing_env) []) = Some refusing_env" by (simp add: ya_New_def)
  have r: "ye_http refusing_env u = HttpResp 403 ''Forbidden'' (Inr ''no'')" for u by (simp add: refusing_env_def)
  from telemost_fetch_outcomes [of "\<lambda>sp :: unit option. refusing_env" "[]" "''telemost:12345''"] i h r
  show ?thesis by blast
qed

end
