(* ===== verification/Spec2Isabelle.thy ===== *)
theory Spec2Isabelle
  imports Kernel_Bind Tun_Memory Cli_Commands Chrome_Extract Cdp_Solve Vk_Transport Vk_Api Yandex_Api
begin

text \<open>
  Verification of wgturn-core: WireGuard packets carried over the TURN servers of a video call service.

  \<^bold>\<open>The program.\<close> A client's tunnel (\<open>pkg/wgturn\<close>) owns a hub (\<open>internal/proxy\<close>) that takes packets
  from a local UDP socket and deals them out to up to 255 streams. A stream gets TURN credentials
  from a cache (\<open>internal/creds\<close>), which asks a provider (\<open>pkg/wgturn/provider/vk\<close> or \<open>yandex\<close>), dials the
  server over the TURN relay and DTLS, and opens with a 17-byte preamble (\<open>internal/framing\<close>). The
  server (\<open>pkg/wgturnsrv\<close>) puts the streams of one session id together and moves packets between them
  and one backend. The VK provider may have to solve a captcha, with a person's help or by driving a browser
  (\<open>captchasolve\<close>). Around this stand the parser of configuration files (\<open>pkg/wgconf\<close>), the embedded
  WireGuard kernel (\<open>pkg/wgkernel\<close>), the administration of a server's peers (\<open>pkg/wgadmin\<close>), share URLs
  (\<open>pkg/wgshare\<close>) and the command line tool (\<open>cmd/wgturn-cli\<close>) that puts all of it together.

  \<^bold>\<open>Theories and sources.\<close> Definitions keep the names of the code; a prefix marks a name that several
  packages use (\<open>srv_\<close>, \<open>share_\<close>, \<open>vk_\<close>, \<open>ya_\<close>, \<open>cdp_\<close>).
  \<^item> \<open>Wgt_Prelude\<close>, \<open>Go_Strings\<close>, \<open>Go_Hex\<close>, \<open>Go_Base64\<close>, \<open>Go_Time\<close>, \<open>Go_Float\<close>, \<open>Go_Json\<close>, \<open>Go_Any\<close>, \<open>Go_Url\<close>,
    \<open>Url_Parse\<close>, \<open>Go_Path\<close>, \<open>Go_Http\<close>, \<open>Netip\<close>, \<open>Netip_Text\<close>: what the code uses of Go's library, with the round trips
    of its printers and readers. Errors are a text with the chain of sentinels \<open>errors.Is\<close> sees; a
    fallible function returns \<open>go_error + 'a\<close>.
  \<^item> \<open>Framing\<close>: \<open>internal/framing\<close>. The preamble read back from any chunks of bytes.
  \<^item> \<open>Creds_Cache\<close>: \<open>internal/creds/cache.go\<close>, entries behind pointers. The locale \<open>cred_groups\<close> is the
    contract of a map from groups to entries; the cache implements it.
  \<^item> \<open>Proxy_Hub\<close>: \<open>internal/proxy\<close>. Scheduler, transmit queue (the locale \<open>lossy_fifo\<close> of \<open>Lossy_Fifo\<close>),
    watchdog, one connection attempt, reconnection.
  \<^item> \<open>Turn_Tunnel\<close>: \<open>pkg/wgturn\<close>. Configuration, validation and the tunnel's lifecycle.
  \<^item> \<open>Srv_Session\<close>, \<open>Srv_Server\<close>: \<open>pkg/wgturnsrv/session.go\<close> and \<open>server.go\<close>. A session's table of streams
    satisfies the locale \<open>stream_slots\<close>. The server is a state machine whose steps are what its
    goroutines do between two points where another can act; \<open>sv_reachable\<close> holds of every state that
    any interleaving reaches, and the invariants are proved by rule induction over it.
  \<^item> \<open>Kernel_Bind\<close>: \<open>pkg/wgturnsrv/backend_kernel.go\<close>, both queues as \<open>lossy_fifo\<close>.
  \<^item> \<open>Wg_Conf\<close>, \<open>Cidr_List\<close>: \<open>pkg/wgconf/parse.go\<close>.
  \<^item> \<open>Wg_Keys\<close>, \<open>Wg_Subnet\<close>, \<open>Wg_Peers\<close>, \<open>Wg_Admin\<close>: \<open>pkg/wgadmin\<close>. The file satisfies the contract \<open>peer_store\<close>
    of \<open>Peer_Store\<close>, on which the properties of \<open>Provision\<close> and \<open>Revoke\<close> rest.
  \<^item> \<open>Kernel_Config\<close>, \<open>Wg_Kernel\<close>: \<open>pkg/wgkernel\<close>. The configuration text is given a meaning by a reader of
    WireGuard's configuration protocol, \<open>ipc_read\<close>. \<open>Tun_Memory\<close>: the in-memory devices of \<open>tun.go\<close>, again as \<open>lossy_fifo\<close>.
  \<^item> \<open>Wg_Profile\<close>, \<open>Wg_Share\<close>: \<open>pkg/wgshare\<close>, with \<open>Client_Path\<close> for the way from a server's file to a
    client's device.
  \<^item> \<open>Call_Link\<close>: \<open>parse.go\<close> of both providers. \<open>Vk_Captcha\<close>: errors, challenges, forms, and the chain of
    solvers. \<open>Vk_Api\<close>: \<open>provider/vk/api.go\<close>, \<open>profiles.go\<close>, \<open>options.go\<close>, \<open>provider.go\<close>. \<open>Vk_Transport\<close>: \<open>utls_transport.go\<close>,
    one connection per request. \<open>Yandex_Api\<close>: the Yandex provider.
  \<^item> \<open>Cdp_Session\<close>, \<open>Cdp_Solve\<close>: \<open>captchasolve/cdp.go\<close>. The session is a state machine of any number of calls
    and the reading loop; the solver is a conversation whose events are recorded. \<open>Chrome_Extract\<close>:
    \<open>captchasolve/embedded/extract.go\<close>, whose operations on files are recorded.
  \<^item> \<open>Cli_Config\<close>, \<open>Quick_Conf\<close>, \<open>Host_Setup\<close>, \<open>Cli_Run\<close>, \<open>Cli_Commands\<close>: \<open>cmd/wgturn-cli\<close>, and \<open>provider/stub\<close>.

  \<^bold>\<open>What is shown.\<close>
  \<^item> Server: the session map is exact in every reachable state, a session has at most one open backend,
    every connection served is accounted for, \<open>Stop\<close> leaves nothing behind, an evicted stream never
    removes its successor; the return path is fair.
  \<^item> Client: the cache refines a map of groups and reuses credentials; packets go to ready streams in
    cyclic order, are neither duplicated nor reordered, and every one is counted; a stream that lost
    its connection backs off. The streams of one tunnel meet in one session (below).
  \<^item> Providers: the five requests of the VK handshake in order with the tokens of the answers, at most
    seven requests and three captchas; the search through Telemost frames is exact for every order of
    map iteration; what the Yandex provider returns names a host and a port.
  \<^item> Captchas: no send of the session blocks or meets a closed channel, replies reach the call they belong
    to, a browser is led only to an address that passed the check for VK's hosts, its tab is closed, and solving ends. A bundled browser is
    unpacked below its scratch directory only, whatever the names in the archive.
  \<^item> Administration: clients never share an address or a name whatever fails, \<open>Revoke\<close> undoes \<open>Provision\<close>, a
    failed \<open>Provision\<close> changes nothing unless the live interface refused; the allocator gives the lowest free
    address; files, preambles, share URLs and wg-quick files read back.
  \<^item> Devices: the text that configures a kernel means its configuration; the kernel's lifecycle.
  \<^item> The tool: both client commands release what they took on every path, serve traffic exactly if they
    return no error, and come up when the outside cooperates; a provisioned client gets the keys,
    address and routes of the server that provisioned it (below).

  \<^bold>\<open>Bounds and fuel.\<close> Loops over data are structural or have a measure. The JSON reader takes fuel
  \<open>2 * length s + 2\<close>, proved enough for every text. The wait for the checkbox takes fuel; 42 rounds are
  proved enough when a pause lasts its half second. The wait for a browser and the conversation with
  the media server run over a given list of rounds or frames, with the lemma that the deadline ends
  them. Counters and ports keep their width (\<open>64 word\<close>, \<open>8 word\<close>, or the range of \<open>int\<close> written out);
  the ids of CDP calls are unbounded numbers. Bodies are cut at the code's limits.

  \<^bold>\<open>Parameters.\<close> What lies outside is an argument: the clock, random bytes and choices, the outcome of
  every socket, file, device and command, the HTTP client and the solver as functions on a state of the world, the
  X25519 function with its base point, the texts of library errors, the digits of a duration's
  fraction (\<open>time.ParseDuration\<close> rounds them in floating point), IP literals in URLs. Laws about
  them are named hypotheses (\<open>crypto_ok\<close>, \<open>ip_reverses\<close>, \<open>clock_ok\<close>, \<open>temp_ok\<close>, \<open>cooperates\<close>), each with a concrete instance
  that satisfies it in a witness. Strings are lists of bytes; text is ASCII or well-formed UTF-8.

  \<^bold>\<open>Not modelled.\<close> The TLS, DTLS and TURN stacks, the WireGuard device and the system's TUN devices are
  third-party code or thin calls of it; their outcomes are arguments. Logging, statistics lines,
  flag parsing, version strings and usage texts only print; \<open>examples/vpn-client\<close> repeats what \<open>connect\<close>
  does. Protectors, loggers and the provider interface are values the code passes on. Interleaving
  is modelled where state is shared between goroutines (server, CDP session, in-flight \<open>Get\<close> of the cache,
  \<open>Close\<close> of an in-memory device); elsewhere operations are atomic, as their locks make them.
\<close>

section \<open>A tunnel and a server\<close>

text \<open>What \<open>handleConn\<close> gets from \<open>ReadHandshake\<close> when the peer's bytes arrive in the given chunks.\<close>

definition handshake_of :: "bytes list \<Rightarrow> go_error \<Rightarrow> (bytes \<times> byte) res" where
  "handshake_of chunks e = bind_res (ReadHandshake chunks e) (\<lambda>(ids, rest). Inr ids)"

lemma handshake_of_preamble:
  assumes "length sid = SessionIDSize" and "concat chunks = preamble sid s @ payload"
  shows "handshake_of chunks e = Inr (sid, of_nat (st_id s))"
proof -
  have pre: "preamble sid s = sid @ [of_nat (st_id s)]" by (rule preamble_eq [OF assms(1)])
  then have len: "length (preamble sid s) = HandshakeSize" using assms(1) by (simp add: HandshakeSize_def)
  obtain rest where "read_full HandshakeSize [] chunks e = Inr (take HandshakeSize (concat chunks), rest)"
    using read_full_enough [of HandshakeSize chunks "[]" e] assms(2) len by auto
  then show ?thesis
    using assms len pre by (simp add: handshake_of_def ReadHandshake_def nth_append)
qed


definition two_handshakes :: server where
  "two_handshakes = the (sv_run [EStart (Inr ()) (Inr ()), EAccept 0, EAccept 1] fresh_server)"

lemma two_handshakes_eq:
  "sv_run [EStart (Inr ()) (Inr ()), EAccept 0, EAccept 1] fresh_server = Some two_handshakes"
  "sv_pc two_handshakes 0 = HHandshake" "sv_pc two_handshakes 1 = HHandshake" "sv_sessions two_handshakes = []"
  by (simp_all add: two_handshakes_def sv_eval)

lemma demo_turn_start:
  "\<exists>t t' h. NewTunnel (\<lambda>_. []) demo_turn_cfg = Inr t \<and> Start (Inr ''127.0.0.1:9000'') None WaitReady t = (None, t') \<and>
     t_hub t' = Some h \<and> new_stream 0 \<in> set (h_streams h) \<and> new_stream 1 \<in> set (h_streams h) \<and>
     LocalAddr t' = Some ''127.0.0.1:9000''"
proof -
  let ?t = "\<lparr>t_cfg = withDefaults demo_turn_cfg, t_hub = None, t_cancelled = False, t_state = TunnelNew\<rparr>"
  have n: "NewTunnel (\<lambda>_. []) demo_turn_cfg = Inr ?t" by (simp add: NewTunnel_def demo_turn_cfg_valid)
  obtain err t' where s: "Start (Inr ''127.0.0.1:9000'') None WaitReady ?t = (err, t')" by fastforce
  obtain h n where h: "err = None" "t_hub t' = Some h" "h_streams h = map new_stream [0..<n]"
    "tc_Streams demo_turn_cfg \<noteq> 0 \<longrightarrow> int n = tc_Streams demo_turn_cfg"
    by (rule started_streams [OF n s])
  have "h_localConn h = Some ''127.0.0.1:9000''"
    using s h NewHub_valid [OF demo_turn_cfg_valid]
    by (auto simp: Start_def hub_Start_def signalReady_def hub_config_of_def Let_def)
  with h n s show ?thesis by (auto simp: demo_turn_cfg_def LocalAddr_def)
qed


section \<open>From the server's file to the client's device\<close>

text \<open>C2: A provisioned client connects to the server that provisioned it. After a successful
  \<open>Provision\<close> the profile can be handed over as a share URL; the receiver reads a profile from it
  whose tunnel configuration is valid once a credentials provider and a protector are attached,
  and whose kernel configuration is accepted. When the tunnel runs, the text that configures the
  client's WireGuard device means: the private key whose public key is that of the new peer in
  the server's file; one peer, with the public key of the private key in that file, the preshared
  key of the new peer, the tunnel's local address as endpoint, and the configured routes, or the
  default route if there are none.\<close>

theorem provisioned_client_connects:
  assumes "conf_valid (aw_file w)" and "crypto_ok cr" and "clean_name name" and "prefix_ok (as_Subnet s)"
    and "is4 (pfx_addr (as_Subnet s))" and "server_values_ok s" and "Provision io cr s name w = (Inr prof, w1)"
    and "LocalAddr tn = Some addr" and "addr \<noteq> []" and "line_ok addr"
  shows "\<exists>url prof' p k c ipc v d.
    Encode prof = Inr url \<and> share_Parse se url = Inr prof' \<and>
    Validate shpErr ((share_ToTunnelConfig prof' link)\<lparr>tc_Provider := Some pr, tc_Protector := Some ()\<rparr>) = None \<and>
    NewKernel b64Err (ToKernelConfig prof') (Some tun) [OptTurnTunnel (Some n)] = Inr k \<and>
    started_config (\<lambda>_. tn) k = Inr c \<and> IPC b64Err c = Inr ipc \<and> ipc_read ipc = Some v \<and>
    conf_peers (aw_file w1) = conf_peers (aw_file w) @ [p] \<and> ap_Name p = name \<and>
    (\<exists>pk. cr_x25519 cr (dv_private v) (cr_basepoint cr) = Inr pk \<and> ap_PublicKey p = b64_encode StdEncoding pk) \<and>
    dv_peers v = [d] \<and>
    PublicKeyFor (cr_b64Err cr) (cr_x25519 cr) (cr_basepoint cr) (conf_key (aw_file w1)) =
      Inr (b64_encode StdEncoding (dp_public d)) \<and>
    map_option (b64_encode StdEncoding) (dp_psk d) = Some (ap_PresharedKey p) \<and>
    dp_endpoint d = Some addr \<and>
    dp_allowed d = (if as_AllowedIPs s = [] then [default_route] else as_AllowedIPs s)"
proof -
  obtain st p where st: "readState io s w = Inr st" "provision_plan cr s name st = Inr (p, prof)"
    "aw_file w1 = conf_put p (aw_file w)"
    using Provision_file [OF assms(7)] by auto
  have pl: "clean_peer p" "ap_Name p = name"
    using plan_peer [OF st(2) assms(2-5)] by (auto simp: planned_def)
  have fl: "conf_peers (aw_file w1) = conf_peers (aw_file w) @ [p]" "conf_key (aw_file w1) = cs_privateKey st"
    using conf.put_peers [OF assms(1) pl(1)] conf.put_key [OF assms(1) pl(1)] st(3) readState_conf(1) [OF st(1)]
    by (simp_all add: conf_key_def)
  obtain sk spk psk where pr: "keys_agree cr (cs_privateKey st) p prof sk spk psk" "profile_wf prof"
    "profile_Validate prof = None" "pf_Endpoint prof = as_Endpoint s" "0 \<le> pf_MTU prof"
    "0 \<le> pf_PersistentKeepalive prof" "pf_AllowedIPs prof = as_AllowedIPs s"
    by (rule provisioned_profile [OF st(2) assms(2,4,6)])
  let ?prof = "prof\<lparr>pf_PersistentKeepalive := whole_seconds (pf_PersistentKeepalive prof)\<rparr>"
  obtain url where url: "Encode prof = Inr url" "share_Parse se url = Inr ?prof"
    using share_Parse_Encode [OF pr(3,2)] by blast
  have keys: "keys_agree cr (cs_privateKey st) p ?prof sk spk psk" using pr(1) by (simp add: keys_agree_def)
  have wf: "profile_wf ?prof" using pr(2) go_div_bounds by (simp add: profile_wf_def whole_seconds_def)
  have tunnel: "Validate shpErr ((share_ToTunnelConfig ?prof link)\<lparr>tc_Provider := Some pr, tc_Protector := Some ()\<rparr>) = None"
    using pr(4) assms(6) by (intro ToTunnelConfig_valid) (simp add: server_values_ok_def)
  obtain k c ipc v d where dev: "NewKernel b64Err (ToKernelConfig ?prof) (Some tun) [OptTurnTunnel (Some n)] = Inr k"
    "started_config (\<lambda>_. tn) k = Inr c" "IPC b64Err c = Inr ipc" "ipc_read ipc = Some v"
    "dv_private v = sk" "dv_peers v = [d]" "dp_public d = spk" "dp_psk d = Some psk" "dp_endpoint d = Some addr"
    "dp_allowed d = (if pf_AllowedIPs prof = [] then [default_route] else pf_AllowedIPs prof)"
    using profile_device [OF keys wf _ _ assms(8-10), of b64Err tun n] pr(5) whole_seconds_nonneg [OF pr(6)] by auto
  have "(\<exists>pk. cr_x25519 cr (dv_private v) (cr_basepoint cr) = Inr pk \<and> ap_PublicKey p = b64_encode StdEncoding pk) \<and>
      PublicKeyFor (cr_b64Err cr) (cr_x25519 cr) (cr_basepoint cr) (conf_key (aw_file w1)) =
        Inr (b64_encode StdEncoding (dp_public d)) \<and>
      map_option (b64_encode StdEncoding) (dp_psk d) = Some (ap_PresharedKey p)"
    using keys dev(5,7,8) fl(2) by (simp add: keys_agree_def)
  with url tunnel dev fl(1) pl(2) pr(7) show ?thesis
    by (rule_tac x = url in exI, rule_tac x = ?prof in exI, rule_tac x = p in exI, rule_tac x = k in exI,
      rule_tac x = c in exI, rule_tac x = ipc in exI, rule_tac x = v in exI, rule_tac x = d in exI) simp
qed

theorem provisioned_client_connects_witness:
  "\<exists>prof w1 url prof'. Provision io_ok demo_crypto demo_server ''bob'' demo_world = (Inr prof, w1) \<and>
     Encode prof = Inr url \<and> share_Parse \<lparr>se_b64 = id, se_json = id, se_prefix = id, se_addr = id\<rparr> url = Inr prof' \<and>
     \<not> is_err (NewKernel errors_New (ToKernelConfig prof') (Some 3) [OptTurnTunnel (Some 0)])"
proof -
  obtain prof w1 where p: "Provision io_ok demo_crypto demo_server ''bob'' demo_world = (Inr prof, w1)"
    using demo_provision by blast
  obtain t' where t': "LocalAddr t' = Some ''127.0.0.1:9000''" using demo_turn_start by blast
  have v: "server_values_ok demo_server"
    using split_host_port_plain [of "''vpn''" "''56000''"]
    by (simp add: server_values_ok_def demo_server_def NewServer_def Let_def int64_ok_def prefix_ok_def prefix_from_def
        prefix_valid_def)
  have l: "line_ok ''127.0.0.1:9000''" by (simp add: line_ok_def newline_def)
  let ?se = "\<lparr>se_b64 = id, se_json = id, se_prefix = id, se_addr = id\<rparr>"
  obtain url prof' k where "Encode prof = Inr url" "share_Parse ?se url = Inr prof'"
    "NewKernel errors_New (ToKernelConfig prof') (Some 3) [OptTurnTunnel (Some 0)] = Inr k"
    using provisioned_client_connects [OF demo_valid demo_crypto_ok demo_name demo_subnet_ok v p t' _ l,
        where se = ?se and b64Err = errors_New and tun = 3 and n = 0 and shpErr = id and link = "[]"
          and pr = "\<lambda>h i. Inr zero_credentials"] by (metis list.discI)
  with p show ?thesis by (metis is_err_simps(2))
qed

end
